(* ===== verification/Prelude.thy ===== *)
theory Prelude
  imports Main "HOL-Library.Word"
begin

text \<open>
  Shared vocabulary of the development: the machine integers of the Go sources, octets and
  strings, the collections of rewrite rules the component theories extend, and the generic
  lemmas on association lists and signed 32-bit arithmetic they have in common.

  Conventions. A Go \<open>uint32\<close> is a \<open>32 word\<close> (its arithmetic wraps by construction). A Go
  \<open>int32\<close> is an \<open>int\<close> on which every narrowing conversion of the source is written out as
  \<open>int32\<close> below. Go's \<open>int\<close> and \<open>int64\<close> are 64 bits wide; the quantities the sources keep in
  them (sums of two 32-bit values, lengths) stay far below that, so they are \<open>int\<close> or \<open>nat\<close>.
  A byte is a \<open>char\<close> (the 256 octets), a byte slice or a Go string is a \<open>string\<close>.
\<close>

unbundle bit_operations_syntax

type_synonym uint32 = "32 word"
type_synonym bytes = "char list"

named_theorems go_simps \<open>rewrite rules for the Go integer conversions\<close>
named_theorems wf_simps \<open>definitions of the well-formedness predicates\<close>

section \<open>Signed 32-bit conversion\<close>

text \<open>The Go conversion \<open>int32(x)\<close>: keep 32 bits and read them as two's complement.\<close>

definition int32 :: "int \<Rightarrow> int" where
  "int32 x = signed_take_bit 31 x"

definition in_int32 :: "int \<Rightarrow> bool" where
  "in_int32 x \<longleftrightarrow> - (2 ^ 31) \<le> x \<and> x < 2 ^ 31"

definition maxWindow :: int where
  "maxWindow = 2 ^ 31 - 1"

lemma int32_id [go_simps]: "in_int32 x \<Longrightarrow> int32 x = x"
  by (simp add: int32_def in_int32_def signed_take_bit_int_eq_self)

lemma int32_range [simp]: "in_int32 (int32 x)"
  using signed_take_bit_int_greater_eq_minus_exp [of 31 x] signed_take_bit_int_less_exp [of 31 x]
  by (simp add: in_int32_def int32_def)

lemma sint_eq_int32: "sint (w :: uint32) = int32 (uint w)"
  by (simp add: int32_def sint_uint)

lemma sint_in_int32 [simp]: "in_int32 (sint (w :: uint32))"
  by (simp add: sint_eq_int32)

lemma sint_small [go_simps]: "uint (w :: uint32) < 2 ^ 31 \<Longrightarrow> sint w = uint w"
proof -
  assume "uint w < 2 ^ 31"
  with uint_ge_0 [of w] have "in_int32 (uint w)" unfolding in_int32_def by linarith
  then show ?thesis by (simp only: sint_eq_int32 int32_id)
qed

lemma uint_uint32_less [simp]: "uint (w :: uint32) < 4294967296"
  using uint_lt2p [of w] by simp

lemma in_int32_max [simp]: "in_int32 x \<Longrightarrow> x \<le> maxWindow"
  by (simp add: in_int32_def maxWindow_def)

section \<open>Association lists with distinct keys (Go maps)\<close>

text \<open>
  A Go map is an association list whose keys are distinct; the order of the list is the
  (unspecified) order in which a \<open>range\<close> over the map visits it.
\<close>

fun adel :: "'k \<Rightarrow> ('k \<times> 'v) list \<Rightarrow> ('k \<times> 'v) list" where
  "adel k [] = []"
| "adel k ((k', v) # m) = (if k = k' then adel k m else (k', v) # adel k m)"

definition aput :: "'k \<Rightarrow> 'v \<Rightarrow> ('k \<times> 'v) list \<Rightarrow> ('k \<times> 'v) list" where
  "aput k v m = (k, v) # adel k m"

abbreviation akeys :: "('k \<times> 'v) list \<Rightarrow> 'k list" where
  "akeys m \<equiv> map fst m"

lemma adel_filter: "adel k m = filter (\<lambda>kv. fst kv \<noteq> k) m"
  by (induction k m rule: adel.induct) auto

lemma set_adel: "set (adel k m) = {kv \<in> set m. fst kv \<noteq> k}"
  by (auto simp: adel_filter)

lemma set_akeys_adel [simp]: "fst ` set (adel k m) = fst ` set m - {k}"
  by (auto simp: adel_filter)

lemma map_of_adel [simp]: "map_of (adel k m) x = (if x = k then None else map_of m x)"
  by (induction k m rule: adel.induct) auto

lemma distinct_adel [simp]: "distinct (akeys m) \<Longrightarrow> distinct (akeys (adel k m))"
  by (simp add: adel_filter distinct_map_filter)

lemma adel_notin [simp]: "k \<notin> fst ` set m \<Longrightarrow> adel k m = m"
  by (auto simp: adel_filter filter_id_conv)

lemma map_of_aput [simp]: "map_of (aput k v m) x = (if x = k then Some v else map_of m x)"
  by (simp add: aput_def)

lemma akeys_aput [simp]: "fst ` set (aput k v m) = insert k (fst ` set m)"
  by (auto simp: aput_def)

lemma distinct_aput [simp]: "distinct (akeys m) \<Longrightarrow> distinct (akeys (aput k v m))"
  by (simp add: aput_def)

text \<open>Counting the keys that satisfy a predicate, as the maintained totals of a table do.\<close>

definition count_keys :: "('k \<Rightarrow> bool) \<Rightarrow> ('k \<times> 'v) list \<Rightarrow> nat" where
  "count_keys P m = length (filter (\<lambda>kv. P (fst kv)) m)"

lemma count_keys_Nil [simp]: "count_keys P [] = 0"
  by (simp add: count_keys_def)

lemma count_keys_Cons [simp]:
  "count_keys P ((k, v) # m) = (if P k then Suc (count_keys P m) else count_keys P m)"
  by (simp add: count_keys_def)

lemma count_keys_adel:
  assumes "distinct (akeys m)" and "k \<in> fst ` set m"
  shows "count_keys P m = count_keys P (adel k m) + (if P k then 1 else 0)"
  using assms
proof (induction m)
  case Nil
  then show ?case by simp
next
  case (Cons kv m)
  show ?case
  proof (cases "fst kv = k")
    case True
    with Cons.prems have "adel k m = m" by (auto intro: adel_notin)
    with True show ?thesis by (cases kv) simp
  next
    case False
    with Cons.prems have "k \<in> fst ` set m" by auto
    with Cons have "count_keys P m = count_keys P (adel k m) + (if P k then 1 else 0)" by simp
    with False show ?thesis by (cases kv) auto
  qed
qed

lemma count_keys_aput_new:
  "k \<notin> fst ` set m \<Longrightarrow> count_keys P (aput k v m) = count_keys P m + (if P k then 1 else 0)"
  by (simp add: aput_def)

lemma count_keys_split: "count_keys P m + count_keys (\<lambda>k. \<not> P k) m = length m"
  by (induction m) auto

end
