(* ===== verification/StreamState.thy ===== *)
theory StreamState
  imports Prelude
begin

text \<open>
  conn/stream\_state.go: the RFC 9113 section 5.1 state of one stream, packed into one
  \<open>uint32\<close>, its predicates, and \<open>advance\<close>, the compare-and-swap loop that is the only way to
  change it. The loop is modelled twice: \<open>advance\<close> is the atomic transition the rest of the
  development uses, \<open>advance_loop\<close> is the loop itself with the interference of other
  goroutines between its load and its compare-and-swap.
\<close>

type_synonym streamState = uint32

definition stRecvFields :: streamState where "stRecvFields = push_bit 0 1"
definition stRecvEnded :: streamState where "stRecvEnded = push_bit 1 1"
definition stSentFields :: streamState where "stSentFields = push_bit 2 1"
definition stSentEnded :: streamState where "stSentEnded = push_bit 3 1"
definition stReset :: streamState where "stReset = push_bit 4 1"

lemmas st_bits = stRecvFields_def stRecvEnded_def stSentFields_def stSentEnded_def stReset_def

definition RecvdFields :: "streamState \<Rightarrow> bool" where
  "RecvdFields s \<longleftrightarrow> s AND stRecvFields \<noteq> 0"

definition RemoteEnded :: "streamState \<Rightarrow> bool" where
  "RemoteEnded s \<longleftrightarrow> s AND stRecvEnded \<noteq> 0"

definition SentFields :: "streamState \<Rightarrow> bool" where
  "SentFields s \<longleftrightarrow> s AND stSentFields \<noteq> 0"

definition LocalEnded :: "streamState \<Rightarrow> bool" where
  "LocalEnded s \<longleftrightarrow> s AND stSentEnded \<noteq> 0"

definition WasReset :: "streamState \<Rightarrow> bool" where
  "WasReset s \<longleftrightarrow> s AND stReset \<noteq> 0"

definition Terminal :: "streamState \<Rightarrow> bool" where
  "Terminal s \<longleftrightarrow> WasReset s \<or> s AND (stRecvEnded OR stSentEnded) = stRecvEnded OR stSentEnded"

definition Writable :: "streamState \<Rightarrow> bool" where
  "Writable s \<longleftrightarrow> s AND (stReset OR stSentEnded) = 0"

text \<open>The transition: the new value of the cell and the state before it.\<close>

definition advance :: "streamState \<Rightarrow> streamState \<Rightarrow> streamState \<times> streamState" where
  "advance st delta = (if st AND delta = delta then (st, st) else (st, st OR delta))"

text \<open>
  The loop of \<open>advance\<close>. \<open>ds\<close> is the interference: the bits other goroutines set in the cell
  between this iteration's load and its compare-and-swap, one entry per iteration, nothing
  once the list is used up. The result is the value \<open>before\<close> and the final cell.
\<close>

fun advance_loop :: "streamState \<Rightarrow> streamState list \<Rightarrow> streamState \<Rightarrow> streamState \<times> streamState" where
  "advance_loop cell [] delta =
     (let old = cell in
      if old AND delta = delta then (old, cell) else (old, old OR delta))"
| "advance_loop cell (d # ds) delta =
     (let old = cell in
      if old AND delta = delta then (old, cell)
      else let cell' = cell OR d in
        if cell' = old then (old, old OR delta)
        else advance_loop cell' ds delta)"

section \<open>The predicates as bits\<close>

lemma and_push_bit_one: "s AND push_bit n 1 \<noteq> 0 \<longleftrightarrow> bit (s :: streamState) n"
  by (simp add: bit_iff_and_push_bit_not_eq_0)

lemma RecvdFields_bit: "RecvdFields s \<longleftrightarrow> bit s 0"
  unfolding RecvdFields_def stRecvFields_def by (rule and_push_bit_one)

lemma RemoteEnded_bit: "RemoteEnded s \<longleftrightarrow> bit s 1"
  unfolding RemoteEnded_def stRecvEnded_def by (rule and_push_bit_one)

lemma SentFields_bit: "SentFields s \<longleftrightarrow> bit s 2"
  unfolding SentFields_def stSentFields_def by (rule and_push_bit_one)

lemma LocalEnded_bit: "LocalEnded s \<longleftrightarrow> bit s 3"
  unfolding LocalEnded_def stSentEnded_def by (rule and_push_bit_one)

lemma WasReset_bit: "WasReset s \<longleftrightarrow> bit s 4"
  unfolding WasReset_def stReset_def by (rule and_push_bit_one)

lemmas st_preds = RecvdFields_bit RemoteEnded_bit SentFields_bit LocalEnded_bit WasReset_bit

text \<open>Each predicate distributes over the union of two states.\<close>

lemma st_preds_or [simp]:
  "RecvdFields (s OR t) \<longleftrightarrow> RecvdFields s \<or> RecvdFields t"
  "RemoteEnded (s OR t) \<longleftrightarrow> RemoteEnded s \<or> RemoteEnded t"
  "SentFields (s OR t) \<longleftrightarrow> SentFields s \<or> SentFields t"
  "LocalEnded (s OR t) \<longleftrightarrow> LocalEnded s \<or> LocalEnded t"
  "WasReset (s OR t) \<longleftrightarrow> WasReset s \<or> WasReset t"
  by (simp_all add: st_preds bit_or_iff)

lemma st_preds_const [simp]:
  "RecvdFields stRecvFields" "\<not> RecvdFields stRecvEnded" "\<not> RecvdFields stSentFields"
  "\<not> RecvdFields stSentEnded" "\<not> RecvdFields stReset" "\<not> RecvdFields 0"
  "\<not> RemoteEnded stRecvFields" "RemoteEnded stRecvEnded" "\<not> RemoteEnded stSentFields"
  "\<not> RemoteEnded stSentEnded" "\<not> RemoteEnded stReset" "\<not> RemoteEnded 0"
  "\<not> SentFields stRecvFields" "\<not> SentFields stRecvEnded" "SentFields stSentFields"
  "\<not> SentFields stSentEnded" "\<not> SentFields stReset" "\<not> SentFields 0"
  "\<not> LocalEnded stRecvFields" "\<not> LocalEnded stRecvEnded" "\<not> LocalEnded stSentFields"
  "LocalEnded stSentEnded" "\<not> LocalEnded stReset" "\<not> LocalEnded 0"
  "\<not> WasReset stRecvFields" "\<not> WasReset stRecvEnded" "\<not> WasReset stSentFields"
  "\<not> WasReset stSentEnded" "WasReset stReset" "\<not> WasReset 0"
  by (simp_all add: st_preds st_bits)

lemma Writable_iff: "Writable s \<longleftrightarrow> \<not> WasReset s \<and> \<not> LocalEnded s"
proof -
  have "s AND (stReset OR stSentEnded) = (s AND stReset) OR (s AND stSentEnded)"
    by (simp add: bit.conj_disj_distrib)
  then have "Writable s \<longleftrightarrow> s AND stReset = 0 \<and> s AND stSentEnded = 0"
    by (simp add: Writable_def or_eq_0_iff)
  then show ?thesis by (simp add: WasReset_def LocalEnded_def)
qed

lemma and_or_eq_iff:
  "s AND (a OR b) = a OR b \<longleftrightarrow> s AND a = a \<and> s AND b = (b :: streamState)"
  unfolding bit_eq_iff bit_and_iff bit_or_iff by blast

lemma and_push_bit_one_eq:
  assumes "n < 32"
  shows "s AND push_bit n 1 = push_bit n 1 \<longleftrightarrow> bit (s :: streamState) n"
proof
  assume "s AND push_bit n 1 = push_bit n 1"
  then have "bit (s AND push_bit n 1) n" using assms by (simp add: bit_exp_iff)
  then show "bit s n" by (simp add: bit_and_iff)
qed (auto intro!: bit_word_eqI simp: bit_and_iff bit_exp_iff)

lemma Terminal_iff: "Terminal s \<longleftrightarrow> WasReset s \<or> RemoteEnded s \<and> LocalEnded s"
  using and_push_bit_one_eq [of 1 s] and_push_bit_one_eq [of 3 s]
  by (simp only: Terminal_def and_or_eq_iff RemoteEnded_bit LocalEnded_bit stRecvEnded_def stSentEnded_def)

section \<open>The transition\<close>

lemma advance_before [simp]: "fst (advance st delta) = st"
  by (simp add: advance_def)

lemma advance_after [simp]: "snd (advance st delta) = st OR delta"
proof (cases "st AND delta = delta")
  case True
  then have "st OR delta = st"
    by (metis word_ao_absorbs(6))
  with True show ?thesis by (simp add: advance_def)
qed (simp add: advance_def)

lemma or_eq_self_iff: "(s :: streamState) OR d = s \<longleftrightarrow> s AND d = d"
  by (metis and.commute or.commute word_ao_absorbs(1) word_ao_absorbs(6))

text \<open>
  The loop agrees with the atomic transition at some instant: the value it reports as
  \<open>before\<close> is the cell after the first \<open>k\<close> interferences, and what it leaves is that value with
  the bits of \<open>delta\<close> set.
\<close>

lemma advance_loop_atomic:
  "\<exists>k \<le> length ds. advance_loop cell ds delta = advance (foldl (OR) cell (take k ds)) delta"
proof (induction cell ds delta rule: advance_loop.induct)
  case (1 cell delta)
  then show ?case by (simp add: advance_def)
next
  case (2 cell d ds delta)
  show ?case
  proof (cases "cell AND delta = delta \<or> cell OR d = cell")
    case True
    then have "advance_loop cell (d # ds) delta = advance cell delta"
      by (auto simp: advance_def Let_def)
    then show ?thesis by (intro exI [of _ 0]) simp
  next
    case False
    with 2 obtain k where "k \<le> length ds"
      and "advance_loop (cell OR d) ds delta = advance (foldl (OR) (cell OR d) (take k ds)) delta"
      by auto
    with False show ?thesis by (intro exI [of _ "Suc k"]) (simp add: Let_def)
  qed
qed

text \<open>How often the loop goes round.\<close>

fun advance_iters :: "streamState \<Rightarrow> streamState list \<Rightarrow> streamState \<Rightarrow> nat" where
  "advance_iters cell [] delta = 1"
| "advance_iters cell (d # ds) delta =
     (if cell AND delta = delta \<or> cell OR d = cell then 1
      else Suc (advance_iters (cell OR d) ds delta))"

definition unset_bits :: "streamState \<Rightarrow> nat set" where
  "unset_bits s = {n. n < 5 \<and> \<not> bit s n}"

lemma finite_unset_bits [simp]: "finite (unset_bits s)"
  by (simp add: unset_bits_def)

lemma unset_bits_shrinks:
  assumes "d AND 31 = d" and "cell OR d \<noteq> cell"
  shows "card (unset_bits (cell OR d)) < card (unset_bits cell)"
proof (rule psubset_card_mono)
  from assms(2) obtain n where n: "bit d n" "\<not> bit cell n"
    by (auto simp: bit_eq_iff bit_or_iff)
  have "d AND mask 5 = d" using assms(1) by (simp add: mask_eq_exp_minus_1)
  with n(1) have "bit (mask 5 :: streamState) n" by (metis bit_and_iff)
  then have "n < 5" by (simp only: bit_mask_iff)
  with n show "unset_bits (cell OR d) \<subset> unset_bits cell"
    by (auto simp: unset_bits_def bit_or_iff)
qed simp

lemma advance_iters_bound:
  "list_all (\<lambda>d. d AND 31 = d) ds \<Longrightarrow> advance_iters cell ds delta \<le> Suc (card (unset_bits cell))"
proof (induction cell ds delta rule: advance_iters.induct)
  case (2 cell d ds delta)
  show ?case
  proof (cases "cell AND delta = delta \<or> cell OR d = cell")
    case False
    with 2 have "advance_iters (cell OR d) ds delta \<le> Suc (card (unset_bits (cell OR d)))"
      by auto
    moreover have "card (unset_bits (cell OR d)) < card (unset_bits cell)"
      using 2(2) False by (intro unset_bits_shrinks) auto
    ultimately show ?thesis using False by auto
  qed auto
qed simp

lemma card_unset_bits: "card (unset_bits s) \<le> 5"
  using card_mono [of "{..<5}" "unset_bits s"] by (auto simp: unset_bits_def)

text \<open>
  A sequence of transitions on one cell, by whichever goroutines, in the order in which they
  take effect; the list of the states each of them saw before.
\<close>

fun advances :: "streamState \<Rightarrow> streamState list \<Rightarrow> streamState list" where
  "advances s [] = []"
| "advances s (d # ds) = fst (advance s d) # advances (snd (advance s d)) ds"

definition reset_edges :: "streamState \<Rightarrow> streamState list \<Rightarrow> nat" where
  "reset_edges s ds = length (filter (\<lambda>(b, d). WasReset d \<and> \<not> WasReset b) (zip (advances s ds) ds))"

lemma reset_edges_Cons:
  "reset_edges s (d # ds) =
     (if WasReset d \<and> \<not> WasReset s then 1 else 0) + reset_edges (s OR d) ds"
  by (simp add: reset_edges_def)

lemma reset_edges_after: "WasReset s \<Longrightarrow> reset_edges s ds = 0"
  by (induction ds arbitrary: s) (simp_all add: reset_edges_Cons, simp add: reset_edges_def)

lemma reset_edges_Nil [simp]: "reset_edges s [] = 0"
  by (simp add: reset_edges_def)

section \<open>Properties\<close>

text \<open>
  C10. Whatever transitions run on a stream's state and in whatever order they take effect,
  exactly one of those that record a reset sees the stream not yet reset (none if the stream
  was reset before): the answer \<open>advance\<close> returns singles out one goroutine to write
  RST\_STREAM.
\<close>

theorem reset_edge_unique:
  "reset_edges s ds = (if \<not> WasReset s \<and> list_ex WasReset ds then 1 else 0)"
proof (induction ds arbitrary: s)
  case (Cons d ds)
  then show ?case by (cases "WasReset d") (auto simp: reset_edges_Cons)
qed simp

text \<open>
  C16. The compare-and-swap loop of \<open>advance\<close> is linearizable and ends after at most six
  rounds, provided the interfering transitions set only the five defined bits: its result is
  that of the atomic transition applied to the cell after some prefix of the interference.
\<close>

theorem advance_lock_free:
  assumes "list_all (\<lambda>d. d AND 31 = d) ds"
  shows "advance_iters cell ds delta \<le> 6
         \<and> (\<exists>k \<le> length ds. advance_loop cell ds delta = advance (foldl (OR) cell (take k ds)) delta)"
  using advance_iters_bound [OF assms, of cell delta] card_unset_bits [of cell]
    advance_loop_atomic [of ds cell delta] by auto

theorem advance_lock_free_witness:
  "list_all (\<lambda>d. d AND 31 = d) [stRecvEnded, stRecvEnded OR stReset]
   \<and> advance_iters stRecvFields [stRecvEnded, stRecvEnded OR stReset] stSentFields \<le> 6
   \<and> (\<exists>k \<le> length [stRecvEnded, stRecvEnded OR stReset].
        advance_loop stRecvFields [stRecvEnded, stRecvEnded OR stReset] stSentFields
          = advance (foldl (OR) stRecvFields (take k [stRecvEnded, stRecvEnded OR stReset])) stSentFields)"
proof -
  have "list_all (\<lambda>d. d AND 31 = d) [stRecvEnded, stRecvEnded OR stReset]"
    by (simp add: st_bits)
  from this advance_lock_free [OF this, of stRecvFields stSentFields] show ?thesis by blast
qed

end
