(* ===== verification/HttpFields.thy ===== *)
theory HttpFields
  imports Prelude
begin

text \<open>
  internal/httpfields/httpfields.go: the field rules HTTP/2 and HTTP/3 share. Receiving side:
  \<open>Prohibited\<close> (RFC 9113 sections 8.2.1 and 8.2.2) and \<open>ValidRequestPseudoHeaders\<close> (section 8.3);
  sending side: \<open>ProhibitedInResponse\<close> and \<open>InterimStatus\<close>. Each is related to a declarative
  statement of the rule it implements.
\<close>

section \<open>Fields\<close>

text \<open>
  hpack.HeaderField. The sources distinguish a nil value slice from an empty one
  (\<open>ph.method != nil\<close>), so a value is optional: \<open>None\<close> is nil. Names are only ever compared
  or measured, where nil and empty agree.
\<close>

record HeaderField =
  Name :: bytes
  Value :: "bytes option"
  Indexing :: "8 word"

definition bval :: "bytes option \<Rightarrow> bytes" where
  "bval v = (case v of None \<Rightarrow> [] | Some b \<Rightarrow> b)"

lemma bval_simps [simp]: "bval None = []" "bval (Some b) = b"
  by (simp_all add: bval_def)

abbreviation ord :: "char \<Rightarrow> nat" where "ord c \<equiv> of_char c"

definition isWS :: "char \<Rightarrow> bool" where
  "isWS c \<longleftrightarrow> c = CHR '' '' \<or> c = CHR 0x09"

definition isUpperA :: "char \<Rightarrow> bool" where
  "isUpperA c \<longleftrightarrow> 0x41 \<le> ord c \<and> ord c \<le> 0x5a"

text \<open>ASCII lower-casing of one octet, as in Go's case-insensitive comparisons.\<close>

definition lower :: "char \<Rightarrow> char" where
  "lower c = (if isUpperA c then char_of (ord c + 32) else c)"

text \<open>
  bytes.EqualFold(s, t) for an ASCII \<open>t\<close>: equality under Unicode simple case folding of the
  UTF-8 text. Among code points outside ASCII only U+017F (octets C5 BF, folds to s) and
  U+212A (octets E2 84 AA, folds to k) have an ASCII letter in their folding orbit.
\<close>

fun EqualFold :: "bytes \<Rightarrow> bytes \<Rightarrow> bool" where
  "EqualFold s [] = (s = [])"
| "EqualFold [] (c # t) = False"
| "EqualFold (b # s) (c # t) =
     (if ord b < 0x80 then lower b = lower c \<and> EqualFold s t
      else if lower c = CHR ''s'' \<and> b = CHR 0xC5 \<and> s \<noteq> [] \<and> hd s = CHR 0xBF
        then EqualFold (tl s) t
      else if lower c = CHR ''k'' \<and> b = CHR 0xE2 \<and> length s \<ge> 2 \<and> s ! 0 = CHR 0x84 \<and> s ! 1 = CHR 0xAA
        then EqualFold (drop 2 s) t
      else False)"

section \<open>Receiving side: one field\<close>

definition hasProhibitedFieldChar :: "bytes \<Rightarrow> bool" where
  "hasProhibitedFieldChar value =
     (let n = length value in
      if n > 0 \<and> isWS (value ! 0) then True
      else if n > 0 \<and> isWS (value ! (n - 1)) then True
      else list_ex (\<lambda>c. c = CHR 0x0D \<or> c = CHR 0x0A \<or> c = CHR 0x00) value)"

fun hasProhibitedFieldName_loop :: "nat \<Rightarrow> bytes \<Rightarrow> bool" where
  "hasProhibitedFieldName_loop i [] = False"
| "hasProhibitedFieldName_loop i (c # cs) =
     (if ord c \<le> 0x20 \<or> ord c \<ge> 0x7f \<or> isUpperA c then True
      else if c = CHR '':'' \<and> i \<noteq> 0 then True
      else hasProhibitedFieldName_loop (i + 1) cs)"

definition hasProhibitedFieldName :: "bytes \<Rightarrow> bool" where
  "hasProhibitedFieldName name =
     (if length name = 0 then True else hasProhibitedFieldName_loop 0 name)"

definition teTrailers :: bytes where "teTrailers = ''trailers''"

definition isConnectionSpecificName :: "bytes \<Rightarrow> bool" where
  "isConnectionSpecificName n =
     (if length n = 7 then n = ''upgrade''
      else if length n = 10 then n = ''connection'' \<or> n = ''keep-alive''
      else if length n = 16 then n = ''proxy-connection''
      else if length n = 17 then n = ''transfer-encoding''
      else False)"

definition Prohibited :: "bytes \<Rightarrow> bytes \<Rightarrow> bool \<Rightarrow> bool" where
  "Prohibited name value isTrailer =
     (if hasProhibitedFieldName name \<or> hasProhibitedFieldChar value then True
      else if isTrailer \<and> name ! 0 = CHR '':'' then True
      else if length name = 2 \<and> name = ''te'' then \<not> EqualFold value teTrailers
      else isConnectionSpecificName name)"

section \<open>Sending side\<close>

definition responseStatus :: bytes where "responseStatus = '':status''"

definition ProhibitedInResponse :: "bytes \<Rightarrow> bool" where
  "ProhibitedInResponse name =
     (if length name = 0 then True
      else if name ! 0 = CHR '':'' then name \<noteq> responseStatus
      else if length name = 2 \<and> (ord (name ! 0) OR 0x20) = ord CHR ''t''
                \<and> (ord (name ! 1) OR 0x20) = ord CHR ''e'' then True
      else if length name = 7 then EqualFold name ''upgrade''
      else if length name = 10 then EqualFold name ''connection'' \<or> EqualFold name ''keep-alive''
      else if length name = 16 then EqualFold name ''proxy-connection''
      else if length name = 17 then EqualFold name ''transfer-encoding''
      else False)"

definition InterimStatus :: "int \<Rightarrow> bool" where
  "InterimStatus status \<longleftrightarrow> status \<ge> 100 \<and> status < 200"

section \<open>Receiving side: the request pseudo-headers\<close>

record requestPseudoHeaders =
  ph_method :: "bytes option"
  ph_scheme :: "bytes option"
  ph_path :: "bytes option"
  ph_authority :: "bytes option"
  seenPath :: bool

definition noPseudo :: requestPseudoHeaders where
  "noPseudo = \<lparr>ph_method = None, ph_scheme = None, ph_path = None, ph_authority = None, seenPath = False\<rparr>"

fun scan_loop :: "requestPseudoHeaders \<Rightarrow> bool \<Rightarrow> HeaderField list \<Rightarrow> requestPseudoHeaders \<times> bool" where
  "scan_loop ph seenRegular [] = (ph, True)"
| "scan_loop ph seenRegular (f # fs) =
     (if length (Name f) = 0 then (ph, False)
      else if Name f ! 0 \<noteq> CHR '':'' then scan_loop ph True fs
      else if seenRegular then (ph, False)
      else if Name f = '':method'' then
        (let dup = ph_method ph \<noteq> None; ph' = ph\<lparr>ph_method := Value f\<rparr> in
         if dup then (ph', False) else scan_loop ph' seenRegular fs)
      else if Name f = '':scheme'' then
        (let dup = ph_scheme ph \<noteq> None; ph' = ph\<lparr>ph_scheme := Value f\<rparr> in
         if dup then (ph', False) else scan_loop ph' seenRegular fs)
      else if Name f = '':path'' then
        (let dup = seenPath ph; ph' = ph\<lparr>ph_path := Value f, seenPath := True\<rparr> in
         if dup then (ph', False) else scan_loop ph' seenRegular fs)
      else if Name f = '':authority'' then
        (let dup = ph_authority ph \<noteq> None; ph' = ph\<lparr>ph_authority := Value f\<rparr> in
         if dup then (ph', False) else scan_loop ph' seenRegular fs)
      else (ph, False))"

definition scanRequestPseudoHeaders :: "HeaderField list \<Rightarrow> requestPseudoHeaders \<times> bool" where
  "scanRequestPseudoHeaders fs = scan_loop noPseudo False fs"

definition ValidRequestPseudoHeaders :: "HeaderField list \<Rightarrow> bool" where
  "ValidRequestPseudoHeaders fs =
     (let (ph, ok) = scanRequestPseudoHeaders fs in
      if \<not> ok then False
      else if ph_method ph = None then False
      else let httpScheme = EqualFold (bval (ph_scheme ph)) ''http'' \<or> EqualFold (bval (ph_scheme ph)) ''https'' in
        if httpScheme \<and> CHR ''@'' \<in> set (bval (ph_authority ph)) then False
        else if bval (ph_method ph) = ''CONNECT'' then True
        else if ph_scheme ph = None \<or> \<not> seenPath ph then False
        else \<not> httpScheme \<or> length (bval (ph_path ph)) > 0)"

section \<open>The rules, declaratively\<close>

definition wf_name :: "bytes \<Rightarrow> bool" where
  "wf_name n \<longleftrightarrow> n \<noteq> [] \<and> (\<forall>c \<in> set n. 0x20 < ord c \<and> ord c < 0x7f \<and> \<not> isUpperA c)
                \<and> CHR '':'' \<notin> set (tl n)"

definition wf_value :: "bytes \<Rightarrow> bool" where
  "wf_value v \<longleftrightarrow> set v \<inter> {CHR 0x00, CHR 0x0A, CHR 0x0D} = {}
                 \<and> (v \<noteq> [] \<longrightarrow> \<not> isWS (hd v) \<and> \<not> isWS (last v))"

definition connection_specific :: "bytes set" where
  "connection_specific =
     {''connection'', ''keep-alive'', ''proxy-connection'', ''transfer-encoding'', ''upgrade''}"

lemma hasProhibitedFieldChar_iff: "hasProhibitedFieldChar v \<longleftrightarrow> \<not> wf_value v"
  by (cases "v = []")
     (auto simp: hasProhibitedFieldChar_def wf_value_def Let_def list_ex_iff hd_conv_nth last_conv_nth)

lemma name_loop_pos:
  "0 < i \<Longrightarrow> hasProhibitedFieldName_loop i cs \<longleftrightarrow>
     (\<exists>c \<in> set cs. ord c \<le> 0x20 \<or> 0x7f \<le> ord c \<or> isUpperA c \<or> c = CHR '':'')"
  by (induction i cs rule: hasProhibitedFieldName_loop.induct) auto

lemma hasProhibitedFieldName_iff: "hasProhibitedFieldName n \<longleftrightarrow> \<not> wf_name n"
  by (cases n) (auto simp: hasProhibitedFieldName_def wf_name_def name_loop_pos not_less not_le)

lemma five_cases: "n \<in> {c, k, p, t, u} \<Longrightarrow> P c \<Longrightarrow> P k \<Longrightarrow> P p \<Longrightarrow> P t \<Longrightarrow> P u \<Longrightarrow> P n"
  by blast

lemma switch_cases:
  assumes "if l = 7 then n = u else if l = 10 then n = c \<or> n = k
           else if l = 16 then n = p else if l = (17 :: nat) then n = t else False"
  shows "n \<in> {c, k, p, t, u}"
  using assms by (simp split: if_split_asm) blast

lemma isConnectionSpecificName_iff: "isConnectionSpecificName n \<longleftrightarrow> n \<in> connection_specific"
proof
  assume "isConnectionSpecificName n"
  then show "n \<in> connection_specific"
    unfolding isConnectionSpecificName_def connection_specific_def by (rule switch_cases)
next
  assume "n \<in> connection_specific"
  then show "isConnectionSpecificName n"
    unfolding connection_specific_def
    by (rule five_cases) (simp_all add: isConnectionSpecificName_def)
qed

section \<open>Case-insensitive comparison\<close>

lemma EqualFold_longer: "EqualFold s t \<Longrightarrow> length t \<le> length s"
  by (induction s t rule: EqualFold.induct) (auto split: if_splits)

lemma EqualFold_same_length:
  "length s = length t \<Longrightarrow> EqualFold s t \<longleftrightarrow> list_all (\<lambda>c. ord c < 0x80) s \<and> map lower s = map lower t"
proof (induction s t rule: EqualFold.induct)
  case (3 b s c t)
  have no2: "\<not> EqualFold (tl s) t" if "s \<noteq> []"
    using that 3(4) EqualFold_longer [of "tl s" t] by (cases s) auto
  have no3: "\<not> EqualFold (drop 2 s) t" if "2 \<le> length s"
    using that 3(4) EqualFold_longer [of "drop 2 s" t] by auto
  show ?case using 3(1,4) no2 no3 by (cases "ord b < 0x80") auto
qed auto

lemma ord_lower_ascii: "ord (lower b) < 0x80 \<Longrightarrow> ord b < 0x80"
  by (auto simp: lower_def isUpperA_def split: if_splits)

lemma map_lower_ascii:
  "list_all (\<lambda>c. ord c < 0x80) (map lower n) \<Longrightarrow> list_all (\<lambda>c. ord c < 0x80) n"
  by (induction n) (auto dest: ord_lower_ascii)

text \<open>Against an all-lower-case ASCII literal, folding is lower-casing.\<close>

lemma EqualFold_literal:
  assumes "length n = length lit" and "map lower lit = lit" and "list_all (\<lambda>c. ord c < 0x80) lit"
  shows "EqualFold n lit \<longleftrightarrow> map lower n = lit"
  using assms map_lower_ascii [of n] by (auto simp: EqualFold_same_length)

section \<open>The request pseudo-headers, declaratively\<close>

definition isPseudo :: "HeaderField \<Rightarrow> bool" where
  "isPseudo f \<longleftrightarrow> Name f \<noteq> [] \<and> hd (Name f) = CHR '':''"

definition isRegular :: "HeaderField \<Rightarrow> bool" where
  "isRegular f \<longleftrightarrow> Name f \<noteq> [] \<and> hd (Name f) \<noteq> CHR '':''"

definition request_pseudos :: "bytes set" where
  "request_pseudos = {'':method'', '':scheme'', '':path'', '':authority''}"

text \<open>
  RFC 9113 section 8.3: the defined pseudo-headers, each at most once, all ahead of the
  regular fields.
\<close>

definition pseudo_block :: "HeaderField list \<Rightarrow> bool" where
  "pseudo_block fs \<longleftrightarrow>
     set (map Name (takeWhile isPseudo fs)) \<subseteq> request_pseudos
     \<and> distinct (map Name (takeWhile isPseudo fs))
     \<and> list_all isRegular (dropWhile isPseudo fs)"

definition hget :: "bytes \<Rightarrow> HeaderField list \<Rightarrow> bytes option" where
  "hget n fs = (case find (\<lambda>f. Name f = n) fs of None \<Rightarrow> None | Some f \<Rightarrow> Value f)"

definition seen :: "requestPseudoHeaders \<Rightarrow> bytes set" where
  "seen ph = (if ph_method ph \<noteq> None then {'':method''} else {})
           \<union> (if ph_scheme ph \<noteq> None then {'':scheme''} else {})
           \<union> (if seenPath ph then {'':path''} else {})
           \<union> (if ph_authority ph \<noteq> None then {'':authority''} else {})"

lemma scan_loop_regular: "scan_loop ph True fs = (ph, list_all isRegular fs)"
  by (induction fs) (auto simp: isRegular_def hd_conv_nth)

text \<open>One step of the scan on a defined pseudo-header, uniformly in its name.\<close>

definition ph_set :: "HeaderField \<Rightarrow> requestPseudoHeaders \<Rightarrow> requestPseudoHeaders" where
  "ph_set f ph =
     (if Name f = '':method'' then ph\<lparr>ph_method := Value f\<rparr>
      else if Name f = '':scheme'' then ph\<lparr>ph_scheme := Value f\<rparr>
      else if Name f = '':path'' then ph\<lparr>ph_path := Value f, seenPath := True\<rparr>
      else ph\<lparr>ph_authority := Value f\<rparr>)"

definition ph_get :: "bytes \<Rightarrow> requestPseudoHeaders \<Rightarrow> bytes option" where
  "ph_get n ph =
     (if n = '':method'' then ph_method ph else if n = '':scheme'' then ph_scheme ph
      else if n = '':path'' then ph_path ph else ph_authority ph)"

lemma four_cases: "n \<in> {a, b, c, d} \<Longrightarrow> P a \<Longrightarrow> P b \<Longrightarrow> P c \<Longrightarrow> P d \<Longrightarrow> P n"
  by blast

lemma isPseudo_defined:
  assumes "Name f \<in> request_pseudos"
  shows "isPseudo f"
proof -
  have "\<forall>f. Name f = n \<longrightarrow> isPseudo f" if "n \<in> request_pseudos" for n
    using that unfolding request_pseudos_def by (rule four_cases) (simp_all add: isPseudo_def)
  with assms show ?thesis by blast
qed

lemma scan_loop_pseudo:
  assumes "Name f \<in> request_pseudos"
  shows "scan_loop ph False (f # fs) =
           (if Name f \<in> seen ph then (ph_set f ph, False) else scan_loop (ph_set f ph) False fs)"
proof -
  have "\<forall>f. Name f = n \<longrightarrow> scan_loop ph False (f # fs) =
          (if Name f \<in> seen ph then (ph_set f ph, False) else scan_loop (ph_set f ph) False fs)"
    if "n \<in> request_pseudos" for n
    using that unfolding request_pseudos_def
    by (rule four_cases) (simp_all add: seen_def ph_set_def Let_def)
  with assms show ?thesis by blast
qed

lemma seen_ph_set:
  assumes "Name f \<in> request_pseudos" and "Value f \<noteq> None"
  shows "seen (ph_set f ph) = insert (Name f) (seen ph)"
proof -
  have "\<forall>f. Name f = n \<longrightarrow> Value f \<noteq> None \<longrightarrow> seen (ph_set f ph) = insert (Name f) (seen ph)"
    if "n \<in> request_pseudos" for n
    using that unfolding request_pseudos_def
    by (rule four_cases) (auto simp: seen_def ph_set_def)
  with assms show ?thesis by blast
qed

lemma ph_get_set:
  assumes "Name f \<in> request_pseudos" and "n \<in> request_pseudos"
  shows "ph_get n (ph_set f ph) = (if Name f = n then Value f else ph_get n ph)"
proof -
  have "\<forall>f. Name f = m \<longrightarrow> ph_get n (ph_set f ph) = (if Name f = n then Value f else ph_get n ph)"
    if "m \<in> request_pseudos" for m
    using that assms(2) unfolding request_pseudos_def
    by - (erule four_cases; erule four_cases; simp add: ph_get_def ph_set_def)
  with assms(1) show ?thesis by blast
qed

lemma scan_loop_other:
  assumes "Name f \<notin> request_pseudos"
  shows "scan_loop ph False (f # fs) = (if isRegular f then (ph, list_all isRegular fs) else (ph, False))"
  using assms by (auto simp: request_pseudos_def isRegular_def scan_loop_regular hd_conv_nth)

lemma scan_loop_ok:
  assumes "\<forall>f \<in> set fs. Value f \<noteq> None"
  shows "snd (scan_loop ph False fs) \<longleftrightarrow>
           pseudo_block fs \<and> set (map Name (takeWhile isPseudo fs)) \<inter> seen ph = {}"
  using assms
proof (induction fs arbitrary: ph)
  case Nil
  then show ?case by (simp add: pseudo_block_def)
next
  case (Cons f fs)
  show ?case
  proof (cases "Name f \<in> request_pseudos")
    case True
    with Cons show ?thesis
      by (auto simp del: scan_loop.simps simp: scan_loop_pseudo seen_ph_set isPseudo_defined pseudo_block_def)
  next
    case False
    then show ?thesis
      by (cases "isPseudo f")
         (auto simp del: scan_loop.simps simp: scan_loop_other pseudo_block_def isPseudo_def isRegular_def)
  qed
qed

lemma hget_regular: "list_all isRegular fs \<Longrightarrow> n \<in> request_pseudos \<Longrightarrow> hget n fs = None"
  by (induction fs) (auto simp: hget_def isRegular_def request_pseudos_def)

lemma scan_loop_get:
  assumes "\<forall>f \<in> set fs. Value f \<noteq> None" and "n \<in> request_pseudos"
    and "snd (scan_loop ph False fs)" and "n \<in> seen ph \<longleftrightarrow> ph_get n ph \<noteq> None"
  shows "ph_get n (fst (scan_loop ph False fs)) = (if n \<in> seen ph then ph_get n ph else hget n fs)"
  using assms
proof (induction fs arbitrary: ph)
  case Nil
  then show ?case by (auto simp: hget_def)
next
  case (Cons f fs)
  show ?case
  proof (cases "Name f \<in> request_pseudos")
    case True
    with Cons show ?thesis
      by (auto simp del: scan_loop.simps simp: scan_loop_pseudo seen_ph_set ph_get_set hget_def split: if_splits)
  next
    case False
    with Cons have "Name f \<noteq> n" "list_all isRegular fs" "isRegular f"
      by (auto simp del: scan_loop.simps simp: scan_loop_other split: if_splits)
    with False Cons.prems hget_regular [of fs n] show ?thesis
      by (auto simp del: scan_loop.simps simp: scan_loop_other hget_def)
  qed
qed

definition coherent :: "requestPseudoHeaders \<Rightarrow> bool" where
  "coherent ph \<longleftrightarrow> (seenPath ph \<longleftrightarrow> ph_path ph \<noteq> None)"

lemma coherent_seen:
  assumes "coherent ph" and "n \<in> request_pseudos"
  shows "n \<in> seen ph \<longleftrightarrow> ph_get n ph \<noteq> None"
  using assms(2) unfolding request_pseudos_def
  by (rule four_cases) (use assms(1) in \<open>simp_all add: seen_def ph_get_def coherent_def\<close>)

lemma coherent_ph_set: "coherent ph \<Longrightarrow> Value f \<noteq> None \<Longrightarrow> coherent (ph_set f ph)"
  by (auto simp: coherent_def ph_set_def)

lemma scan_loop_coherent:
  "\<forall>f \<in> set fs. Value f \<noteq> None \<Longrightarrow> coherent ph \<Longrightarrow> coherent (fst (scan_loop ph False fs))"
proof (induction fs arbitrary: ph)
  case (Cons f fs)
  then show ?case
    by (cases "Name f \<in> request_pseudos")
       (auto simp del: scan_loop.simps simp: scan_loop_pseudo scan_loop_other coherent_ph_set)
qed simp

text \<open>What the scan yields: the first occurrence of each defined pseudo-header.\<close>

lemma scan_result:
  assumes v: "\<forall>f \<in> set fs. Value f \<noteq> None" and ok: "pseudo_block fs"
  shows "ph_method (fst (scanRequestPseudoHeaders fs)) = hget '':method'' fs"
    and "ph_scheme (fst (scanRequestPseudoHeaders fs)) = hget '':scheme'' fs"
    and "ph_path (fst (scanRequestPseudoHeaders fs)) = hget '':path'' fs"
    and "ph_authority (fst (scanRequestPseudoHeaders fs)) = hget '':authority'' fs"
    and "seenPath (fst (scanRequestPseudoHeaders fs)) \<longleftrightarrow> hget '':path'' fs \<noteq> None"
proof -
  let ?ph = "fst (scanRequestPseudoHeaders fs)"
  have e: "seen noPseudo = {}" and c: "coherent noPseudo"
    by (simp_all add: seen_def noPseudo_def coherent_def)
  have s: "snd (scan_loop noPseudo False fs)"
    using scan_loop_ok [OF v, of noPseudo] ok e by simp
  have g: "ph_get n ?ph = hget n fs" if "n \<in> request_pseudos" for n
    using scan_loop_get [OF v that s] coherent_seen [OF c that] e
    by (simp add: scanRequestPseudoHeaders_def)
  from g [of "'':method''"] show "ph_method ?ph = hget '':method'' fs"
    by (simp add: request_pseudos_def ph_get_def)
  from g [of "'':scheme''"] show "ph_scheme ?ph = hget '':scheme'' fs"
    by (simp add: request_pseudos_def ph_get_def)
  from g [of "'':path''"] show p: "ph_path ?ph = hget '':path'' fs"
    by (simp add: request_pseudos_def ph_get_def)
  from g [of "'':authority''"] show "ph_authority ?ph = hget '':authority'' fs"
    by (simp add: request_pseudos_def ph_get_def)
  from scan_loop_coherent [OF v c] p show "seenPath ?ph \<longleftrightarrow> hget '':path'' fs \<noteq> None"
    by (simp add: coherent_def scanRequestPseudoHeaders_def)
qed

lemma scan_ok:
  assumes "\<forall>f \<in> set fs. Value f \<noteq> None"
  shows "snd (scanRequestPseudoHeaders fs) \<longleftrightarrow> pseudo_block fs"
  using scan_loop_ok [OF assms, of noPseudo]
  by (simp add: scanRequestPseudoHeaders_def seen_def noPseudo_def)

definition isHttp :: "bytes option \<Rightarrow> bool" where
  "isHttp sch \<longleftrightarrow> EqualFold (bval sch) ''http'' \<or> EqualFold (bval sch) ''https''"

lemma or_32: "n OR 32 = (if bit n 5 then n else n + 32)" for n :: nat
  using set_bit_eq_or [of 5 n] set_bit_eq [of 5 n] by (cases "bit n 5") simp_all

lemma or_32_eq:
  "n OR 32 = (116 :: nat) \<longleftrightarrow> n = 116 \<or> n = 84" "n OR 32 = (101 :: nat) \<longleftrightarrow> n = 101 \<or> n = 69"
  by (auto simp: or_32)

lemma ord_lower: "ord (lower c) = (if isUpperA c then ord c + 32 else ord c)"
  by (auto simp: lower_def isUpperA_def)

lemma char_eq_ord: "c = d \<longleftrightarrow> ord c = ord d"
  by simp

lemma or_32_char:
  "ord c OR 32 = 116 \<longleftrightarrow> lower c = CHR ''t''" "ord c OR 32 = 101 \<longleftrightarrow> lower c = CHR ''e''"
  unfolding or_32_eq char_eq_ord [of "lower c"] ord_lower by (auto simp: isUpperA_def)

section \<open>The sending side's switch\<close>

lemma fold_literal:
  assumes "map lower lit = lit" and "list_all (\<lambda>c. ord c < 0x80) lit" and "length lit = k"
  shows "length n = k \<and> EqualFold n lit \<longleftrightarrow> map lower n = lit"
proof (cases "length n = k")
  case True
  then show ?thesis using EqualFold_literal [OF _ assms(1,2), of n] assms(3) by simp
next
  case False
  then have "map lower n \<noteq> lit" using assms(3) by auto
  with False show ?thesis by simp
qed

lemma te_name: "map lower n = ''te'' \<longleftrightarrow> length n = 2 \<and> lower (n ! 0) = CHR ''t'' \<and> lower (n ! 1) = CHR ''e''"
proof -
  have "length n = 2 \<longleftrightarrow> (\<exists>a b. n = [a, b])" by (auto simp: length_Suc_conv numeral_2_eq_2)
  then show ?thesis by auto
qed

lemma fold_switch:
  "length n = 7 \<and> EqualFold n ''upgrade'' \<longleftrightarrow> map lower n = ''upgrade''"
  "length n = 10 \<and> EqualFold n ''connection'' \<longleftrightarrow> map lower n = ''connection''"
  "length n = 10 \<and> EqualFold n ''keep-alive'' \<longleftrightarrow> map lower n = ''keep-alive''"
  "length n = 16 \<and> EqualFold n ''proxy-connection'' \<longleftrightarrow> map lower n = ''proxy-connection''"
  "length n = 17 \<and> EqualFold n ''transfer-encoding'' \<longleftrightarrow> map lower n = ''transfer-encoding''"
  by (rule fold_literal; simp add: lower_def isUpperA_def)+

lemma response_switch:
  assumes "n \<noteq> []" and "n ! 0 \<noteq> CHR '':''"
  shows "ProhibitedInResponse n \<longleftrightarrow>
           map lower n = ''te'' \<or> map lower n = ''upgrade'' \<or> map lower n = ''connection''
           \<or> map lower n = ''keep-alive'' \<or> map lower n = ''proxy-connection''
           \<or> map lower n = ''transfer-encoding''"
proof -
  have "ProhibitedInResponse n \<longleftrightarrow>
      map lower n = ''te'' \<or> length n = 7 \<and> EqualFold n ''upgrade''
      \<or> length n = 10 \<and> EqualFold n ''connection'' \<or> length n = 10 \<and> EqualFold n ''keep-alive''
      \<or> length n = 16 \<and> EqualFold n ''proxy-connection''
      \<or> length n = 17 \<and> EqualFold n ''transfer-encoding''"
    using assms te_name [of n] unfolding ProhibitedInResponse_def by (simp add: or_32_char)
  then show ?thesis unfolding fold_switch .
qed

section \<open>Properties\<close>



text \<open>
  \<open>ProhibitedInResponse\<close> drops exactly the empty name, every pseudo-header but
  \<open>:status\<close>, and the names that are, in any letter case, \<open>te\<close> or connection-specific: the
  list the receiving side refuses and the list the sending side strips are the same one.
\<close>

lemma ProhibitedInResponse_rules:
  "ProhibitedInResponse n \<longleftrightarrow>
     (n = [] \<or> hd n = CHR '':'' \<and> n \<noteq> '':status''
      \<or> hd n \<noteq> CHR '':'' \<and> map lower n \<in> insert ''te'' connection_specific)"
proof (cases "n = [] \<or> hd n = CHR '':''")
  case True
  then show ?thesis
    by (cases "n = []") (simp_all add: ProhibitedInResponse_def responseStatus_def hd_conv_nth)
next
  case False
  have reorder: "P \<or> U \<or> C \<or> K \<or> X \<or> T \<longleftrightarrow> N \<or> H \<and> H' \<or> R \<and> (P \<or> C \<or> K \<or> X \<or> T \<or> U)"
    if "\<not> N" "\<not> H" R for P U C K X T N H H' R using that by blast
  from False have "n \<noteq> []" "n ! 0 \<noteq> CHR '':''" by (auto simp: hd_conv_nth)
  then show ?thesis
    unfolding response_switch [OF \<open>n \<noteq> []\<close> \<open>n ! 0 \<noteq> CHR '':''\<close>]
      connection_specific_def insert_iff empty_iff simp_thms
    by (intro reorder) (use False in simp_all)
qed

text \<open>
  C18. \<open>ValidRequestPseudoHeaders\<close> accepts a request field section exactly when RFC 9113
  section 8.3 does: the defined pseudo-headers come first, each at most once; \<open>:method\<close> is
  present; an http or https \<open>:authority\<close> has no userinfo; and unless the method is CONNECT
  both \<open>:scheme\<close> and \<open>:path\<close> are present, the path non-empty for http and https. The
  hypothesis is that no value slice is nil, which every decoded section satisfies.
\<close>

theorem ValidRequestPseudoHeaders_rules:
  assumes "\<forall>f \<in> set fs. Value f \<noteq> None"
  shows "ValidRequestPseudoHeaders fs \<longleftrightarrow>
           pseudo_block fs \<and> hget '':method'' fs \<noteq> None
           \<and> \<not> (isHttp (hget '':scheme'' fs) \<and> CHR ''@'' \<in> set (bval (hget '':authority'' fs)))
           \<and> (hget '':method'' fs = Some ''CONNECT''
              \<or> hget '':scheme'' fs \<noteq> None \<and> hget '':path'' fs \<noteq> None
                \<and> (isHttp (hget '':scheme'' fs) \<longrightarrow> hget '':path'' fs \<noteq> Some []))"
proof (cases "pseudo_block fs")
  case False
  with scan_ok [OF assms] show ?thesis
    by (simp add: ValidRequestPseudoHeaders_def case_prod_unfold)
next
  case True
  note r = scan_result [OF assms True]
  from scan_ok [OF assms] True have "snd (scanRequestPseudoHeaders fs)" by simp
  then show ?thesis using True
    by (cases "hget '':method'' fs"; cases "hget '':path'' fs")
       (auto simp: ValidRequestPseudoHeaders_def isHttp_def case_prod_unfold Let_def r)
qed

theorem ValidRequestPseudoHeaders_rules_witness:
  "ValidRequestPseudoHeaders
     [\<lparr>Name = '':method'', Value = Some ''GET'', Indexing = 0\<rparr>,
      \<lparr>Name = '':scheme'', Value = Some ''https'', Indexing = 0\<rparr>,
      \<lparr>Name = '':path'', Value = Some ''/'', Indexing = 0\<rparr>,
      \<lparr>Name = ''accept'', Value = Some ''x'', Indexing = 0\<rparr>]"
  by (subst ValidRequestPseudoHeaders_rules)
     (simp_all add: pseudo_block_def request_pseudos_def isPseudo_def isRegular_def hget_def isHttp_def)

text \<open>
  The case folding of the \<open>te\<close> check is Unicode's, not ASCII's: U+017F (LATIN SMALL LETTER
  LONG S) folds to s, so a \<open>te\<close> field that is not the token \<open>trailers\<close> in any letter case is
  let through.
\<close>

theorem te_long_s_accepted:
  "\<not> Prohibited ''te'' (''trailer'' @ [CHR 0xC5, CHR 0xBF]) False
   \<and> map lower (''trailer'' @ [CHR 0xC5, CHR 0xBF]) \<noteq> ''trailers''"
  by (simp add: Prohibited_def hasProhibitedFieldName_def hasProhibitedFieldChar_def isUpperA_def
      isWS_def teTrailers_def lower_def)

end
