(* ===== verification/ConnTypes.thy ===== *)
theory ConnTypes
  imports StreamState HttpFields
begin

text \<open>
  The data of the conn package: error values (conn/errors.go and the sentinel errors of
  conn/server\_conn.go and conn/push.go), the frame vocabulary the package takes from its codec,
  and the per-stream object (conn/server\_stream.go, \<open>ServerStream\<close>).

  The codec (package frame and package hpack of poseidon-http-client) is outside the
  repository. Its error sentinels, error codes and setting identifiers are represented by
  constructors that carry the codec's names, its flag tests by boolean fields of the frame
  header, and its functions by the record \<open>codec\<close>, an argument of every definition that calls
  one.
\<close>

section \<open>Error codes and errors\<close>

datatype ErrCode =
    ErrCodeNoError | ErrCodeProtocolError | ErrCodeInternalError | ErrCodeFlowControlError
  | ErrCodeStreamClosed | ErrCodeFrameSizeError | ErrCodeRefusedStream | ErrCodeCancel
  | ErrCodeCompressionError | ErrCodeEnhanceYourCalm | ErrCodeInadequateSecurity
  | ErrCodeOther uint32

text \<open>
  The errors the package tells apart. \<open>connError\<close> is the connection-fatal error of a handler
  callback; then the package's own sentinels; then the codec's sentinels (\<open>CodecOther\<close> is one
  no consumer can name); then the ways a transport ends.
\<close>

datatype err =
    connError ErrCode string
  | ErrBadPreface | ErrConnClosed | ErrStreamClosed | ErrHeaderBlockTooLarge
  | ErrPushDisabled | ErrPushAfterResponse | ErrPushOnServerStream | ErrPushMalformedPromise
  | ErrPushRefused | ErrPeerGoAway
  | ErrFrameTooLarge | ErrPriorityWrongLength | ErrRSTWrongLength | ErrPingWrongLength
  | ErrWindowWrongLength | ErrSettingsLength | ErrSettingsAck | ErrShortRead
  | ErrInvalidStreamID | ErrInvalidPadding | ErrZeroIncrement | ErrProtocolError
  | CodecOther string
  | EOF | ErrUnexpectedEOF | ErrClosedPipe | NetErrClosed | OsDeadlineExceeded
  | CtxCanceled | CtxDeadlineExceeded | NetError string

text \<open>\<open>transportErr\<close>: the connection ending rather than the peer misbehaving.\<close>

fun transportErr :: "err \<Rightarrow> bool" where
  "transportErr EOF = True"
| "transportErr ErrUnexpectedEOF = True"
| "transportErr ErrClosedPipe = True"
| "transportErr NetErrClosed = True"
| "transportErr OsDeadlineExceeded = True"
| "transportErr CtxCanceled = True"
| "transportErr CtxDeadlineExceeded = True"
| "transportErr (NetError m) = True"
| "transportErr _ = False"

text \<open>\<open>codecErrCode\<close>: the code the peer is owed; \<open>None\<close> is the false second result.\<close>

definition codecErrCode :: "err \<Rightarrow> ErrCode option" where
  "codecErrCode e =
     (if transportErr e then None
      else if e \<in> {ErrFrameTooLarge, ErrPriorityWrongLength, ErrRSTWrongLength, ErrPingWrongLength,
                   ErrWindowWrongLength, ErrSettingsLength, ErrSettingsAck, ErrShortRead}
        then Some ErrCodeFrameSizeError
      else if e \<in> {ErrInvalidStreamID, ErrInvalidPadding, ErrZeroIncrement, ErrProtocolError}
        then Some ErrCodeProtocolError
      else Some ErrCodeProtocolError)"

lemma codecErrCode_None_iff: "codecErrCode e = None \<longleftrightarrow> transportErr e"
  by (simp add: codecErrCode_def)

section \<open>Frames\<close>

text \<open>
  frame.FrameHeader. The tests \<open>fh.Flags \& frame.FlagXxx != 0\<close> of the sources are the boolean
  fields \<open>fEndStream\<close>, \<open>fEndHeaders\<close> and \<open>fAck\<close>. Frame types are numbers, compared as numbers.
\<close>

record FrameHeader =
  fLength :: uint32
  fType :: "8 word"
  fStreamID :: uint32
  fEndStream :: bool
  fEndHeaders :: bool
  fAck :: bool

definition FrameContinuation :: "8 word" where "FrameContinuation = 0x09"
definition FrameAltSvc :: "8 word" where "FrameAltSvc = 0x0a"
definition FrameOrigin :: "8 word" where "FrameOrigin = 0x0c"

text \<open>frame.Priority: exclusive bit, stream dependency and weight.\<close>

type_synonym Priority = "bool \<times> uint32 \<times> 8 word"

datatype SettingID =
    SettingHeaderTableSize | SettingEnablePush | SettingMaxConcurrentStreams
  | SettingInitialWindowSize | SettingMaxFrameSize | SettingMaxHeaderListSize
  | SettingOther "16 word"

text \<open>frame.SettingsParams: the first \<open>N\<close> of its 16 pairs.\<close>

type_synonym SettingsParams = "(SettingID \<times> uint32) list"

type_synonym PingPayload = "64 word"

text \<open>Frames written to the wire, in the order of the framer's write methods used here.\<close>

datatype wframe =
    WHeaders uint32 bytes bool "Priority option"   \<comment> \<open>stream, block, END\_STREAM, priority; END\_HEADERS always set\<close>
  | WData uint32 bytes bool
  | WRSTStream uint32 ErrCode
  | WSettings SettingsParams
  | WSettingsAck
  | WPushPromise uint32 uint32 bytes
  | WPing bool PingPayload
  | WGoAway uint32 ErrCode
  | WWindowUpdate uint32 uint32

text \<open>
  What the hpack encoder has been asked to do, oldest first. The encoder's dynamic table is a
  function of this history, so the block it emits for \<open>fs\<close> is some function of both.
\<close>

datatype encOp = EncBlock "HeaderField list" | EncResize uint32

text \<open>
  The codec as a parameter:
  \<^item> \<open>cWrite sent f\<close>: the error with which the framer refuses or fails to write \<open>f\<close> after the
    frames \<open>sent\<close> (\<open>None\<close>: the frame is on the wire; otherwise no complete frame is);
  \<^item> \<open>cDecode seen b\<close>: the fields \<open>hpack.Decoder.DecodeBlock\<close> visits on block \<open>b\<close> after the
    blocks \<open>seen\<close>, and its error, if any (the callbacks of the sources never stop it);
  \<^item> \<open>cEncode done fs\<close>: the block \<open>hpack.Encoder.EncodeBlock\<close> emits after the operations \<open>done\<close>.
\<close>

record codec =
  cWrite :: "wframe list \<Rightarrow> wframe \<Rightarrow> err option"
  cDecode :: "bytes list \<Rightarrow> bytes \<Rightarrow> HeaderField list \<times> string option"
  cEncode :: "encOp list \<Rightarrow> HeaderField list \<Rightarrow> bytes"

section \<open>Streams\<close>

datatype StreamEventType = EventHeaders | EventData | EventTrailers | EventReset

record StreamEvent =
  evType :: StreamEventType
  evHeaders :: "HeaderField list"
  evData :: bytes
  evEndStream :: bool
  evRSTCode :: ErrCode

text \<open>
  \<open>ServerStream\<close>. The event channel is its buffered contents, its capacity and whether it has
  been closed; the context is whether a cancel function is bound and whether it has been
  called. The list of writers parked on the stream is in theory FcWaiters.
\<close>

record ServerStream =
  ss_id :: uint32
  ss_events :: "StreamEvent list"
  ss_eventCap :: nat
  ss_evClosed :: bool
  ss_ctxBound :: bool
  ss_cancelled :: bool
  ss_st :: streamState
  ss_priority :: "Priority option"
  ss_recvWindow :: int
  ss_recvRefundPending :: uint32
  ss_sendWindow :: int

text \<open>A pointer to a stream, and the store the pointers point into.\<close>

type_synonym sref = nat
type_synonym store = "sref \<Rightarrow> ServerStream"

definition newServerStream :: "uint32 \<Rightarrow> nat \<Rightarrow> int \<Rightarrow> ServerStream" where
  "newServerStream sid eventBuf recvWindow =
     \<lparr>ss_id = sid, ss_events = [], ss_eventCap = eventBuf, ss_evClosed = False,
      ss_ctxBound = False, ss_cancelled = False, ss_st = 0, ss_priority = None,
      ss_recvWindow = recvWindow, ss_recvRefundPending = 0, ss_sendWindow = 0\<rparr>"

text \<open>\<open>setPriority\<close> ignores a nil payload.\<close>

definition setPriority :: "Priority option \<Rightarrow> ServerStream \<Rightarrow> ServerStream" where
  "setPriority p ss = (case p of None \<Rightarrow> ss | Some _ \<Rightarrow> ss\<lparr>ss_priority := p\<rparr>)"

definition cancelCtx :: "ServerStream \<Rightarrow> ServerStream" where
  "cancelCtx ss = (if ss_ctxBound ss then ss\<lparr>ss_cancelled := True\<rparr> else ss)"

text \<open>\<open>ServerStream.advance\<close>: the transition on the stream's cell, and the state before it.\<close>

definition ss_advance :: "streamState \<Rightarrow> ServerStream \<Rightarrow> ServerStream" where
  "ss_advance delta ss = ss\<lparr>ss_st := snd (advance (ss_st ss) delta)\<rparr>"

text \<open>\<open>markRemoteEnd\<close>, \<open>markLocalEnd\<close>, \<open>markRemoteEndReset\<close>: each answers from the state before.\<close>

definition markRemoteEnd :: "ServerStream \<Rightarrow> ServerStream \<times> bool" where
  "markRemoteEnd ss = (ss_advance stRecvEnded ss, LocalEnded (fst (advance (ss_st ss) stRecvEnded)))"

definition markLocalEnd :: "ServerStream \<Rightarrow> ServerStream \<times> bool" where
  "markLocalEnd ss = (ss_advance stSentEnded ss, RemoteEnded (fst (advance (ss_st ss) stSentEnded)))"

definition markRemoteEndReset :: "ServerStream \<Rightarrow> ServerStream \<times> bool" where
  "markRemoteEndReset ss =
     (ss_advance (stRecvEnded OR stReset) ss,
      \<not> RemoteEnded (fst (advance (ss_st ss) (stRecvEnded OR stReset))))"

text \<open>\<open>authorizeSend\<close> and \<open>deliverable\<close>.\<close>

definition authorizeSend :: "ServerStream \<Rightarrow> err option" where
  "authorizeSend ss = (if \<not> Writable (ss_st ss) then Some ErrStreamClosed else None)"

definition deliverable :: "ServerStream \<Rightarrow> bool" where
  "deliverable ss \<longleftrightarrow> \<not> Terminal (ss_st ss)"

lemma ss_advance_fields [simp]:
  "ss_id (ss_advance d ss) = ss_id ss" "ss_events (ss_advance d ss) = ss_events ss"
  "ss_eventCap (ss_advance d ss) = ss_eventCap ss" "ss_evClosed (ss_advance d ss) = ss_evClosed ss"
  "ss_ctxBound (ss_advance d ss) = ss_ctxBound ss" "ss_cancelled (ss_advance d ss) = ss_cancelled ss"
  "ss_st (ss_advance d ss) = ss_st ss OR d" "ss_priority (ss_advance d ss) = ss_priority ss"
  "ss_recvWindow (ss_advance d ss) = ss_recvWindow ss"
  "ss_recvRefundPending (ss_advance d ss) = ss_recvRefundPending ss"
  "ss_sendWindow (ss_advance d ss) = ss_sendWindow ss"
  by (simp_all add: ss_advance_def)

lemma cancelCtx_fields [simp]:
  "ss_id (cancelCtx ss) = ss_id ss" "ss_events (cancelCtx ss) = ss_events ss"
  "ss_eventCap (cancelCtx ss) = ss_eventCap ss" "ss_evClosed (cancelCtx ss) = ss_evClosed ss"
  "ss_ctxBound (cancelCtx ss) = ss_ctxBound ss" "ss_st (cancelCtx ss) = ss_st ss"
  "ss_priority (cancelCtx ss) = ss_priority ss" "ss_recvWindow (cancelCtx ss) = ss_recvWindow ss"
  "ss_recvRefundPending (cancelCtx ss) = ss_recvRefundPending ss"
  "ss_sendWindow (cancelCtx ss) = ss_sendWindow ss"
  "ss_cancelled (cancelCtx ss) \<longleftrightarrow> ss_ctxBound ss \<or> ss_cancelled ss"
  by (simp_all add: cancelCtx_def)

lemma setPriority_fields [simp]:
  "ss_id (setPriority p ss) = ss_id ss" "ss_events (setPriority p ss) = ss_events ss"
  "ss_eventCap (setPriority p ss) = ss_eventCap ss" "ss_evClosed (setPriority p ss) = ss_evClosed ss"
  "ss_ctxBound (setPriority p ss) = ss_ctxBound ss" "ss_st (setPriority p ss) = ss_st ss"
  "ss_cancelled (setPriority p ss) = ss_cancelled ss"
  "ss_recvWindow (setPriority p ss) = ss_recvWindow ss"
  "ss_recvRefundPending (setPriority p ss) = ss_recvRefundPending ss"
  "ss_sendWindow (setPriority p ss) = ss_sendWindow ss"
  by (simp_all add: setPriority_def split: option.splits)

end
