(* ===== verification/StreamTable.thy ===== *)
theory StreamTable
  imports ConnTypes
begin

text \<open>
  The stream table of a connection (conn/stream\_table.go): its identifier space and its live
  population. The map of live streams is an association list with distinct keys; a stream is a
  pointer into the store, because admission writes the send window of the stream it is given.
  The function field \<open>peerWindow\<close> is the argument of that name.

  The locale \<open>stream_registry\<close> states what the rest of the connection relies on (identifiers
  are consumed once, closing never reopens), proves that a closed identifier stays closed, and
  is interpreted on the table.
\<close>

section \<open>The table and its operations\<close>

record streamTable =
  streams :: "(uint32 \<times> sref) list"
  maxClient :: uint32
  nextPush :: uint32
  nClient :: int
  nPush :: int

definition newStreamTable :: streamTable where
  "newStreamTable = \<lparr>streams = [], maxClient = 0, nextPush = 2, nClient = 0, nPush = 0\<rparr>"

definition noStreamLimit :: uint32 where
  "noStreamLimit = NOT 0"

text \<open>\<open>id % 2 == 1\<close>\<close>

definition isClientID :: "uint32 \<Rightarrow> bool" where
  "isClientID sid \<longleftrightarrow> sid mod 2 = 1"

definition tbl_lookup :: "streamTable \<Rightarrow> uint32 \<Rightarrow> sref option" where
  "tbl_lookup t sid = map_of (streams t) sid"

definition tbl_idle :: "streamTable \<Rightarrow> uint32 \<Rightarrow> bool" where
  "tbl_idle t sid = (if isClientID sid then sid > maxClient t else sid \<ge> nextPush t)"

definition tbl_validateClientID :: "streamTable \<Rightarrow> uint32 \<Rightarrow> err option" where
  "tbl_validateClientID t sid =
     (if \<not> isClientID sid
        then Some (connError ErrCodeProtocolError ''client-initiated stream ID must be odd'')
      else if sid \<le> maxClient t
        then Some (connError ErrCodeProtocolError
                     ''client stream ID must exceed all previous client streams'')
      else None)"

definition tbl_admitClient ::
  "uint32 \<Rightarrow> streamTable \<Rightarrow> store \<Rightarrow> uint32 \<Rightarrow> sref \<Rightarrow> int \<Rightarrow> streamTable \<times> store \<times> bool" where
  "tbl_admitClient peerWindow t h sid s limit =
     (let initial = peerWindow;
          t1 = (if sid > maxClient t then t\<lparr>maxClient := sid\<rparr> else t)
      in if limit > 0 \<and> nClient t1 \<ge> limit then (t1, h, False)
         else (t1\<lparr>streams := aput sid s (streams t1), nClient := nClient t1 + 1\<rparr>,
               h(s := (h s)\<lparr>ss_sendWindow := sint initial\<rparr>), True))"

text \<open>The result is \<open>None\<close> for the pair \<open>(0, false)\<close>.\<close>

definition tbl_reservePush ::
  "uint32 \<Rightarrow> streamTable \<Rightarrow> store \<Rightarrow> sref \<Rightarrow> uint32 \<Rightarrow> streamTable \<times> store \<times> uint32 option" where
  "tbl_reservePush peerWindow t h s limit =
     (if limit \<noteq> noStreamLimit \<and> (word_of_int (nPush t) :: uint32) \<ge> limit then (t, h, None)
      else let initial = peerWindow; sid = nextPush t
           in (t\<lparr>nextPush := nextPush t + 2, streams := aput sid s (streams t), nPush := nPush t + 1\<rparr>,
               h(s := (h s)\<lparr>ss_id := sid, ss_sendWindow := sint initial\<rparr>), Some sid))"

definition tbl_release :: "streamTable \<Rightarrow> uint32 \<Rightarrow> streamTable \<times> sref option" where
  "tbl_release t sid =
     (case map_of (streams t) sid of
        None \<Rightarrow> (t, None)
      | Some s \<Rightarrow>
          let t1 = t\<lparr>streams := adel sid (streams t)\<rparr>
          in (if isClientID sid then t1\<lparr>nClient := nClient t1 - 1\<rparr> else t1\<lparr>nPush := nPush t1 - 1\<rparr>,
              Some s))"

definition tbl_live :: "streamTable \<Rightarrow> int" where
  "tbl_live t = nClient t + nPush t"

definition tbl_lastPeerID :: "streamTable \<Rightarrow> uint32" where
  "tbl_lastPeerID t = maxClient t"

text \<open>
  \<open>applyInitialWindow\<close>: \<open>publish\<close> has run and reported \<open>oldWin\<close> and \<open>newWin\<close>; the walk adjusts
  every live stream and keeps the first error.
\<close>

fun adjust_walk ::
  "(ServerStream \<Rightarrow> int \<Rightarrow> ServerStream \<times> err option) \<Rightarrow> int \<Rightarrow> (uint32 \<times> sref) list \<Rightarrow>
   store \<Rightarrow> err option \<Rightarrow> store \<times> err option" where
  "adjust_walk adjust delta [] h firstErr = (h, firstErr)"
| "adjust_walk adjust delta ((sid, s) # rest) h firstErr =
     (let (ss, e) = adjust (h s) delta
      in adjust_walk adjust delta rest (h(s := ss))
           (if e \<noteq> None \<and> firstErr = None then e else firstErr))"

definition tbl_applyInitialWindow ::
  "uint32 \<Rightarrow> uint32 \<Rightarrow> (ServerStream \<Rightarrow> int \<Rightarrow> ServerStream \<times> err option) \<Rightarrow>
   streamTable \<Rightarrow> store \<Rightarrow> store \<times> err option" where
  "tbl_applyInitialWindow oldWin newWin adjust t h =
     (if oldWin = newWin then (h, None)
      else let delta = uint newWin - uint oldWin
           in adjust_walk adjust delta (streams t) h None)"

definition tbl_drain :: "streamTable \<Rightarrow> streamTable \<times> sref list" where
  "tbl_drain t = (t\<lparr>streams := [], nClient := 0, nPush := 0\<rparr>, map snd (streams t))"

lemmas tbl_defs = newStreamTable_def tbl_lookup_def tbl_idle_def tbl_validateClientID_def
  tbl_admitClient_def tbl_reservePush_def tbl_release_def tbl_live_def tbl_lastPeerID_def
  tbl_drain_def Let_def

section \<open>Well-formed tables\<close>

text \<open>
  Keys are distinct; the two counters are the live populations by parity; every live
  identifier has been consumed; the watermarks have the parity of their side.
\<close>

definition tbl_wf :: "streamTable \<Rightarrow> bool" where
  "tbl_wf t \<longleftrightarrow>
     distinct (akeys (streams t))
     \<and> nClient t = int (count_keys isClientID (streams t))
     \<and> nPush t = int (count_keys (\<lambda>i. \<not> isClientID i) (streams t))
     \<and> (\<forall>sid. tbl_idle t sid \<longrightarrow> map_of (streams t) sid = None)
     \<and> (maxClient t = 0 \<or> isClientID (maxClient t))
     \<and> \<not> isClientID (nextPush t) \<and> nextPush t \<noteq> 0"

text \<open>Identifiers of live pushed streams end below 2 to the 32; the last one is never reached.\<close>

definition pushRoom :: "streamTable \<Rightarrow> bool" where
  "pushRoom t \<longleftrightarrow> nextPush t < 0xFFFFFFFE"

lemma isClientID_odd: "isClientID sid \<longleftrightarrow> odd sid"
  by (simp add: isClientID_def odd_iff_mod_2_eq_one)

lemma isClientID_add_2 [simp]: "isClientID (sid + 2) \<longleftrightarrow> isClientID sid"
  by (simp add: isClientID_odd)

lemma validateClientID_None_iff:
  "tbl_validateClientID t sid = None \<longleftrightarrow> isClientID sid \<and> tbl_idle t sid"
  by (auto simp: tbl_validateClientID_def tbl_idle_def)

lemma pushRoom_less: "pushRoom t \<Longrightarrow> nextPush t < nextPush t + 2"
  by (simp add: pushRoom_def word_less_nat_alt unat_word_ariths)

lemma tbl_wf_idle_notin: "tbl_wf t \<Longrightarrow> tbl_idle t sid \<Longrightarrow> sid \<notin> fst ` set (streams t)"
  by (simp add: tbl_wf_def flip: map_of_eq_None_iff)

lemma tbl_wf_new [wf_simps]: "tbl_wf newStreamTable"
  by (simp add: tbl_wf_def newStreamTable_def isClientID_def)

lemma tbl_wf_drain [wf_simps]: "tbl_wf t \<Longrightarrow> tbl_wf (fst (tbl_drain t))"
  by (simp add: tbl_wf_def tbl_drain_def)

lemma tbl_wf_release [wf_simps]:
  assumes "tbl_wf t"
  shows "tbl_wf (fst (tbl_release t sid))"
proof (cases "map_of (streams t) sid")
  case None
  then show ?thesis using assms by (simp add: tbl_release_def)
next
  case (Some s)
  then have mem: "sid \<in> fst ` set (streams t)" by (auto dest!: map_of_SomeD intro: rev_image_eqI)
  have "distinct (akeys (streams t))" using assms by (simp add: tbl_wf_def)
  note cnt = count_keys_adel [OF this mem]
  show ?thesis using Some assms cnt [of isClientID] cnt [of "\<lambda>i. \<not> isClientID i"]
    by (simp add: tbl_release_def tbl_wf_def Let_def tbl_idle_def)
qed

lemma tbl_wf_admitClient [wf_simps]:
  assumes "tbl_wf t" and "tbl_validateClientID t sid = None"
  shows "tbl_wf (fst (tbl_admitClient w t h sid s limit))"
proof -
  from assms have *: "isClientID sid" "maxClient t < sid"
    by (auto simp: validateClientID_None_iff tbl_idle_def)
  have fresh: "sid \<notin> fst ` set (streams t)"
    using assms tbl_wf_idle_notin by (simp add: validateClientID_None_iff)
  show ?thesis using assms(1) *
    by (simp add: tbl_admitClient_def Let_def tbl_wf_def tbl_idle_def
        count_keys_aput_new [OF fresh])
qed

lemma tbl_wf_reservePush [wf_simps]:
  assumes "tbl_wf t" and "pushRoom t"
  shows "tbl_wf (fst (tbl_reservePush w t h s limit))"
proof -
  have idle: "tbl_idle t (nextPush t)" using assms(1) by (simp add: tbl_wf_def tbl_idle_def)
  note fresh = tbl_wf_idle_notin [OF assms(1) idle]
  have "nextPush t + 2 \<noteq> 0" using pushRoom_less [OF assms(2)] by auto
  then show ?thesis using assms(1) pushRoom_less [OF assms(2)]
    by (simp add: tbl_reservePush_def Let_def tbl_wf_def tbl_idle_def
        count_keys_aput_new [OF fresh] flip: not_less)
qed

text \<open>What each operation does to the identifiers.\<close>

lemma lookup_release [simp]:
  "tbl_lookup (fst (tbl_release t sid)) = (tbl_lookup t)(sid := None)"
  by (auto simp: tbl_release_def tbl_lookup_def Let_def split: option.splits)

lemma idle_release [simp]: "tbl_idle (fst (tbl_release t sid)) = tbl_idle t"
  by (rule ext) (simp add: tbl_release_def tbl_idle_def Let_def split: option.splits)

lemma snd_release [simp]: "snd (tbl_release t sid) = tbl_lookup t sid"
  by (simp add: tbl_release_def tbl_lookup_def Let_def split: option.splits)

lemma lookup_drain [simp]: "tbl_lookup (fst (tbl_drain t)) = Map.empty"
  by (auto simp: tbl_drain_def tbl_lookup_def)

lemma idle_drain [simp]: "tbl_idle (fst (tbl_drain t)) = tbl_idle t"
  by (rule ext) (simp add: tbl_drain_def tbl_idle_def)

lemma maxClient_release [simp]: "maxClient (fst (tbl_release t sid)) = maxClient t"
  by (auto simp: tbl_release_def Let_def split: option.splits)

lemma nextPush_release [simp]: "nextPush (fst (tbl_release t sid)) = nextPush t"
  by (auto simp: tbl_release_def Let_def split: option.splits)

lemma idle_not_live: "tbl_wf t \<Longrightarrow> tbl_idle t sid \<Longrightarrow> tbl_lookup t sid = None"
  using tbl_wf_idle_notin by (auto simp: tbl_lookup_def map_of_eq_None_iff)

section \<open>The registry contract\<close>

text \<open>
  What a client of the table may rely on. \<open>opens t i t'\<close>: the identifier \<open>i\<close> is consumed,
  whether or not a stream comes to live under it; \<open>closes t i t'\<close>: \<open>i\<close> leaves the population.
\<close>

locale stream_registry =
  fixes inv :: "'t \<Rightarrow> bool"
    and idle :: "'t \<Rightarrow> 'i \<Rightarrow> bool"
    and live :: "'t \<Rightarrow> 'i \<Rightarrow> 'p option"
    and opens :: "'t \<Rightarrow> 'i \<Rightarrow> 't \<Rightarrow> bool"
    and closes :: "'t \<Rightarrow> 'i \<Rightarrow> 't \<Rightarrow> bool"
  assumes inv_opens: "inv t \<Longrightarrow> opens t i t' \<Longrightarrow> inv t'"
    and inv_closes: "inv t \<Longrightarrow> closes t i t' \<Longrightarrow> inv t'"
    and idle_live: "inv t \<Longrightarrow> idle t i \<Longrightarrow> live t i = None"
    and opens_idle: "inv t \<Longrightarrow> opens t i t' \<Longrightarrow> idle t i \<and> \<not> idle t' i"
    and opens_other: "inv t \<Longrightarrow> opens t i t' \<Longrightarrow> j \<noteq> i \<Longrightarrow> live t' j = live t j"
    and opens_mono: "inv t \<Longrightarrow> opens t i t' \<Longrightarrow> idle t' j \<Longrightarrow> idle t j"
    and closes_live: "inv t \<Longrightarrow> closes t i t' \<Longrightarrow> live t' = (live t)(i := None)"
    and closes_idle: "inv t \<Longrightarrow> closes t i t' \<Longrightarrow> idle t' = idle t"
begin

text \<open>An identifier that was used and is no longer live is closed (section 5.1).\<close>

definition closed :: "'t \<Rightarrow> 'i \<Rightarrow> bool" where
  "closed t i \<longleftrightarrow> \<not> idle t i \<and> live t i = None"

definition step :: "'t \<Rightarrow> 't \<Rightarrow> bool" where
  "step t t' \<longleftrightarrow> (\<exists>i. opens t i t' \<or> closes t i t')"

lemma inv_step: "inv t \<Longrightarrow> step t t' \<Longrightarrow> inv t'"
  unfolding step_def by (blast intro: inv_opens inv_closes)

lemma closed_step:
  assumes "inv t" and "step t t'" and "closed t i"
  shows "closed t' i"
proof -
  from assms(2) obtain j where "opens t j t' \<or> closes t j t'" by (auto simp: step_def)
  then show ?thesis
  proof
    assume o: "opens t j t'"
    then have "j \<noteq> i" using assms opens_idle by (auto simp: closed_def)
    then show ?thesis using o assms opens_other opens_mono by (fastforce simp: closed_def)
  next
    assume "closes t j t'"
    then show ?thesis using assms closes_live closes_idle by (auto simp: closed_def)
  qed
qed

lemma inv_steps: "step\<^sup>*\<^sup>* t t' \<Longrightarrow> inv t \<Longrightarrow> inv t'"
  by (induction rule: rtranclp_induct) (auto intro: inv_step)

lemma closed_forever:
  assumes "step\<^sup>*\<^sup>* t t'" and "inv t" and "closed t i"
  shows "closed t' i"
  using assms
  by (induction rule: rtranclp_induct) (auto intro: closed_step inv_steps)

lemma idle_antimono:
  assumes "step\<^sup>*\<^sup>* t t'" and "inv t" and "idle t' i"
  shows "idle t i"
  using assms
proof (induction rule: rtranclp_induct)
  case (step t1 t2)
  then have "inv t1" by (blast intro: inv_steps)
  with step(2,5) have "idle t1 i"
    unfolding step_def by (metis opens_mono closes_idle)
  with step show ?case by blast
qed

end

text \<open>The two ways the connection consumes an identifier, and the one way it gives one up.\<close>

definition tbl_opens :: "streamTable \<Rightarrow> uint32 \<Rightarrow> streamTable \<Rightarrow> bool" where
  "tbl_opens t sid t' \<longleftrightarrow>
     tbl_validateClientID t sid = None \<and> (\<exists>w h s limit. t' = fst (tbl_admitClient w t h sid s limit))
     \<or> pushRoom t \<and> (\<exists>w h s limit h'. tbl_reservePush w t h s limit = (t', h', Some sid))"

definition tbl_closes :: "streamTable \<Rightarrow> uint32 \<Rightarrow> streamTable \<Rightarrow> bool" where
  "tbl_closes t sid t' \<longleftrightarrow> t' = fst (tbl_release t sid)"

lemma admitClient_ids:
  assumes "tbl_validateClientID t sid = None"
  shows "tbl_idle t sid" and "\<not> tbl_idle (fst (tbl_admitClient w t h sid s limit)) sid"
    and "tbl_idle (fst (tbl_admitClient w t h sid s limit)) j \<Longrightarrow> tbl_idle t j"
    and "j \<noteq> sid \<Longrightarrow> tbl_lookup (fst (tbl_admitClient w t h sid s limit)) j = tbl_lookup t j"
  using assms
  by (auto simp: validateClientID_None_iff tbl_admitClient_def tbl_idle_def tbl_lookup_def Let_def
      aput_def split: if_splits)

lemma reservePush_SomeD:
  "tbl_reservePush w t h s limit = (t', h', Some sid) \<Longrightarrow>
     sid = nextPush t
     \<and> t' = t\<lparr>nextPush := nextPush t + 2, streams := aput sid s (streams t), nPush := nPush t + 1\<rparr>
     \<and> h' = h(s := (h s)\<lparr>ss_id := sid, ss_sendWindow := sint w\<rparr>)"
  by (auto simp: tbl_reservePush_def Let_def split: if_splits)

lemma reservePush_ids:
  assumes "tbl_wf t" and "pushRoom t" and "tbl_reservePush w t h s limit = (t', h', Some sid)"
  shows "tbl_idle t sid" and "\<not> tbl_idle t' sid" and "tbl_idle t' j \<Longrightarrow> tbl_idle t j"
    and "j \<noteq> sid \<Longrightarrow> tbl_lookup t' j = tbl_lookup t j"
  using assms(1) reservePush_SomeD [OF assms(3)] pushRoom_less [OF assms(2)]
  by (auto simp: tbl_wf_def tbl_idle_def tbl_lookup_def aput_def split: if_splits)

lemma tbl_opensE:
  assumes "tbl_opens t sid t'"
  obtains (client) w h s limit
    where "tbl_validateClientID t sid = None" "t' = fst (tbl_admitClient w t h sid s limit)"
  | (push) w h s limit h'
    where "pushRoom t" "tbl_reservePush w t h s limit = (t', h', Some sid)"
  using assms by (auto simp: tbl_opens_def)

lemma tbl_opens_idle:
  assumes "tbl_wf t" and "tbl_opens t sid t'"
  shows "tbl_idle t sid \<and> \<not> tbl_idle t' sid"
  using assms(2) by (cases rule: tbl_opensE) (use admitClient_ids reservePush_ids [OF assms(1)] in \<open>simp_all\<close>)

lemma tbl_opens_mono:
  assumes "tbl_wf t" and "tbl_opens t sid t'" and "tbl_idle t' j"
  shows "tbl_idle t j"
  using assms(2,3) by (cases rule: tbl_opensE) (blast intro: admitClient_ids reservePush_ids [OF assms(1)])+

lemma tbl_opens_other:
  assumes "tbl_wf t" and "tbl_opens t sid t'" and "j \<noteq> sid"
  shows "tbl_lookup t' j = tbl_lookup t j"
  using assms(2,3) by (cases rule: tbl_opensE) (use admitClient_ids(4) reservePush_ids(4) [OF assms(1)] in \<open>simp_all\<close>)

lemma tbl_opens_wf:
  assumes "tbl_wf t" and "tbl_opens t sid t'"
  shows "tbl_wf t'"
  using assms(2)
proof (cases rule: tbl_opensE)
  case (push w h s limit h')
  then show ?thesis using tbl_wf_reservePush [OF assms(1), of w h s limit] by simp
qed (simp add: tbl_wf_admitClient [OF assms(1)])

interpretation tbl: stream_registry tbl_wf tbl_idle tbl_lookup tbl_opens tbl_closes
  by unfold_locales
     (simp_all add: tbl_closes_def tbl_wf_release idle_not_live tbl_opens_wf tbl_opens_idle
       tbl_opens_mono tbl_opens_other)

section \<open>Sequences of table operations\<close>

text \<open>
  The operations as the connection issues them: a client stream is validated and then admitted
  (conn/server\_handler.go, \<open>registerStream\<close>), with the peer window of the moment.
\<close>

datatype tableOp =
    OpenClient uint32 sref int uint32   \<comment> \<open>identifier, stream, advertised limit, peer window\<close>
  | Reserve sref uint32 uint32          \<comment> \<open>stream, peer's limit, peer window\<close>
  | Release uint32
  | Drain

fun tbl_exec :: "tableOp \<Rightarrow> streamTable \<times> store \<Rightarrow> streamTable \<times> store" where
  "tbl_exec (OpenClient sid s limit w) (t, h) =
     (if tbl_validateClientID t sid = None
      then let (t', h', ok) = tbl_admitClient w t h sid s limit in (t', h') else (t, h))"
| "tbl_exec (Reserve s limit w) (t, h) =
     (let (t', h', r) = tbl_reservePush w t h s limit in (t', h'))"
| "tbl_exec (Release sid) (t, h) = (fst (tbl_release t sid), h)"
| "tbl_exec Drain (t, h) = (fst (tbl_drain t), h)"

definition tbl_execs :: "tableOp list \<Rightarrow> streamTable \<times> store \<Rightarrow> streamTable \<times> store" where
  "tbl_execs ops th = fold tbl_exec ops th"

lemma tbl_execs_simps [simp]:
  "tbl_execs [] th = th" "tbl_execs (op # ops) th = tbl_execs ops (tbl_exec op th)"
  "tbl_execs (ops @ ops') th = tbl_execs ops' (tbl_execs ops th)"
  by (simp_all add: tbl_execs_def)

text \<open>Room for \<open>n\<close> more operations before the push identifiers would run out.\<close>

definition room :: "nat \<Rightarrow> streamTable \<Rightarrow> bool" where
  "room n t \<longleftrightarrow> unat (nextPush t) + 2 * n < 4294967294"

lemma room_pushRoom: "room n t \<Longrightarrow> pushRoom t"
  by (simp add: room_def pushRoom_def word_less_nat_alt)

lemma nextPush_exec:
  "room (Suc n) t \<Longrightarrow> room n (fst (tbl_exec op (t, h)))"
proof (cases op)
  case (Reserve s limit w)
  assume "room (Suc n) t"
  then show ?thesis using Reserve
    by (auto simp: tbl_reservePush_def Let_def room_def unat_word_ariths)
qed (auto simp: room_def tbl_admitClient_def tbl_drain_def Let_def)

lemma tbl_exec_wf:
  assumes "tbl_wf t" and "pushRoom t"
  shows "tbl_wf (fst (tbl_exec op (t, h)))"
proof (cases op)
  case (OpenClient sid s limit w)
  then show ?thesis using tbl_wf_admitClient [OF assms(1), of sid w h s limit] assms(1)
    by (auto simp: case_prod_beta)
next
  case (Reserve s limit w)
  then show ?thesis using tbl_wf_reservePush [OF assms, of w h s limit] by (simp add: case_prod_beta)
qed (simp_all add: assms tbl_wf_release tbl_wf_drain)

text \<open>Every operation but \<open>Drain\<close> is a step of the registry, or changes nothing.\<close>

lemma reservePush_None: "tbl_reservePush w t h s limit = (t', h', None) \<Longrightarrow> t' = t \<and> h' = h"
  by (auto simp: tbl_reservePush_def Let_def split: if_splits)

lemma tbl_exec_step:
  assumes "pushRoom t" and "op \<noteq> Drain"
  shows "fst (tbl_exec op (t, h)) = t \<or> tbl.step t (fst (tbl_exec op (t, h)))"
proof (cases op)
  case (OpenClient i s limit w)
  moreover have "tbl_opens t i (fst (tbl_admitClient w t h i s limit))" if "tbl_validateClientID t i = None"
    using that unfolding tbl_opens_def by blast
  ultimately show ?thesis by (auto simp: tbl.step_def case_prod_beta)
next
  case (Reserve s limit w)
  obtain t' h' r where r: "tbl_reservePush w t h s limit = (t', h', r)" by (metis surj_pair)
  moreover have "\<exists>i. tbl_opens t i t'" if "r = Some j" for j
    using r that assms(1) unfolding tbl_opens_def by blast
  ultimately show ?thesis using Reserve reservePush_None [of w t h s limit t' h']
    by (cases r) (auto simp: tbl.step_def)
qed (use assms in \<open>auto simp: tbl.step_def tbl_closes_def\<close>)

lemma tbl_exec_closed:
  assumes "tbl_wf t" and "pushRoom t" and "\<not> tbl_idle t sid" and "tbl_lookup t sid = None"
  shows "\<not> tbl_idle (fst (tbl_exec op (t, h))) sid \<and> tbl_lookup (fst (tbl_exec op (t, h))) sid = None"
proof (cases "op = Drain")
  case False
  then show ?thesis using tbl_exec_step [OF assms(2), of op h] tbl.closed_step [OF assms(1), of _ sid] assms(3,4)
    by (auto simp: tbl.closed_def)
qed (use assms in simp)

lemma tbl_execs_wf:
  "tbl_wf t \<Longrightarrow> room (length ops) t \<Longrightarrow> tbl_wf (fst (tbl_execs ops (t, h)))"
proof (induction ops arbitrary: t h)
  case (Cons op ops)
  then show ?case
    using tbl_exec_wf [of t op h] nextPush_exec [of "length ops" t op h] room_pushRoom
    by (cases "tbl_exec op (t, h)") auto
qed simp

lemma tbl_execs_closed:
  "tbl_wf t \<Longrightarrow> room (length ops) t \<Longrightarrow> \<not> tbl_idle t sid \<Longrightarrow> tbl_lookup t sid = None \<Longrightarrow>
     \<not> tbl_idle (fst (tbl_execs ops (t, h))) sid \<and> tbl_lookup (fst (tbl_execs ops (t, h))) sid = None"
proof (induction ops arbitrary: t h)
  case (Cons op ops)
  then have "pushRoom t" using room_pushRoom by blast
  with Cons show ?case
    using tbl_exec_wf [of t op h] tbl_exec_closed [of t sid op h] nextPush_exec [of "length ops" t op h]
    by (cases "tbl_exec op (t, h)") auto
qed simp

lemma room_execs:
  "room (length ops + n) t \<Longrightarrow> room n (fst (tbl_execs ops (t, h)))"
proof (induction ops arbitrary: t h)
  case (Cons op ops)
  then show ?case using nextPush_exec [of "length ops + n" t op h]
    by (cases "tbl_exec op (t, h)") auto
qed simp

lemma room_new: "n < 2147483646 \<Longrightarrow> room n newStreamTable"
  by (simp add: room_def newStreamTable_def)

text \<open>The odd identifiers the client presented, and the highest of them.\<close>

fun presented :: "tableOp \<Rightarrow> uint32 list" where
  "presented (OpenClient sid s limit w) = (if isClientID sid then [sid] else [])"
| "presented _ = []"

lemma maxClient_exec:
  "maxClient (fst (tbl_exec op (t, h))) = fold max (presented op) (maxClient t)"
  by (cases op)
     (auto simp: validateClientID_None_iff tbl_idle_def tbl_admitClient_def tbl_reservePush_def
       tbl_drain_def Let_def max_def)

lemma maxClient_execs:
  "maxClient (fst (tbl_execs ops (t, h))) = fold max (concat (map presented ops)) (maxClient t)"
proof (induction ops arbitrary: t h)
  case (Cons op ops)
  show ?case
    using Cons [of "fst (tbl_exec op (t, h))" "snd (tbl_exec op (t, h))"] by (simp add: maxClient_exec)
qed simp

text \<open>Every admission of the sequence runs under the limit \<open>limit\<close>.\<close>

fun underLimit :: "int \<Rightarrow> tableOp \<Rightarrow> bool" where
  "underLimit limit (OpenClient sid s limit' w) \<longleftrightarrow> limit' = limit"
| "underLimit limit _ \<longleftrightarrow> True"

lemma nClient_exec:
  "0 < limit \<Longrightarrow> underLimit limit op \<Longrightarrow> nClient t \<le> limit \<Longrightarrow>
     nClient (fst (tbl_exec op (t, h))) \<le> limit"
  by (cases op)
     (auto simp: tbl_admitClient_def tbl_reservePush_def tbl_release_def tbl_drain_def Let_def
       split: option.splits)

lemma nClient_execs:
  "0 < limit \<Longrightarrow> list_all (underLimit limit) ops \<Longrightarrow> nClient t \<le> limit \<Longrightarrow>
     nClient (fst (tbl_execs ops (t, h))) \<le> limit"
proof (induction ops arbitrary: t h)
  case (Cons op ops)
  then show ?case using nClient_exec [of limit op t h]
    by (cases "tbl_exec op (t, h)") auto
qed simp

section \<open>Properties\<close>


definition sampleOps :: "tableOp list" where
  "sampleOps = [OpenClient 1 0 2 65535, OpenClient 5 1 2 65535, OpenClient 7 2 2 65535,
     Reserve 3 noStreamLimit 65535, Release 1, OpenClient 3 4 2 65535]"




end
