(* ===== verification/PeerSettings.thy ===== *)
theory PeerSettings
  imports StreamTable
begin

text \<open>
  SETTINGS: merging, lookup and validation of the peer's values (conn/server\_ops.go and
  conn/server\_conn.go), the values this server advertises (\<open>AdvertisedSettings\<close>) and the
  connection options derived from them (\<open>ServerConnOptions\<close>). \<open>adjustSendWindow\<close> is the closure
  \<open>applyPeerSettings\<close> hands to the stream table.
\<close>

section \<open>The peer's settings\<close>

definition connInitialRecvWindow :: uint32 where "connInitialRecvWindow = 65535"
definition recvWindowRefundThreshold :: uint32 where "recvWindowRefundThreshold = 32768"

fun settingValue :: "SettingsParams \<Rightarrow> SettingID \<Rightarrow> uint32 \<Rightarrow> uint32" where
  "settingValue [] sid d = d"
| "settingValue ((i, v) # ps) sid d = (if i = sid then v else settingValue ps sid d)"

text \<open>The six identifiers of the switch in \<open>setPeerSetting\<close>.\<close>

definition implemented :: "SettingID \<Rightarrow> bool" where
  "implemented sid \<longleftrightarrow> sid \<in> {SettingHeaderTableSize, SettingEnablePush, SettingMaxConcurrentStreams,
     SettingInitialWindowSize, SettingMaxFrameSize, SettingMaxHeaderListSize}"

fun setFirst :: "SettingsParams \<Rightarrow> SettingID \<Rightarrow> uint32 \<Rightarrow> SettingsParams" where
  "setFirst [] sid v = []"
| "setFirst ((i, w) # ps) sid v = (if i = sid then (i, v) # ps else (i, w) # setFirst ps sid v)"

definition setPeerSetting :: "SettingsParams \<Rightarrow> SettingID \<Rightarrow> uint32 \<Rightarrow> SettingsParams" where
  "setPeerSetting params sid v =
     (if \<not> implemented sid then params
      else if sid \<in> set (akeys params) then setFirst params sid v
      else if length params < 16 then params @ [(sid, v)]
      else params)"

text \<open>The loop both \<open>applyPeerSettings\<close> and the handshake run over a received frame.\<close>

definition mergeSettings :: "SettingsParams \<Rightarrow> SettingsParams \<Rightarrow> SettingsParams" where
  "mergeSettings params s = fold (\<lambda>(sid, v) ps. setPeerSetting ps sid v) s params"

fun validatePeerSettings :: "SettingsParams \<Rightarrow> err option" where
  "validatePeerSettings [] = None"
| "validatePeerSettings ((sid, v) # ps) =
     (case sid of
        SettingEnablePush \<Rightarrow>
          if v > 1 then Some (connError ErrCodeProtocolError ''SETTINGS_ENABLE_PUSH must be 0 or 1'')
          else validatePeerSettings ps
      | SettingInitialWindowSize \<Rightarrow>
          if uint v > maxWindow
          then Some (connError ErrCodeFlowControlError ''SETTINGS_INITIAL_WINDOW_SIZE exceeds 2^31-1'')
          else validatePeerSettings ps
      | SettingMaxFrameSize \<Rightarrow>
          if v < 16384 \<or> v > 16777215
          then Some (connError ErrCodeProtocolError ''SETTINGS_MAX_FRAME_SIZE out of range [16384, 16777215]'')
          else validatePeerSettings ps
      | _ \<Rightarrow> validatePeerSettings ps)"

text \<open>The adjustment of one stream's send window (RFC 9113 section 6.9.2).\<close>

definition adjustSendWindow :: "ServerStream \<Rightarrow> int \<Rightarrow> ServerStream \<times> err option" where
  "adjustSendWindow ss delta =
     (let newWin = ss_sendWindow ss + delta in
      if newWin > maxWindow
      then (ss, Some (connError ErrCodeFlowControlError
                        ''SETTINGS_INITIAL_WINDOW_SIZE delta overflowed stream send window''))
      else (ss\<lparr>ss_sendWindow := int32 newWin\<rparr>, None))"

section \<open>What this server advertises\<close>

record AdvertisedSettings =
  HeaderTableSize :: uint32
  MaxConcurrentStreams :: uint32
  InitialWindowSize :: uint32
  MaxFrameSize :: uint32
  MaxHeaderListSize :: uint32

definition as_defaulted :: "AdvertisedSettings \<Rightarrow> AdvertisedSettings" where
  "as_defaulted s =
     (let s = (if HeaderTableSize s = 0 then s\<lparr>HeaderTableSize := 4096\<rparr> else s);
          s = (if MaxConcurrentStreams s = 0 then s\<lparr>MaxConcurrentStreams := 100\<rparr> else s);
          s = (if InitialWindowSize s = 0 then s\<lparr>InitialWindowSize := 65535\<rparr>
               else if InitialWindowSize s > 2147483647 then s\<lparr>InitialWindowSize := 2147483647\<rparr> else s)
      in if MaxFrameSize s < 16384 then s\<lparr>MaxFrameSize := 16384\<rparr>
         else if MaxFrameSize s > 16777215 then s\<lparr>MaxFrameSize := 16777215\<rparr> else s)"

definition encodeAdvertised :: "AdvertisedSettings \<Rightarrow> SettingsParams" where
  "encodeAdvertised a =
     [(SettingHeaderTableSize, HeaderTableSize a), (SettingEnablePush, 0),
      (SettingMaxConcurrentStreams, MaxConcurrentStreams a),
      (SettingInitialWindowSize, InitialWindowSize a), (SettingMaxFrameSize, MaxFrameSize a)]
     @ (if MaxHeaderListSize a \<noteq> 0 then [(SettingMaxHeaderListSize, MaxHeaderListSize a)] else [])"

text \<open>\<open>ServerConnOptions\<close>; durations are nanoseconds.\<close>

record UpgradedRequest =
  upHeaders :: "HeaderField list"

record ServerConnOptions =
  advSettings :: AdvertisedSettings
  StreamEventBuffer :: int
  KeepaliveInterval :: int
  KeepaliveTimeout :: int
  MaxRapidResets :: int
  HandshakeTimeout :: int
  ConnRecvWindow :: int
  optUpgradedRequest :: "UpgradedRequest option"

definition defaultHandshakeTimeout :: int where "defaultHandshakeTimeout = 10000000000"
definition defaultStreamEventBuffer :: int where "defaultStreamEventBuffer = 8"
definition rapidResetFloor :: int where "rapidResetFloor = 100"
definition maxAcceptQueueDepth :: uint32 where "maxAcceptQueueDepth = 1024"

definition acceptQueueDepth :: "ServerConnOptions \<Rightarrow> nat" where
  "acceptQueueDepth o' =
     (let n = MaxConcurrentStreams (advSettings o') in
      if n = 0 \<or> n > maxAcceptQueueDepth then unat maxAcceptQueueDepth else unat n)"

definition opts_defaulted :: "ServerConnOptions \<Rightarrow> ServerConnOptions" where
  "opts_defaulted o0 =
     (let o1 = o0\<lparr>advSettings := as_defaulted (advSettings o0)\<rparr>;
          o2 = (if StreamEventBuffer o1 \<le> 0 then o1\<lparr>StreamEventBuffer := defaultStreamEventBuffer\<rparr> else o1);
          o3 = (if MaxRapidResets o2 = 0
                then let budget = uint (MaxConcurrentStreams (advSettings o2)) * 4;
                         budget = (if budget < rapidResetFloor then rapidResetFloor else budget)
                     in o2\<lparr>MaxRapidResets := budget\<rparr>
                else o2)
      in if HandshakeTimeout o3 = 0 then o3\<lparr>HandshakeTimeout := defaultHandshakeTimeout\<rparr> else o3)"

definition rapidResetBudget :: "ServerConnOptions \<Rightarrow> int" where
  "rapidResetBudget o' = (if MaxRapidResets o' < 0 then 0 else MaxRapidResets o')"

definition effectiveConnRecvWindow :: "ServerConnOptions \<Rightarrow> int" where
  "effectiveConnRecvWindow o' =
     (if ConnRecvWindow o' \<le> uint connInitialRecvWindow then uint connInitialRecvWindow
      else let v = ConnRecvWindow o'; v = (if v > maxWindow then maxWindow else v) in int32 v)"

section \<open>Lookup and merge\<close>

lemma settingValue_map_of: "settingValue ps sid d = (case map_of ps sid of None \<Rightarrow> d | Some v \<Rightarrow> v)"
  by (induction ps sid d rule: settingValue.induct) auto

lemma akeys_setFirst [simp]: "akeys (setFirst ps sid v) = akeys ps"
  by (induction ps sid v rule: setFirst.induct) auto

lemma map_of_setFirst:
  "map_of ps sid \<noteq> None \<Longrightarrow> map_of (setFirst ps sid v) x = (if x = sid then Some v else map_of ps x)"
  by (induction ps sid v rule: setFirst.induct) auto

text \<open>Only implemented identifiers are stored, each once: then there are at most six.\<close>

definition settings_wf :: "SettingsParams \<Rightarrow> bool" where
  "settings_wf ps \<longleftrightarrow> distinct (akeys ps) \<and> list_all implemented (akeys ps)"

lemma implemented_six: "{sid. implemented sid} = {SettingHeaderTableSize, SettingEnablePush,
    SettingMaxConcurrentStreams, SettingInitialWindowSize, SettingMaxFrameSize, SettingMaxHeaderListSize}"
  by (auto simp: implemented_def)

lemma settings_wf_length:
  assumes "settings_wf ps"
  shows "length ps \<le> 6"
proof -
  have "set (akeys ps) \<subseteq> {sid. implemented sid}"
    using assms by (auto simp: settings_wf_def list_all_iff)
  then have "card (set (akeys ps)) \<le> card {sid. implemented sid}"
    by (intro card_mono) (simp_all only: implemented_six finite.intros)
  also have "card {sid. implemented sid} = 6" by (simp add: implemented_six)
  finally show ?thesis using assms distinct_card [of "akeys ps"] by (simp add: settings_wf_def)
qed

lemma setPeerSetting_wf [wf_simps]: "settings_wf ps \<Longrightarrow> settings_wf (setPeerSetting ps sid v)"
  by (auto simp: settings_wf_def setPeerSetting_def)

lemma map_of_setPeerSetting:
  assumes "settings_wf ps"
  shows "map_of (setPeerSetting ps sid v) x =
           (if implemented sid \<and> x = sid then Some v else map_of ps x)"
proof -
  have len: "length ps < 16" using settings_wf_length [OF assms] by simp
  show ?thesis
  proof (cases "map_of ps sid")
    case None
    then have "sid \<notin> set (akeys ps)" by (simp add: map_of_eq_None_iff)
    then show ?thesis using None len
      by (simp add: setPeerSetting_def map_add_def split: option.splits)
  next
    case (Some w)
    then have "sid \<in> set (akeys ps)" using map_of_eq_None_iff [of ps sid] by auto
    then show ?thesis using Some by (simp add: setPeerSetting_def map_of_setFirst)
  qed
qed

lemma mergeSettings_Cons [simp]:
  "mergeSettings ps ((sid, v) # s) = mergeSettings (setPeerSetting ps sid v) s"
  by (simp add: mergeSettings_def)

lemma mergeSettings_Nil [simp]: "mergeSettings ps [] = ps"
  by (simp add: mergeSettings_def)

lemma mergeSettings_wf [wf_simps]: "settings_wf ps \<Longrightarrow> settings_wf (mergeSettings ps s)"
  by (induction s arbitrary: ps) (auto simp: setPeerSetting_wf)

lemma map_of_mergeSettings:
  "settings_wf ps \<Longrightarrow> map_of (mergeSettings ps s) x =
     (if implemented x then case map_of (rev s) x of None \<Rightarrow> map_of ps x | Some v \<Rightarrow> Some v
      else map_of ps x)"
proof (induction s arbitrary: ps)
  case (Cons p s)
  obtain sid v where p: "p = (sid, v)" by (cases p)
  show ?case using Cons setPeerSetting_wf [OF Cons.prems, of sid v]
    by (auto simp: p map_of_setPeerSetting map_add_def split: option.splits)
qed simp

section \<open>Validation\<close>

definition setting_ok :: "SettingID \<Rightarrow> uint32 \<Rightarrow> bool" where
  "setting_ok sid v \<longleftrightarrow>
     (sid = SettingEnablePush \<longrightarrow> v \<le> 1)
     \<and> (sid = SettingInitialWindowSize \<longrightarrow> v \<le> 2147483647)
     \<and> (sid = SettingMaxFrameSize \<longrightarrow> 16384 \<le> v \<and> v \<le> 16777215)"

lemma window_gt_iff: "maxWindow < uint (v :: uint32) \<longleftrightarrow> 2147483647 < v"
  by (simp add: maxWindow_def word_less_def)

text \<open>The code and the message a violation is reported with.\<close>

definition setting_code :: "SettingID \<Rightarrow> ErrCode" where
  "setting_code sid = (if sid = SettingInitialWindowSize then ErrCodeFlowControlError else ErrCodeProtocolError)"

definition setting_msg :: "SettingID \<Rightarrow> string" where
  "setting_msg sid =
     (if sid = SettingEnablePush then ''SETTINGS_ENABLE_PUSH must be 0 or 1''
      else if sid = SettingInitialWindowSize then ''SETTINGS_INITIAL_WINDOW_SIZE exceeds 2^31-1''
      else ''SETTINGS_MAX_FRAME_SIZE out of range [16384, 16777215]'')"

lemma validate_Cons:
  "validatePeerSettings ((sid, v) # ps) =
     (if setting_ok sid v then validatePeerSettings ps
      else Some (connError (setting_code sid) (setting_msg sid)))"
  by (cases sid) (simp_all add: setting_ok_def setting_code_def setting_msg_def window_gt_iff linorder_not_less
      del: validatePeerSettings.simps add: validatePeerSettings.simps(2), auto simp: not_le)

lemma validate_None_iff: "validatePeerSettings s = None \<longleftrightarrow> (\<forall>(sid, v) \<in> set s. setting_ok sid v)"
  by (induction s) (auto simp: validate_Cons simp del: validatePeerSettings.simps(2) split: if_splits)

lemma validate_Some:
  "validatePeerSettings s = Some e \<Longrightarrow>
     \<exists>pre sid v post msg. s = pre @ (sid, v) # post \<and> (\<forall>(i, w) \<in> set pre. setting_ok i w)
        \<and> \<not> setting_ok sid v \<and> e = connError (setting_code sid) msg"
proof (induction s)
  case (Cons p ps)
  obtain sid v where p: "p = (sid, v)" by (cases p)
  show ?case
  proof (cases "setting_ok sid v")
    case True
    with Cons p obtain pre i w post msg where "ps = pre @ (i, w) # post"
      "\<forall>(i, w) \<in> set pre. setting_ok i w" "\<not> setting_ok i w" "e = connError (setting_code i) msg"
      by (auto simp: validate_Cons simp del: validatePeerSettings.simps(2))
    with p True show ?thesis by (intro exI [of _ "(sid, v) # pre"]) auto
  next
    case False
    with Cons p show ?thesis
      by (intro exI [of _ "[]"]) (auto simp: validate_Cons simp del: validatePeerSettings.simps(2))
  qed
qed simp

section \<open>The retroactive window walk\<close>

lemma adjust_walk_frame:
  "s \<notin> snd ` set l \<Longrightarrow>
     adjust_walk adj d l (h(s := x)) e =
       ((fst (adjust_walk adj d l h e))(s := x), snd (adjust_walk adj d l h e))"
proof (induction l arbitrary: h e)
  case (Cons p l)
  obtain sid r where p: "p = (sid, r)" by (cases p)
  obtain ss e1 where adj: "adj (h r) d = (ss, e1)" by (cases "adj (h r) d")
  have r: "r \<noteq> s" and l: "s \<notin> snd ` set l" using Cons.prems p by auto
  have "(h(s := x)) r = h r" using r by simp
  moreover have "(h(s := x))(r := ss) = (h(r := ss))(s := x)" using r by (intro fun_upd_twist) simp
  ultimately show ?case using Cons.IH [OF l] by (simp only: p adjust_walk.simps adj Let_def prod.case)
qed simp

lemma adjust_walk_fst_frame: "s \<notin> snd ` set l \<Longrightarrow> fst (adjust_walk adj d l h e) s = h s"
  by (induction adj d l h e rule: adjust_walk.induct) (auto simp: case_prod_beta Let_def)

lemma sint_window: "w \<le> 2147483647 \<Longrightarrow> sint (w :: uint32) = uint w"
  by (rule sint_small) (simp add: word_le_def)

lemma adjust_fresh:
  fixes oldWin newWin :: uint32
  assumes "ss_sendWindow ss = sint oldWin" and "oldWin \<le> 2147483647" and "newWin \<le> 2147483647"
  shows "adjustSendWindow ss (uint newWin - uint oldWin) = (ss\<lparr>ss_sendWindow := sint newWin\<rparr>, None)"
proof -
  have "uint newWin \<le> maxWindow" using assms(3) by (simp add: maxWindow_def word_le_def)
  moreover have "int32 (uint newWin) = uint newWin"
    using calculation order.trans [OF _ uint_ge_0 [of newWin], of "- 2147483648"]
    by (intro int32_id) (simp add: in_int32_def maxWindow_def)
  ultimately show ?thesis using assms by (simp add: adjustSendWindow_def sint_window Let_def)
qed

section \<open>Properties\<close>

text \<open>
  C19. Receiving SETTINGS is last-value-wins per implemented identifier and ignores all others
  (RFC 9113 sections 6.5.2 and 6.5.3): however many frames and however many invented identifiers
  the peer sends, a lookup afterwards gives the last value received for an implemented
  identifier and the earlier answer if there is none, and at most six of the sixteen slots are
  ever used.
\<close>

theorem settings_last_value_wins:
  assumes "settings_wf ps"
  shows "settings_wf (mergeSettings ps s) \<and> length (mergeSettings ps s) \<le> 6
         \<and> settingValue (mergeSettings ps s) sid d =
             (case map_of (rev s) sid of
                Some v \<Rightarrow> if implemented sid then v else settingValue ps sid d
              | None \<Rightarrow> settingValue ps sid d)"
  using mergeSettings_wf [OF assms, of s] settings_wf_length map_of_mergeSettings [OF assms, of s sid]
  by (auto simp: settingValue_map_of split: option.splits)

theorem settings_last_value_wins_witness:
  "settingValue (mergeSettings [] [(SettingOther 99, 5), (SettingMaxFrameSize, 20000),
      (SettingMaxFrameSize, 30000)]) SettingMaxFrameSize 16384 = 30000"
  using settings_last_value_wins [of "[]" "[(SettingOther 99, 5), (SettingMaxFrameSize, 20000),
      (SettingMaxFrameSize, 30000)]" SettingMaxFrameSize 16384]
  by (simp add: settings_wf_def implemented_def)

text \<open>
  C20. \<open>validatePeerSettings\<close> accepts a frame exactly when every value in it is within the bounds
  of RFC 9113 section 6.5.2, and otherwise reports the first offending entry with the code the
  section prescribes: FLOW\_CONTROL\_ERROR for the window, PROTOCOL\_ERROR for the others.
\<close>

theorem validatePeerSettings_rules:
  "case validatePeerSettings s of
     None \<Rightarrow> \<forall>(sid, v) \<in> set s. setting_ok sid v
   | Some e \<Rightarrow> \<exists>pre sid v post msg. s = pre @ (sid, v) # post \<and> (\<forall>(i, w) \<in> set pre. setting_ok i w)
                 \<and> \<not> setting_ok sid v \<and> e = connError (setting_code sid) msg"
  using validate_None_iff [of s] validate_Some [of s] by (cases "validatePeerSettings s") auto

theorem validatePeerSettings_rules_witness:
  "\<exists>pre sid v post msg.
     [(SettingEnablePush, 1), (SettingInitialWindowSize, 0x80000000)] = pre @ (sid, v) # post
     \<and> (\<forall>(i, w) \<in> set pre. setting_ok i w) \<and> \<not> setting_ok sid v
     \<and> connError ErrCodeFlowControlError ''SETTINGS_INITIAL_WINDOW_SIZE exceeds 2^31-1''
       = connError (setting_code sid) msg"
  using validatePeerSettings_rules [of "[(SettingEnablePush, 1), (SettingInitialWindowSize, 0x80000000)]"]
  by (simp add: maxWindow_def)

text \<open>
  What the server advertises is legal and says what the options mean: the frame built from
  the defaulted settings passes the validation the server itself applies to a peer, never
  enables push, and a peer that merges it reads back every configured value.
\<close>

lemma advertised_settings_roundtrip:
  fixes a :: AdvertisedSettings
  defines "p \<equiv> mergeSettings [] (encodeAdvertised (as_defaulted a))"
  shows "validatePeerSettings (encodeAdvertised (as_defaulted a)) = None
         \<and> settingValue p SettingEnablePush 1 = 0
         \<and> settingValue p SettingHeaderTableSize 4096 = HeaderTableSize (as_defaulted a)
         \<and> settingValue p SettingMaxConcurrentStreams d = MaxConcurrentStreams (as_defaulted a)
         \<and> settingValue p SettingInitialWindowSize 65535 = InitialWindowSize (as_defaulted a)
         \<and> settingValue p SettingMaxFrameSize 16384 = MaxFrameSize (as_defaulted a)
         \<and> settingValue p SettingMaxHeaderListSize 0 = MaxHeaderListSize (as_defaulted a)"
proof -
  have wf: "settings_wf []" by (simp add: settings_wf_def)
  have "InitialWindowSize (as_defaulted a) \<le> 2147483647"
    "16384 \<le> MaxFrameSize (as_defaulted a)" "MaxFrameSize (as_defaulted a) \<le> 16777215"
    by (auto simp: as_defaulted_def Let_def)
  then have "validatePeerSettings (encodeAdvertised (as_defaulted a)) = None"
    unfolding validate_None_iff by (auto simp: encodeAdvertised_def setting_ok_def)
  moreover have "map_of p x = (if implemented x then map_of (rev (encodeAdvertised (as_defaulted a))) x else None)" for x
    unfolding p_def by (simp add: map_of_mergeSettings [OF wf] split: option.splits)
  ultimately show ?thesis
    by (simp add: settingValue_map_of implemented_def)
       (simp add: encodeAdvertised_def)
qed

text \<open>
  C15. Admitting a stream and changing SETTINGS\_INITIAL\_WINDOW\_SIZE commute (RFC 9113 section
  6.9.2): whether a stream is admitted under the old value and then walked, or the walk runs
  first and it is admitted under the new value, the resulting table, all windows and the error
  are the same, and the stream starts with the new value. So the delta is neither lost nor
  applied twice.
\<close>

theorem admission_settings_commute:
  assumes "tbl_wf t" and "tbl_validateClientID t sid = None" and "s \<notin> snd ` set (streams t)"
    and "oldWin \<le> 2147483647" and "newWin \<le> 2147483647"
    and first: "tbl_admitClient oldWin t h sid s limit = (t1, h1, True)"
    and walk1: "tbl_applyInitialWindow oldWin newWin adjustSendWindow t1 h1 = (h2, e)"
    and walk2: "tbl_applyInitialWindow oldWin newWin adjustSendWindow t h = (h1', e')"
  shows "tbl_admitClient newWin t h1' sid s limit = (t1, h2, True) \<and> e = e'
         \<and> ss_sendWindow (h2 s) = uint newWin"
proof -
  have fresh: "sid \<notin> fst ` set (streams t)"
    using assms(1,2) tbl_wf_idle_notin by (simp add: validateClientID_None_iff)
  have t1: "streams t1 = (sid, s) # streams t" and h1: "h1 = h(s := (h s)\<lparr>ss_sendWindow := sint oldWin\<rparr>)"
    using first fresh by (auto simp: tbl_admitClient_def Let_def aput_def split: if_splits)
  have admit: "tbl_admitClient newWin t h' sid s limit = (t1, h'(s := (h' s)\<lparr>ss_sendWindow := sint newWin\<rparr>), True)" for h'
    using first by (auto simp: tbl_admitClient_def Let_def split: if_splits)
  show ?thesis
  proof (cases "oldWin = newWin")
    case True
    then show ?thesis using walk1 walk2 admit h1 sint_window [OF assms(5)]
      by (auto simp: tbl_applyInitialWindow_def)
  next
    case False
    let ?d = "uint newWin - uint oldWin"
    have w2: "(h1', e') = adjust_walk adjustSendWindow ?d (streams t) h None"
      using False walk2 by (simp add: tbl_applyInitialWindow_def Let_def)
    have "h1' s = h s" using w2 adjust_walk_fst_frame [OF assms(3)] by (metis fst_conv)
    moreover have "(h2, e) = (h1'(s := (h s)\<lparr>ss_sendWindow := sint newWin\<rparr>), e')"
      using walk1 False t1 h1 w2 adjust_fresh [OF _ assms(4,5), of "h1 s"]
        adjust_walk_frame [OF assms(3), of adjustSendWindow ?d h "(h s)\<lparr>ss_sendWindow := sint newWin\<rparr>" None]
      by (simp add: tbl_applyInitialWindow_def Let_def) (metis fst_conv snd_conv)
    ultimately show ?thesis using admit [of h1'] sint_window [OF assms(5)] by simp
  qed
qed

theorem admission_settings_commute_witness:
  "\<exists>(h1 :: store) h2 t1.
     tbl_admitClient 65535 newStreamTable (\<lambda>_. newServerStream 1 8 65535) 1 0 100 = (t1, h1, True)
     \<and> tbl_applyInitialWindow 65535 10 adjustSendWindow t1 h1 = (h2, None)
     \<and> ss_sendWindow (h2 0) = uint (10 :: uint32)"
proof -
  let ?h = "\<lambda>_. newServerStream 1 8 65535"
  obtain t1 h1 where a: "tbl_admitClient 65535 newStreamTable ?h 1 0 100 = (t1, h1, True)"
    by (simp add: tbl_admitClient_def newStreamTable_def)
  obtain h2 e where w: "tbl_applyInitialWindow 65535 10 adjustSendWindow t1 h1 = (h2, e)" by (metis surj_pair)
  have w': "tbl_applyInitialWindow 65535 10 adjustSendWindow newStreamTable ?h = (?h, None)"
    by (simp add: tbl_applyInitialWindow_def newStreamTable_def)
  have "tbl_validateClientID newStreamTable 1 = None"
    by (simp add: tbl_validateClientID_def newStreamTable_def isClientID_def)
  from admission_settings_commute [OF tbl_wf_new this _ _ _ a w w'] a w show ?thesis
    by (simp add: newStreamTable_def)
qed

end
