(* ===== verification/FcWaiters.thy ===== *)
theory FcWaiters
  imports ConnTypes
begin

text \<open>
  Writers parked for send credit (conn/fc\_waiters.go). Waiter nodes live in a heap and are
  linked into two doubly linked intrusive lists, the connection's and their stream's, exactly as
  the code links them: \<open>fcHead\<close> of the connection, \<open>fcHead\<close> of every stream, the four link fields
  and the counter \<open>fcConnBlocked\<close>. The walks follow the links, so they are partial functions:
  that they end is a theorem here.

  \<open>fc_rep st cs\<close> relates such a state to the list \<open>cs\<close> of the parked writers, most recent
  first, and every operation is shown to be an operation on that list. The locale \<open>parking_lot\<close>
  states this contract and is interpreted on the pointer implementation; the connection model
  uses the list.
\<close>

section \<open>Waiters and the pointer operations\<close>

type_synonym wref = nat

record fcWaiter =
  w_ss :: sref
  w_ready :: bool          \<comment> \<open>the one slot of the wakeup channel\<close>
  w_needConn :: bool
  w_queued :: bool
  w_connPrev :: "wref option"
  w_connNext :: "wref option"
  w_strPrev :: "wref option"
  w_strNext :: "wref option"

record fcState =
  fcHeap :: "wref \<Rightarrow> fcWaiter"
  fcHead :: "wref option"
  strHead :: "sref \<Rightarrow> wref option"
  fcConnBlocked :: int

definition wupd :: "wref \<Rightarrow> (fcWaiter \<Rightarrow> fcWaiter) \<Rightarrow> fcState \<Rightarrow> fcState" where
  "wupd w f st = st\<lparr>fcHeap := (fcHeap st)(w := f (fcHeap st w))\<rparr>"

text \<open>The two halves of \<open>fcPark\<close> and of \<open>fcUnpark\<close>: the connection's list, the stream's list.\<close>

definition connLink :: "wref \<Rightarrow> fcState \<Rightarrow> fcState" where
  "connLink w st =
     (let hd = fcHead st;
          st = wupd w (\<lambda>x. x\<lparr>w_connPrev := None, w_connNext := hd\<rparr>) st;
          st = (case hd of None \<Rightarrow> st | Some h \<Rightarrow> wupd h (w_connPrev_update (\<lambda>_. Some w)) st)
      in st\<lparr>fcHead := Some w\<rparr>)"

definition strLink :: "wref \<Rightarrow> fcState \<Rightarrow> fcState" where
  "strLink w st =
     (let ss = w_ss (fcHeap st w);
          hd = strHead st ss;
          st = wupd w (\<lambda>x. x\<lparr>w_strPrev := None, w_strNext := hd\<rparr>) st;
          st = (case hd of None \<Rightarrow> st | Some h \<Rightarrow> wupd h (w_strPrev_update (\<lambda>_. Some w)) st)
      in st\<lparr>strHead := (strHead st)(ss := Some w)\<rparr>)"

definition fcPark :: "wref \<Rightarrow> fcState \<Rightarrow> fcState" where
  "fcPark w st0 =
     (if w_queued (fcHeap st0 w) then st0
      else let st = strLink w (connLink w (wupd w (w_queued_update (\<lambda>_. True)) st0))
           in if w_needConn (fcHeap st w) then st\<lparr>fcConnBlocked := fcConnBlocked st + 1\<rparr> else st)"

definition connUnlink :: "wref \<Rightarrow> fcState \<Rightarrow> fcState" where
  "connUnlink w st =
     (let prv = w_connPrev (fcHeap st w); nxt = w_connNext (fcHeap st w);
          st = (case prv of Some p \<Rightarrow> wupd p (w_connNext_update (\<lambda>_. nxt)) st
                | None \<Rightarrow> st\<lparr>fcHead := nxt\<rparr>);
          st = (case nxt of Some n \<Rightarrow> wupd n (w_connPrev_update (\<lambda>_. prv)) st | None \<Rightarrow> st)
      in wupd w (\<lambda>x. x\<lparr>w_connPrev := None, w_connNext := None\<rparr>) st)"

definition strUnlink :: "wref \<Rightarrow> fcState \<Rightarrow> fcState" where
  "strUnlink w st =
     (let prv = w_strPrev (fcHeap st w); nxt = w_strNext (fcHeap st w); ss = w_ss (fcHeap st w);
          st = (case prv of Some p \<Rightarrow> wupd p (w_strNext_update (\<lambda>_. nxt)) st
                | None \<Rightarrow> st\<lparr>strHead := (strHead st)(ss := nxt)\<rparr>);
          st = (case nxt of Some n \<Rightarrow> wupd n (w_strPrev_update (\<lambda>_. prv)) st | None \<Rightarrow> st)
      in wupd w (\<lambda>x. x\<lparr>w_strPrev := None, w_strNext := None\<rparr>) st)"

definition fcUnpark :: "wref \<Rightarrow> fcState \<Rightarrow> fcState" where
  "fcUnpark w st0 =
     (if \<not> w_queued (fcHeap st0 w) then st0
      else let st = strUnlink w (connUnlink w (wupd w (w_queued_update (\<lambda>_. False)) st0))
           in if w_needConn (fcHeap st w) then st\<lparr>fcConnBlocked := fcConnBlocked st - 1\<rparr> else st)"

definition fcWake :: "wref \<Rightarrow> fcState \<Rightarrow> fcState" where
  "fcWake w st = wupd w (w_ready_update (\<lambda>_. True)) (fcUnpark w st)"

text \<open>The three walks: the link is read before the waiter is unlinked.\<close>

partial_function (option) fcWakeAll_loop :: "wref option \<Rightarrow> fcState \<Rightarrow> fcState option" where
  "fcWakeAll_loop p st =
     (case p of None \<Rightarrow> Some st
      | Some w \<Rightarrow> let nxt = w_connNext (fcHeap st w) in fcWakeAll_loop nxt (fcWake w st))"

definition fcWakeAll :: "fcState \<Rightarrow> fcState option" where
  "fcWakeAll st = fcWakeAll_loop (fcHead st) st"

partial_function (option) fcWakeConn_loop :: "wref option \<Rightarrow> fcState \<Rightarrow> fcState option" where
  "fcWakeConn_loop p st =
     (case p of None \<Rightarrow> Some st
      | Some w \<Rightarrow>
          let nxt = w_connNext (fcHeap st w)
          in fcWakeConn_loop nxt (if w_needConn (fcHeap st w) then fcWake w st else st))"

definition fcWakeConn :: "fcState \<Rightarrow> fcState option" where
  "fcWakeConn st = (if fcConnBlocked st = 0 then Some st else fcWakeConn_loop (fcHead st) st)"

partial_function (option) fcWakeStream_loop :: "wref option \<Rightarrow> fcState \<Rightarrow> fcState option" where
  "fcWakeStream_loop p st =
     (case p of None \<Rightarrow> Some st
      | Some w \<Rightarrow> let nxt = w_strNext (fcHeap st w) in fcWakeStream_loop nxt (fcWake w st))"

definition fcWakeStream :: "sref \<Rightarrow> fcState \<Rightarrow> fcState option" where
  "fcWakeStream ss st = fcWakeStream_loop (strHead st ss) st"

section \<open>Doubly linked lists\<close>

definition hd_opt :: "'a list \<Rightarrow> 'a option" where
  "hd_opt xs = (case xs of [] \<Rightarrow> None | x # _ \<Rightarrow> Some x)"

lemma hd_opt_simps [simp]: "hd_opt [] = None" "hd_opt (x # xs) = Some x"
  by (simp_all add: hd_opt_def)

text \<open>\<open>linked nxt prv q xs\<close>: following \<open>nxt\<close> from the head gives \<open>xs\<close>, \<open>prv\<close> leads back, to \<open>q\<close> first.\<close>

fun linked :: "('a \<Rightarrow> 'a option) \<Rightarrow> ('a \<Rightarrow> 'a option) \<Rightarrow> 'a option \<Rightarrow> 'a list \<Rightarrow> bool" where
  "linked nxt prv q [] \<longleftrightarrow> True"
| "linked nxt prv q (x # xs) \<longleftrightarrow> prv x = q \<and> nxt x = hd_opt xs \<and> linked nxt prv (Some x) xs"

lemma linked_cong:
  "(\<And>x. x \<in> set xs \<Longrightarrow> nxt x = nxt' x \<and> prv x = prv' x) \<Longrightarrow> linked nxt prv q xs = linked nxt' prv' q xs"
  by (induction xs arbitrary: q) auto

lemma linked_push:
  assumes "linked nxt prv None xs" and "x \<notin> set xs" and "distinct xs"
    and "\<forall>y \<in> set (x # xs). nxt' y = (if y = x then hd_opt xs else nxt y)"
    and "\<forall>y \<in> set (x # xs). prv' y = (if y = x then None else if hd_opt xs = Some y then Some x else prv y)"
  shows "linked nxt' prv' None (x # xs)"
proof (cases xs)
  case Nil
  then show ?thesis using assms by simp
next
  case (Cons h ys)
  have "linked nxt' prv' (Some h) ys = linked nxt prv (Some h) ys"
    using assms Cons by (intro linked_cong) auto
  then show ?thesis using assms Cons by auto
qed

lemma linked_append:
  "linked nxt prv q (as @ x # bs) \<Longrightarrow> linked nxt prv (if as = [] then q else Some (last as)) (x # bs)"
proof (induction as arbitrary: q)
  case (Cons a as)
  then have "linked nxt prv (Some a) (as @ x # bs)" by simp
  from Cons.IH [OF this] show ?case by (cases "as = []") simp_all
qed simp

lemma linked_mid:
  assumes "linked nxt prv q (as @ x # bs)"
  shows "nxt x = hd_opt bs" and "prv x = (if as = [] then q else Some (last as))"
  using linked_append [OF assms] by simp_all

lemma linked_remove_aux:
  assumes "linked nxt prv q (as @ x # bs)" and "distinct (as @ x # bs)"
    and "\<forall>y \<in> set (as @ bs). nxt' y = (if as \<noteq> [] \<and> y = last as then nxt x else nxt y)"
    and "\<forall>y \<in> set (as @ bs). prv' y = (if bs \<noteq> [] \<and> y = hd bs then prv x else prv y)"
  shows "linked nxt' prv' q (as @ bs)"
  using assms
proof (induction as arbitrary: q)
  case Nil
  show ?case
  proof (cases bs)
    case (Cons b bs')
    have "linked nxt' prv' (Some b) bs' = linked nxt prv (Some b) bs'"
      by (rule linked_cong) (use Nil Cons in auto)
    then show ?thesis using Nil Cons by simp
  qed simp
next
  case (Cons a as)
  have "linked nxt' prv' (Some a) (as @ bs)"
    by (rule Cons.IH) (use Cons.prems in \<open>auto split: if_splits\<close>)
  moreover have "prv' a = q" using Cons.prems by (cases bs) auto
  moreover have "nxt' a = hd_opt (as @ bs)"
    using Cons.prems linked_mid(1) [OF Cons.prems(1)] by (cases as) auto
  ultimately show ?case by simp
qed

lemma linked_remove:
  assumes "linked nxt prv None (as @ x # bs)" and "distinct (as @ x # bs)"
    and "\<forall>y \<in> set (as @ bs). nxt' y = (if prv x = Some y then nxt x else nxt y)"
    and "\<forall>y \<in> set (as @ bs). prv' y = (if nxt x = Some y then prv x else prv y)"
  shows "linked nxt' prv' None (as @ bs)"
proof (rule linked_remove_aux [OF assms(1,2)])
  show "\<forall>y \<in> set (as @ bs). nxt' y = (if as \<noteq> [] \<and> y = last as then nxt x else nxt y)"
    using assms(3) linked_mid(2) [OF assms(1)] by auto
  show "\<forall>y \<in> set (as @ bs). prv' y = (if bs \<noteq> [] \<and> y = hd bs then prv x else prv y)"
    using assms(4) linked_mid(1) [OF assms(1)] by (cases bs) auto
qed

lemma linked_head:
  assumes "linked nxt prv None (as @ x # bs)"
  shows "(case prv x of None \<Rightarrow> nxt x | Some p \<Rightarrow> hd_opt (as @ x # bs)) = hd_opt (as @ bs)"
  using linked_mid [OF assms] by (cases as) auto

section \<open>The representation relation\<close>

abbreviation on_stream :: "fcState \<Rightarrow> sref \<Rightarrow> wref \<Rightarrow> bool" where
  "on_stream st s \<equiv> \<lambda>w. w_ss (fcHeap st w) = s"

abbreviation needs_conn :: "fcState \<Rightarrow> wref \<Rightarrow> bool" where
  "needs_conn st \<equiv> \<lambda>w. w_needConn (fcHeap st w)"

abbreviation conn_linked :: "fcState \<Rightarrow> wref list \<Rightarrow> bool" where
  "conn_linked st \<equiv> linked (\<lambda>w. w_connNext (fcHeap st w)) (\<lambda>w. w_connPrev (fcHeap st w)) None"

abbreviation str_linked :: "fcState \<Rightarrow> wref list \<Rightarrow> bool" where
  "str_linked st \<equiv> linked (\<lambda>w. w_strNext (fcHeap st w)) (\<lambda>w. w_strPrev (fcHeap st w)) None"

definition fc_rep :: "fcState \<Rightarrow> wref list \<Rightarrow> bool" where
  "fc_rep st cs \<longleftrightarrow>
     distinct cs
     \<and> fcHead st = hd_opt cs \<and> conn_linked st cs
     \<and> (\<forall>s. strHead st s = hd_opt (filter (on_stream st s) cs)
            \<and> str_linked st (filter (on_stream st s) cs))
     \<and> (\<forall>w. w_queued (fcHeap st w) \<longleftrightarrow> w \<in> set cs)
     \<and> fcConnBlocked st = int (length (filter (needs_conn st) cs))"

lemma fc_repD:
  assumes "fc_rep st cs"
  shows "distinct cs" and "fcHead st = hd_opt cs" and "conn_linked st cs"
    and "strHead st s = hd_opt (filter (on_stream st s) cs)"
    and "str_linked st (filter (on_stream st s) cs)"
    and "w_queued (fcHeap st w) \<longleftrightarrow> w \<in> set cs"
    and "fcConnBlocked st = int (length (filter (needs_conn st) cs))"
  using assms by (auto simp: fc_rep_def)

lemma wupd_simps [simp]:
  "fcHeap (wupd w f st) = (fcHeap st)(w := f (fcHeap st w))"
  "fcHead (wupd w f st) = fcHead st" "strHead (wupd w f st) = strHead st"
  "fcConnBlocked (wupd w f st) = fcConnBlocked st"
  by (simp_all add: wupd_def)

text \<open>What each half leaves in the fields it touches; it touches no others.\<close>

lemma connLink_other [simp]:
  "w_ss (fcHeap (connLink w st) y) = w_ss (fcHeap st y)"
  "w_needConn (fcHeap (connLink w st) y) = w_needConn (fcHeap st y)"
  "w_ready (fcHeap (connLink w st) y) = w_ready (fcHeap st y)"
  "w_queued (fcHeap (connLink w st) y) = w_queued (fcHeap st y)"
  "w_strNext (fcHeap (connLink w st) y) = w_strNext (fcHeap st y)"
  "w_strPrev (fcHeap (connLink w st) y) = w_strPrev (fcHeap st y)"
  "strHead (connLink w st) = strHead st" "fcConnBlocked (connLink w st) = fcConnBlocked st"
  "fcHead (connLink w st) = Some w"
  by (cases "fcHead st"; simp add: connLink_def)+

lemma connLink_links:
  assumes "fcHead st \<noteq> Some w"
  shows "w_connNext (fcHeap (connLink w st) y) = (if y = w then fcHead st else w_connNext (fcHeap st y))"
    and "w_connPrev (fcHeap (connLink w st) y) =
           (if y = w then None else if fcHead st = Some y then Some w else w_connPrev (fcHeap st y))"
  using assms by (cases "fcHead st"; auto simp: connLink_def)+

lemma strLink_other [simp]:
  "w_ss (fcHeap (strLink w st) y) = w_ss (fcHeap st y)"
  "w_needConn (fcHeap (strLink w st) y) = w_needConn (fcHeap st y)"
  "w_ready (fcHeap (strLink w st) y) = w_ready (fcHeap st y)"
  "w_queued (fcHeap (strLink w st) y) = w_queued (fcHeap st y)"
  "w_connNext (fcHeap (strLink w st) y) = w_connNext (fcHeap st y)"
  "w_connPrev (fcHeap (strLink w st) y) = w_connPrev (fcHeap st y)"
  "fcHead (strLink w st) = fcHead st" "fcConnBlocked (strLink w st) = fcConnBlocked st"
  "strHead (strLink w st) = (strHead st)(w_ss (fcHeap st w) := Some w)"
  by (cases "strHead st (w_ss (fcHeap st w))"; simp add: strLink_def Let_def)+

lemma strLink_links:
  assumes "strHead st (w_ss (fcHeap st w)) \<noteq> Some w"
  shows "w_strNext (fcHeap (strLink w st) y) =
           (if y = w then strHead st (w_ss (fcHeap st w)) else w_strNext (fcHeap st y))"
    and "w_strPrev (fcHeap (strLink w st) y) =
           (if y = w then None else if strHead st (w_ss (fcHeap st w)) = Some y then Some w
            else w_strPrev (fcHeap st y))"
  using assms by (cases "strHead st (w_ss (fcHeap st w))"; auto simp: strLink_def Let_def)+

lemma connUnlink_other [simp]:
  "w_ss (fcHeap (connUnlink w st) y) = w_ss (fcHeap st y)"
  "w_needConn (fcHeap (connUnlink w st) y) = w_needConn (fcHeap st y)"
  "w_ready (fcHeap (connUnlink w st) y) = w_ready (fcHeap st y)"
  "w_queued (fcHeap (connUnlink w st) y) = w_queued (fcHeap st y)"
  "w_strNext (fcHeap (connUnlink w st) y) = w_strNext (fcHeap st y)"
  "w_strPrev (fcHeap (connUnlink w st) y) = w_strPrev (fcHeap st y)"
  "strHead (connUnlink w st) = strHead st" "fcConnBlocked (connUnlink w st) = fcConnBlocked st"
  by (cases "w_connPrev (fcHeap st w)"; cases "w_connNext (fcHeap st w)"; simp add: connUnlink_def)+

lemma connUnlink_links:
  "fcHead (connUnlink w st) = (if w_connPrev (fcHeap st w) = None then w_connNext (fcHeap st w) else fcHead st)"
  "y \<noteq> w \<Longrightarrow> w_connNext (fcHeap (connUnlink w st) y) =
     (if w_connPrev (fcHeap st w) = Some y then w_connNext (fcHeap st w) else w_connNext (fcHeap st y))"
  "y \<noteq> w \<Longrightarrow> w_connPrev (fcHeap (connUnlink w st) y) =
     (if w_connNext (fcHeap st w) = Some y then w_connPrev (fcHeap st w) else w_connPrev (fcHeap st y))"
  by (cases "w_connPrev (fcHeap st w)"; cases "w_connNext (fcHeap st w)"; simp add: connUnlink_def)+

lemma strUnlink_other [simp]:
  "w_ss (fcHeap (strUnlink w st) y) = w_ss (fcHeap st y)"
  "w_needConn (fcHeap (strUnlink w st) y) = w_needConn (fcHeap st y)"
  "w_ready (fcHeap (strUnlink w st) y) = w_ready (fcHeap st y)"
  "w_queued (fcHeap (strUnlink w st) y) = w_queued (fcHeap st y)"
  "w_connNext (fcHeap (strUnlink w st) y) = w_connNext (fcHeap st y)"
  "w_connPrev (fcHeap (strUnlink w st) y) = w_connPrev (fcHeap st y)"
  "fcHead (strUnlink w st) = fcHead st" "fcConnBlocked (strUnlink w st) = fcConnBlocked st"
  by (cases "w_strPrev (fcHeap st w)"; cases "w_strNext (fcHeap st w)"; simp add: strUnlink_def)+

lemma strUnlink_links:
  "strHead (strUnlink w st) s = (if w_strPrev (fcHeap st w) = None \<and> s = w_ss (fcHeap st w)
     then w_strNext (fcHeap st w) else strHead st s)"
  "y \<noteq> w \<Longrightarrow> w_strNext (fcHeap (strUnlink w st) y) =
     (if w_strPrev (fcHeap st w) = Some y then w_strNext (fcHeap st w) else w_strNext (fcHeap st y))"
  "y \<noteq> w \<Longrightarrow> w_strPrev (fcHeap (strUnlink w st) y) =
     (if w_strNext (fcHeap st w) = Some y then w_strPrev (fcHeap st w) else w_strPrev (fcHeap st y))"
  by (cases "w_strPrev (fcHeap st w)"; cases "w_strNext (fcHeap st w)"; simp add: strUnlink_def)+

lemma hd_opt_mem: "hd_opt xs = Some x \<Longrightarrow> x \<in> set xs"
  by (cases xs) auto

lemma fcPark_same [simp]:
  "w_ss (fcHeap (fcPark w st) y) = w_ss (fcHeap st y)"
  "w_needConn (fcHeap (fcPark w st) y) = w_needConn (fcHeap st y)"
  "w_ready (fcHeap (fcPark w st) y) = w_ready (fcHeap st y)"
  by (simp_all add: fcPark_def Let_def)

lemma fcUnpark_same [simp]:
  "w_ss (fcHeap (fcUnpark w st) y) = w_ss (fcHeap st y)"
  "w_needConn (fcHeap (fcUnpark w st) y) = w_needConn (fcHeap st y)"
  "w_ready (fcHeap (fcUnpark w st) y) = w_ready (fcHeap st y)"
  by (simp_all add: fcUnpark_def Let_def)

lemma fcPark_conn:
  assumes "\<not> w_queued (fcHeap st w)"
  shows "fcHead (fcPark w st) = Some w"
    and "w_queued (fcHeap (fcPark w st) y) \<longleftrightarrow> y = w \<or> w_queued (fcHeap st y)"
    and "fcConnBlocked (fcPark w st) = fcConnBlocked st + (if w_needConn (fcHeap st w) then 1 else 0)"
    and "strHead (fcPark w st) s = (if s = w_ss (fcHeap st w) then Some w else strHead st s)"
  using assms by (simp_all add: fcPark_def Let_def)

lemma fcPark_links:
  assumes "\<not> w_queued (fcHeap st w)" and "fcHead st \<noteq> Some w"
    and "strHead st (w_ss (fcHeap st w)) \<noteq> Some w"
  shows "w_connNext (fcHeap (fcPark w st) y) = (if y = w then fcHead st else w_connNext (fcHeap st y))"
    and "w_connPrev (fcHeap (fcPark w st) y) =
           (if y = w then None else if fcHead st = Some y then Some w else w_connPrev (fcHeap st y))"
    and "w_strNext (fcHeap (fcPark w st) y) =
           (if y = w then strHead st (w_ss (fcHeap st w)) else w_strNext (fcHeap st y))"
    and "w_strPrev (fcHeap (fcPark w st) y) =
           (if y = w then None else if strHead st (w_ss (fcHeap st w)) = Some y then Some w
            else w_strPrev (fcHeap st y))"
  using assms by (auto simp: fcPark_def Let_def connLink_links strLink_links)

lemma fcUnpark_conn:
  assumes "w_queued (fcHeap st w)"
  shows "fcHead (fcUnpark w st) = (if w_connPrev (fcHeap st w) = None then w_connNext (fcHeap st w) else fcHead st)"
    and "w_queued (fcHeap (fcUnpark w st) y) \<longleftrightarrow> y \<noteq> w \<and> w_queued (fcHeap st y)"
    and "fcConnBlocked (fcUnpark w st) = fcConnBlocked st - (if w_needConn (fcHeap st w) then 1 else 0)"
    and "strHead (fcUnpark w st) s = (if w_strPrev (fcHeap st w) = None \<and> s = w_ss (fcHeap st w)
           then w_strNext (fcHeap st w) else strHead st s)"
  using assms by (simp_all add: fcUnpark_def Let_def connUnlink_links strUnlink_links)

lemma fcUnpark_links:
  assumes "w_queued (fcHeap st w)" and "y \<noteq> w"
  shows "w_connNext (fcHeap (fcUnpark w st) y) =
           (if w_connPrev (fcHeap st w) = Some y then w_connNext (fcHeap st w) else w_connNext (fcHeap st y))"
    and "w_connPrev (fcHeap (fcUnpark w st) y) =
           (if w_connNext (fcHeap st w) = Some y then w_connPrev (fcHeap st w) else w_connPrev (fcHeap st y))"
    and "w_strNext (fcHeap (fcUnpark w st) y) =
           (if w_strPrev (fcHeap st w) = Some y then w_strNext (fcHeap st w) else w_strNext (fcHeap st y))"
    and "w_strPrev (fcHeap (fcUnpark w st) y) =
           (if w_strNext (fcHeap st w) = Some y then w_strPrev (fcHeap st w) else w_strPrev (fcHeap st y))"
  using assms by (simp_all add: fcUnpark_def Let_def connUnlink_links strUnlink_links)

lemma fcPark_rep:
  assumes rep: "fc_rep st cs" and new: "\<not> w_queued (fcHeap st w)"
  shows "fc_rep (fcPark w st) (w # cs)"
proof -
  let ?s = "w_ss (fcHeap st w)"
  note d = fc_repD [OF rep]
  have w: "w \<notin> set cs" using d(6) new by simp
  have head: "fcHead st \<noteq> Some w" using d(2) w hd_opt_mem [of cs w] by auto
  have shead: "strHead st ?s \<noteq> Some w"
    using d(4) [of ?s] w hd_opt_mem [of "filter (on_stream st ?s) cs" w] by auto
  note links = fcPark_links [OF new head shead]
  have conn: "conn_linked (fcPark w st) (w # cs)"
    using d(3) w d(1) by (rule linked_push) (simp_all add: links d(2))
  have str_w: "str_linked (fcPark w st) (w # filter (on_stream st ?s) cs)"
    using d(5) by (rule linked_push) (simp_all add: links d(4) w d(1))
  have str_o: "str_linked (fcPark w st) (filter (on_stream st s) cs) = str_linked st (filter (on_stream st s) cs)"
    if "s \<noteq> ?s" for s
  proof (rule linked_cong)
    fix x assume "x \<in> set (filter (on_stream st s) cs)"
    then have "x \<noteq> w" "strHead st ?s \<noteq> Some x"
      using that w d(4) [of ?s] hd_opt_mem [of "filter (on_stream st ?s) cs" x] by auto
    then show "w_strNext (fcHeap (fcPark w st) x) = w_strNext (fcHeap st x) \<and>
               w_strPrev (fcHeap (fcPark w st) x) = w_strPrev (fcHeap st x)"
      by (simp add: links)
  qed
  have str: "strHead (fcPark w st) s = hd_opt (filter (on_stream st s) (w # cs))
        \<and> str_linked (fcPark w st) (filter (on_stream st s) (w # cs))" for s
  proof (cases "s = ?s")
    case True
    then show ?thesis using str_w by (simp add: fcPark_conn [OF new])
  next
    case False
    then have "?s \<noteq> s" by simp
    then show ?thesis using str_o [OF False] d(4,5) [of s] by (simp add: fcPark_conn [OF new])
  qed
  show ?thesis unfolding fc_rep_def fcPark_same
    using conn w d(1,6,7) str by (simp add: fcPark_conn [OF new])
qed

lemma fcUnpark_rep:
  assumes rep: "fc_rep st cs"
  shows "fc_rep (fcUnpark w st) (removeAll w cs)"
proof (cases "w \<in> set cs")
  case False
  then show ?thesis using rep fc_repD(6) [OF rep] by (simp add: fcUnpark_def)
next
  case True
  let ?s = "w_ss (fcHeap st w)"
  note d = fc_repD [OF rep]
  from True obtain as bs where cs: "cs = as @ w # bs" by (meson split_list)
  with d(1) have w: "w \<notin> set (as @ bs)" and dist: "distinct (as @ w # bs)" by auto
  have q: "w_queued (fcHeap st w)" using True d(6) by simp
  have ne: "y \<noteq> w" if "y \<in> set (as @ bs)" for y using that w by auto
  note links = fcUnpark_links [OF q] and heads = fcUnpark_conn [OF q]
  have rm: "removeAll w cs = as @ bs" using cs w by simp
  have conn: "conn_linked (fcUnpark w st) (as @ bs)"
    using d(3) [unfolded cs] dist by (rule linked_remove) (intro ballI links ne; assumption)+
  have head: "fcHead (fcUnpark w st) = hd_opt (as @ bs)"
    using linked_mid [OF d(3) [unfolded cs]] d(2) cs by (cases as) (simp_all add: heads)
  let ?as = "filter (on_stream st ?s) as" and ?bs = "filter (on_stream st ?s) bs"
  have sw: "str_linked st (?as @ w # ?bs)" using d(5) [of ?s] cs by simp
  have dw: "distinct (?as @ w # ?bs)" using dist by auto
  have sub: "y \<in> set (as @ bs)" if "y \<in> set (?as @ ?bs)" for y using that by auto
  have str_w: "str_linked (fcUnpark w st) (?as @ ?bs)"
    using sw dw by (rule linked_remove) (intro ballI links ne sub; assumption)+
  have shead: "strHead (fcUnpark w st) ?s = hd_opt (?as @ ?bs)"
    using linked_mid [OF sw] d(4) [of ?s] cs by (cases ?as) (simp_all add: heads)
  have ends: "on_stream st ?s y" if "w_strPrev (fcHeap st w) = Some y \<or> w_strNext (fcHeap st w) = Some y" for y
    using that linked_mid [OF sw] hd_opt_mem [of ?bs y] last_in_set [of ?as] by (auto split: if_splits)
  have str_o: "str_linked (fcUnpark w st) (filter (on_stream st s) (as @ bs))
               = str_linked st (filter (on_stream st s) (as @ bs))" if "s \<noteq> ?s" for s
  proof (rule linked_cong)
    fix x assume x: "x \<in> set (filter (on_stream st s) (as @ bs))"
    then have "x \<noteq> w" using ne by auto
    moreover have "w_strPrev (fcHeap st w) \<noteq> Some x" "w_strNext (fcHeap st w) \<noteq> Some x"
      using ends [of x] that x by auto
    ultimately show "w_strNext (fcHeap (fcUnpark w st) x) = w_strNext (fcHeap st x) \<and>
          w_strPrev (fcHeap (fcUnpark w st) x) = w_strPrev (fcHeap st x)" by (simp add: links)
  qed
  have str: "strHead (fcUnpark w st) s = hd_opt (filter (on_stream st s) (as @ bs))
        \<and> str_linked (fcUnpark w st) (filter (on_stream st s) (as @ bs))" for s
  proof (cases "s = ?s")
    case False
    then have "filter (on_stream st s) cs = filter (on_stream st s) (as @ bs)" using cs by auto
    with False show ?thesis using str_o [OF False] d(4,5) [of s] by (simp add: heads)
  qed (use str_w shead in simp)
  have cnt: "fcConnBlocked (fcUnpark w st) = int (length (filter (needs_conn st) (as @ bs)))"
    using d(7) cs by (simp add: heads)
  have "w_queued (fcHeap (fcUnpark w st) y) \<longleftrightarrow> y \<in> set (as @ bs)" for y
    using w cs d(6) [of y] by (auto simp: heads)
  then show ?thesis unfolding rm fc_rep_def fcUnpark_same
    using conn head str cnt dist by simp
qed

lemma fcWake_same [simp]:
  "w_ss (fcHeap (fcWake w st) y) = w_ss (fcHeap st y)"
  "w_needConn (fcHeap (fcWake w st) y) = w_needConn (fcHeap st y)"
  "w_ready (fcHeap (fcWake w st) y) \<longleftrightarrow> y = w \<or> w_ready (fcHeap st y)"
  by (simp_all add: fcWake_def)

lemma wupd_ready_same:
  "w_ss (fcHeap (wupd w (w_ready_update (\<lambda>_. b)) st) y) = w_ss (fcHeap st y)"
  "w_needConn (fcHeap (wupd w (w_ready_update (\<lambda>_. b)) st) y) = w_needConn (fcHeap st y)"
  "w_queued (fcHeap (wupd w (w_ready_update (\<lambda>_. b)) st) y) = w_queued (fcHeap st y)"
  "w_connNext (fcHeap (wupd w (w_ready_update (\<lambda>_. b)) st) y) = w_connNext (fcHeap st y)"
  "w_connPrev (fcHeap (wupd w (w_ready_update (\<lambda>_. b)) st) y) = w_connPrev (fcHeap st y)"
  "w_strNext (fcHeap (wupd w (w_ready_update (\<lambda>_. b)) st) y) = w_strNext (fcHeap st y)"
  "w_strPrev (fcHeap (wupd w (w_ready_update (\<lambda>_. b)) st) y) = w_strPrev (fcHeap st y)"
  by simp_all

lemma fc_rep_ready: "fc_rep (wupd w (w_ready_update (\<lambda>_. b)) st) cs \<longleftrightarrow> fc_rep st cs"
  by (simp only: fc_rep_def wupd_ready_same wupd_simps(2-4))

lemma fcWake_rep: "fc_rep st cs \<Longrightarrow> fc_rep (fcWake w st) (removeAll w cs)"
  unfolding fcWake_def fc_rep_ready by (rule fcUnpark_rep)

section \<open>The walks end and wake exactly their writers\<close>

text \<open>From \<open>st\<close> to \<open>st'\<close> exactly the writers in \<open>W\<close> have become runnable, and nothing else changed.\<close>

definition woke :: "fcState \<Rightarrow> fcState \<Rightarrow> wref set \<Rightarrow> bool" where
  "woke st st' W \<longleftrightarrow>
     (\<forall>y. w_ss (fcHeap st' y) = w_ss (fcHeap st y)
          \<and> w_needConn (fcHeap st' y) = w_needConn (fcHeap st y)
          \<and> (w_ready (fcHeap st' y) \<longleftrightarrow> w_ready (fcHeap st y) \<or> y \<in> W))"

lemma woke_refl [simp]: "woke st st {}"
  by (simp add: woke_def)

lemma woke_insert: "woke (fcWake w st) st' W \<Longrightarrow> woke st st' (insert w W)"
  by (auto simp: woke_def)

lemma fcWakeAll_loop_spec:
  "fc_rep st cs \<Longrightarrow>
     \<exists>st'. fcWakeAll_loop (hd_opt cs) st = Some st' \<and> fc_rep st' [] \<and> woke st st' (set cs)"
proof (induction cs arbitrary: st)
  case Nil
  then show ?case by (simp add: fcWakeAll_loop.simps)
next
  case (Cons w cs)
  then have "fc_rep (fcWake w st) cs"
    using fcWake_rep [OF Cons.prems, of w] fc_repD(1) [OF Cons.prems] by simp
  from Cons.IH [OF this] obtain st' where "fcWakeAll_loop (hd_opt cs) (fcWake w st) = Some st'"
    "fc_rep st' []" "woke (fcWake w st) st' (set cs)" by blast
  moreover have "w_connNext (fcHeap st w) = hd_opt cs" using fc_repD(3) [OF Cons.prems] by simp
  ultimately show ?case by (auto simp: fcWakeAll_loop.simps [of "Some w"] intro: woke_insert)
qed

lemma fcWakeConn_loop_spec:
  "fc_rep st (as @ bs) \<Longrightarrow>
     \<exists>st'. fcWakeConn_loop (hd_opt bs) st = Some st'
           \<and> fc_rep st' (as @ filter (\<lambda>w. \<not> needs_conn st w) bs)
           \<and> woke st st' (set (filter (needs_conn st) bs))"
proof (induction bs arbitrary: st as)
  case Nil
  then show ?case by (simp add: fcWakeConn_loop.simps)
next
  case (Cons w bs)
  note d = fc_repD [OF Cons.prems]
  have nxt: "w_connNext (fcHeap st w) = hd_opt bs" using linked_mid(1) [OF d(3)] .
  show ?case
  proof (cases "needs_conn st w")
    case True
    have "fc_rep (fcWake w st) (as @ bs)" using fcWake_rep [OF Cons.prems, of w] d(1) by simp
    from Cons.IH [OF this] True nxt show ?thesis
      by (auto simp: fcWakeConn_loop.simps [of "Some w"] intro: woke_insert)
  next
    case False
    from Cons.prems have "fc_rep st ((as @ [w]) @ bs)" by simp
    from Cons.IH [OF this] False nxt show ?thesis
      by (auto simp: fcWakeConn_loop.simps [of "Some w"])
  qed
qed

lemma filter_eq_Cons_remove:
  "distinct cs \<Longrightarrow> filter P cs = w # ws \<Longrightarrow>
     filter P (removeAll w cs) = ws \<and> filter (\<lambda>x. \<not> P x) (removeAll w cs) = filter (\<lambda>x. \<not> P x) cs"
proof -
  assume a: "distinct cs" "filter P cs = w # ws"
  then have "P w" by (metis filter_eq_ConsD)
  have "filter P (removeAll w cs) = removeAll w (filter P cs)"
    by (simp add: removeAll_filter_not_eq conj_commute)
  also have "\<dots> = ws" using a distinct_filter [OF a(1), of P] by simp
  finally have "filter P (removeAll w cs) = ws" .
  moreover have "filter (\<lambda>x. \<not> P x) (removeAll w cs) = filter (\<lambda>x. \<not> P x) cs"
    using \<open>P w\<close> by (induction cs) auto
  ultimately show ?thesis by simp
qed

lemma fcWakeStream_loop_spec:
  "fc_rep st cs \<Longrightarrow> filter (on_stream st s) cs = ws \<Longrightarrow>
     \<exists>st'. fcWakeStream_loop (hd_opt ws) st = Some st'
           \<and> fc_rep st' (filter (\<lambda>w. \<not> on_stream st s w) cs) \<and> woke st st' (set ws)"
proof (induction ws arbitrary: st cs)
  case Nil
  then have "filter (\<lambda>w. \<not> on_stream st s w) cs = cs" by (auto simp: filter_empty_conv intro: filter_True)
  with Nil show ?case by (simp add: fcWakeStream_loop.simps)
next
  case (Cons w ws)
  note d = fc_repD [OF Cons.prems(1)]
  note r = filter_eq_Cons_remove [OF d(1) Cons.prems(2)]
  have nxt: "w_strNext (fcHeap st w) = hd_opt ws" using d(5) [of s] Cons.prems(2) by simp
  have "fc_rep (fcWake w st) (removeAll w cs)" using Cons.prems(1) by (rule fcWake_rep)
  moreover have "filter (on_stream (fcWake w st) s) (removeAll w cs) = ws" using r by simp
  ultimately obtain st' where "fcWakeStream_loop (hd_opt ws) (fcWake w st) = Some st'"
    and "fc_rep st' (filter (\<lambda>x. \<not> on_stream (fcWake w st) s x) (removeAll w cs))"
    and "woke (fcWake w st) st' (set ws)" using Cons.IH by blast
  with r nxt show ?case by (auto simp: fcWakeStream_loop.simps [of "Some w"] intro: woke_insert)
qed

lemma fcWakeAll_spec:
  assumes "fc_rep st cs"
  shows "\<exists>st'. fcWakeAll st = Some st' \<and> fc_rep st' [] \<and> woke st st' (set cs)"
  using fcWakeAll_loop_spec [OF assms] fc_repD(2) [OF assms] by (simp add: fcWakeAll_def)

lemma fcWakeConn_spec:
  assumes "fc_rep st cs"
  shows "\<exists>st'. fcWakeConn st = Some st' \<and> fc_rep st' (filter (\<lambda>w. \<not> needs_conn st w) cs)
               \<and> woke st st' (set (filter (needs_conn st) cs))"
proof (cases "fcConnBlocked st = 0")
  case True
  then have none: "filter (needs_conn st) cs = []" using fc_repD(7) [OF assms] by simp
  then have "filter (\<lambda>w. \<not> needs_conn st w) cs = cs" by (auto simp: filter_empty_conv intro: filter_True)
  with True none assms show ?thesis by (simp add: fcWakeConn_def)
next
  case False
  then show ?thesis using fcWakeConn_loop_spec [of st "[]" cs] assms fc_repD(2) [OF assms]
    by (simp add: fcWakeConn_def)
qed

lemma fcWakeStream_spec:
  assumes "fc_rep st cs"
  shows "\<exists>st'. fcWakeStream s st = Some st' \<and> fc_rep st' (filter (\<lambda>w. \<not> on_stream st s w) cs)
               \<and> woke st st' (set (filter (on_stream st s) cs))"
  using fcWakeStream_loop_spec [OF assms refl] fc_repD(4) [OF assms] by (simp add: fcWakeStream_def)

section \<open>The parking contract\<close>

text \<open>
  The abstract state: the parked writers, most recent first, each with its stream and whether it
  waits for connection credit only; and the writers holding a wakeup token.
\<close>

type_synonym parked = "(wref \<times> sref \<times> bool) list"

definition apark :: "wref \<Rightarrow> sref \<Rightarrow> bool \<Rightarrow> parked \<Rightarrow> parked" where
  "apark w s n ts = (if w \<in> fst ` set ts then ts else (w, s, n) # ts)"

definition aunpark :: "wref \<Rightarrow> parked \<Rightarrow> parked" where
  "aunpark w ts = filter (\<lambda>t. fst t \<noteq> w) ts"

definition awake :: "(wref \<times> sref \<times> bool \<Rightarrow> bool) \<Rightarrow> parked \<times> wref set \<Rightarrow> parked \<times> wref set" where
  "awake P a = (filter (\<lambda>t. \<not> P t) (fst a), snd a \<union> fst ` set (filter P (fst a)))"

definition allSel :: "wref \<times> sref \<times> bool \<Rightarrow> bool" where "allSel t = True"
definition connSel :: "wref \<times> sref \<times> bool \<Rightarrow> bool" where "connSel t = snd (snd t)"
definition streamSel :: "sref \<Rightarrow> wref \<times> sref \<times> bool \<Rightarrow> bool" where "streamSel s t = (fst (snd t) = s)"

text \<open>The operations of \<open>parkForSendCredits\<close> and of the notifiers.\<close>

datatype fcOp =
    FcPark wref sref bool | FcUnpark wref | FcTake wref
  | FcWakeAll | FcWakeConn | FcWakeStream sref

fun fc_exec :: "fcOp \<Rightarrow> fcState \<Rightarrow> fcState option" where
  "fc_exec (FcPark w s n) st =
     Some (if w_queued (fcHeap st w) then st
           else fcPark w (wupd w (\<lambda>x. x\<lparr>w_ss := s, w_needConn := n\<rparr>) st))"
| "fc_exec (FcUnpark w) st = Some (fcUnpark w st)"
| "fc_exec (FcTake w) st = Some (wupd w (w_ready_update (\<lambda>_. False)) st)"
| "fc_exec FcWakeAll st = fcWakeAll st"
| "fc_exec FcWakeConn st = fcWakeConn st"
| "fc_exec (FcWakeStream s) st = fcWakeStream s st"

fun fc_abs :: "fcOp \<Rightarrow> parked \<times> wref set \<Rightarrow> parked \<times> wref set" where
  "fc_abs (FcPark w s n) a = (apark w s n (fst a), snd a)"
| "fc_abs (FcUnpark w) a = (aunpark w (fst a), snd a)"
| "fc_abs (FcTake w) a = (fst a, snd a - {w})"
| "fc_abs FcWakeAll a = awake allSel a"
| "fc_abs FcWakeConn a = awake connSel a"
| "fc_abs (FcWakeStream s) a = awake (streamSel s) a"

fun seqM :: "('o \<Rightarrow> 's \<Rightarrow> 's option) \<Rightarrow> 'o list \<Rightarrow> 's \<Rightarrow> 's option" where
  "seqM f [] st = Some st"
| "seqM f (x # xs) st = (case f x st of None \<Rightarrow> None | Some st' \<Rightarrow> seqM f xs st')"

definition fc_sim :: "fcState \<Rightarrow> parked \<times> wref set \<Rightarrow> bool" where
  "fc_sim st a \<longleftrightarrow>
     fc_rep st (map fst (fst a))
     \<and> (\<forall>t \<in> set (fst a). w_ss (fcHeap st (fst t)) = fst (snd t) \<and> w_needConn (fcHeap st (fst t)) = snd (snd t))
     \<and> (\<forall>w. w_ready (fcHeap st w) \<longleftrightarrow> w \<in> snd a)"

text \<open>
  The contract: every operation returns, and does to the represented lists what the abstract
  operation does. What a client concludes for whole runs is proved here once: the run returns,
  and no writer is lost, that is, one parked at any point and not unparked since is either still
  parked or has been handed a token.
\<close>

locale parking_lot =
  fixes rep :: "'st \<Rightarrow> parked \<times> wref set \<Rightarrow> bool"
    and exec :: "fcOp \<Rightarrow> 'st \<Rightarrow> 'st option"
  assumes exec_sim: "rep st a \<Longrightarrow> \<exists>st'. exec op st = Some st' \<and> rep st' (fc_abs op a)"
begin

lemma exec_run:
  "rep st a \<Longrightarrow> \<exists>st'. seqM exec ops st = Some st' \<and> rep st' (fold fc_abs ops a)"
proof (induction ops arbitrary: st a)
  case (Cons op ops)
  from exec_sim [OF Cons.prems, of op] obtain st1
    where "exec op st = Some st1" and "rep st1 (fc_abs op a)" by blast
  with Cons.IH [of st1 "fc_abs op a"] show ?case by simp
qed simp

end

text \<open>No abstract notification loses a writer.\<close>

definition mentions :: "wref \<Rightarrow> fcOp \<Rightarrow> bool" where
  "mentions w op \<longleftrightarrow> op = FcUnpark w \<or> op = FcTake w"

lemma fc_abs_kept:
  "w \<in> fst ` set (fst a) \<or> w \<in> snd a \<Longrightarrow> \<not> mentions w op \<Longrightarrow>
     w \<in> fst ` set (fst (fc_abs op a)) \<or> w \<in> snd (fc_abs op a)"
  by (cases op) (auto simp: mentions_def apark_def aunpark_def awake_def allSel_def)

lemma fc_abs_run_kept:
  "w \<in> fst ` set (fst a) \<or> w \<in> snd a \<Longrightarrow> \<not> list_ex (mentions w) ops \<Longrightarrow>
     w \<in> fst ` set (fst (fold fc_abs ops a)) \<or> w \<in> snd (fold fc_abs ops a)"
proof (induction ops arbitrary: a)
  case (Cons op ops)
  then show ?case using fc_abs_kept [of w a op] by auto
qed simp

lemma fc_simD:
  assumes "fc_sim st a"
  shows "fc_rep st (map fst (fst a))"
    and "t \<in> set (fst a) \<Longrightarrow> w_ss (fcHeap st (fst t)) = fst (snd t)"
    and "t \<in> set (fst a) \<Longrightarrow> w_needConn (fcHeap st (fst t)) = snd (snd t)"
    and "w_ready (fcHeap st w) \<longleftrightarrow> w \<in> snd a"
  using assms by (auto simp: fc_sim_def)

text \<open>A walk that wakes exactly the writers a selection picks refines \<open>awake\<close>.\<close>

lemma fc_sim_awake:
  assumes sim: "fc_sim st a"
    and sel: "\<And>t. t \<in> set (fst a) \<Longrightarrow> Q (fst t) \<longleftrightarrow> P t"
    and rep: "fc_rep st' (filter (\<lambda>w. \<not> Q w) (map fst (fst a)))"
    and wk: "woke st st' (set (filter Q (map fst (fst a))))"
  shows "fc_sim st' (awake P a)"
proof -
  have f: "filter (\<lambda>w. \<not> Q w) (map fst (fst a)) = map fst (filter (\<lambda>t. \<not> P t) (fst a))"
    using sel by (simp add: filter_map o_def cong: filter_cong)
  have g: "set (filter Q (map fst (fst a))) = fst ` set (filter P (fst a))"
    using sel by auto
  show ?thesis
    using sim rep wk unfolding fc_sim_def awake_def f g woke_def by simp
qed

lemma fc_rep_fields:
  assumes "\<not> w_queued (fcHeap st w)" and "fc_rep st cs"
  shows "fc_rep (wupd w (\<lambda>x. x\<lparr>w_ss := s, w_needConn := n\<rparr>) st) cs"
proof -
  let ?st = "wupd w (\<lambda>x. x\<lparr>w_ss := s, w_needConn := n\<rparr>) st"
  have w: "w \<notin> set cs" using assms fc_repD(6) by blast
  have same: "w_connNext (fcHeap ?st y) = w_connNext (fcHeap st y)"
    "w_connPrev (fcHeap ?st y) = w_connPrev (fcHeap st y)"
    "w_strNext (fcHeap ?st y) = w_strNext (fcHeap st y)"
    "w_strPrev (fcHeap ?st y) = w_strPrev (fcHeap st y)"
    "w_queued (fcHeap ?st y) = w_queued (fcHeap st y)" for y by simp_all
  have "filter (on_stream ?st r) cs = filter (on_stream st r) cs" for r
    using w by (intro filter_cong) auto
  moreover have "filter (needs_conn ?st) cs = filter (needs_conn st) cs"
    using w by (intro filter_cong) auto
  ultimately show ?thesis using assms(2) by (simp only: fc_rep_def same wupd_simps(2-4) simp_thms)
qed

lemma fc_exec_sim:
  assumes "fc_sim st a"
  shows "\<exists>st'. fc_exec op st = Some st' \<and> fc_sim st' (fc_abs op a)"
proof -
  note d = fc_simD [OF assms]
  show ?thesis
  proof (cases op)
    case FcWakeAll
    obtain st' where "fcWakeAll st = Some st'" "fc_rep st' []" "woke st st' (set (map fst (fst a)))"
      using fcWakeAll_spec [OF d(1)] by blast
    then show ?thesis using FcWakeAll fc_sim_awake [OF assms, of "\<lambda>_. True" allSel st']
      by (simp add: allSel_def)
  next
    case FcWakeConn
    obtain st' where "fcWakeConn st = Some st'"
      "fc_rep st' (filter (\<lambda>w. \<not> needs_conn st w) (map fst (fst a)))"
      "woke st st' (set (filter (needs_conn st) (map fst (fst a))))"
      using fcWakeConn_spec [OF d(1)] by blast
    then show ?thesis using FcWakeConn d(3) fc_sim_awake [OF assms, of "needs_conn st" connSel st']
      by (simp add: connSel_def)
  next
    case (FcWakeStream s)
    obtain st' where "fcWakeStream s st = Some st'"
      "fc_rep st' (filter (\<lambda>w. \<not> on_stream st s w) (map fst (fst a)))"
      "woke st st' (set (filter (on_stream st s) (map fst (fst a))))"
      using fcWakeStream_spec [OF d(1)] by blast
    then show ?thesis
      using FcWakeStream d(2) fc_sim_awake [OF assms, of "on_stream st s" "streamSel s" st']
      by (simp add: streamSel_def)
  next
    case (FcUnpark w)
    have "removeAll w (map fst (fst a)) = map fst (aunpark w (fst a))"
      by (simp add: aunpark_def removeAll_filter_not_eq filter_map o_def)
         (metis (mono_tags, lifting))
    then have "fc_rep (fcUnpark w st) (map fst (aunpark w (fst a)))"
      using fcUnpark_rep [OF d(1), of w] by simp
    then show ?thesis using FcUnpark assms by (auto simp: fc_sim_def aunpark_def)
  next
    case (FcTake w)
    then show ?thesis using assms by (auto simp: fc_sim_def fc_rep_ready)
  next
    case (FcPark w s n)
    show ?thesis
    proof (cases "w_queued (fcHeap st w)")
      case True
      then have "w \<in> fst ` set (fst a)" using fc_repD(6) [OF d(1)] by simp
      with FcPark True assms show ?thesis by (simp add: apark_def)
    next
      case False
      let ?st = "wupd w (\<lambda>x. x\<lparr>w_ss := s, w_needConn := n\<rparr>) st"
      have w: "w \<notin> fst ` set (fst a)" using False fc_repD(6) [OF d(1)] by simp
      have "fc_rep (fcPark w ?st) (w # map fst (fst a))"
        using d(1) False by (intro fcPark_rep) (simp_all add: fc_rep_fields)
      moreover have "\<forall>t \<in> set (fst a). fst t \<noteq> w" using w by auto
      ultimately show ?thesis using FcPark False w assms by (simp add: fc_sim_def apark_def)
    qed
  qed
qed

interpretation fc: parking_lot fc_sim fc_exec
  by unfold_locales (rule fc_exec_sim)

text \<open>Nobody is parked and no token is out.\<close>

definition fcEmpty :: "fcState \<Rightarrow> bool" where
  "fcEmpty st \<longleftrightarrow> fcHead st = None \<and> strHead st = (\<lambda>_. None) \<and> fcConnBlocked st = 0
     \<and> (\<forall>w. \<not> w_queued (fcHeap st w) \<and> \<not> w_ready (fcHeap st w))"

lemma fc_sim_empty: "fcEmpty st \<Longrightarrow> fc_sim st ([], {})"
  by (simp add: fcEmpty_def fc_sim_def fc_rep_def)

section \<open>Properties\<close>

text \<open>
  C13. The intrusive doubly linked lists implement the parked-writer lists: on a connection with
  nobody parked, any sequence of parks, unparks, token receptions and grants runs to an end
  (every walk terminates), and the final pointer structure represents exactly the list the same
  operations give on plain lists; following the connection's links gives that list, following a
  stream's links gives its sublist for that stream, and \<open>fcConnBlocked\<close> is the number of writers
  that wait for connection credit only.
\<close>

theorem fc_lists_refine:
  assumes "fcEmpty st"
  shows "\<exists>st'. seqM fc_exec ops st = Some st'
           \<and> (let cs = map fst (fst (fold fc_abs ops ([], {})))
              in fcHead st' = hd_opt cs \<and> conn_linked st' cs
                 \<and> (\<forall>s. strHead st' s = hd_opt (filter (on_stream st' s) cs)
                        \<and> str_linked st' (filter (on_stream st' s) cs))
                 \<and> fcConnBlocked st' = int (length (filter (needs_conn st') cs)))"
proof -
  from fc.exec_run [OF fc_sim_empty [OF assms], of ops] obtain st'
    where "seqM fc_exec ops st = Some st'" and "fc_sim st' (fold fc_abs ops ([], {}))" by blast
  with fc_repD [OF fc_simD(1) [OF this(2)]] show ?thesis unfolding Let_def by blast
qed

definition blankWaiter :: fcWaiter where
  "blankWaiter = \<lparr>w_ss = 0, w_ready = False, w_needConn = False, w_queued = False,
     w_connPrev = None, w_connNext = None, w_strPrev = None, w_strNext = None\<rparr>"

definition idleLot :: fcState where
  "idleLot = \<lparr>fcHeap = \<lambda>_. blankWaiter, fcHead = None, strHead = \<lambda>_. None, fcConnBlocked = 0\<rparr>"

lemma idleLot_empty: "fcEmpty idleLot"
  by (simp add: fcEmpty_def idleLot_def blankWaiter_def)

theorem fc_lists_refine_witness:
  "\<exists>st'. seqM fc_exec [FcPark 1 7 True, FcPark 2 8 False, FcPark 3 7 True, FcUnpark 2] idleLot = Some st'
         \<and> fcHead st' = Some 3 \<and> fcConnBlocked st' = int (length (filter (needs_conn st') [3, 1]))"
  using fc_lists_refine [OF idleLot_empty, of "[FcPark 1 7 True, FcPark 2 8 False, FcPark 3 7 True, FcUnpark 2]"]
  by (auto simp: apark_def aunpark_def Let_def)

text \<open>
  C14. No writer is lost: starting with nobody parked, a writer that is parked after the
  operations \<open>ops1\<close> is, after any further operations other than its own unpark and its own
  token reception, still linked into the connection's list or has a token in its wakeup channel.
\<close>

theorem parked_writer_not_lost:
  assumes "fcEmpty st" and "w \<in> fst ` set (fst (fold fc_abs ops1 ([], {})))"
    and "\<not> list_ex (mentions w) ops2"
  shows "\<exists>st'. seqM fc_exec (ops1 @ ops2) st = Some st'
           \<and> (w_queued (fcHeap st' w) \<or> w_ready (fcHeap st' w))"
proof -
  from fc.exec_run [OF fc_sim_empty [OF assms(1)], of "ops1 @ ops2"] obtain st'
    where run: "seqM fc_exec (ops1 @ ops2) st = Some st'"
      and sim: "fc_sim st' (fold fc_abs ops2 (fold fc_abs ops1 ([], {})))" by auto
  from fc_abs_run_kept [OF _ assms(3)] assms(2)
  have "w \<in> fst ` set (fst (fold fc_abs ops2 (fold fc_abs ops1 ([], {}))))
        \<or> w \<in> snd (fold fc_abs ops2 (fold fc_abs ops1 ([], {})))" by blast
  then have "w_queued (fcHeap st' w) \<or> w_ready (fcHeap st' w)"
    using fc_repD(6) [OF fc_simD(1) [OF sim]] fc_simD(4) [OF sim] by auto
  with run show ?thesis by blast
qed

theorem parked_writer_not_lost_witness:
  "\<exists>st'. seqM fc_exec ([FcPark 1 7 True, FcPark 2 8 False] @ [FcWakeConn, FcUnpark 2]) idleLot = Some st'
         \<and> (w_queued (fcHeap st' 1) \<or> w_ready (fcHeap st' 1))"
  by (rule parked_writer_not_lost [OF idleLot_empty]) (simp_all add: apark_def mentions_def)

end
