(* ===== verification/ConnState.thy ===== *)
theory ConnState
  imports PeerSettings FcWaiters
begin

text \<open>
  The state of a server connection (\<open>ServerConn\<close> of conn/server\_conn.go) and the small
  operations on it that everything else is built from: frame writes under the write lock, the
  release of a stream, resets, the delivery of an event to a stream.

  Streams are pointers into the store \<open>sc_objs\<close>. The frames written so far are \<open>sc_wire\<close>, the
  header blocks the hpack decoder has been given are \<open>sc_decSeen\<close> and what the hpack encoder was
  asked is \<open>sc_encDone\<close>. The parked writers are the lists that theory FcWaiters shows the
  pointer structure to represent. A goroutine that \<open>ServerStream.push\<close> starts to write a reset is
  an entry of \<open>sc_spawned\<close>. A send on a closed event channel, which panics in Go, sets
  \<open>sc_panicked\<close>. Every operation takes the codec as its first argument where it uses it.
\<close>

record ServerConn =
  sc_opts :: ServerConnOptions
  sc_peerSettings :: SettingsParams
  sc_tbl :: streamTable
  sc_objs :: store
  sc_next :: sref
  sc_connRecvWindow :: int
  sc_connRefundPending :: uint32
  sc_parked :: parked
  sc_tokens :: "wref set"
  sc_peerConnSendWindow :: int
  sc_closed :: bool
  sc_readerDone :: bool
  sc_connCancelled :: bool
  sc_transportClosed :: bool
  sc_acceptCh :: "sref list"
  sc_pingWaiters :: "(PingPayload \<times> nat) list"
  sc_pingClosed :: "nat list"
  sc_pingCounter :: "64 word"
  sc_goAwayRequested :: bool
  sc_goAwaySentID :: uint32
  sc_peerGoAway :: bool
  sc_rapidResetCount :: uint32
  sc_framesSent :: nat
  sc_framesReceived :: nat
  sc_streamsAccepted :: uint32
  sc_wire :: "wframe list"
  sc_decSeen :: "bytes list"
  sc_encDone :: "encOp list"
  sc_spawned :: "(sref \<times> ErrCode) list"
  sc_panicked :: bool

abbreviation strm :: "ServerConn \<Rightarrow> sref \<Rightarrow> ServerStream" where
  "strm sc s \<equiv> sc_objs sc s"

definition upds :: "sref \<Rightarrow> (ServerStream \<Rightarrow> ServerStream) \<Rightarrow> ServerConn \<Rightarrow> ServerConn" where
  "upds s f sc = sc\<lparr>sc_objs := (sc_objs sc)(s := f (sc_objs sc s))\<rparr>"

text \<open>A new stream object: a fresh pointer.\<close>

definition allocStream :: "ServerStream \<Rightarrow> ServerConn \<Rightarrow> ServerConn \<times> sref" where
  "allocStream ss sc =
     (sc\<lparr>sc_objs := (sc_objs sc)(sc_next sc := ss), sc_next := sc_next sc + 1\<rparr>, sc_next sc)"

section \<open>Small accessors\<close>

definition lookupStream :: "ServerConn \<Rightarrow> uint32 \<Rightarrow> sref option" where
  "lookupStream sc sid = tbl_lookup (sc_tbl sc) sid"

definition isIdleStream :: "ServerConn \<Rightarrow> uint32 \<Rightarrow> bool" where
  "isIdleStream sc sid = tbl_idle (sc_tbl sc) sid"

definition validateClientStreamID :: "ServerConn \<Rightarrow> uint32 \<Rightarrow> err option" where
  "validateClientStreamID sc sid = tbl_validateClientID (sc_tbl sc) sid"

definition lastPeerStreamID :: "ServerConn \<Rightarrow> uint32" where
  "lastPeerStreamID sc = tbl_lastPeerID (sc_tbl sc)"

definition ActiveStreams :: "ServerConn \<Rightarrow> int" where
  "ActiveStreams sc = tbl_live (sc_tbl sc)"

definition IsAlive :: "ServerConn \<Rightarrow> bool" where
  "IsAlive sc \<longleftrightarrow> \<not> sc_closed sc"

text \<open>The closure \<open>NewServerConn\<close> gives the table as \<open>peerWindow\<close>.\<close>

definition peerWindow :: "ServerConn \<Rightarrow> uint32" where
  "peerWindow sc = settingValue (sc_peerSettings sc) SettingInitialWindowSize connInitialRecvWindow"

definition peerMaxFrameSize :: "ServerConn \<Rightarrow> int" where
  "peerMaxFrameSize sc = uint (settingValue (sc_peerSettings sc) SettingMaxFrameSize 16384)"

definition maxWritableFrame :: "ServerConn \<Rightarrow> int" where
  "maxWritableFrame sc =
     (let ours = uint (MaxFrameSize (advSettings (sc_opts sc)));
          peer = peerMaxFrameSize sc
      in if peer < ours then peer else ours)"

definition isPushEnabled :: "ServerConn \<Rightarrow> bool" where
  "isPushEnabled sc \<longleftrightarrow> settingValue (sc_peerSettings sc) SettingEnablePush 1 = 1"

definition notePeerGoAway :: "ServerConn \<Rightarrow> ServerConn" where
  "notePeerGoAway sc = sc\<lparr>sc_peerGoAway := True\<rparr>"

section \<open>Waking parked writers\<close>

definition wakeSel :: "(wref \<times> sref \<times> bool \<Rightarrow> bool) \<Rightarrow> ServerConn \<Rightarrow> ServerConn" where
  "wakeSel P sc =
     (let (ps, toks) = awake P (sc_parked sc, sc_tokens sc)
      in sc\<lparr>sc_parked := ps, sc_tokens := toks\<rparr>)"

abbreviation "wakeAll \<equiv> wakeSel allSel"
abbreviation "wakeConn \<equiv> wakeSel connSel"
abbreviation "wakeStream s \<equiv> wakeSel (streamSel s)"

section \<open>Writing frames\<close>

definition bumpFramesSent :: "ServerConn \<Rightarrow> ServerConn" where
  "bumpFramesSent sc = sc\<lparr>sc_framesSent := sc_framesSent sc + 1\<rparr>"

text \<open>One call of a framer write method, and the usual call that counts the frame on success.\<close>

definition frWrite :: "codec \<Rightarrow> wframe \<Rightarrow> ServerConn \<Rightarrow> ServerConn \<times> err option" where
  "frWrite c f sc =
     (case cWrite c (sc_wire sc) f of
        Some e \<Rightarrow> (sc, Some e)
      | None \<Rightarrow> (sc\<lparr>sc_wire := sc_wire sc @ [f]\<rparr>, None))"

definition writeCounted :: "codec \<Rightarrow> wframe \<Rightarrow> ServerConn \<Rightarrow> ServerConn \<times> err option" where
  "writeCounted c f sc =
     (case frWrite c f sc of
        (sc, Some e) \<Rightarrow> (sc, Some e)
      | (sc, None) \<Rightarrow> (bumpFramesSent sc, None))"

definition writeSettingsAck :: "codec \<Rightarrow> ServerConn \<Rightarrow> ServerConn \<times> err option" where
  "writeSettingsAck c sc =
     (if sc_closed sc then (sc, Some ErrConnClosed) else writeCounted c WSettingsAck sc)"

definition writePingAck :: "codec \<Rightarrow> PingPayload \<Rightarrow> ServerConn \<Rightarrow> ServerConn \<times> err option" where
  "writePingAck c payload sc =
     (if sc_closed sc then (sc, Some ErrConnClosed) else writeCounted c (WPing True payload) sc)"

definition writeWindowUpdate :: "codec \<Rightarrow> uint32 \<Rightarrow> uint32 \<Rightarrow> ServerConn \<Rightarrow> ServerConn \<times> err option" where
  "writeWindowUpdate c sid increment sc =
     (if sc_closed sc then (sc, Some ErrConnClosed)
      else writeCounted c (WWindowUpdate sid increment) sc)"

section \<open>Ending streams\<close>

definition markStreamDone :: "uint32 \<Rightarrow> ServerConn \<Rightarrow> ServerConn" where
  "markStreamDone sid sc =
     (case tbl_release (sc_tbl sc) sid of
        (t, None) \<Rightarrow> sc
      | (t, Some s) \<Rightarrow> upds s cancelCtx (sc\<lparr>sc_tbl := t\<rparr>))"

text \<open>
  \<open>writeServerRSTStream\<close>: the reset is recorded first; whatever becomes of the write, the stream
  is released inside the same write-lock section.
\<close>

definition writeServerRSTStream :: "codec \<Rightarrow> sref \<Rightarrow> ErrCode \<Rightarrow> ServerConn \<Rightarrow> ServerConn \<times> err option" where
  "writeServerRSTStream c s code sc0 =
     (let sc = upds s (ss_advance stReset) sc0;
          sid = ss_id (strm sc s)
      in if sc_closed sc then (markStreamDone sid sc, Some ErrConnClosed)
         else let (sc, e) = writeCounted c (WRSTStream sid code) sc
              in (markStreamDone sid sc, e))"

definition writeRSTStreamID :: "codec \<Rightarrow> uint32 \<Rightarrow> ErrCode \<Rightarrow> ServerConn \<Rightarrow> ServerConn \<times> err option" where
  "writeRSTStreamID c sid code sc0 =
     (if sc_closed sc0 then (sc0, Some ErrConnClosed)
      else let (live, sc) = (case lookupStream sc0 sid of
                               None \<Rightarrow> (False, sc0)
                             | Some s \<Rightarrow> (True, upds s (ss_advance stReset) sc0));
               (sc, e) = writeCounted c (WRSTStream sid code) sc
           in (if live then markStreamDone sid sc else sc, e))"

section \<open>Delivering an event\<close>

definition chanSend :: "sref \<Rightarrow> StreamEvent \<Rightarrow> ServerConn \<Rightarrow> ServerConn" where
  "chanSend s e sc = upds s (\<lambda>ss. ss\<lparr>ss_events := ss_events ss @ [e]\<rparr>) sc"

definition chanFull :: "ServerStream \<Rightarrow> bool" where
  "chanFull ss \<longleftrightarrow> length (ss_events ss) \<ge> ss_eventCap ss"

definition resetEvent :: "ErrCode \<Rightarrow> StreamEvent" where
  "resetEvent code = \<lparr>evType = EventReset, evHeaders = [], evData = [], evEndStream = True, evRSTCode = code\<rparr>"

text \<open>
  \<open>ServerStream.push\<close>: a full channel resets the stream, from a goroutine of its own; the second
  attempt to queue the reset event is made by the reader itself.
\<close>

definition push :: "sref \<Rightarrow> StreamEvent \<Rightarrow> ServerConn \<Rightarrow> ServerConn" where
  "push s e sc =
     (if ss_evClosed (strm sc s) then sc\<lparr>sc_panicked := True\<rparr>
      else if \<not> chanFull (strm sc s) then chanSend s e sc
      else let before = ss_st (strm sc s);
               sc = upds s (ss_advance stReset) sc
           in if WasReset before then sc
              else let sc = sc\<lparr>sc_spawned := sc_spawned sc @ [(s, ErrCodeInternalError)]\<rparr>
                   in if \<not> chanFull (strm sc s) then chanSend s (resetEvent ErrCodeInternalError) sc else sc)"

text \<open>One of the goroutines \<open>push\<close> started runs.\<close>

definition runSpawned :: "codec \<Rightarrow> ServerConn \<Rightarrow> ServerConn" where
  "runSpawned c sc =
     (case sc_spawned sc of
        [] \<Rightarrow> sc
      | (s, code) # rest \<Rightarrow> fst (writeServerRSTStream c s code (sc\<lparr>sc_spawned := rest\<rparr>)))"

end
