(* ===== verification/ConnOps.thy ===== *)
theory ConnOps
  imports ConnState
begin

text \<open>
  The operations of conn/server\_ops.go, conn/server\_stream.go and conn/push.go on the
  connection state: admission of a stream, the rapid-reset account, SETTINGS, WINDOW\_UPDATE and
  DATA accounting on the inbound side; HEADERS, DATA, promises and credit on the outbound side.
  Each definition is the whole method. Where a method can block, its result says so instead; the
  interleavings of blocked writers are the subject of theory Writers.
\<close>

section \<open>Inbound\<close>

definition registerStream :: "codec \<Rightarrow> uint32 \<Rightarrow> sref \<Rightarrow> ServerConn \<Rightarrow> ServerConn \<times> bool" where
  "registerStream c sid s sc0 =
     (let sc = upds s (\<lambda>ss. ss\<lparr>ss_ctxBound := True\<rparr>) sc0;
          (t, h, ok) = tbl_admitClient (peerWindow sc) (sc_tbl sc) (sc_objs sc) sid s
                         (uint (MaxConcurrentStreams (advSettings (sc_opts sc))));
          sc = sc\<lparr>sc_tbl := t, sc_objs := h\<rparr>
      in if \<not> ok then
           let (sc, e) = writeServerRSTStream c s ErrCodeRefusedStream sc
           in (upds s cancelCtx sc, False)
         else if length (sc_acceptCh sc) < acceptQueueDepth (sc_opts sc) then
           (sc\<lparr>sc_acceptCh := sc_acceptCh sc @ [s]\<rparr>, True)
         else
           let (sc, e) = writeServerRSTStream c s ErrCodeRefusedStream sc
           in (upds s cancelCtx sc, False))"

definition onClientRSTStream :: "bool \<Rightarrow> ServerConn \<Rightarrow> ServerConn \<times> err option" where
  "onClientRSTStream rapid sc =
     (let budget = rapidResetBudget (sc_opts sc) in
      if budget = 0 then (sc, None)
      else if \<not> rapid then (sc, None)
      else let n = sc_rapidResetCount sc + 1;
               sc = sc\<lparr>sc_rapidResetCount := n\<rparr>
           in if uint n > budget
              then (sc, Some (connError ErrCodeEnhanceYourCalm
                                ''HTTP/2 rapid reset flood detected (CVE-2023-44487)''))
              else (sc, None))"

text \<open>The encoder calls of \<open>applyPeerSettings\<close>, one per SETTINGS\_HEADER\_TABLE\_SIZE entry.\<close>

definition encResizes :: "SettingsParams \<Rightarrow> encOp list" where
  "encResizes s = map (\<lambda>p. EncResize (snd p)) (filter (\<lambda>p. fst p = SettingHeaderTableSize) s)"

definition applyPeerSettings :: "SettingsParams \<Rightarrow> ServerConn \<Rightarrow> ServerConn \<times> err option" where
  "applyPeerSettings s sc0 =
     (case validatePeerSettings s of
        Some e \<Rightarrow> (sc0, Some e)
      | None \<Rightarrow>
          let sc = sc0\<lparr>sc_encDone := sc_encDone sc0 @ encResizes s\<rparr>;
              oldInitial = peerWindow sc;
              sc = sc\<lparr>sc_peerSettings := mergeSettings (sc_peerSettings sc) s\<rparr>;
              newInitial = peerWindow sc;
              changed = (newInitial \<noteq> oldInitial);
              (h, e) = tbl_applyInitialWindow oldInitial newInitial adjustSendWindow (sc_tbl sc) (sc_objs sc);
              sc = sc\<lparr>sc_objs := h\<rparr>
          in (case e of
                Some e \<Rightarrow> (sc, Some e)
              | None \<Rightarrow> (if changed then wakeAll sc else sc, None)))"

definition onWindowUpdate :: "codec \<Rightarrow> uint32 \<Rightarrow> uint32 \<Rightarrow> ServerConn \<Rightarrow> ServerConn \<times> err option" where
  "onWindowUpdate c sid increment sc =
     (if sid = 0 then
        let newVal = sc_peerConnSendWindow sc + uint increment in
        if newVal > maxWindow
        then (sc, Some (connError ErrCodeFlowControlError ''WINDOW_UPDATE overflowed connection send window''))
        else (wakeConn (sc\<lparr>sc_peerConnSendWindow := int32 newVal\<rparr>), None)
      else if isIdleStream sc sid then
        (sc, Some (connError ErrCodeProtocolError ''WINDOW_UPDATE on an idle stream''))
      else case lookupStream sc sid of
        None \<Rightarrow> (sc, None)
      | Some s \<Rightarrow>
          let newVal = ss_sendWindow (strm sc s) + uint increment in
          if newVal > maxWindow then
            let sc = upds s (ss_advance stReset) sc;
                sc = push s (resetEvent ErrCodeFlowControlError) sc;
                (sc, e) = writeServerRSTStream c s ErrCodeFlowControlError sc
            in (sc, None)
          else (wakeStream s (upds s (\<lambda>ss. ss\<lparr>ss_sendWindow := int32 newVal\<rparr>) sc), None))"

text \<open>The connection-level half of \<open>onDataReceived\<close>.\<close>

definition connDebit :: "codec \<Rightarrow> uint32 \<Rightarrow> ServerConn \<Rightarrow> ServerConn \<times> err option" where
  "connDebit c len sc0 =
     (let debit = sint len;
          sc = sc0\<lparr>sc_connRecvWindow := int32 (sc_connRecvWindow sc0 - debit)\<rparr>
      in if sc_connRecvWindow sc < 0
         then (sc, Some (connError ErrCodeFlowControlError ''connection flow control error''))
         else let sc = sc\<lparr>sc_connRefundPending := sc_connRefundPending sc + len\<rparr>;
                  (sc, connRefund) =
                    (if sc_connRefundPending sc \<ge> recvWindowRefundThreshold
                     then (sc\<lparr>sc_connRefundPending := 0,
                              sc_connRecvWindow :=
                                int32 (sc_connRecvWindow sc + sint (sc_connRefundPending sc))\<rparr>,
                           sc_connRefundPending sc)
                     else (sc, 0))
              in if connRefund > 0 then writeWindowUpdate c 0 connRefund sc else (sc, None))"

definition onDataReceived :: "codec \<Rightarrow> sref option \<Rightarrow> uint32 \<Rightarrow> ServerConn \<Rightarrow> ServerConn \<times> err option" where
  "onDataReceived c so len sc =
     (let debit = sint len in
      case so of
        None \<Rightarrow> connDebit c len sc
      | Some s \<Rightarrow>
          let sc = upds s (\<lambda>ss. ss\<lparr>ss_recvWindow := int32 (ss_recvWindow ss - debit)\<rparr>) sc in
          if ss_recvWindow (strm sc s) < 0
          then (sc, Some (connError ErrCodeFlowControlError ''stream flow control error''))
          else connDebit c len sc)"

text \<open>\<open>deliverPingAck\<close>: the waiting channel is closed.\<close>

definition deliverPingAck :: "PingPayload \<Rightarrow> ServerConn \<Rightarrow> ServerConn" where
  "deliverPingAck payload sc =
     (case map_of (sc_pingWaiters sc) payload of
        None \<Rightarrow> sc
      | Some ch \<Rightarrow> sc\<lparr>sc_pingWaiters := adel payload (sc_pingWaiters sc), sc_pingClosed := sc_pingClosed sc @ [ch]\<rparr>)"

section \<open>Outbound: field sections\<close>

definition fieldLineOverhead :: int where "fieldLineOverhead = 9"

fun fieldsFit_loop :: "HeaderField list \<Rightarrow> int \<Rightarrow> int \<Rightarrow> bool" where
  "fieldsFit_loop [] sz limit = True"
| "fieldsFit_loop (f # fs) sz limit =
     (let sz = sz + (int (length (Name f)) + int (length (bval (Value f))) + fieldLineOverhead)
      in if sz > limit then False else fieldsFit_loop fs sz limit)"

definition fieldsFitFrame :: "HeaderField list \<Rightarrow> int \<Rightarrow> bool" where
  "fieldsFitFrame fs limit = fieldsFit_loop fs 0 limit"

definition writeServerHeaders ::
  "codec \<Rightarrow> sref \<Rightarrow> HeaderField list \<Rightarrow> bool \<Rightarrow> Priority option \<Rightarrow> ServerConn \<Rightarrow> ServerConn \<times> err option" where
  "writeServerHeaders c s fs endStream prio0 sc =
     (if sc_closed sc then (sc, Some ErrConnClosed)
      else let prio = (if prio0 = None then ss_priority (strm sc s) else prio0) in
        case authorizeSend (strm sc s) of
          Some e \<Rightarrow> (sc, Some e)
        | None \<Rightarrow>
            let budget = maxWritableFrame sc - (if prio \<noteq> None then 5 else 0) in
            if \<not> fieldsFitFrame fs budget then (sc, Some ErrHeaderBlockTooLarge)
            else let block = cEncode c (sc_encDone sc) fs;
                     sc = sc\<lparr>sc_encDone := sc_encDone sc @ [EncBlock fs]\<rparr>
                 in writeCounted c (WHeaders (ss_id (strm sc s)) block endStream prio) sc)"

text \<open>Both send methods end the local half when asked to, and release a stream both halves of which have ended.\<close>

definition endLocal :: "sref \<Rightarrow> ServerConn \<Rightarrow> ServerConn" where
  "endLocal s sc =
     (let (ss, fullyClosed) = markLocalEnd (strm sc s);
          sc = upds s (\<lambda>_. ss) sc
      in if fullyClosed then markStreamDone (ss_id ss) sc else sc)"

definition SendHeadersWithPriority ::
  "codec \<Rightarrow> sref \<Rightarrow> HeaderField list \<Rightarrow> bool \<Rightarrow> Priority option \<Rightarrow> ServerConn \<Rightarrow> ServerConn \<times> err option" where
  "SendHeadersWithPriority c s fs endStream prio sc =
     (if \<not> Writable (ss_st (strm sc s)) then (sc, Some ErrStreamClosed)
      else case writeServerHeaders c s fs endStream prio sc of
             (sc, Some e) \<Rightarrow> (sc, Some e)
           | (sc, None) \<Rightarrow>
               let sc = upds s (ss_advance stSentFields) sc
               in (if endStream then endLocal s sc else sc, None))"

definition SendHeaders :: "codec \<Rightarrow> sref \<Rightarrow> HeaderField list \<Rightarrow> bool \<Rightarrow> ServerConn \<Rightarrow> ServerConn \<times> err option" where
  "SendHeaders c s fs endStream sc = SendHeadersWithPriority c s fs endStream None sc"

section \<open>Outbound: credit\<close>

definition takeSendCredits :: "sref \<Rightarrow> int \<Rightarrow> ServerConn \<Rightarrow> ServerConn \<times> int option" where
  "takeSendCredits s want sc =
     (let connWin = sc_peerConnSendWindow sc;
          avail = ss_sendWindow (strm sc s);
          avail = (if connWin < avail then connWin else avail)
      in if avail \<le> 0 then (sc, None)
         else let n = int32 want; n = (if n > avail then avail else n);
                  sc = upds s (\<lambda>ss. ss\<lparr>ss_sendWindow := int32 (ss_sendWindow ss - n)\<rparr>) sc
              in (sc\<lparr>sc_peerConnSendWindow := int32 (sc_peerConnSendWindow sc - n)\<rparr>, Some n))"

text \<open>
  \<open>acquireSendCredits\<close> until it returns or goes on to park. \<open>ctxErr\<close> is what \<open>ctx.Err()\<close>
  answers.
\<close>

datatype acquired = AcqOk int | AcqErr err | AcqPark

definition acquireSendCredits :: "err option \<Rightarrow> sref \<Rightarrow> int \<Rightarrow> ServerConn \<Rightarrow> ServerConn \<times> acquired" where
  "acquireSendCredits ctxErr s want sc =
     (if want \<le> 0 then (sc, AcqOk 0)
      else if sc_closed sc then (sc, AcqErr ErrConnClosed)
      else case ctxErr of
             Some e \<Rightarrow> (sc, AcqErr e)
           | None \<Rightarrow> (case takeSendCredits s want sc of
                        (sc, Some n) \<Rightarrow> (sc, AcqOk n)
                      | (sc, None) \<Rightarrow> (sc, AcqPark)))"

definition addWindowSaturating :: "int \<Rightarrow> int \<Rightarrow> int" where
  "addWindowSaturating win n = (let v = win + n in if v > maxWindow then maxWindow else int32 v)"

definition releaseSendCredits :: "sref \<Rightarrow> int \<Rightarrow> ServerConn \<Rightarrow> ServerConn" where
  "releaseSendCredits s n sc0 =
     (if n \<le> 0 then sc0
      else let sc = sc0\<lparr>sc_peerConnSendWindow := addWindowSaturating (sc_peerConnSendWindow sc0) n\<rparr>;
               sc = upds s (\<lambda>ss. ss\<lparr>ss_sendWindow := addWindowSaturating (ss_sendWindow ss) n\<rparr>) sc
           in wakeConn (wakeStream s sc))"

section \<open>Outbound: DATA\<close>

text \<open>
  The chunk loop as one goroutine runs it with nothing in between: it ends, fails, or goes to
  sleep with the octets still to be sent. \<open>p[:n]\<close> is a valid slice because 1 <= want <= 16777215;
  the branch where it would not be is kept as a panic.
\<close>

datatype sendResult = SendOk | SendErr err | SendParked bytes

function writeServerDataChunks ::
  "codec \<Rightarrow> err option \<Rightarrow> sref \<Rightarrow> bytes \<Rightarrow> int \<Rightarrow> bool \<Rightarrow> ServerConn \<Rightarrow> ServerConn \<times> sendResult" where
  "writeServerDataChunks c ctxErr s p maxFrame endStream sc =
     (if p = [] then (sc, SendOk)
      else let want = (if int (length p) > maxFrame then maxFrame else int (length p)) in
        case acquireSendCredits ctxErr s want sc of
          (sc, AcqErr e) \<Rightarrow> (sc, SendErr e)
        | (sc, AcqPark) \<Rightarrow> (sc, SendParked p)
        | (sc, AcqOk n) \<Rightarrow>
            if n < 1 \<or> n > int (length p) then (sc\<lparr>sc_panicked := True\<rparr>, SendOk)
            else let last = (endStream \<and> n = int (length p)) in
              if sc_closed sc then (sc, SendErr ErrConnClosed)
              else case authorizeSend (strm sc s) of
                     Some e \<Rightarrow> (releaseSendCredits s n sc, SendErr e)
                   | None \<Rightarrow>
                       (case writeCounted c (WData (ss_id (strm sc s)) (take (nat n) p) last) sc of
                          (sc, Some e) \<Rightarrow> (sc, SendErr e)
                        | (sc, None) \<Rightarrow>
                            writeServerDataChunks c ctxErr s (drop (nat n) p) maxFrame endStream sc))"
  by pat_completeness auto
termination by (relation "measure (\<lambda>(c, ctxErr, s, p, maxFrame, endStream, sc). length p)") auto

declare writeServerDataChunks.simps [simp del]

definition dataMaxFrame :: "ServerConn \<Rightarrow> int" where
  "dataMaxFrame sc =
     (let peerMax = settingValue (sc_peerSettings sc) SettingMaxFrameSize 16384;
          ourMax = MaxFrameSize (advSettings (sc_opts sc));
          maxFrame = uint peerMax;
          maxFrame = (if uint ourMax < maxFrame then uint ourMax else maxFrame)
      in if maxFrame \<le> 0 then 16384 else maxFrame)"

definition writeServerData ::
  "codec \<Rightarrow> err option \<Rightarrow> sref \<Rightarrow> bytes \<Rightarrow> bool \<Rightarrow> ServerConn \<Rightarrow> ServerConn \<times> sendResult" where
  "writeServerData c ctxErr s p endStream sc =
     (if sc_closed sc then (sc, SendErr ErrConnClosed)
      else let maxFrame = dataMaxFrame sc in
        if p = [] then
          if \<not> endStream then (sc, SendOk)
          else case authorizeSend (strm sc s) of
                 Some e \<Rightarrow> (sc, SendErr e)
               | None \<Rightarrow>
                   (case writeCounted c (WData (ss_id (strm sc s)) [] True) sc of
                      (sc, Some e) \<Rightarrow> (sc, SendErr e)
                    | (sc, None) \<Rightarrow> (sc, SendOk))
        else writeServerDataChunks c ctxErr s p maxFrame endStream sc)"

definition SendData ::
  "codec \<Rightarrow> err option \<Rightarrow> sref \<Rightarrow> bytes \<Rightarrow> bool \<Rightarrow> ServerConn \<Rightarrow> ServerConn \<times> sendResult" where
  "SendData c ctxErr s p endStream sc =
     (if \<not> Writable (ss_st (strm sc s)) then (sc, SendErr ErrStreamClosed)
      else case writeServerData c ctxErr s p endStream sc of
             (sc, SendOk) \<Rightarrow> (if endStream then endLocal s sc else sc, SendOk)
           | (sc, r) \<Rightarrow> (sc, r))"

section \<open>The application's side of a stream\<close>

definition creditConsumed :: "codec \<Rightarrow> sref \<Rightarrow> StreamEvent \<Rightarrow> ServerConn \<Rightarrow> ServerConn" where
  "creditConsumed c s e sc0 =
     (if evType e \<noteq> EventData \<or> evData e = [] then sc0
      else let pending = ss_recvRefundPending (strm sc0 s) + of_nat (length (evData e));
               (sc, refund) =
                 (if pending \<ge> recvWindowRefundThreshold
                  then (upds s (\<lambda>ss. ss\<lparr>ss_recvRefundPending := 0,
                                        ss_recvWindow := int32 (ss_recvWindow ss + sint pending)\<rparr>) sc0, pending)
                  else (upds s (\<lambda>ss. ss\<lparr>ss_recvRefundPending := pending\<rparr>) sc0, 0))
           in if refund > 0 \<and> \<not> WasReset (ss_st (strm sc s))
              then fst (writeWindowUpdate c (ss_id (strm sc s)) refund sc) else sc)"

datatype recvResult = RecvOk StreamEvent | RecvErr err | RecvBlock

definition Recv :: "codec \<Rightarrow> err option \<Rightarrow> sref \<Rightarrow> ServerConn \<Rightarrow> ServerConn \<times> recvResult" where
  "Recv c ctxErr s sc =
     (case ss_events (strm sc s) of
        e # es \<Rightarrow> (creditConsumed c s e (upds s (\<lambda>ss. ss\<lparr>ss_events := es\<rparr>) sc), RecvOk e)
      | [] \<Rightarrow> if ss_evClosed (strm sc s) then (sc, RecvErr ErrStreamClosed)
              else case ctxErr of Some e \<Rightarrow> (sc, RecvErr e) | None \<Rightarrow> (sc, RecvBlock))"

text \<open>\<open>ServerStream.Close\<close>\<close>

definition StreamClose :: "codec \<Rightarrow> sref \<Rightarrow> ServerConn \<Rightarrow> ServerConn \<times> err option" where
  "StreamClose c s sc =
     (let before = ss_st (strm sc s);
          sc = upds s (ss_advance stReset) sc
      in if Terminal before then (sc, None) else writeServerRSTStream c s ErrCodeCancel sc)"

section \<open>Server push\<close>

text \<open>The literal of \<open>writePushPromise\<close>: a stream with no identifier yet, no receive window and four event slots.\<close>

definition newPushStream :: ServerStream where
  "newPushStream = (ss_advance stRecvEnded (newServerStream 0 4 0))\<lparr>ss_ctxBound := True\<rparr>"

definition writePushPromise ::
  "codec \<Rightarrow> sref \<Rightarrow> HeaderField list \<Rightarrow> ServerConn \<Rightarrow> ServerConn \<times> (err + sref)" where
  "writePushPromise c parent fs sc =
     (if sc_closed sc then (sc, Inl ErrConnClosed)
      else if lookupStream sc (ss_id (strm sc parent)) \<noteq> Some parent then (sc, Inl ErrStreamClosed)
      else let pushLimit = settingValue (sc_peerSettings sc) SettingMaxConcurrentStreams noStreamLimit in
        if \<not> fieldsFitFrame fs (maxWritableFrame sc - 4) then (sc, Inl ErrHeaderBlockTooLarge)
        else let (sc, ps) = allocStream newPushStream sc;
                 (t, h, r) = tbl_reservePush (peerWindow sc) (sc_tbl sc) (sc_objs sc) ps pushLimit;
                 sc = sc\<lparr>sc_tbl := t, sc_objs := h\<rparr>
             in case r of
                  None \<Rightarrow> (upds ps cancelCtx sc, Inl ErrPushRefused)
                | Some promisedID \<Rightarrow>
                    let block = cEncode c (sc_encDone sc) fs;
                        sc = sc\<lparr>sc_encDone := sc_encDone sc @ [EncBlock fs]\<rparr>
                    in case frWrite c (WPushPromise (ss_id (strm sc parent)) promisedID block) sc of
                         (sc, Some e) \<Rightarrow>
                           (upds ps cancelCtx (sc\<lparr>sc_tbl := fst (tbl_release (sc_tbl sc) promisedID)\<rparr>), Inl e)
                       | (sc, None) \<Rightarrow> (bumpFramesSent sc, Inr ps))"

definition Push :: "codec \<Rightarrow> sref \<Rightarrow> HeaderField list \<Rightarrow> ServerConn \<Rightarrow> ServerConn \<times> (err + sref)" where
  "Push c s promiseHeaders sc =
     (if \<not> isPushEnabled sc then (sc, Inl ErrPushDisabled)
      else if sc_peerGoAway sc then (sc, Inl ErrPeerGoAway)
      else if \<not> isClientID (ss_id (strm sc s)) then (sc, Inl ErrPushOnServerStream)
      else if \<not> ValidRequestPseudoHeaders promiseHeaders then (sc, Inl ErrPushMalformedPromise)
      else if SentFields (ss_st (strm sc s)) then (sc, Inl ErrPushAfterResponse)
      else writePushPromise c s promiseHeaders sc)"

definition PushWithPriority ::
  "codec \<Rightarrow> sref \<Rightarrow> HeaderField list \<Rightarrow> Priority option \<Rightarrow> ServerConn \<Rightarrow> ServerConn \<times> (err + sref)" where
  "PushWithPriority c s promiseHeaders prio sc =
     (case Push c s promiseHeaders sc of
        (sc, Inl e) \<Rightarrow> (sc, Inl e)
      | (sc, Inr ps) \<Rightarrow> (upds ps (setPriority prio) sc, Inr ps))"

end
