(* ===== verification/ConnHandler.thy ===== *)
theory ConnHandler
  imports ConnOps
begin

text \<open>
  The frame handler (conn/server\_handler.go, \<open>serverConnHandler\<close>): one definition per callback
  of the codec's \<open>Handler\<close> interface, and the field-section path behind HEADERS and CONTINUATION
  (\<open>emitHeaderBlock\<close> with its buffers, \<open>discardHeaderBlock\<close>, \<open>ownedCopy\<close>).

  A callback maps the handler and the connection to both and the error it returns. The scratch
  buffers of the handler (\<open>fieldBuf\<close>, \<open>spans\<close>, \<open>scratch\<close>) are cleared at the start of
  every block, so they are local to the definitions that fill them.
\<close>

section \<open>The handler\<close>

record serverConnHandler =
  h_maxHeaderBytes :: int
  h_recvWindowSeed :: int
  h_eventBuf :: int
  h_pendingStreamID :: uint32
  h_pendingBuf :: bytes
  h_pendingEndStream :: bool
  h_pendingTrailer :: bool
  h_pendingDiscard :: bool

definition defaultMaxHeaderBytes :: int where "defaultMaxHeaderBytes = 1048576"
definition fieldEntryOverhead :: int where "fieldEntryOverhead = 32"

definition status431Fields :: "HeaderField list" where
  "status431Fields = [\<lparr>Name = '':status'', Value = Some ''431'', Indexing = 0\<rparr>]"

definition newServerConnHandler :: "int \<Rightarrow> int \<Rightarrow> int \<Rightarrow> serverConnHandler" where
  "newServerConnHandler maxHeaderBytes recvWindowSeed eventBuf =
     \<lparr>h_maxHeaderBytes = (if maxHeaderBytes \<le> 0 then defaultMaxHeaderBytes else maxHeaderBytes),
      h_recvWindowSeed = (if recvWindowSeed \<le> 0 then uint connInitialRecvWindow else recvWindowSeed),
      h_eventBuf = (if eventBuf \<le> 0 then defaultStreamEventBuffer else eventBuf),
      h_pendingStreamID = 0, h_pendingBuf = [], h_pendingEndStream = False,
      h_pendingTrailer = False, h_pendingDiscard = False\<rparr>"

type_synonym hstate = "serverConnHandler \<times> ServerConn"

definition guardHeaderBlock :: "serverConnHandler \<Rightarrow> err option" where
  "guardHeaderBlock h =
     (if h_pendingStreamID h \<noteq> 0
      then Some (connError ErrCodeProtocolError ''expected CONTINUATION for open header block'') else None)"

definition undispatchedFrameType :: "8 word \<Rightarrow> bool" where
  "undispatchedFrameType t \<longleftrightarrow> t > FrameContinuation \<and> t \<noteq> FrameAltSvc \<and> t \<noteq> FrameOrigin"

definition respondFieldsTooLarge :: "codec \<Rightarrow> sref option \<Rightarrow> ServerConn \<Rightarrow> ServerConn" where
  "respondFieldsTooLarge c so sc =
     (case so of None \<Rightarrow> sc
      | Some s \<Rightarrow>
          let (sc, e) = SendHeaders c s status431Fields True sc
          in markStreamDone (ss_id (strm sc s)) sc)"

section \<open>Field sections\<close>

text \<open>
  The decode callback of \<open>emitHeaderBlock\<close>, run over the fields the decoder visits: validation
  flags, the size account, and the private copy as octets (\<open>fieldBuf\<close>) and extents (\<open>spans\<close>).
\<close>

record collect =
  co_malformed :: bool
  co_oversized :: bool
  co_listSize :: int
  co_fieldBuf :: bytes
  co_spans :: "(nat \<times> nat \<times> 8 word) list"

definition collect0 :: collect where
  "collect0 = \<lparr>co_malformed = False, co_oversized = False, co_listSize = 0, co_fieldBuf = [], co_spans = []\<rparr>"

definition visitField :: "int \<Rightarrow> bool \<Rightarrow> HeaderField \<Rightarrow> collect \<Rightarrow> collect" where
  "visitField maxHeaderBytes isTrailer f co =
     (let v = bval (Value f);
          co = (if \<not> co_malformed co \<and> Prohibited (Name f) v isTrailer then co\<lparr>co_malformed := True\<rparr> else co);
          co = co\<lparr>co_listSize := co_listSize co + (int (length (Name f)) + int (length v) + fieldEntryOverhead)\<rparr>
      in if co_listSize co > maxHeaderBytes then co\<lparr>co_oversized := True\<rparr>
         else if \<not> co_oversized co
           then co\<lparr>co_fieldBuf := co_fieldBuf co @ Name f @ v,
                   co_spans := co_spans co @ [(length (Name f), length v, Indexing f)]\<rparr>
         else co)"

definition collectFields :: "int \<Rightarrow> bool \<Rightarrow> HeaderField list \<Rightarrow> collect" where
  "collectFields maxHeaderBytes isTrailer fs = fold (visitField maxHeaderBytes isTrailer) fs collect0"

text \<open>The loop that materialises the fields from the finished buffer; slices of it are never nil.\<close>

definition slice :: "bytes \<Rightarrow> nat \<Rightarrow> nat \<Rightarrow> bytes" where
  "slice b i j = take (j - i) (drop i b)"

fun materialise :: "bytes \<Rightarrow> nat \<Rightarrow> (nat \<times> nat \<times> 8 word) list \<Rightarrow> HeaderField list" where
  "materialise buf off [] = []"
| "materialise buf off ((nameLen, valLen, ix) # sps) =
     (let nameEnd = off + nameLen; valEnd = nameEnd + valLen
      in \<lparr>Name = slice buf off nameEnd, Value = Some (slice buf nameEnd valEnd), Indexing = ix\<rparr>
         # materialise buf valEnd sps)"

text \<open>\<open>ownedCopy\<close>: the fields moved into one slab.\<close>

fun copy_loop :: "HeaderField list \<Rightarrow> bytes \<Rightarrow> (nat \<times> nat \<times> nat \<times> 8 word) list \<Rightarrow> bytes \<times> (nat \<times> nat \<times> nat \<times> 8 word) list" where
  "copy_loop [] slab acc = (slab, acc)"
| "copy_loop (f # fs) slab acc =
     (let nameOff = length slab; slab = slab @ Name f;
          valOff = length slab; slab = slab @ bval (Value f);
          endOff = length slab
      in copy_loop fs slab (acc @ [(nameOff, valOff, endOff, Indexing f)]))"

definition ownedCopy :: "HeaderField list \<Rightarrow> HeaderField list" where
  "ownedCopy scratch =
     (let (slab, offs) = copy_loop scratch [] []
      in map (\<lambda>(n, v, e, ix). \<lparr>Name = slice slab n v, Value = Some (slice slab v e), Indexing = ix\<rparr>) offs)"

text \<open>One call of \<open>DecodeBlock\<close>.\<close>

definition decodeBlock :: "codec \<Rightarrow> bytes \<Rightarrow> ServerConn \<Rightarrow> ServerConn \<times> HeaderField list \<times> string option" where
  "decodeBlock c hb sc = (sc\<lparr>sc_decSeen := sc_decSeen sc @ [hb]\<rparr>, cDecode c (sc_decSeen sc) hb)"

definition discardHeaderBlock :: "codec \<Rightarrow> bytes \<Rightarrow> hstate \<Rightarrow> hstate \<times> err option" where
  "discardHeaderBlock c hb hs =
     (let (h, sc) = hs;
          h = h\<lparr>h_pendingStreamID := 0, h_pendingDiscard := False\<rparr>;
          (sc, fs, e) = decodeBlock c hb sc
      in case e of
           Some m \<Rightarrow> ((h, sc), Some (connError ErrCodeCompressionError (''HPACK decoding error: '' @ m)))
         | None \<Rightarrow> ((h, sc), None))"

definition headersEvent :: "bool \<Rightarrow> HeaderField list \<Rightarrow> bool \<Rightarrow> StreamEvent" where
  "headersEvent isTrailer fs endStream =
     \<lparr>evType = (if isTrailer then EventTrailers else EventHeaders), evHeaders = fs, evData = [],
      evEndStream = endStream, evRSTCode = ErrCodeNoError\<rparr>"

definition dataEvent :: "bytes \<Rightarrow> bool \<Rightarrow> StreamEvent" where
  "dataEvent p endStream =
     \<lparr>evType = EventData, evHeaders = [], evData = p, evEndStream = endStream, evRSTCode = ErrCodeNoError\<rparr>"

text \<open>
  The end of both delivering callbacks: record the transition, hand the event over, release the
  stream if it is now fully closed.
\<close>

definition deliverEvent :: "sref \<Rightarrow> uint32 \<Rightarrow> bool \<Rightarrow> StreamEvent \<Rightarrow> ServerConn \<Rightarrow> ServerConn" where
  "deliverEvent s sid endStream ev sc =
     (let (sc, fullyClosed) =
            (if endStream
             then (upds s (\<lambda>ss. fst (markRemoteEnd ss)) sc, snd (markRemoteEnd (strm sc s)))
             else (sc, False));
          sc = push s ev sc
      in if fullyClosed then markStreamDone sid sc else sc)"

definition emitHeaderBlock ::
  "codec \<Rightarrow> sref \<Rightarrow> bytes \<Rightarrow> bool \<Rightarrow> bool \<Rightarrow> hstate \<Rightarrow> hstate \<times> err option" where
  "emitHeaderBlock c s hb endStream isTrailer hs =
     (let (h, sc) = hs;
          h = h\<lparr>h_pendingStreamID := 0\<rparr>;
          (sc, fs, e) = decodeBlock c hb sc;
          co = collectFields (h_maxHeaderBytes h) isTrailer fs;
          scratch = materialise (co_fieldBuf co) 0 (co_spans co)
      in case e of
           Some m \<Rightarrow> ((h, sc), Some (connError ErrCodeCompressionError (''HPACK decoding error: '' @ m)))
         | None \<Rightarrow>
             if co_oversized co then ((h, respondFieldsTooLarge c (Some s) sc), None)
             else if RemoteEnded (ss_st (strm sc s))
               then ((h, fst (writeServerRSTStream c s ErrCodeStreamClosed sc)), None)
             else if co_malformed co
                     \<or> (\<not> isTrailer \<and> \<not> ValidRequestPseudoHeaders scratch)
                     \<or> (isTrailer \<and> \<not> endStream)
               then ((h, fst (writeServerRSTStream c s ErrCodeProtocolError sc)), None)
             else ((h, deliverEvent s (ss_id (strm sc s)) endStream
                         (headersEvent isTrailer (ownedCopy scratch) endStream) sc), None))"

section \<open>The callbacks\<close>

definition OnData :: "codec \<Rightarrow> FrameHeader \<Rightarrow> bytes \<Rightarrow> hstate \<Rightarrow> hstate \<times> err option" where
  "OnData c fh p hs =
     (let (h, sc) = hs in
      case guardHeaderBlock h of
        Some e \<Rightarrow> (hs, Some e)
      | None \<Rightarrow>
          if \<not> isClientID (fStreamID fh)
          then (hs, Some (connError ErrCodeProtocolError ''client DATA on a server-initiated stream''))
          else if isIdleStream sc (fStreamID fh)
          then (hs, Some (connError ErrCodeProtocolError ''DATA on an idle stream''))
          else let so = lookupStream sc (fStreamID fh) in
            case onDataReceived c so (fLength fh) sc of
              (sc, Some e) \<Rightarrow> ((h, sc), Some e)
            | (sc, None) \<Rightarrow>
                (case so of
                   None \<Rightarrow> ((h, sc), None)
                 | Some s \<Rightarrow>
                     if RemoteEnded (ss_st (strm sc s))
                     then ((h, fst (writeServerRSTStream c s ErrCodeStreamClosed sc)), None)
                     else ((h, deliverEvent s (fStreamID fh) (fEndStream fh) (dataEvent p (fEndStream fh)) sc), None)))"

text \<open>The first part of \<open>OnHeaders\<close>: a new stream is validated, built, given its priority and registered.\<close>

definition openStream ::
  "codec \<Rightarrow> serverConnHandler \<Rightarrow> uint32 \<Rightarrow> Priority option \<Rightarrow> ServerConn \<Rightarrow> err + (ServerConn \<times> sref \<times> bool)" where
  "openStream c h sid prio sc =
     (case validateClientStreamID sc sid of
        Some e \<Rightarrow> Inl e
      | None \<Rightarrow>
          let (sc, s) = allocStream (newServerStream sid (nat (h_eventBuf h)) (h_recvWindowSeed h)) sc;
              sc = upds s (setPriority prio) sc;
              (sc, ok) = registerStream c sid s sc
          in Inr (sc, s, \<not> ok))"

text \<open>The rest of it, on the stream and whether it is new and refused.\<close>

definition headersBlock ::
  "codec \<Rightarrow> FrameHeader \<Rightarrow> bytes \<Rightarrow> sref \<Rightarrow> bool \<Rightarrow> bool \<Rightarrow> hstate \<Rightarrow> hstate \<times> err option" where
  "headersBlock c fh hb s isNew refused hs =
     (let (h, sc) = hs in
      if \<not> fEndHeaders fh then
        if int (length hb) > h_maxHeaderBytes h
        then ((h, respondFieldsTooLarge c (Some s) sc),
              Some (connError ErrCodeEnhanceYourCalm ''header block exceeds max size''))
        else ((h\<lparr>h_pendingStreamID := fStreamID fh, h_pendingBuf := hb, h_pendingEndStream := fEndStream fh,
                 h_pendingDiscard := refused,
                 h_pendingTrailer := (\<not> isNew \<and> RecvdFields (ss_st (strm sc s)))\<rparr>, sc), None)
      else if refused then discardHeaderBlock c hb (h, sc)
      else let isTrailer = (\<not> isNew \<and> RecvdFields (ss_st (strm sc s)));
               sc = (if \<not> isTrailer then upds s (ss_advance stRecvFields) sc else sc)
           in emitHeaderBlock c s hb (fEndStream fh) isTrailer (h, sc))"

definition OnHeaders :: "codec \<Rightarrow> FrameHeader \<Rightarrow> bytes \<Rightarrow> Priority option \<Rightarrow> hstate \<Rightarrow> hstate \<times> err option" where
  "OnHeaders c fh hb prio hs =
     (let (h, sc) = hs in
      case guardHeaderBlock h of
        Some e \<Rightarrow> (hs, Some e)
      | None \<Rightarrow>
          if \<not> isClientID (fStreamID fh)
          then (hs, Some (connError ErrCodeProtocolError ''client HEADERS on even (server-initiated) stream ID''))
          else case lookupStream sc (fStreamID fh) of
                 Some s \<Rightarrow> headersBlock c fh hb s False False hs
               | None \<Rightarrow>
                   (case openStream c h (fStreamID fh) prio sc of
                      Inl e \<Rightarrow> (hs, Some e)
                    | Inr (sc, s, refused) \<Rightarrow> headersBlock c fh hb s True refused (h, sc)))"

definition OnContinuation :: "codec \<Rightarrow> FrameHeader \<Rightarrow> bytes \<Rightarrow> hstate \<Rightarrow> hstate \<times> err option" where
  "OnContinuation c fh hb hs =
     (let (h, sc) = hs in
      if h_pendingStreamID h = 0 then (hs, Some (connError ErrCodeProtocolError ''unexpected CONTINUATION''))
      else if fStreamID fh \<noteq> h_pendingStreamID h
      then (hs, Some (connError ErrCodeProtocolError ''CONTINUATION on wrong stream''))
      else if int (length (h_pendingBuf h)) + int (length hb) > h_maxHeaderBytes h
      then ((h, respondFieldsTooLarge c (lookupStream sc (fStreamID fh)) sc),
            Some (connError ErrCodeEnhanceYourCalm ''header block exceeds max size''))
      else let h = h\<lparr>h_pendingBuf := h_pendingBuf h @ hb\<rparr> in
        if \<not> fEndHeaders fh then ((h, sc), None)
        else if h_pendingDiscard h then discardHeaderBlock c (h_pendingBuf h) (h, sc)
        else case lookupStream sc (fStreamID fh) of
               None \<Rightarrow> discardHeaderBlock c (h_pendingBuf h) (h, sc)
             | Some s \<Rightarrow>
                 let isTrailer = h_pendingTrailer h;
                     sc = (if \<not> isTrailer then upds s (ss_advance stRecvFields) sc else sc)
                 in emitHeaderBlock c s (h_pendingBuf h) (h_pendingEndStream h) isTrailer (h, sc))"

text \<open>PRIORITY, ORIGIN and ALTSVC are checked against section 6.10 and otherwise ignored.\<close>

definition OnIgnored :: "hstate \<Rightarrow> hstate \<times> err option" where
  "OnIgnored hs = (hs, guardHeaderBlock (fst hs))"

definition OnRSTStream :: "FrameHeader \<Rightarrow> ErrCode \<Rightarrow> hstate \<Rightarrow> hstate \<times> err option" where
  "OnRSTStream fh code hs =
     (let (h, sc) = hs in
      case guardHeaderBlock h of
        Some e \<Rightarrow> (hs, Some e)
      | None \<Rightarrow>
          if isIdleStream sc (fStreamID fh)
          then (hs, Some (connError ErrCodeProtocolError ''RST_STREAM on an idle stream''))
          else case lookupStream sc (fStreamID fh) of
                 None \<Rightarrow> (let (sc, e) = onClientRSTStream True sc in ((h, sc), e))
               | Some s \<Rightarrow>
                   let (ss, rapid) = markRemoteEndReset (strm sc s);
                       sc = upds s (\<lambda>_. ss) sc;
                       sc = push s (resetEvent code) sc;
                       sc = markStreamDone (fStreamID fh) sc;
                       (sc, e) = onClientRSTStream rapid sc
                   in ((h, sc), e))"

definition OnSettings :: "codec \<Rightarrow> FrameHeader \<Rightarrow> SettingsParams \<Rightarrow> hstate \<Rightarrow> hstate \<times> err option" where
  "OnSettings c fh s hs =
     (let (h, sc) = hs in
      case guardHeaderBlock h of
        Some e \<Rightarrow> (hs, Some e)
      | None \<Rightarrow>
          if fAck fh then (hs, None)
          else case applyPeerSettings s sc of
                 (sc, Some e) \<Rightarrow> ((h, sc), Some e)
               | (sc, None) \<Rightarrow> (let (sc, e) = writeSettingsAck c sc in ((h, sc), e)))"

definition OnPushPromise :: "hstate \<Rightarrow> hstate \<times> err option" where
  "OnPushPromise hs = (hs, Some (connError ErrCodeProtocolError ''server received PUSH_PROMISE''))"

definition OnPing :: "codec \<Rightarrow> FrameHeader \<Rightarrow> PingPayload \<Rightarrow> hstate \<Rightarrow> hstate \<times> err option" where
  "OnPing c fh payload hs =
     (let (h, sc) = hs in
      case guardHeaderBlock h of
        Some e \<Rightarrow> (hs, Some e)
      | None \<Rightarrow> if fAck fh then ((h, deliverPingAck payload sc), None)
                else (let (sc, e) = writePingAck c payload sc in ((h, sc), e)))"

definition OnGoAway :: "hstate \<Rightarrow> hstate \<times> err option" where
  "OnGoAway hs =
     (let (h, sc) = hs in
      case guardHeaderBlock h of
        Some e \<Rightarrow> (hs, Some e)
      | None \<Rightarrow> ((h, notePeerGoAway sc), None))"

definition OnWindowUpdate :: "codec \<Rightarrow> FrameHeader \<Rightarrow> uint32 \<Rightarrow> hstate \<Rightarrow> hstate \<times> err option" where
  "OnWindowUpdate c fh increment hs =
     (let (h, sc) = hs in
      case guardHeaderBlock h of
        Some e \<Rightarrow> (hs, Some e)
      | None \<Rightarrow> (let (sc, e) = onWindowUpdate c (fStreamID fh) increment sc in ((h, sc), e)))"

text \<open>
  What the codec hands to the handler for one frame: the callback and its arguments; or nothing,
  for a type it does not know; or the sentinel with which it rejects the frame itself.
\<close>

datatype inFrame =
    FData FrameHeader bytes
  | FHeaders FrameHeader bytes "Priority option"
  | FPriority FrameHeader
  | FRSTStream FrameHeader ErrCode
  | FSettings FrameHeader SettingsParams
  | FPushPromise FrameHeader
  | FPing FrameHeader PingPayload
  | FGoAway FrameHeader
  | FWindowUpdate FrameHeader uint32
  | FContinuation FrameHeader bytes
  | FAltSvc FrameHeader
  | FOrigin FrameHeader
  | FUnknown FrameHeader
  | FReject FrameHeader err

fun frameHeader :: "inFrame \<Rightarrow> FrameHeader" where
  "frameHeader (FData fh p) = fh"
| "frameHeader (FHeaders fh hb prio) = fh"
| "frameHeader (FPriority fh) = fh"
| "frameHeader (FRSTStream fh code) = fh"
| "frameHeader (FSettings fh s) = fh"
| "frameHeader (FPushPromise fh) = fh"
| "frameHeader (FPing fh payload) = fh"
| "frameHeader (FGoAway fh) = fh"
| "frameHeader (FWindowUpdate fh increment) = fh"
| "frameHeader (FContinuation fh hb) = fh"
| "frameHeader (FAltSvc fh) = fh"
| "frameHeader (FOrigin fh) = fh"
| "frameHeader (FUnknown fh) = fh"
| "frameHeader (FReject fh e) = fh"

fun dispatch :: "codec \<Rightarrow> inFrame \<Rightarrow> hstate \<Rightarrow> hstate \<times> err option" where
  "dispatch c (FData fh p) hs = OnData c fh p hs"
| "dispatch c (FHeaders fh hb prio) hs = OnHeaders c fh hb prio hs"
| "dispatch c (FPriority fh) hs = OnIgnored hs"
| "dispatch c (FRSTStream fh code) hs = OnRSTStream fh code hs"
| "dispatch c (FSettings fh s) hs = OnSettings c fh s hs"
| "dispatch c (FPushPromise fh) hs = OnPushPromise hs"
| "dispatch c (FPing fh payload) hs = OnPing c fh payload hs"
| "dispatch c (FGoAway fh) hs = OnGoAway hs"
| "dispatch c (FWindowUpdate fh increment) hs = OnWindowUpdate c fh increment hs"
| "dispatch c (FContinuation fh hb) hs = OnContinuation c fh hb hs"
| "dispatch c (FAltSvc fh) hs = OnIgnored hs"
| "dispatch c (FOrigin fh) hs = OnIgnored hs"
| "dispatch c (FUnknown fh) hs = (hs, None)"
| "dispatch c (FReject fh e) hs = (hs, Some e)"

end
