(* ===== verification/ConnLoop.thy ===== *)
theory ConnLoop
  imports ConnHandler
begin

text \<open>
  The life of a connection (conn/server\_conn.go, conn/server\_upgrade.go): construction and the
  SETTINGS handshake, the reader loop with its error classification, GOAWAY and its identifier
  clamp, AcceptStream, Ping, shutdown and Close.

  The codec delivers frames one at a time, so the loops are functions of the list of frames it
  delivers. Deadlines on the transport, the wait of \<open>Close\<close> for the reader and the wait of \<open>Ping\<close>
  for its answer have no state of their own here.
\<close>

section \<open>GOAWAY\<close>

definition maxStreamID :: uint32 where "maxStreamID = 2147483647"

definition clampGoAwayID :: "uint32 \<Rightarrow> ServerConn \<Rightarrow> ServerConn \<times> uint32" where
  "clampGoAwayID sid sc =
     (let sid = (if sid > sc_goAwaySentID sc then sc_goAwaySentID sc else sid)
      in (sc\<lparr>sc_goAwaySentID := sid\<rparr>, sid))"

text \<open>\<open>fr.WriteGoAway(sc.clampGoAwayID(id), code, nil)\<close> with the count on success.\<close>

definition writeGoAway :: "codec \<Rightarrow> uint32 \<Rightarrow> ErrCode \<Rightarrow> ServerConn \<Rightarrow> ServerConn \<times> err option" where
  "writeGoAway c sid code sc =
     (let (sc, last) = clampGoAwayID sid sc in writeCounted c (WGoAway last code) sc)"

definition GoAwayGraceful :: "codec \<Rightarrow> ServerConn \<Rightarrow> ServerConn \<times> err option" where
  "GoAwayGraceful c sc0 =
     (if sc_goAwayRequested sc0 then (sc0, None)
      else let sc = sc0\<lparr>sc_goAwayRequested := True\<rparr> in
        if sc_closed sc then (sc, Some ErrConnClosed)
        else writeGoAway c maxStreamID ErrCodeNoError sc)"

definition GoAway :: "codec \<Rightarrow> ErrCode \<Rightarrow> ServerConn \<Rightarrow> ServerConn \<times> err option" where
  "GoAway c code sc0 =
     (if sc_goAwayRequested sc0 then (sc0, None)
      else let sc = sc0\<lparr>sc_goAwayRequested := True\<rparr> in
        if sc_closed sc then (sc, Some ErrConnClosed)
        else writeGoAway c (lastPeerStreamID sc) code sc)"

definition sendGoAway :: "codec \<Rightarrow> ErrCode \<Rightarrow> ServerConn \<Rightarrow> ServerConn" where
  "sendGoAway c code sc0 =
     (if sc_goAwayRequested sc0 then sc0
      else let sc = sc0\<lparr>sc_goAwayRequested := True\<rparr> in
        if \<not> sc_closed sc then fst (writeGoAway c (lastPeerStreamID sc) code sc) else sc)"

section \<open>Shutdown\<close>

definition transportClose :: "ServerConn \<Rightarrow> ServerConn" where
  "transportClose sc = sc\<lparr>sc_transportClosed := True\<rparr>"

definition shutdownStream :: "sref \<Rightarrow> ServerConn \<Rightarrow> ServerConn" where
  "shutdownStream s sc0 =
     (let sc = (if ss_evClosed (strm sc0 s) then sc0\<lparr>sc_panicked := True\<rparr>
                else if \<not> chanFull (strm sc0 s) then chanSend s (resetEvent ErrCodeInternalError) sc0
                else sc0)
      in upds s cancelCtx (upds s (\<lambda>ss. ss\<lparr>ss_evClosed := True\<rparr>) sc))"

definition shutdownStreams :: "ServerConn \<Rightarrow> ServerConn" where
  "shutdownStreams sc =
     (let (t, all) = tbl_drain (sc_tbl sc) in fold shutdownStream all (sc\<lparr>sc_tbl := t\<rparr>))"

text \<open>\<open>ServerConn.Close\<close> up to its wait for the reader.\<close>

definition ConnClose :: "codec \<Rightarrow> ServerConn \<Rightarrow> ServerConn" where
  "ConnClose c sc0 =
     (if sc_closed sc0 then sc0
      else let sc = sc0\<lparr>sc_closed := True\<rparr>;
               sc = sc\<lparr>sc_connCancelled := True\<rparr>;
               sc = wakeAll sc;
               sc = (case writeGoAway c (lastPeerStreamID sc) ErrCodeNoError sc of
                       (sc, None) \<Rightarrow> sc\<lparr>sc_goAwayRequested := True\<rparr>
                     | (sc, Some e) \<Rightarrow> sc)
           in transportClose sc)"

definition abortHandshake :: "ServerConn \<Rightarrow> ServerConn" where
  "abortHandshake sc = transportClose ((shutdownStreams sc)\<lparr>sc_connCancelled := True\<rparr>)"

section \<open>The reader loop\<close>

datatype loopResult = Continue | Exit

text \<open>The code a fatal error is reported with: a handler's own, or the codec table's.\<close>

definition fatalCode :: "err \<Rightarrow> ErrCode option" where
  "fatalCode e = (case e of connError code m \<Rightarrow> Some code | _ \<Rightarrow> codecErrCode e)"

definition readerExit :: "ErrCode option \<Rightarrow> codec \<Rightarrow> ServerConn \<Rightarrow> ServerConn" where
  "readerExit code c sc0 =
     (let sc = (case code of Some code \<Rightarrow> transportClose (sendGoAway c code sc0) | None \<Rightarrow> sc0)
      in (shutdownStreams sc)\<lparr>sc_readerDone := True\<rparr>)"

definition readerIter :: "codec \<Rightarrow> inFrame \<Rightarrow> hstate \<Rightarrow> hstate \<times> loopResult" where
  "readerIter c fr hs0 =
     (let fh = frameHeader fr;
          ((h, sc), e0) = dispatch c fr hs0;
          e1 = (if e0 = None \<and> h_pendingStreamID h \<noteq> 0 \<and> undispatchedFrameType (fType fh)
                then Some (connError ErrCodeProtocolError ''extension frame inside an open field block'')
                else e0)
      in case e1 of
           None \<Rightarrow> ((h, sc\<lparr>sc_framesReceived := sc_framesReceived sc + 1\<rparr>), Continue)
         | Some e \<Rightarrow>
             if h_pendingStreamID h \<noteq> 0 \<and> \<not> transportErr e
                \<and> (fType fh \<noteq> FrameContinuation \<or> fStreamID fh \<noteq> h_pendingStreamID h)
             then ((h, readerExit (Some ErrCodeProtocolError) c sc), Exit)
             else if h_pendingStreamID h = 0 \<and> fStreamID fh \<noteq> 0 \<and> \<not> isIdleStream sc (fStreamID fh)
                     \<and> e = ErrPriorityWrongLength
             then ((h, fst (writeRSTStreamID c (fStreamID fh) ErrCodeFrameSizeError sc)), Continue)
             else if h_pendingStreamID h = 0 \<and> fStreamID fh \<noteq> 0 \<and> \<not> isIdleStream sc (fStreamID fh)
                     \<and> e = ErrZeroIncrement
             then ((h, fst (writeRSTStreamID c (fStreamID fh) ErrCodeProtocolError sc)), Continue)
             else ((h, readerExit (fatalCode e) c sc), Exit))"

text \<open>The loop over the frames delivered; it has exited, or waits for the next one.\<close>

fun readerLoop :: "codec \<Rightarrow> inFrame list \<Rightarrow> hstate \<Rightarrow> hstate \<times> loopResult" where
  "readerLoop c [] hs = (hs, Continue)"
| "readerLoop c (fr # frs) hs =
     (case readerIter c fr hs of
        (hs, Continue) \<Rightarrow> readerLoop c frs hs
      | (hs, Exit) \<Rightarrow> (hs, Exit))"

section \<open>Accepting streams\<close>

text \<open>Streams that died in the queue are skipped; the first live one is delivered and counted.\<close>

fun accept_loop :: "store \<Rightarrow> sref list \<Rightarrow> sref option \<times> sref list" where
  "accept_loop h [] = (None, [])"
| "accept_loop h (s # q) = (if deliverable (h s) then (Some s, q) else accept_loop h q)"

datatype acceptResult = Accepted sref | AcceptErr err | AcceptBlock

text \<open>
  With an empty queue the blocking select takes whichever of the closed reader and the cancelled
  context is ready; if both are, the model takes the reader.
\<close>

definition AcceptStream :: "err option \<Rightarrow> ServerConn \<Rightarrow> ServerConn \<times> acceptResult" where
  "AcceptStream ctxErr sc =
     (if sc_closed sc then (sc, AcceptErr ErrConnClosed)
      else case accept_loop (sc_objs sc) (sc_acceptCh sc) of
             (Some s, q) \<Rightarrow>
               (sc\<lparr>sc_acceptCh := q, sc_streamsAccepted := sc_streamsAccepted sc + 1\<rparr>, Accepted s)
           | (None, q) \<Rightarrow>
               (sc\<lparr>sc_acceptCh := q\<rparr>,
                if sc_readerDone sc then AcceptErr ErrConnClosed
                else case ctxErr of Some e \<Rightarrow> AcceptErr e | None \<Rightarrow> AcceptBlock))"

section \<open>Ping\<close>

definition Ping_send :: "codec \<Rightarrow> ServerConn \<Rightarrow> ServerConn \<times> (err + PingPayload)" where
  "Ping_send c sc0 =
     (if sc_closed sc0 then (sc0, Inl ErrConnClosed)
      else let n = sc_pingCounter sc0 + 1;
               sc = sc0\<lparr>sc_pingCounter := n, sc_pingWaiters := aput n (unat n) (sc_pingWaiters sc0)\<rparr>
           in case writeCounted c (WPing False n) sc of
                (sc, Some e) \<Rightarrow> (sc\<lparr>sc_pingWaiters := adel n (sc_pingWaiters sc)\<rparr>, Inl e)
              | (sc, None) \<Rightarrow> (sc, Inr n))"

text \<open>The two arms of the final select that give up.\<close>

definition Ping_abandon :: "PingPayload \<Rightarrow> ServerConn \<Rightarrow> ServerConn" where
  "Ping_abandon payload sc = sc\<lparr>sc_pingWaiters := adel payload (sc_pingWaiters sc)\<rparr>"

section \<open>Construction\<close>

definition clientPreface :: bytes where
  "clientPreface = ''PRI * HTTP/2.0'' @ [CHR 0x0D, CHR 0x0A, CHR 0x0D, CHR 0x0A] @ ''SM''
     @ [CHR 0x0D, CHR 0x0A, CHR 0x0D, CHR 0x0A]"

text \<open>\<open>buf\<close> is what the transport delivers before it ends.\<close>

definition readClientPreface :: "bytes \<Rightarrow> err option" where
  "readClientPreface buf =
     (if length buf < length clientPreface then Some (if buf = [] then EOF else ErrUnexpectedEOF)
      else if list_all2 (=) (take (length clientPreface) buf) clientPreface then None
      else Some ErrBadPreface)"

definition newConn :: "ServerConnOptions \<Rightarrow> ServerConn" where
  "newConn opts =
     \<lparr>sc_opts = opts, sc_peerSettings = [], sc_tbl = newStreamTable,
      sc_objs = (\<lambda>_. newServerStream 0 0 0), sc_next = 0,
      sc_connRecvWindow = effectiveConnRecvWindow opts, sc_connRefundPending = 0,
      sc_parked = [], sc_tokens = {}, sc_peerConnSendWindow = uint connInitialRecvWindow,
      sc_closed = False, sc_readerDone = False, sc_connCancelled = False, sc_transportClosed = False,
      sc_acceptCh = [], sc_pingWaiters = [], sc_pingClosed = [], sc_pingCounter = 0,
      sc_goAwayRequested = False, sc_goAwaySentID = maxStreamID, sc_peerGoAway = False,
      sc_rapidResetCount = 0, sc_framesSent = 0, sc_framesReceived = 0, sc_streamsAccepted = 0,
      sc_wire = [], sc_decSeen = [], sc_encDone = [], sc_spawned = [], sc_panicked = False\<rparr>"

definition newHandler :: "ServerConnOptions \<Rightarrow> serverConnHandler" where
  "newHandler opts =
     newServerConnHandler (uint (MaxHeaderListSize (advSettings opts)))
       (sint (InitialWindowSize (advSettings opts))) (StreamEventBuffer opts)"

definition sendInitialConnWindowUpdate :: "codec \<Rightarrow> ServerConn \<Rightarrow> ServerConn \<times> err option" where
  "sendInitialConnWindowUpdate c sc =
     (let delta = int32 (sc_connRecvWindow sc - uint connInitialRecvWindow)
      in if delta \<le> 0 then (sc, None) else writeWindowUpdate c 0 (word_of_int delta) sc)"

text \<open>The handshake recorder: SETTINGS are its own, everything else goes to the handler.\<close>

record settingsRecorder =
  r_peer :: SettingsParams
  r_peerSeen :: bool
  r_ackSeen :: bool

definition recorder0 :: settingsRecorder where
  "recorder0 = \<lparr>r_peer = [], r_peerSeen = False, r_ackSeen = False\<rparr>"

definition recorderOnSettings ::
  "codec \<Rightarrow> FrameHeader \<Rightarrow> SettingsParams \<Rightarrow> settingsRecorder \<times> hstate \<Rightarrow> (settingsRecorder \<times> hstate) \<times> err option" where
  "recorderOnSettings c fh s rh =
     (let (r, h, sc) = rh in
      if fAck fh then ((r\<lparr>r_ackSeen := True\<rparr>, h, sc), None)
      else let r = r\<lparr>r_peer := mergeSettings (r_peer r) s, r_peerSeen := True\<rparr> in
        case applyPeerSettings (r_peer r) sc of
          (sc, Some e) \<Rightarrow> ((r, h, sc), Some e)
        | (sc, None) \<Rightarrow> (let (sc, e) = frWrite c WSettingsAck sc in ((r, h, sc), e)))"

definition recorderDispatch ::
  "codec \<Rightarrow> inFrame \<Rightarrow> settingsRecorder \<times> hstate \<Rightarrow> (settingsRecorder \<times> hstate) \<times> err option" where
  "recorderDispatch c fr rh =
     (case fr of
        FSettings fh s \<Rightarrow> recorderOnSettings c fh s rh
      | _ \<Rightarrow> (let (r, hs) = rh; (hs, e) = dispatch c fr hs in ((r, hs), e)))"

text \<open>Both loops of \<open>handshakeServerSettings\<close>: until the peer's SETTINGS and its ACK are there.\<close>

datatype shakeResult = ShakeDone "inFrame list" | ShakeErr err | ShakeWait

fun handshakeServerSettings ::
  "codec \<Rightarrow> inFrame list \<Rightarrow> settingsRecorder \<times> hstate \<Rightarrow> (settingsRecorder \<times> hstate) \<times> shakeResult" where
  "handshakeServerSettings c frs (r, hs) =
     (if r_peerSeen r \<and> r_ackSeen r then ((r, hs), ShakeDone frs)
      else case frs of
             [] \<Rightarrow> ((r, hs), ShakeWait)
           | fr # rest \<Rightarrow>
               (case recorderDispatch c fr (r, hs) of
                  (rh, Some e) \<Rightarrow> (rh, ShakeErr e)
                | (rh, None) \<Rightarrow> handshakeServerSettings c rest rh))"

definition seedUpgradedStream :: "codec \<Rightarrow> UpgradedRequest \<Rightarrow> ServerConn \<Rightarrow> ServerConn" where
  "seedUpgradedStream c up sc =
     (let (sc, s) = allocStream (newServerStream 1 (nat (StreamEventBuffer (sc_opts sc)))
                                   (sint (InitialWindowSize (advSettings (sc_opts sc))))) sc;
          (sc, ok) = registerStream c 1 s sc
      in if \<not> ok then sc
         else let sc = upds s (ss_advance stRecvFields) sc;
                  sc = push s (headersEvent False (upHeaders up) True) sc
              in upds s (\<lambda>ss. fst (markRemoteEnd ss)) sc)"

datatype startResult =
    StartErr err "ServerConn option"
  | StartWait hstate
  | StartOk hstate "inFrame list"

definition NewServerConn :: "codec \<Rightarrow> ServerConnOptions \<Rightarrow> bytes \<Rightarrow> inFrame list \<Rightarrow> startResult" where
  "NewServerConn c opts0 preface frs =
     (let opts = opts_defaulted opts0 in
      case readClientPreface preface of
        Some e \<Rightarrow> StartErr e None
      | None \<Rightarrow>
          (case frWrite c (WSettings (encodeAdvertised (advSettings opts))) (newConn opts) of
             (sc, Some e) \<Rightarrow> StartErr e (Some (abortHandshake sc))
           | (sc, None) \<Rightarrow>
               (case handshakeServerSettings c frs (recorder0, newHandler opts, bumpFramesSent sc) of
                  ((r, h, sc), ShakeErr e) \<Rightarrow>
                    StartErr e (Some (abortHandshake
                      (case e of connError code m \<Rightarrow> sendGoAway c code sc | _ \<Rightarrow> sc)))
                | ((r, hs), ShakeWait) \<Rightarrow> StartWait hs
                | ((r, h, sc), ShakeDone rest) \<Rightarrow>
                    (case sendInitialConnWindowUpdate c sc of
                       (sc, Some e) \<Rightarrow> StartErr e (Some (abortHandshake sc))
                     | (sc, None) \<Rightarrow>
                         StartOk (h, case optUpgradedRequest opts of
                                       None \<Rightarrow> sc | Some up \<Rightarrow> seedUpgradedStream c up sc) rest))))"

end
