(* ===== verification/ConnFrame.thy ===== *)
theory ConnFrame
  imports ConnLoop
begin

text \<open>
  Frame lemmas: for every operation of the connection, the fields it leaves alone. They are
  simplification rules, so that a proof about one field of the connection only ever looks at the
  operations that write it.
\<close>

lemma upds_frame [simp]:
  "sc_opts (upds s f sc) = sc_opts sc"
  "sc_peerSettings (upds s f sc) = sc_peerSettings sc"
  "sc_tbl (upds s f sc) = sc_tbl sc"
  "sc_next (upds s f sc) = sc_next sc"
  "sc_connRecvWindow (upds s f sc) = sc_connRecvWindow sc"
  "sc_connRefundPending (upds s f sc) = sc_connRefundPending sc"
  "sc_parked (upds s f sc) = sc_parked sc"
  "sc_tokens (upds s f sc) = sc_tokens sc"
  "sc_peerConnSendWindow (upds s f sc) = sc_peerConnSendWindow sc"
  "sc_closed (upds s f sc) = sc_closed sc"
  "sc_readerDone (upds s f sc) = sc_readerDone sc"
  "sc_acceptCh (upds s f sc) = sc_acceptCh sc"
  "sc_goAwayRequested (upds s f sc) = sc_goAwayRequested sc"
  "sc_goAwaySentID (upds s f sc) = sc_goAwaySentID sc"
  "sc_rapidResetCount (upds s f sc) = sc_rapidResetCount sc"
  "sc_wire (upds s f sc) = sc_wire sc"
  "sc_decSeen (upds s f sc) = sc_decSeen sc"
  "sc_encDone (upds s f sc) = sc_encDone sc"
  "sc_spawned (upds s f sc) = sc_spawned sc"
  "sc_panicked (upds s f sc) = sc_panicked sc"
  by (simp_all add: upds_def Let_def case_prod_beta split: option.splits list.splits sum.splits sendResult.splits)

lemma wakeSel_frame [simp]:
  "sc_opts (wakeSel P sc) = sc_opts sc"
  "sc_peerSettings (wakeSel P sc) = sc_peerSettings sc"
  "sc_tbl (wakeSel P sc) = sc_tbl sc"
  "sc_objs (wakeSel P sc) = sc_objs sc"
  "sc_next (wakeSel P sc) = sc_next sc"
  "sc_connRecvWindow (wakeSel P sc) = sc_connRecvWindow sc"
  "sc_connRefundPending (wakeSel P sc) = sc_connRefundPending sc"
  "sc_peerConnSendWindow (wakeSel P sc) = sc_peerConnSendWindow sc"
  "sc_closed (wakeSel P sc) = sc_closed sc"
  "sc_readerDone (wakeSel P sc) = sc_readerDone sc"
  "sc_acceptCh (wakeSel P sc) = sc_acceptCh sc"
  "sc_goAwayRequested (wakeSel P sc) = sc_goAwayRequested sc"
  "sc_goAwaySentID (wakeSel P sc) = sc_goAwaySentID sc"
  "sc_rapidResetCount (wakeSel P sc) = sc_rapidResetCount sc"
  "sc_wire (wakeSel P sc) = sc_wire sc"
  "sc_decSeen (wakeSel P sc) = sc_decSeen sc"
  "sc_encDone (wakeSel P sc) = sc_encDone sc"
  "sc_spawned (wakeSel P sc) = sc_spawned sc"
  "sc_panicked (wakeSel P sc) = sc_panicked sc"
  by (simp_all add: wakeSel_def awake_def Let_def case_prod_beta split: option.splits list.splits sum.splits sendResult.splits)

lemma bumpFramesSent_frame [simp]:
  "sc_opts (bumpFramesSent sc) = sc_opts sc"
  "sc_peerSettings (bumpFramesSent sc) = sc_peerSettings sc"
  "sc_tbl (bumpFramesSent sc) = sc_tbl sc"
  "sc_objs (bumpFramesSent sc) = sc_objs sc"
  "sc_next (bumpFramesSent sc) = sc_next sc"
  "sc_connRecvWindow (bumpFramesSent sc) = sc_connRecvWindow sc"
  "sc_connRefundPending (bumpFramesSent sc) = sc_connRefundPending sc"
  "sc_parked (bumpFramesSent sc) = sc_parked sc"
  "sc_tokens (bumpFramesSent sc) = sc_tokens sc"
  "sc_peerConnSendWindow (bumpFramesSent sc) = sc_peerConnSendWindow sc"
  "sc_closed (bumpFramesSent sc) = sc_closed sc"
  "sc_readerDone (bumpFramesSent sc) = sc_readerDone sc"
  "sc_acceptCh (bumpFramesSent sc) = sc_acceptCh sc"
  "sc_goAwayRequested (bumpFramesSent sc) = sc_goAwayRequested sc"
  "sc_goAwaySentID (bumpFramesSent sc) = sc_goAwaySentID sc"
  "sc_rapidResetCount (bumpFramesSent sc) = sc_rapidResetCount sc"
  "sc_wire (bumpFramesSent sc) = sc_wire sc"
  "sc_decSeen (bumpFramesSent sc) = sc_decSeen sc"
  "sc_encDone (bumpFramesSent sc) = sc_encDone sc"
  "sc_spawned (bumpFramesSent sc) = sc_spawned sc"
  "sc_panicked (bumpFramesSent sc) = sc_panicked sc"
  by (simp_all add: bumpFramesSent_def Let_def case_prod_beta split: option.splits list.splits sum.splits sendResult.splits)

lemma frWrite_frame [simp]:
  "sc_opts (fst (frWrite c f sc)) = sc_opts sc"
  "sc_peerSettings (fst (frWrite c f sc)) = sc_peerSettings sc"
  "sc_tbl (fst (frWrite c f sc)) = sc_tbl sc"
  "sc_objs (fst (frWrite c f sc)) = sc_objs sc"
  "sc_next (fst (frWrite c f sc)) = sc_next sc"
  "sc_connRecvWindow (fst (frWrite c f sc)) = sc_connRecvWindow sc"
  "sc_connRefundPending (fst (frWrite c f sc)) = sc_connRefundPending sc"
  "sc_parked (fst (frWrite c f sc)) = sc_parked sc"
  "sc_tokens (fst (frWrite c f sc)) = sc_tokens sc"
  "sc_peerConnSendWindow (fst (frWrite c f sc)) = sc_peerConnSendWindow sc"
  "sc_closed (fst (frWrite c f sc)) = sc_closed sc"
  "sc_readerDone (fst (frWrite c f sc)) = sc_readerDone sc"
  "sc_acceptCh (fst (frWrite c f sc)) = sc_acceptCh sc"
  "sc_goAwayRequested (fst (frWrite c f sc)) = sc_goAwayRequested sc"
  "sc_goAwaySentID (fst (frWrite c f sc)) = sc_goAwaySentID sc"
  "sc_rapidResetCount (fst (frWrite c f sc)) = sc_rapidResetCount sc"
  "sc_decSeen (fst (frWrite c f sc)) = sc_decSeen sc"
  "sc_encDone (fst (frWrite c f sc)) = sc_encDone sc"
  "sc_spawned (fst (frWrite c f sc)) = sc_spawned sc"
  "sc_panicked (fst (frWrite c f sc)) = sc_panicked sc"
  by (simp_all add: frWrite_def Let_def case_prod_beta split: option.splits list.splits sum.splits sendResult.splits)

lemma writeCounted_frame [simp]:
  "sc_opts (fst (writeCounted c f sc)) = sc_opts sc"
  "sc_peerSettings (fst (writeCounted c f sc)) = sc_peerSettings sc"
  "sc_tbl (fst (writeCounted c f sc)) = sc_tbl sc"
  "sc_objs (fst (writeCounted c f sc)) = sc_objs sc"
  "sc_next (fst (writeCounted c f sc)) = sc_next sc"
  "sc_connRecvWindow (fst (writeCounted c f sc)) = sc_connRecvWindow sc"
  "sc_connRefundPending (fst (writeCounted c f sc)) = sc_connRefundPending sc"
  "sc_parked (fst (writeCounted c f sc)) = sc_parked sc"
  "sc_tokens (fst (writeCounted c f sc)) = sc_tokens sc"
  "sc_peerConnSendWindow (fst (writeCounted c f sc)) = sc_peerConnSendWindow sc"
  "sc_closed (fst (writeCounted c f sc)) = sc_closed sc"
  "sc_readerDone (fst (writeCounted c f sc)) = sc_readerDone sc"
  "sc_acceptCh (fst (writeCounted c f sc)) = sc_acceptCh sc"
  "sc_goAwayRequested (fst (writeCounted c f sc)) = sc_goAwayRequested sc"
  "sc_goAwaySentID (fst (writeCounted c f sc)) = sc_goAwaySentID sc"
  "sc_rapidResetCount (fst (writeCounted c f sc)) = sc_rapidResetCount sc"
  "sc_decSeen (fst (writeCounted c f sc)) = sc_decSeen sc"
  "sc_encDone (fst (writeCounted c f sc)) = sc_encDone sc"
  "sc_spawned (fst (writeCounted c f sc)) = sc_spawned sc"
  "sc_panicked (fst (writeCounted c f sc)) = sc_panicked sc"
  by (simp_all add: writeCounted_def Let_def case_prod_beta split: option.splits list.splits sum.splits sendResult.splits)

lemma writeSettingsAck_frame [simp]:
  "sc_opts (fst (writeSettingsAck c sc)) = sc_opts sc"
  "sc_peerSettings (fst (writeSettingsAck c sc)) = sc_peerSettings sc"
  "sc_tbl (fst (writeSettingsAck c sc)) = sc_tbl sc"
  "sc_objs (fst (writeSettingsAck c sc)) = sc_objs sc"
  "sc_next (fst (writeSettingsAck c sc)) = sc_next sc"
  "sc_connRecvWindow (fst (writeSettingsAck c sc)) = sc_connRecvWindow sc"
  "sc_connRefundPending (fst (writeSettingsAck c sc)) = sc_connRefundPending sc"
  "sc_parked (fst (writeSettingsAck c sc)) = sc_parked sc"
  "sc_tokens (fst (writeSettingsAck c sc)) = sc_tokens sc"
  "sc_peerConnSendWindow (fst (writeSettingsAck c sc)) = sc_peerConnSendWindow sc"
  "sc_closed (fst (writeSettingsAck c sc)) = sc_closed sc"
  "sc_readerDone (fst (writeSettingsAck c sc)) = sc_readerDone sc"
  "sc_acceptCh (fst (writeSettingsAck c sc)) = sc_acceptCh sc"
  "sc_goAwayRequested (fst (writeSettingsAck c sc)) = sc_goAwayRequested sc"
  "sc_goAwaySentID (fst (writeSettingsAck c sc)) = sc_goAwaySentID sc"
  "sc_rapidResetCount (fst (writeSettingsAck c sc)) = sc_rapidResetCount sc"
  "sc_decSeen (fst (writeSettingsAck c sc)) = sc_decSeen sc"
  "sc_encDone (fst (writeSettingsAck c sc)) = sc_encDone sc"
  "sc_spawned (fst (writeSettingsAck c sc)) = sc_spawned sc"
  "sc_panicked (fst (writeSettingsAck c sc)) = sc_panicked sc"
  by (simp_all add: writeSettingsAck_def Let_def case_prod_beta split: option.splits list.splits sum.splits sendResult.splits)

lemma writePingAck_frame [simp]:
  "sc_opts (fst (writePingAck c payload sc)) = sc_opts sc"
  "sc_peerSettings (fst (writePingAck c payload sc)) = sc_peerSettings sc"
  "sc_tbl (fst (writePingAck c payload sc)) = sc_tbl sc"
  "sc_objs (fst (writePingAck c payload sc)) = sc_objs sc"
  "sc_next (fst (writePingAck c payload sc)) = sc_next sc"
  "sc_connRecvWindow (fst (writePingAck c payload sc)) = sc_connRecvWindow sc"
  "sc_connRefundPending (fst (writePingAck c payload sc)) = sc_connRefundPending sc"
  "sc_parked (fst (writePingAck c payload sc)) = sc_parked sc"
  "sc_tokens (fst (writePingAck c payload sc)) = sc_tokens sc"
  "sc_peerConnSendWindow (fst (writePingAck c payload sc)) = sc_peerConnSendWindow sc"
  "sc_closed (fst (writePingAck c payload sc)) = sc_closed sc"
  "sc_readerDone (fst (writePingAck c payload sc)) = sc_readerDone sc"
  "sc_acceptCh (fst (writePingAck c payload sc)) = sc_acceptCh sc"
  "sc_goAwayRequested (fst (writePingAck c payload sc)) = sc_goAwayRequested sc"
  "sc_goAwaySentID (fst (writePingAck c payload sc)) = sc_goAwaySentID sc"
  "sc_rapidResetCount (fst (writePingAck c payload sc)) = sc_rapidResetCount sc"
  "sc_decSeen (fst (writePingAck c payload sc)) = sc_decSeen sc"
  "sc_encDone (fst (writePingAck c payload sc)) = sc_encDone sc"
  "sc_spawned (fst (writePingAck c payload sc)) = sc_spawned sc"
  "sc_panicked (fst (writePingAck c payload sc)) = sc_panicked sc"
  by (simp_all add: writePingAck_def Let_def case_prod_beta split: option.splits list.splits sum.splits sendResult.splits)

lemma writeWindowUpdate_frame [simp]:
  "sc_opts (fst (writeWindowUpdate c sid n sc)) = sc_opts sc"
  "sc_peerSettings (fst (writeWindowUpdate c sid n sc)) = sc_peerSettings sc"
  "sc_tbl (fst (writeWindowUpdate c sid n sc)) = sc_tbl sc"
  "sc_objs (fst (writeWindowUpdate c sid n sc)) = sc_objs sc"
  "sc_next (fst (writeWindowUpdate c sid n sc)) = sc_next sc"
  "sc_connRecvWindow (fst (writeWindowUpdate c sid n sc)) = sc_connRecvWindow sc"
  "sc_connRefundPending (fst (writeWindowUpdate c sid n sc)) = sc_connRefundPending sc"
  "sc_parked (fst (writeWindowUpdate c sid n sc)) = sc_parked sc"
  "sc_tokens (fst (writeWindowUpdate c sid n sc)) = sc_tokens sc"
  "sc_peerConnSendWindow (fst (writeWindowUpdate c sid n sc)) = sc_peerConnSendWindow sc"
  "sc_closed (fst (writeWindowUpdate c sid n sc)) = sc_closed sc"
  "sc_readerDone (fst (writeWindowUpdate c sid n sc)) = sc_readerDone sc"
  "sc_acceptCh (fst (writeWindowUpdate c sid n sc)) = sc_acceptCh sc"
  "sc_goAwayRequested (fst (writeWindowUpdate c sid n sc)) = sc_goAwayRequested sc"
  "sc_goAwaySentID (fst (writeWindowUpdate c sid n sc)) = sc_goAwaySentID sc"
  "sc_rapidResetCount (fst (writeWindowUpdate c sid n sc)) = sc_rapidResetCount sc"
  "sc_decSeen (fst (writeWindowUpdate c sid n sc)) = sc_decSeen sc"
  "sc_encDone (fst (writeWindowUpdate c sid n sc)) = sc_encDone sc"
  "sc_spawned (fst (writeWindowUpdate c sid n sc)) = sc_spawned sc"
  "sc_panicked (fst (writeWindowUpdate c sid n sc)) = sc_panicked sc"
  by (simp_all add: writeWindowUpdate_def Let_def case_prod_beta split: option.splits list.splits sum.splits sendResult.splits)

lemma markStreamDone_frame [simp]:
  "sc_opts (markStreamDone sid sc) = sc_opts sc"
  "sc_peerSettings (markStreamDone sid sc) = sc_peerSettings sc"
  "sc_next (markStreamDone sid sc) = sc_next sc"
  "sc_connRecvWindow (markStreamDone sid sc) = sc_connRecvWindow sc"
  "sc_connRefundPending (markStreamDone sid sc) = sc_connRefundPending sc"
  "sc_parked (markStreamDone sid sc) = sc_parked sc"
  "sc_tokens (markStreamDone sid sc) = sc_tokens sc"
  "sc_peerConnSendWindow (markStreamDone sid sc) = sc_peerConnSendWindow sc"
  "sc_closed (markStreamDone sid sc) = sc_closed sc"
  "sc_readerDone (markStreamDone sid sc) = sc_readerDone sc"
  "sc_acceptCh (markStreamDone sid sc) = sc_acceptCh sc"
  "sc_goAwayRequested (markStreamDone sid sc) = sc_goAwayRequested sc"
  "sc_goAwaySentID (markStreamDone sid sc) = sc_goAwaySentID sc"
  "sc_rapidResetCount (markStreamDone sid sc) = sc_rapidResetCount sc"
  "sc_wire (markStreamDone sid sc) = sc_wire sc"
  "sc_decSeen (markStreamDone sid sc) = sc_decSeen sc"
  "sc_encDone (markStreamDone sid sc) = sc_encDone sc"
  "sc_spawned (markStreamDone sid sc) = sc_spawned sc"
  "sc_panicked (markStreamDone sid sc) = sc_panicked sc"
  by (simp_all add: markStreamDone_def Let_def case_prod_beta split: option.splits list.splits sum.splits sendResult.splits)

lemma writeServerRSTStream_frame [simp]:
  "sc_opts (fst (writeServerRSTStream c s code sc)) = sc_opts sc"
  "sc_peerSettings (fst (writeServerRSTStream c s code sc)) = sc_peerSettings sc"
  "sc_next (fst (writeServerRSTStream c s code sc)) = sc_next sc"
  "sc_connRecvWindow (fst (writeServerRSTStream c s code sc)) = sc_connRecvWindow sc"
  "sc_connRefundPending (fst (writeServerRSTStream c s code sc)) = sc_connRefundPending sc"
  "sc_parked (fst (writeServerRSTStream c s code sc)) = sc_parked sc"
  "sc_tokens (fst (writeServerRSTStream c s code sc)) = sc_tokens sc"
  "sc_peerConnSendWindow (fst (writeServerRSTStream c s code sc)) = sc_peerConnSendWindow sc"
  "sc_closed (fst (writeServerRSTStream c s code sc)) = sc_closed sc"
  "sc_readerDone (fst (writeServerRSTStream c s code sc)) = sc_readerDone sc"
  "sc_acceptCh (fst (writeServerRSTStream c s code sc)) = sc_acceptCh sc"
  "sc_goAwayRequested (fst (writeServerRSTStream c s code sc)) = sc_goAwayRequested sc"
  "sc_goAwaySentID (fst (writeServerRSTStream c s code sc)) = sc_goAwaySentID sc"
  "sc_rapidResetCount (fst (writeServerRSTStream c s code sc)) = sc_rapidResetCount sc"
  "sc_decSeen (fst (writeServerRSTStream c s code sc)) = sc_decSeen sc"
  "sc_encDone (fst (writeServerRSTStream c s code sc)) = sc_encDone sc"
  "sc_spawned (fst (writeServerRSTStream c s code sc)) = sc_spawned sc"
  "sc_panicked (fst (writeServerRSTStream c s code sc)) = sc_panicked sc"
  by (simp_all add: writeServerRSTStream_def Let_def case_prod_beta split: option.splits list.splits sum.splits sendResult.splits)

lemma writeRSTStreamID_frame [simp]:
  "sc_opts (fst (writeRSTStreamID c sid code sc)) = sc_opts sc"
  "sc_peerSettings (fst (writeRSTStreamID c sid code sc)) = sc_peerSettings sc"
  "sc_next (fst (writeRSTStreamID c sid code sc)) = sc_next sc"
  "sc_connRecvWindow (fst (writeRSTStreamID c sid code sc)) = sc_connRecvWindow sc"
  "sc_connRefundPending (fst (writeRSTStreamID c sid code sc)) = sc_connRefundPending sc"
  "sc_parked (fst (writeRSTStreamID c sid code sc)) = sc_parked sc"
  "sc_tokens (fst (writeRSTStreamID c sid code sc)) = sc_tokens sc"
  "sc_peerConnSendWindow (fst (writeRSTStreamID c sid code sc)) = sc_peerConnSendWindow sc"
  "sc_closed (fst (writeRSTStreamID c sid code sc)) = sc_closed sc"
  "sc_readerDone (fst (writeRSTStreamID c sid code sc)) = sc_readerDone sc"
  "sc_acceptCh (fst (writeRSTStreamID c sid code sc)) = sc_acceptCh sc"
  "sc_goAwayRequested (fst (writeRSTStreamID c sid code sc)) = sc_goAwayRequested sc"
  "sc_goAwaySentID (fst (writeRSTStreamID c sid code sc)) = sc_goAwaySentID sc"
  "sc_rapidResetCount (fst (writeRSTStreamID c sid code sc)) = sc_rapidResetCount sc"
  "sc_decSeen (fst (writeRSTStreamID c sid code sc)) = sc_decSeen sc"
  "sc_encDone (fst (writeRSTStreamID c sid code sc)) = sc_encDone sc"
  "sc_spawned (fst (writeRSTStreamID c sid code sc)) = sc_spawned sc"
  "sc_panicked (fst (writeRSTStreamID c sid code sc)) = sc_panicked sc"
  by (simp_all add: writeRSTStreamID_def Let_def case_prod_beta split: option.splits list.splits sum.splits sendResult.splits)

lemma chanSend_frame [simp]:
  "sc_opts (chanSend s e sc) = sc_opts sc"
  "sc_peerSettings (chanSend s e sc) = sc_peerSettings sc"
  "sc_tbl (chanSend s e sc) = sc_tbl sc"
  "sc_next (chanSend s e sc) = sc_next sc"
  "sc_connRecvWindow (chanSend s e sc) = sc_connRecvWindow sc"
  "sc_connRefundPending (chanSend s e sc) = sc_connRefundPending sc"
  "sc_parked (chanSend s e sc) = sc_parked sc"
  "sc_tokens (chanSend s e sc) = sc_tokens sc"
  "sc_peerConnSendWindow (chanSend s e sc) = sc_peerConnSendWindow sc"
  "sc_closed (chanSend s e sc) = sc_closed sc"
  "sc_readerDone (chanSend s e sc) = sc_readerDone sc"
  "sc_acceptCh (chanSend s e sc) = sc_acceptCh sc"
  "sc_goAwayRequested (chanSend s e sc) = sc_goAwayRequested sc"
  "sc_goAwaySentID (chanSend s e sc) = sc_goAwaySentID sc"
  "sc_rapidResetCount (chanSend s e sc) = sc_rapidResetCount sc"
  "sc_wire (chanSend s e sc) = sc_wire sc"
  "sc_decSeen (chanSend s e sc) = sc_decSeen sc"
  "sc_encDone (chanSend s e sc) = sc_encDone sc"
  "sc_spawned (chanSend s e sc) = sc_spawned sc"
  "sc_panicked (chanSend s e sc) = sc_panicked sc"
  by (simp_all add: chanSend_def Let_def case_prod_beta split: option.splits list.splits sum.splits sendResult.splits)

lemma push_frame [simp]:
  "sc_opts (push s e sc) = sc_opts sc"
  "sc_peerSettings (push s e sc) = sc_peerSettings sc"
  "sc_tbl (push s e sc) = sc_tbl sc"
  "sc_next (push s e sc) = sc_next sc"
  "sc_connRecvWindow (push s e sc) = sc_connRecvWindow sc"
  "sc_connRefundPending (push s e sc) = sc_connRefundPending sc"
  "sc_parked (push s e sc) = sc_parked sc"
  "sc_tokens (push s e sc) = sc_tokens sc"
  "sc_peerConnSendWindow (push s e sc) = sc_peerConnSendWindow sc"
  "sc_closed (push s e sc) = sc_closed sc"
  "sc_readerDone (push s e sc) = sc_readerDone sc"
  "sc_acceptCh (push s e sc) = sc_acceptCh sc"
  "sc_goAwayRequested (push s e sc) = sc_goAwayRequested sc"
  "sc_goAwaySentID (push s e sc) = sc_goAwaySentID sc"
  "sc_rapidResetCount (push s e sc) = sc_rapidResetCount sc"
  "sc_wire (push s e sc) = sc_wire sc"
  "sc_decSeen (push s e sc) = sc_decSeen sc"
  "sc_encDone (push s e sc) = sc_encDone sc"
  by (simp_all add: push_def Let_def case_prod_beta split: option.splits list.splits sum.splits sendResult.splits)

lemma runSpawned_frame [simp]:
  "sc_opts (runSpawned c sc) = sc_opts sc"
  "sc_peerSettings (runSpawned c sc) = sc_peerSettings sc"
  "sc_next (runSpawned c sc) = sc_next sc"
  "sc_connRecvWindow (runSpawned c sc) = sc_connRecvWindow sc"
  "sc_connRefundPending (runSpawned c sc) = sc_connRefundPending sc"
  "sc_parked (runSpawned c sc) = sc_parked sc"
  "sc_tokens (runSpawned c sc) = sc_tokens sc"
  "sc_peerConnSendWindow (runSpawned c sc) = sc_peerConnSendWindow sc"
  "sc_closed (runSpawned c sc) = sc_closed sc"
  "sc_readerDone (runSpawned c sc) = sc_readerDone sc"
  "sc_acceptCh (runSpawned c sc) = sc_acceptCh sc"
  "sc_goAwayRequested (runSpawned c sc) = sc_goAwayRequested sc"
  "sc_goAwaySentID (runSpawned c sc) = sc_goAwaySentID sc"
  "sc_rapidResetCount (runSpawned c sc) = sc_rapidResetCount sc"
  "sc_decSeen (runSpawned c sc) = sc_decSeen sc"
  "sc_encDone (runSpawned c sc) = sc_encDone sc"
  "sc_panicked (runSpawned c sc) = sc_panicked sc"
  by (simp_all add: runSpawned_def Let_def case_prod_beta split: option.splits list.splits sum.splits sendResult.splits)

lemma registerStream_frame [simp]:
  "sc_opts (fst (registerStream c sid s sc)) = sc_opts sc"
  "sc_peerSettings (fst (registerStream c sid s sc)) = sc_peerSettings sc"
  "sc_next (fst (registerStream c sid s sc)) = sc_next sc"
  "sc_connRecvWindow (fst (registerStream c sid s sc)) = sc_connRecvWindow sc"
  "sc_connRefundPending (fst (registerStream c sid s sc)) = sc_connRefundPending sc"
  "sc_parked (fst (registerStream c sid s sc)) = sc_parked sc"
  "sc_tokens (fst (registerStream c sid s sc)) = sc_tokens sc"
  "sc_peerConnSendWindow (fst (registerStream c sid s sc)) = sc_peerConnSendWindow sc"
  "sc_closed (fst (registerStream c sid s sc)) = sc_closed sc"
  "sc_readerDone (fst (registerStream c sid s sc)) = sc_readerDone sc"
  "sc_goAwayRequested (fst (registerStream c sid s sc)) = sc_goAwayRequested sc"
  "sc_goAwaySentID (fst (registerStream c sid s sc)) = sc_goAwaySentID sc"
  "sc_rapidResetCount (fst (registerStream c sid s sc)) = sc_rapidResetCount sc"
  "sc_decSeen (fst (registerStream c sid s sc)) = sc_decSeen sc"
  "sc_encDone (fst (registerStream c sid s sc)) = sc_encDone sc"
  "sc_spawned (fst (registerStream c sid s sc)) = sc_spawned sc"
  "sc_panicked (fst (registerStream c sid s sc)) = sc_panicked sc"
  by (simp_all add: registerStream_def Let_def case_prod_beta split: option.splits list.splits sum.splits sendResult.splits)

lemma onClientRSTStream_frame [simp]:
  "sc_opts (fst (onClientRSTStream rapid sc)) = sc_opts sc"
  "sc_peerSettings (fst (onClientRSTStream rapid sc)) = sc_peerSettings sc"
  "sc_tbl (fst (onClientRSTStream rapid sc)) = sc_tbl sc"
  "sc_objs (fst (onClientRSTStream rapid sc)) = sc_objs sc"
  "sc_next (fst (onClientRSTStream rapid sc)) = sc_next sc"
  "sc_connRecvWindow (fst (onClientRSTStream rapid sc)) = sc_connRecvWindow sc"
  "sc_connRefundPending (fst (onClientRSTStream rapid sc)) = sc_connRefundPending sc"
  "sc_parked (fst (onClientRSTStream rapid sc)) = sc_parked sc"
  "sc_tokens (fst (onClientRSTStream rapid sc)) = sc_tokens sc"
  "sc_peerConnSendWindow (fst (onClientRSTStream rapid sc)) = sc_peerConnSendWindow sc"
  "sc_closed (fst (onClientRSTStream rapid sc)) = sc_closed sc"
  "sc_readerDone (fst (onClientRSTStream rapid sc)) = sc_readerDone sc"
  "sc_acceptCh (fst (onClientRSTStream rapid sc)) = sc_acceptCh sc"
  "sc_goAwayRequested (fst (onClientRSTStream rapid sc)) = sc_goAwayRequested sc"
  "sc_goAwaySentID (fst (onClientRSTStream rapid sc)) = sc_goAwaySentID sc"
  "sc_wire (fst (onClientRSTStream rapid sc)) = sc_wire sc"
  "sc_decSeen (fst (onClientRSTStream rapid sc)) = sc_decSeen sc"
  "sc_encDone (fst (onClientRSTStream rapid sc)) = sc_encDone sc"
  "sc_spawned (fst (onClientRSTStream rapid sc)) = sc_spawned sc"
  "sc_panicked (fst (onClientRSTStream rapid sc)) = sc_panicked sc"
  by (simp_all add: onClientRSTStream_def Let_def case_prod_beta split: option.splits list.splits sum.splits sendResult.splits)

lemma applyPeerSettings_frame [simp]:
  "sc_opts (fst (applyPeerSettings ps sc)) = sc_opts sc"
  "sc_tbl (fst (applyPeerSettings ps sc)) = sc_tbl sc"
  "sc_next (fst (applyPeerSettings ps sc)) = sc_next sc"
  "sc_connRecvWindow (fst (applyPeerSettings ps sc)) = sc_connRecvWindow sc"
  "sc_connRefundPending (fst (applyPeerSettings ps sc)) = sc_connRefundPending sc"
  "sc_peerConnSendWindow (fst (applyPeerSettings ps sc)) = sc_peerConnSendWindow sc"
  "sc_closed (fst (applyPeerSettings ps sc)) = sc_closed sc"
  "sc_readerDone (fst (applyPeerSettings ps sc)) = sc_readerDone sc"
  "sc_acceptCh (fst (applyPeerSettings ps sc)) = sc_acceptCh sc"
  "sc_goAwayRequested (fst (applyPeerSettings ps sc)) = sc_goAwayRequested sc"
  "sc_goAwaySentID (fst (applyPeerSettings ps sc)) = sc_goAwaySentID sc"
  "sc_rapidResetCount (fst (applyPeerSettings ps sc)) = sc_rapidResetCount sc"
  "sc_wire (fst (applyPeerSettings ps sc)) = sc_wire sc"
  "sc_decSeen (fst (applyPeerSettings ps sc)) = sc_decSeen sc"
  "sc_spawned (fst (applyPeerSettings ps sc)) = sc_spawned sc"
  "sc_panicked (fst (applyPeerSettings ps sc)) = sc_panicked sc"
  by (simp_all add: applyPeerSettings_def Let_def case_prod_beta split: option.splits list.splits sum.splits sendResult.splits)

lemma onWindowUpdate_frame [simp]:
  "sc_opts (fst (onWindowUpdate c sid n sc)) = sc_opts sc"
  "sc_peerSettings (fst (onWindowUpdate c sid n sc)) = sc_peerSettings sc"
  "sc_next (fst (onWindowUpdate c sid n sc)) = sc_next sc"
  "sc_connRecvWindow (fst (onWindowUpdate c sid n sc)) = sc_connRecvWindow sc"
  "sc_connRefundPending (fst (onWindowUpdate c sid n sc)) = sc_connRefundPending sc"
  "sc_closed (fst (onWindowUpdate c sid n sc)) = sc_closed sc"
  "sc_readerDone (fst (onWindowUpdate c sid n sc)) = sc_readerDone sc"
  "sc_acceptCh (fst (onWindowUpdate c sid n sc)) = sc_acceptCh sc"
  "sc_goAwayRequested (fst (onWindowUpdate c sid n sc)) = sc_goAwayRequested sc"
  "sc_goAwaySentID (fst (onWindowUpdate c sid n sc)) = sc_goAwaySentID sc"
  "sc_rapidResetCount (fst (onWindowUpdate c sid n sc)) = sc_rapidResetCount sc"
  "sc_decSeen (fst (onWindowUpdate c sid n sc)) = sc_decSeen sc"
  "sc_encDone (fst (onWindowUpdate c sid n sc)) = sc_encDone sc"
  by (simp_all add: onWindowUpdate_def Let_def case_prod_beta split: option.splits list.splits sum.splits sendResult.splits)

lemma connDebit_frame [simp]:
  "sc_opts (fst (connDebit c n sc)) = sc_opts sc"
  "sc_peerSettings (fst (connDebit c n sc)) = sc_peerSettings sc"
  "sc_tbl (fst (connDebit c n sc)) = sc_tbl sc"
  "sc_objs (fst (connDebit c n sc)) = sc_objs sc"
  "sc_next (fst (connDebit c n sc)) = sc_next sc"
  "sc_parked (fst (connDebit c n sc)) = sc_parked sc"
  "sc_tokens (fst (connDebit c n sc)) = sc_tokens sc"
  "sc_peerConnSendWindow (fst (connDebit c n sc)) = sc_peerConnSendWindow sc"
  "sc_closed (fst (connDebit c n sc)) = sc_closed sc"
  "sc_readerDone (fst (connDebit c n sc)) = sc_readerDone sc"
  "sc_acceptCh (fst (connDebit c n sc)) = sc_acceptCh sc"
  "sc_goAwayRequested (fst (connDebit c n sc)) = sc_goAwayRequested sc"
  "sc_goAwaySentID (fst (connDebit c n sc)) = sc_goAwaySentID sc"
  "sc_rapidResetCount (fst (connDebit c n sc)) = sc_rapidResetCount sc"
  "sc_decSeen (fst (connDebit c n sc)) = sc_decSeen sc"
  "sc_encDone (fst (connDebit c n sc)) = sc_encDone sc"
  "sc_spawned (fst (connDebit c n sc)) = sc_spawned sc"
  "sc_panicked (fst (connDebit c n sc)) = sc_panicked sc"
  by (simp_all add: connDebit_def Let_def case_prod_beta split: option.splits list.splits sum.splits sendResult.splits)

lemma onDataReceived_frame [simp]:
  "sc_opts (fst (onDataReceived c so n sc)) = sc_opts sc"
  "sc_peerSettings (fst (onDataReceived c so n sc)) = sc_peerSettings sc"
  "sc_tbl (fst (onDataReceived c so n sc)) = sc_tbl sc"
  "sc_next (fst (onDataReceived c so n sc)) = sc_next sc"
  "sc_parked (fst (onDataReceived c so n sc)) = sc_parked sc"
  "sc_tokens (fst (onDataReceived c so n sc)) = sc_tokens sc"
  "sc_peerConnSendWindow (fst (onDataReceived c so n sc)) = sc_peerConnSendWindow sc"
  "sc_closed (fst (onDataReceived c so n sc)) = sc_closed sc"
  "sc_readerDone (fst (onDataReceived c so n sc)) = sc_readerDone sc"
  "sc_acceptCh (fst (onDataReceived c so n sc)) = sc_acceptCh sc"
  "sc_goAwayRequested (fst (onDataReceived c so n sc)) = sc_goAwayRequested sc"
  "sc_goAwaySentID (fst (onDataReceived c so n sc)) = sc_goAwaySentID sc"
  "sc_rapidResetCount (fst (onDataReceived c so n sc)) = sc_rapidResetCount sc"
  "sc_decSeen (fst (onDataReceived c so n sc)) = sc_decSeen sc"
  "sc_encDone (fst (onDataReceived c so n sc)) = sc_encDone sc"
  "sc_spawned (fst (onDataReceived c so n sc)) = sc_spawned sc"
  "sc_panicked (fst (onDataReceived c so n sc)) = sc_panicked sc"
  by (simp_all add: onDataReceived_def Let_def case_prod_beta split: option.splits list.splits sum.splits sendResult.splits)

lemma deliverPingAck_frame [simp]:
  "sc_opts (deliverPingAck payload sc) = sc_opts sc"
  "sc_peerSettings (deliverPingAck payload sc) = sc_peerSettings sc"
  "sc_tbl (deliverPingAck payload sc) = sc_tbl sc"
  "sc_objs (deliverPingAck payload sc) = sc_objs sc"
  "sc_next (deliverPingAck payload sc) = sc_next sc"
  "sc_connRecvWindow (deliverPingAck payload sc) = sc_connRecvWindow sc"
  "sc_connRefundPending (deliverPingAck payload sc) = sc_connRefundPending sc"
  "sc_parked (deliverPingAck payload sc) = sc_parked sc"
  "sc_tokens (deliverPingAck payload sc) = sc_tokens sc"
  "sc_peerConnSendWindow (deliverPingAck payload sc) = sc_peerConnSendWindow sc"
  "sc_closed (deliverPingAck payload sc) = sc_closed sc"
  "sc_readerDone (deliverPingAck payload sc) = sc_readerDone sc"
  "sc_acceptCh (deliverPingAck payload sc) = sc_acceptCh sc"
  "sc_goAwayRequested (deliverPingAck payload sc) = sc_goAwayRequested sc"
  "sc_goAwaySentID (deliverPingAck payload sc) = sc_goAwaySentID sc"
  "sc_rapidResetCount (deliverPingAck payload sc) = sc_rapidResetCount sc"
  "sc_wire (deliverPingAck payload sc) = sc_wire sc"
  "sc_decSeen (deliverPingAck payload sc) = sc_decSeen sc"
  "sc_encDone (deliverPingAck payload sc) = sc_encDone sc"
  "sc_spawned (deliverPingAck payload sc) = sc_spawned sc"
  "sc_panicked (deliverPingAck payload sc) = sc_panicked sc"
  by (simp_all add: deliverPingAck_def Let_def case_prod_beta split: option.splits list.splits sum.splits sendResult.splits)

lemma writeServerHeaders_frame [simp]:
  "sc_opts (fst (writeServerHeaders c s fs b prio sc)) = sc_opts sc"
  "sc_peerSettings (fst (writeServerHeaders c s fs b prio sc)) = sc_peerSettings sc"
  "sc_tbl (fst (writeServerHeaders c s fs b prio sc)) = sc_tbl sc"
  "sc_objs (fst (writeServerHeaders c s fs b prio sc)) = sc_objs sc"
  "sc_next (fst (writeServerHeaders c s fs b prio sc)) = sc_next sc"
  "sc_connRecvWindow (fst (writeServerHeaders c s fs b prio sc)) = sc_connRecvWindow sc"
  "sc_connRefundPending (fst (writeServerHeaders c s fs b prio sc)) = sc_connRefundPending sc"
  "sc_parked (fst (writeServerHeaders c s fs b prio sc)) = sc_parked sc"
  "sc_tokens (fst (writeServerHeaders c s fs b prio sc)) = sc_tokens sc"
  "sc_peerConnSendWindow (fst (writeServerHeaders c s fs b prio sc)) = sc_peerConnSendWindow sc"
  "sc_closed (fst (writeServerHeaders c s fs b prio sc)) = sc_closed sc"
  "sc_readerDone (fst (writeServerHeaders c s fs b prio sc)) = sc_readerDone sc"
  "sc_acceptCh (fst (writeServerHeaders c s fs b prio sc)) = sc_acceptCh sc"
  "sc_goAwayRequested (fst (writeServerHeaders c s fs b prio sc)) = sc_goAwayRequested sc"
  "sc_goAwaySentID (fst (writeServerHeaders c s fs b prio sc)) = sc_goAwaySentID sc"
  "sc_rapidResetCount (fst (writeServerHeaders c s fs b prio sc)) = sc_rapidResetCount sc"
  "sc_decSeen (fst (writeServerHeaders c s fs b prio sc)) = sc_decSeen sc"
  "sc_spawned (fst (writeServerHeaders c s fs b prio sc)) = sc_spawned sc"
  "sc_panicked (fst (writeServerHeaders c s fs b prio sc)) = sc_panicked sc"
  by (simp_all add: writeServerHeaders_def Let_def case_prod_beta split: option.splits list.splits sum.splits sendResult.splits)

lemma endLocal_frame [simp]:
  "sc_opts (endLocal s sc) = sc_opts sc"
  "sc_peerSettings (endLocal s sc) = sc_peerSettings sc"
  "sc_next (endLocal s sc) = sc_next sc"
  "sc_connRecvWindow (endLocal s sc) = sc_connRecvWindow sc"
  "sc_connRefundPending (endLocal s sc) = sc_connRefundPending sc"
  "sc_parked (endLocal s sc) = sc_parked sc"
  "sc_tokens (endLocal s sc) = sc_tokens sc"
  "sc_peerConnSendWindow (endLocal s sc) = sc_peerConnSendWindow sc"
  "sc_closed (endLocal s sc) = sc_closed sc"
  "sc_readerDone (endLocal s sc) = sc_readerDone sc"
  "sc_acceptCh (endLocal s sc) = sc_acceptCh sc"
  "sc_goAwayRequested (endLocal s sc) = sc_goAwayRequested sc"
  "sc_goAwaySentID (endLocal s sc) = sc_goAwaySentID sc"
  "sc_rapidResetCount (endLocal s sc) = sc_rapidResetCount sc"
  "sc_wire (endLocal s sc) = sc_wire sc"
  "sc_decSeen (endLocal s sc) = sc_decSeen sc"
  "sc_encDone (endLocal s sc) = sc_encDone sc"
  "sc_spawned (endLocal s sc) = sc_spawned sc"
  "sc_panicked (endLocal s sc) = sc_panicked sc"
  by (simp_all add: endLocal_def Let_def case_prod_beta split: option.splits list.splits sum.splits sendResult.splits)

lemma SendHeadersWithPriority_frame [simp]:
  "sc_opts (fst (SendHeadersWithPriority c s fs b prio sc)) = sc_opts sc"
  "sc_peerSettings (fst (SendHeadersWithPriority c s fs b prio sc)) = sc_peerSettings sc"
  "sc_next (fst (SendHeadersWithPriority c s fs b prio sc)) = sc_next sc"
  "sc_connRecvWindow (fst (SendHeadersWithPriority c s fs b prio sc)) = sc_connRecvWindow sc"
  "sc_connRefundPending (fst (SendHeadersWithPriority c s fs b prio sc)) = sc_connRefundPending sc"
  "sc_parked (fst (SendHeadersWithPriority c s fs b prio sc)) = sc_parked sc"
  "sc_tokens (fst (SendHeadersWithPriority c s fs b prio sc)) = sc_tokens sc"
  "sc_peerConnSendWindow (fst (SendHeadersWithPriority c s fs b prio sc)) = sc_peerConnSendWindow sc"
  "sc_closed (fst (SendHeadersWithPriority c s fs b prio sc)) = sc_closed sc"
  "sc_readerDone (fst (SendHeadersWithPriority c s fs b prio sc)) = sc_readerDone sc"
  "sc_acceptCh (fst (SendHeadersWithPriority c s fs b prio sc)) = sc_acceptCh sc"
  "sc_goAwayRequested (fst (SendHeadersWithPriority c s fs b prio sc)) = sc_goAwayRequested sc"
  "sc_goAwaySentID (fst (SendHeadersWithPriority c s fs b prio sc)) = sc_goAwaySentID sc"
  "sc_rapidResetCount (fst (SendHeadersWithPriority c s fs b prio sc)) = sc_rapidResetCount sc"
  "sc_decSeen (fst (SendHeadersWithPriority c s fs b prio sc)) = sc_decSeen sc"
  "sc_spawned (fst (SendHeadersWithPriority c s fs b prio sc)) = sc_spawned sc"
  "sc_panicked (fst (SendHeadersWithPriority c s fs b prio sc)) = sc_panicked sc"
  by (simp_all add: SendHeadersWithPriority_def Let_def case_prod_beta split: option.splits list.splits sum.splits sendResult.splits)

lemma SendHeaders_frame [simp]:
  "sc_opts (fst (SendHeaders c s fs b sc)) = sc_opts sc"
  "sc_peerSettings (fst (SendHeaders c s fs b sc)) = sc_peerSettings sc"
  "sc_next (fst (SendHeaders c s fs b sc)) = sc_next sc"
  "sc_connRecvWindow (fst (SendHeaders c s fs b sc)) = sc_connRecvWindow sc"
  "sc_connRefundPending (fst (SendHeaders c s fs b sc)) = sc_connRefundPending sc"
  "sc_parked (fst (SendHeaders c s fs b sc)) = sc_parked sc"
  "sc_tokens (fst (SendHeaders c s fs b sc)) = sc_tokens sc"
  "sc_peerConnSendWindow (fst (SendHeaders c s fs b sc)) = sc_peerConnSendWindow sc"
  "sc_closed (fst (SendHeaders c s fs b sc)) = sc_closed sc"
  "sc_readerDone (fst (SendHeaders c s fs b sc)) = sc_readerDone sc"
  "sc_acceptCh (fst (SendHeaders c s fs b sc)) = sc_acceptCh sc"
  "sc_goAwayRequested (fst (SendHeaders c s fs b sc)) = sc_goAwayRequested sc"
  "sc_goAwaySentID (fst (SendHeaders c s fs b sc)) = sc_goAwaySentID sc"
  "sc_rapidResetCount (fst (SendHeaders c s fs b sc)) = sc_rapidResetCount sc"
  "sc_decSeen (fst (SendHeaders c s fs b sc)) = sc_decSeen sc"
  "sc_spawned (fst (SendHeaders c s fs b sc)) = sc_spawned sc"
  "sc_panicked (fst (SendHeaders c s fs b sc)) = sc_panicked sc"
  by (simp_all add: SendHeaders_def Let_def case_prod_beta split: option.splits list.splits sum.splits sendResult.splits)

lemma takeSendCredits_frame [simp]:
  "sc_opts (fst (takeSendCredits s n sc)) = sc_opts sc"
  "sc_peerSettings (fst (takeSendCredits s n sc)) = sc_peerSettings sc"
  "sc_tbl (fst (takeSendCredits s n sc)) = sc_tbl sc"
  "sc_next (fst (takeSendCredits s n sc)) = sc_next sc"
  "sc_connRecvWindow (fst (takeSendCredits s n sc)) = sc_connRecvWindow sc"
  "sc_connRefundPending (fst (takeSendCredits s n sc)) = sc_connRefundPending sc"
  "sc_parked (fst (takeSendCredits s n sc)) = sc_parked sc"
  "sc_tokens (fst (takeSendCredits s n sc)) = sc_tokens sc"
  "sc_closed (fst (takeSendCredits s n sc)) = sc_closed sc"
  "sc_readerDone (fst (takeSendCredits s n sc)) = sc_readerDone sc"
  "sc_acceptCh (fst (takeSendCredits s n sc)) = sc_acceptCh sc"
  "sc_goAwayRequested (fst (takeSendCredits s n sc)) = sc_goAwayRequested sc"
  "sc_goAwaySentID (fst (takeSendCredits s n sc)) = sc_goAwaySentID sc"
  "sc_rapidResetCount (fst (takeSendCredits s n sc)) = sc_rapidResetCount sc"
  "sc_wire (fst (takeSendCredits s n sc)) = sc_wire sc"
  "sc_decSeen (fst (takeSendCredits s n sc)) = sc_decSeen sc"
  "sc_encDone (fst (takeSendCredits s n sc)) = sc_encDone sc"
  "sc_spawned (fst (takeSendCredits s n sc)) = sc_spawned sc"
  "sc_panicked (fst (takeSendCredits s n sc)) = sc_panicked sc"
  by (simp_all add: takeSendCredits_def Let_def case_prod_beta split: option.splits list.splits sum.splits sendResult.splits)

lemma acquireSendCredits_frame [simp]:
  "sc_opts (fst (acquireSendCredits ctxErr s n sc)) = sc_opts sc"
  "sc_peerSettings (fst (acquireSendCredits ctxErr s n sc)) = sc_peerSettings sc"
  "sc_tbl (fst (acquireSendCredits ctxErr s n sc)) = sc_tbl sc"
  "sc_next (fst (acquireSendCredits ctxErr s n sc)) = sc_next sc"
  "sc_connRecvWindow (fst (acquireSendCredits ctxErr s n sc)) = sc_connRecvWindow sc"
  "sc_connRefundPending (fst (acquireSendCredits ctxErr s n sc)) = sc_connRefundPending sc"
  "sc_parked (fst (acquireSendCredits ctxErr s n sc)) = sc_parked sc"
  "sc_tokens (fst (acquireSendCredits ctxErr s n sc)) = sc_tokens sc"
  "sc_closed (fst (acquireSendCredits ctxErr s n sc)) = sc_closed sc"
  "sc_readerDone (fst (acquireSendCredits ctxErr s n sc)) = sc_readerDone sc"
  "sc_acceptCh (fst (acquireSendCredits ctxErr s n sc)) = sc_acceptCh sc"
  "sc_goAwayRequested (fst (acquireSendCredits ctxErr s n sc)) = sc_goAwayRequested sc"
  "sc_goAwaySentID (fst (acquireSendCredits ctxErr s n sc)) = sc_goAwaySentID sc"
  "sc_rapidResetCount (fst (acquireSendCredits ctxErr s n sc)) = sc_rapidResetCount sc"
  "sc_wire (fst (acquireSendCredits ctxErr s n sc)) = sc_wire sc"
  "sc_decSeen (fst (acquireSendCredits ctxErr s n sc)) = sc_decSeen sc"
  "sc_encDone (fst (acquireSendCredits ctxErr s n sc)) = sc_encDone sc"
  "sc_spawned (fst (acquireSendCredits ctxErr s n sc)) = sc_spawned sc"
  "sc_panicked (fst (acquireSendCredits ctxErr s n sc)) = sc_panicked sc"
  by (simp_all add: acquireSendCredits_def Let_def case_prod_beta split: option.splits list.splits sum.splits sendResult.splits)

lemma releaseSendCredits_frame [simp]:
  "sc_opts (releaseSendCredits s n sc) = sc_opts sc"
  "sc_peerSettings (releaseSendCredits s n sc) = sc_peerSettings sc"
  "sc_tbl (releaseSendCredits s n sc) = sc_tbl sc"
  "sc_next (releaseSendCredits s n sc) = sc_next sc"
  "sc_connRecvWindow (releaseSendCredits s n sc) = sc_connRecvWindow sc"
  "sc_connRefundPending (releaseSendCredits s n sc) = sc_connRefundPending sc"
  "sc_closed (releaseSendCredits s n sc) = sc_closed sc"
  "sc_readerDone (releaseSendCredits s n sc) = sc_readerDone sc"
  "sc_acceptCh (releaseSendCredits s n sc) = sc_acceptCh sc"
  "sc_goAwayRequested (releaseSendCredits s n sc) = sc_goAwayRequested sc"
  "sc_goAwaySentID (releaseSendCredits s n sc) = sc_goAwaySentID sc"
  "sc_rapidResetCount (releaseSendCredits s n sc) = sc_rapidResetCount sc"
  "sc_wire (releaseSendCredits s n sc) = sc_wire sc"
  "sc_decSeen (releaseSendCredits s n sc) = sc_decSeen sc"
  "sc_encDone (releaseSendCredits s n sc) = sc_encDone sc"
  "sc_spawned (releaseSendCredits s n sc) = sc_spawned sc"
  "sc_panicked (releaseSendCredits s n sc) = sc_panicked sc"
  by (simp_all add: releaseSendCredits_def Let_def case_prod_beta split: option.splits list.splits sum.splits sendResult.splits)

lemma creditConsumed_frame [simp]:
  "sc_opts (creditConsumed c s e sc) = sc_opts sc"
  "sc_peerSettings (creditConsumed c s e sc) = sc_peerSettings sc"
  "sc_tbl (creditConsumed c s e sc) = sc_tbl sc"
  "sc_next (creditConsumed c s e sc) = sc_next sc"
  "sc_connRecvWindow (creditConsumed c s e sc) = sc_connRecvWindow sc"
  "sc_connRefundPending (creditConsumed c s e sc) = sc_connRefundPending sc"
  "sc_parked (creditConsumed c s e sc) = sc_parked sc"
  "sc_tokens (creditConsumed c s e sc) = sc_tokens sc"
  "sc_peerConnSendWindow (creditConsumed c s e sc) = sc_peerConnSendWindow sc"
  "sc_closed (creditConsumed c s e sc) = sc_closed sc"
  "sc_readerDone (creditConsumed c s e sc) = sc_readerDone sc"
  "sc_acceptCh (creditConsumed c s e sc) = sc_acceptCh sc"
  "sc_goAwayRequested (creditConsumed c s e sc) = sc_goAwayRequested sc"
  "sc_goAwaySentID (creditConsumed c s e sc) = sc_goAwaySentID sc"
  "sc_rapidResetCount (creditConsumed c s e sc) = sc_rapidResetCount sc"
  "sc_decSeen (creditConsumed c s e sc) = sc_decSeen sc"
  "sc_encDone (creditConsumed c s e sc) = sc_encDone sc"
  "sc_spawned (creditConsumed c s e sc) = sc_spawned sc"
  "sc_panicked (creditConsumed c s e sc) = sc_panicked sc"
  by (simp_all add: creditConsumed_def Let_def case_prod_beta split: option.splits list.splits sum.splits sendResult.splits)

lemma Recv_frame [simp]:
  "sc_opts (fst (Recv c ctxErr s sc)) = sc_opts sc"
  "sc_peerSettings (fst (Recv c ctxErr s sc)) = sc_peerSettings sc"
  "sc_tbl (fst (Recv c ctxErr s sc)) = sc_tbl sc"
  "sc_next (fst (Recv c ctxErr s sc)) = sc_next sc"
  "sc_connRecvWindow (fst (Recv c ctxErr s sc)) = sc_connRecvWindow sc"
  "sc_connRefundPending (fst (Recv c ctxErr s sc)) = sc_connRefundPending sc"
  "sc_parked (fst (Recv c ctxErr s sc)) = sc_parked sc"
  "sc_tokens (fst (Recv c ctxErr s sc)) = sc_tokens sc"
  "sc_peerConnSendWindow (fst (Recv c ctxErr s sc)) = sc_peerConnSendWindow sc"
  "sc_closed (fst (Recv c ctxErr s sc)) = sc_closed sc"
  "sc_readerDone (fst (Recv c ctxErr s sc)) = sc_readerDone sc"
  "sc_acceptCh (fst (Recv c ctxErr s sc)) = sc_acceptCh sc"
  "sc_goAwayRequested (fst (Recv c ctxErr s sc)) = sc_goAwayRequested sc"
  "sc_goAwaySentID (fst (Recv c ctxErr s sc)) = sc_goAwaySentID sc"
  "sc_rapidResetCount (fst (Recv c ctxErr s sc)) = sc_rapidResetCount sc"
  "sc_decSeen (fst (Recv c ctxErr s sc)) = sc_decSeen sc"
  "sc_encDone (fst (Recv c ctxErr s sc)) = sc_encDone sc"
  "sc_spawned (fst (Recv c ctxErr s sc)) = sc_spawned sc"
  "sc_panicked (fst (Recv c ctxErr s sc)) = sc_panicked sc"
  by (simp_all add: Recv_def Let_def case_prod_beta split: option.splits list.splits sum.splits sendResult.splits)

lemma StreamClose_frame [simp]:
  "sc_opts (fst (StreamClose c s sc)) = sc_opts sc"
  "sc_peerSettings (fst (StreamClose c s sc)) = sc_peerSettings sc"
  "sc_next (fst (StreamClose c s sc)) = sc_next sc"
  "sc_connRecvWindow (fst (StreamClose c s sc)) = sc_connRecvWindow sc"
  "sc_connRefundPending (fst (StreamClose c s sc)) = sc_connRefundPending sc"
  "sc_parked (fst (StreamClose c s sc)) = sc_parked sc"
  "sc_tokens (fst (StreamClose c s sc)) = sc_tokens sc"
  "sc_peerConnSendWindow (fst (StreamClose c s sc)) = sc_peerConnSendWindow sc"
  "sc_closed (fst (StreamClose c s sc)) = sc_closed sc"
  "sc_readerDone (fst (StreamClose c s sc)) = sc_readerDone sc"
  "sc_acceptCh (fst (StreamClose c s sc)) = sc_acceptCh sc"
  "sc_goAwayRequested (fst (StreamClose c s sc)) = sc_goAwayRequested sc"
  "sc_goAwaySentID (fst (StreamClose c s sc)) = sc_goAwaySentID sc"
  "sc_rapidResetCount (fst (StreamClose c s sc)) = sc_rapidResetCount sc"
  "sc_decSeen (fst (StreamClose c s sc)) = sc_decSeen sc"
  "sc_encDone (fst (StreamClose c s sc)) = sc_encDone sc"
  "sc_spawned (fst (StreamClose c s sc)) = sc_spawned sc"
  "sc_panicked (fst (StreamClose c s sc)) = sc_panicked sc"
  by (simp_all add: StreamClose_def Let_def case_prod_beta split: option.splits list.splits sum.splits sendResult.splits)

lemma writePushPromise_frame [simp]:
  "sc_opts (fst (writePushPromise c s fs sc)) = sc_opts sc"
  "sc_peerSettings (fst (writePushPromise c s fs sc)) = sc_peerSettings sc"
  "sc_connRecvWindow (fst (writePushPromise c s fs sc)) = sc_connRecvWindow sc"
  "sc_connRefundPending (fst (writePushPromise c s fs sc)) = sc_connRefundPending sc"
  "sc_parked (fst (writePushPromise c s fs sc)) = sc_parked sc"
  "sc_tokens (fst (writePushPromise c s fs sc)) = sc_tokens sc"
  "sc_peerConnSendWindow (fst (writePushPromise c s fs sc)) = sc_peerConnSendWindow sc"
  "sc_closed (fst (writePushPromise c s fs sc)) = sc_closed sc"
  "sc_readerDone (fst (writePushPromise c s fs sc)) = sc_readerDone sc"
  "sc_acceptCh (fst (writePushPromise c s fs sc)) = sc_acceptCh sc"
  "sc_goAwayRequested (fst (writePushPromise c s fs sc)) = sc_goAwayRequested sc"
  "sc_goAwaySentID (fst (writePushPromise c s fs sc)) = sc_goAwaySentID sc"
  "sc_rapidResetCount (fst (writePushPromise c s fs sc)) = sc_rapidResetCount sc"
  "sc_decSeen (fst (writePushPromise c s fs sc)) = sc_decSeen sc"
  "sc_spawned (fst (writePushPromise c s fs sc)) = sc_spawned sc"
  "sc_panicked (fst (writePushPromise c s fs sc)) = sc_panicked sc"
  by (simp_all add: writePushPromise_def allocStream_def Let_def case_prod_beta split: option.splits list.splits sum.splits sendResult.splits)

lemma Push_frame [simp]:
  "sc_opts (fst (Push c s fs sc)) = sc_opts sc"
  "sc_peerSettings (fst (Push c s fs sc)) = sc_peerSettings sc"
  "sc_connRecvWindow (fst (Push c s fs sc)) = sc_connRecvWindow sc"
  "sc_connRefundPending (fst (Push c s fs sc)) = sc_connRefundPending sc"
  "sc_parked (fst (Push c s fs sc)) = sc_parked sc"
  "sc_tokens (fst (Push c s fs sc)) = sc_tokens sc"
  "sc_peerConnSendWindow (fst (Push c s fs sc)) = sc_peerConnSendWindow sc"
  "sc_closed (fst (Push c s fs sc)) = sc_closed sc"
  "sc_readerDone (fst (Push c s fs sc)) = sc_readerDone sc"
  "sc_acceptCh (fst (Push c s fs sc)) = sc_acceptCh sc"
  "sc_goAwayRequested (fst (Push c s fs sc)) = sc_goAwayRequested sc"
  "sc_goAwaySentID (fst (Push c s fs sc)) = sc_goAwaySentID sc"
  "sc_rapidResetCount (fst (Push c s fs sc)) = sc_rapidResetCount sc"
  "sc_decSeen (fst (Push c s fs sc)) = sc_decSeen sc"
  "sc_spawned (fst (Push c s fs sc)) = sc_spawned sc"
  "sc_panicked (fst (Push c s fs sc)) = sc_panicked sc"
  by (simp_all add: Push_def Let_def case_prod_beta split: option.splits list.splits sum.splits sendResult.splits)

lemma notePeerGoAway_frame [simp]:
  "sc_opts (notePeerGoAway sc) = sc_opts sc"
  "sc_peerSettings (notePeerGoAway sc) = sc_peerSettings sc"
  "sc_tbl (notePeerGoAway sc) = sc_tbl sc"
  "sc_objs (notePeerGoAway sc) = sc_objs sc"
  "sc_next (notePeerGoAway sc) = sc_next sc"
  "sc_connRecvWindow (notePeerGoAway sc) = sc_connRecvWindow sc"
  "sc_connRefundPending (notePeerGoAway sc) = sc_connRefundPending sc"
  "sc_parked (notePeerGoAway sc) = sc_parked sc"
  "sc_tokens (notePeerGoAway sc) = sc_tokens sc"
  "sc_peerConnSendWindow (notePeerGoAway sc) = sc_peerConnSendWindow sc"
  "sc_closed (notePeerGoAway sc) = sc_closed sc"
  "sc_readerDone (notePeerGoAway sc) = sc_readerDone sc"
  "sc_acceptCh (notePeerGoAway sc) = sc_acceptCh sc"
  "sc_goAwayRequested (notePeerGoAway sc) = sc_goAwayRequested sc"
  "sc_goAwaySentID (notePeerGoAway sc) = sc_goAwaySentID sc"
  "sc_rapidResetCount (notePeerGoAway sc) = sc_rapidResetCount sc"
  "sc_wire (notePeerGoAway sc) = sc_wire sc"
  "sc_decSeen (notePeerGoAway sc) = sc_decSeen sc"
  "sc_encDone (notePeerGoAway sc) = sc_encDone sc"
  "sc_spawned (notePeerGoAway sc) = sc_spawned sc"
  "sc_panicked (notePeerGoAway sc) = sc_panicked sc"
  by (simp_all add: notePeerGoAway_def Let_def case_prod_beta split: option.splits list.splits sum.splits sendResult.splits)

lemma respondFieldsTooLarge_frame [simp]:
  "sc_opts (respondFieldsTooLarge c so sc) = sc_opts sc"
  "sc_peerSettings (respondFieldsTooLarge c so sc) = sc_peerSettings sc"
  "sc_next (respondFieldsTooLarge c so sc) = sc_next sc"
  "sc_connRecvWindow (respondFieldsTooLarge c so sc) = sc_connRecvWindow sc"
  "sc_connRefundPending (respondFieldsTooLarge c so sc) = sc_connRefundPending sc"
  "sc_parked (respondFieldsTooLarge c so sc) = sc_parked sc"
  "sc_tokens (respondFieldsTooLarge c so sc) = sc_tokens sc"
  "sc_peerConnSendWindow (respondFieldsTooLarge c so sc) = sc_peerConnSendWindow sc"
  "sc_closed (respondFieldsTooLarge c so sc) = sc_closed sc"
  "sc_readerDone (respondFieldsTooLarge c so sc) = sc_readerDone sc"
  "sc_acceptCh (respondFieldsTooLarge c so sc) = sc_acceptCh sc"
  "sc_goAwayRequested (respondFieldsTooLarge c so sc) = sc_goAwayRequested sc"
  "sc_goAwaySentID (respondFieldsTooLarge c so sc) = sc_goAwaySentID sc"
  "sc_rapidResetCount (respondFieldsTooLarge c so sc) = sc_rapidResetCount sc"
  "sc_decSeen (respondFieldsTooLarge c so sc) = sc_decSeen sc"
  "sc_spawned (respondFieldsTooLarge c so sc) = sc_spawned sc"
  "sc_panicked (respondFieldsTooLarge c so sc) = sc_panicked sc"
  by (simp_all add: respondFieldsTooLarge_def Let_def case_prod_beta split: option.splits list.splits sum.splits sendResult.splits)

lemma decodeBlock_frame [simp]:
  "sc_opts (fst (decodeBlock c hb sc)) = sc_opts sc"
  "sc_peerSettings (fst (decodeBlock c hb sc)) = sc_peerSettings sc"
  "sc_tbl (fst (decodeBlock c hb sc)) = sc_tbl sc"
  "sc_objs (fst (decodeBlock c hb sc)) = sc_objs sc"
  "sc_next (fst (decodeBlock c hb sc)) = sc_next sc"
  "sc_connRecvWindow (fst (decodeBlock c hb sc)) = sc_connRecvWindow sc"
  "sc_connRefundPending (fst (decodeBlock c hb sc)) = sc_connRefundPending sc"
  "sc_parked (fst (decodeBlock c hb sc)) = sc_parked sc"
  "sc_tokens (fst (decodeBlock c hb sc)) = sc_tokens sc"
  "sc_peerConnSendWindow (fst (decodeBlock c hb sc)) = sc_peerConnSendWindow sc"
  "sc_closed (fst (decodeBlock c hb sc)) = sc_closed sc"
  "sc_readerDone (fst (decodeBlock c hb sc)) = sc_readerDone sc"
  "sc_acceptCh (fst (decodeBlock c hb sc)) = sc_acceptCh sc"
  "sc_goAwayRequested (fst (decodeBlock c hb sc)) = sc_goAwayRequested sc"
  "sc_goAwaySentID (fst (decodeBlock c hb sc)) = sc_goAwaySentID sc"
  "sc_rapidResetCount (fst (decodeBlock c hb sc)) = sc_rapidResetCount sc"
  "sc_wire (fst (decodeBlock c hb sc)) = sc_wire sc"
  "sc_encDone (fst (decodeBlock c hb sc)) = sc_encDone sc"
  "sc_spawned (fst (decodeBlock c hb sc)) = sc_spawned sc"
  "sc_panicked (fst (decodeBlock c hb sc)) = sc_panicked sc"
  by (simp_all add: decodeBlock_def Let_def case_prod_beta split: option.splits list.splits sum.splits sendResult.splits)

lemma discardHeaderBlock_frame [simp]:
  "sc_opts (snd (fst (discardHeaderBlock c hb (h, sc)))) = sc_opts sc"
  "sc_peerSettings (snd (fst (discardHeaderBlock c hb (h, sc)))) = sc_peerSettings sc"
  "sc_tbl (snd (fst (discardHeaderBlock c hb (h, sc)))) = sc_tbl sc"
  "sc_objs (snd (fst (discardHeaderBlock c hb (h, sc)))) = sc_objs sc"
  "sc_next (snd (fst (discardHeaderBlock c hb (h, sc)))) = sc_next sc"
  "sc_connRecvWindow (snd (fst (discardHeaderBlock c hb (h, sc)))) = sc_connRecvWindow sc"
  "sc_connRefundPending (snd (fst (discardHeaderBlock c hb (h, sc)))) = sc_connRefundPending sc"
  "sc_parked (snd (fst (discardHeaderBlock c hb (h, sc)))) = sc_parked sc"
  "sc_tokens (snd (fst (discardHeaderBlock c hb (h, sc)))) = sc_tokens sc"
  "sc_peerConnSendWindow (snd (fst (discardHeaderBlock c hb (h, sc)))) = sc_peerConnSendWindow sc"
  "sc_closed (snd (fst (discardHeaderBlock c hb (h, sc)))) = sc_closed sc"
  "sc_readerDone (snd (fst (discardHeaderBlock c hb (h, sc)))) = sc_readerDone sc"
  "sc_acceptCh (snd (fst (discardHeaderBlock c hb (h, sc)))) = sc_acceptCh sc"
  "sc_goAwayRequested (snd (fst (discardHeaderBlock c hb (h, sc)))) = sc_goAwayRequested sc"
  "sc_goAwaySentID (snd (fst (discardHeaderBlock c hb (h, sc)))) = sc_goAwaySentID sc"
  "sc_rapidResetCount (snd (fst (discardHeaderBlock c hb (h, sc)))) = sc_rapidResetCount sc"
  "sc_wire (snd (fst (discardHeaderBlock c hb (h, sc)))) = sc_wire sc"
  "sc_encDone (snd (fst (discardHeaderBlock c hb (h, sc)))) = sc_encDone sc"
  "sc_spawned (snd (fst (discardHeaderBlock c hb (h, sc)))) = sc_spawned sc"
  "sc_panicked (snd (fst (discardHeaderBlock c hb (h, sc)))) = sc_panicked sc"
  by (simp_all add: discardHeaderBlock_def decodeBlock_def Let_def case_prod_beta split: option.splits list.splits sum.splits sendResult.splits)

lemma deliverEvent_frame [simp]:
  "sc_opts (deliverEvent s sid b e sc) = sc_opts sc"
  "sc_peerSettings (deliverEvent s sid b e sc) = sc_peerSettings sc"
  "sc_next (deliverEvent s sid b e sc) = sc_next sc"
  "sc_connRecvWindow (deliverEvent s sid b e sc) = sc_connRecvWindow sc"
  "sc_connRefundPending (deliverEvent s sid b e sc) = sc_connRefundPending sc"
  "sc_parked (deliverEvent s sid b e sc) = sc_parked sc"
  "sc_tokens (deliverEvent s sid b e sc) = sc_tokens sc"
  "sc_peerConnSendWindow (deliverEvent s sid b e sc) = sc_peerConnSendWindow sc"
  "sc_closed (deliverEvent s sid b e sc) = sc_closed sc"
  "sc_readerDone (deliverEvent s sid b e sc) = sc_readerDone sc"
  "sc_acceptCh (deliverEvent s sid b e sc) = sc_acceptCh sc"
  "sc_goAwayRequested (deliverEvent s sid b e sc) = sc_goAwayRequested sc"
  "sc_goAwaySentID (deliverEvent s sid b e sc) = sc_goAwaySentID sc"
  "sc_rapidResetCount (deliverEvent s sid b e sc) = sc_rapidResetCount sc"
  "sc_wire (deliverEvent s sid b e sc) = sc_wire sc"
  "sc_decSeen (deliverEvent s sid b e sc) = sc_decSeen sc"
  "sc_encDone (deliverEvent s sid b e sc) = sc_encDone sc"
  by (simp_all add: deliverEvent_def Let_def case_prod_beta split: option.splits list.splits sum.splits sendResult.splits)

lemma emitHeaderBlock_frame [simp]:
  "sc_opts (snd (fst (emitHeaderBlock c s hb b b2 (h, sc)))) = sc_opts sc"
  "sc_peerSettings (snd (fst (emitHeaderBlock c s hb b b2 (h, sc)))) = sc_peerSettings sc"
  "sc_next (snd (fst (emitHeaderBlock c s hb b b2 (h, sc)))) = sc_next sc"
  "sc_connRecvWindow (snd (fst (emitHeaderBlock c s hb b b2 (h, sc)))) = sc_connRecvWindow sc"
  "sc_connRefundPending (snd (fst (emitHeaderBlock c s hb b b2 (h, sc)))) = sc_connRefundPending sc"
  "sc_parked (snd (fst (emitHeaderBlock c s hb b b2 (h, sc)))) = sc_parked sc"
  "sc_tokens (snd (fst (emitHeaderBlock c s hb b b2 (h, sc)))) = sc_tokens sc"
  "sc_peerConnSendWindow (snd (fst (emitHeaderBlock c s hb b b2 (h, sc)))) = sc_peerConnSendWindow sc"
  "sc_closed (snd (fst (emitHeaderBlock c s hb b b2 (h, sc)))) = sc_closed sc"
  "sc_readerDone (snd (fst (emitHeaderBlock c s hb b b2 (h, sc)))) = sc_readerDone sc"
  "sc_acceptCh (snd (fst (emitHeaderBlock c s hb b b2 (h, sc)))) = sc_acceptCh sc"
  "sc_goAwayRequested (snd (fst (emitHeaderBlock c s hb b b2 (h, sc)))) = sc_goAwayRequested sc"
  "sc_goAwaySentID (snd (fst (emitHeaderBlock c s hb b b2 (h, sc)))) = sc_goAwaySentID sc"
  "sc_rapidResetCount (snd (fst (emitHeaderBlock c s hb b b2 (h, sc)))) = sc_rapidResetCount sc"
  by (simp_all add: emitHeaderBlock_def decodeBlock_def Let_def case_prod_beta split: option.splits list.splits sum.splits sendResult.splits)

lemma OnData_frame [simp]:
  "sc_opts (snd (fst (OnData c fh p (h, sc)))) = sc_opts sc"
  "sc_peerSettings (snd (fst (OnData c fh p (h, sc)))) = sc_peerSettings sc"
  "sc_next (snd (fst (OnData c fh p (h, sc)))) = sc_next sc"
  "sc_parked (snd (fst (OnData c fh p (h, sc)))) = sc_parked sc"
  "sc_tokens (snd (fst (OnData c fh p (h, sc)))) = sc_tokens sc"
  "sc_peerConnSendWindow (snd (fst (OnData c fh p (h, sc)))) = sc_peerConnSendWindow sc"
  "sc_closed (snd (fst (OnData c fh p (h, sc)))) = sc_closed sc"
  "sc_readerDone (snd (fst (OnData c fh p (h, sc)))) = sc_readerDone sc"
  "sc_acceptCh (snd (fst (OnData c fh p (h, sc)))) = sc_acceptCh sc"
  "sc_goAwayRequested (snd (fst (OnData c fh p (h, sc)))) = sc_goAwayRequested sc"
  "sc_goAwaySentID (snd (fst (OnData c fh p (h, sc)))) = sc_goAwaySentID sc"
  "sc_rapidResetCount (snd (fst (OnData c fh p (h, sc)))) = sc_rapidResetCount sc"
  "sc_decSeen (snd (fst (OnData c fh p (h, sc)))) = sc_decSeen sc"
  "sc_encDone (snd (fst (OnData c fh p (h, sc)))) = sc_encDone sc"
  by (simp_all add: OnData_def Let_def case_prod_beta split: option.splits list.splits sum.splits sendResult.splits)

lemma headersBlock_frame [simp]:
  "sc_opts (snd (fst (headersBlock c fh hb s b b2 (h, sc)))) = sc_opts sc"
  "sc_peerSettings (snd (fst (headersBlock c fh hb s b b2 (h, sc)))) = sc_peerSettings sc"
  "sc_next (snd (fst (headersBlock c fh hb s b b2 (h, sc)))) = sc_next sc"
  "sc_connRecvWindow (snd (fst (headersBlock c fh hb s b b2 (h, sc)))) = sc_connRecvWindow sc"
  "sc_connRefundPending (snd (fst (headersBlock c fh hb s b b2 (h, sc)))) = sc_connRefundPending sc"
  "sc_parked (snd (fst (headersBlock c fh hb s b b2 (h, sc)))) = sc_parked sc"
  "sc_tokens (snd (fst (headersBlock c fh hb s b b2 (h, sc)))) = sc_tokens sc"
  "sc_peerConnSendWindow (snd (fst (headersBlock c fh hb s b b2 (h, sc)))) = sc_peerConnSendWindow sc"
  "sc_closed (snd (fst (headersBlock c fh hb s b b2 (h, sc)))) = sc_closed sc"
  "sc_readerDone (snd (fst (headersBlock c fh hb s b b2 (h, sc)))) = sc_readerDone sc"
  "sc_acceptCh (snd (fst (headersBlock c fh hb s b b2 (h, sc)))) = sc_acceptCh sc"
  "sc_goAwayRequested (snd (fst (headersBlock c fh hb s b b2 (h, sc)))) = sc_goAwayRequested sc"
  "sc_goAwaySentID (snd (fst (headersBlock c fh hb s b b2 (h, sc)))) = sc_goAwaySentID sc"
  "sc_rapidResetCount (snd (fst (headersBlock c fh hb s b b2 (h, sc)))) = sc_rapidResetCount sc"
  by (simp_all add: headersBlock_def Let_def case_prod_beta split: option.splits list.splits sum.splits sendResult.splits)

lemma OnHeaders_frame [simp]:
  "sc_opts (snd (fst (OnHeaders c fh hb prio (h, sc)))) = sc_opts sc"
  "sc_peerSettings (snd (fst (OnHeaders c fh hb prio (h, sc)))) = sc_peerSettings sc"
  "sc_connRecvWindow (snd (fst (OnHeaders c fh hb prio (h, sc)))) = sc_connRecvWindow sc"
  "sc_connRefundPending (snd (fst (OnHeaders c fh hb prio (h, sc)))) = sc_connRefundPending sc"
  "sc_parked (snd (fst (OnHeaders c fh hb prio (h, sc)))) = sc_parked sc"
  "sc_tokens (snd (fst (OnHeaders c fh hb prio (h, sc)))) = sc_tokens sc"
  "sc_peerConnSendWindow (snd (fst (OnHeaders c fh hb prio (h, sc)))) = sc_peerConnSendWindow sc"
  "sc_closed (snd (fst (OnHeaders c fh hb prio (h, sc)))) = sc_closed sc"
  "sc_readerDone (snd (fst (OnHeaders c fh hb prio (h, sc)))) = sc_readerDone sc"
  "sc_goAwayRequested (snd (fst (OnHeaders c fh hb prio (h, sc)))) = sc_goAwayRequested sc"
  "sc_goAwaySentID (snd (fst (OnHeaders c fh hb prio (h, sc)))) = sc_goAwaySentID sc"
  "sc_rapidResetCount (snd (fst (OnHeaders c fh hb prio (h, sc)))) = sc_rapidResetCount sc"
  by (simp_all add: OnHeaders_def openStream_def allocStream_def Let_def case_prod_beta split: option.splits list.splits sum.splits sendResult.splits)

lemma OnContinuation_frame [simp]:
  "sc_opts (snd (fst (OnContinuation c fh hb (h, sc)))) = sc_opts sc"
  "sc_peerSettings (snd (fst (OnContinuation c fh hb (h, sc)))) = sc_peerSettings sc"
  "sc_next (snd (fst (OnContinuation c fh hb (h, sc)))) = sc_next sc"
  "sc_connRecvWindow (snd (fst (OnContinuation c fh hb (h, sc)))) = sc_connRecvWindow sc"
  "sc_connRefundPending (snd (fst (OnContinuation c fh hb (h, sc)))) = sc_connRefundPending sc"
  "sc_parked (snd (fst (OnContinuation c fh hb (h, sc)))) = sc_parked sc"
  "sc_tokens (snd (fst (OnContinuation c fh hb (h, sc)))) = sc_tokens sc"
  "sc_peerConnSendWindow (snd (fst (OnContinuation c fh hb (h, sc)))) = sc_peerConnSendWindow sc"
  "sc_closed (snd (fst (OnContinuation c fh hb (h, sc)))) = sc_closed sc"
  "sc_readerDone (snd (fst (OnContinuation c fh hb (h, sc)))) = sc_readerDone sc"
  "sc_acceptCh (snd (fst (OnContinuation c fh hb (h, sc)))) = sc_acceptCh sc"
  "sc_goAwayRequested (snd (fst (OnContinuation c fh hb (h, sc)))) = sc_goAwayRequested sc"
  "sc_goAwaySentID (snd (fst (OnContinuation c fh hb (h, sc)))) = sc_goAwaySentID sc"
  "sc_rapidResetCount (snd (fst (OnContinuation c fh hb (h, sc)))) = sc_rapidResetCount sc"
  by (simp_all add: OnContinuation_def Let_def case_prod_beta split: option.splits list.splits sum.splits sendResult.splits)

lemma OnRSTStream_frame [simp]:
  "sc_opts (snd (fst (OnRSTStream fh code (h, sc)))) = sc_opts sc"
  "sc_peerSettings (snd (fst (OnRSTStream fh code (h, sc)))) = sc_peerSettings sc"
  "sc_next (snd (fst (OnRSTStream fh code (h, sc)))) = sc_next sc"
  "sc_connRecvWindow (snd (fst (OnRSTStream fh code (h, sc)))) = sc_connRecvWindow sc"
  "sc_connRefundPending (snd (fst (OnRSTStream fh code (h, sc)))) = sc_connRefundPending sc"
  "sc_parked (snd (fst (OnRSTStream fh code (h, sc)))) = sc_parked sc"
  "sc_tokens (snd (fst (OnRSTStream fh code (h, sc)))) = sc_tokens sc"
  "sc_peerConnSendWindow (snd (fst (OnRSTStream fh code (h, sc)))) = sc_peerConnSendWindow sc"
  "sc_closed (snd (fst (OnRSTStream fh code (h, sc)))) = sc_closed sc"
  "sc_readerDone (snd (fst (OnRSTStream fh code (h, sc)))) = sc_readerDone sc"
  "sc_acceptCh (snd (fst (OnRSTStream fh code (h, sc)))) = sc_acceptCh sc"
  "sc_goAwayRequested (snd (fst (OnRSTStream fh code (h, sc)))) = sc_goAwayRequested sc"
  "sc_goAwaySentID (snd (fst (OnRSTStream fh code (h, sc)))) = sc_goAwaySentID sc"
  "sc_wire (snd (fst (OnRSTStream fh code (h, sc)))) = sc_wire sc"
  "sc_decSeen (snd (fst (OnRSTStream fh code (h, sc)))) = sc_decSeen sc"
  "sc_encDone (snd (fst (OnRSTStream fh code (h, sc)))) = sc_encDone sc"
  by (simp_all add: OnRSTStream_def markRemoteEndReset_def Let_def case_prod_beta split: option.splits list.splits sum.splits sendResult.splits)

lemma OnSettings_frame [simp]:
  "sc_opts (snd (fst (OnSettings c fh ps (h, sc)))) = sc_opts sc"
  "sc_tbl (snd (fst (OnSettings c fh ps (h, sc)))) = sc_tbl sc"
  "sc_next (snd (fst (OnSettings c fh ps (h, sc)))) = sc_next sc"
  "sc_connRecvWindow (snd (fst (OnSettings c fh ps (h, sc)))) = sc_connRecvWindow sc"
  "sc_connRefundPending (snd (fst (OnSettings c fh ps (h, sc)))) = sc_connRefundPending sc"
  "sc_peerConnSendWindow (snd (fst (OnSettings c fh ps (h, sc)))) = sc_peerConnSendWindow sc"
  "sc_closed (snd (fst (OnSettings c fh ps (h, sc)))) = sc_closed sc"
  "sc_readerDone (snd (fst (OnSettings c fh ps (h, sc)))) = sc_readerDone sc"
  "sc_acceptCh (snd (fst (OnSettings c fh ps (h, sc)))) = sc_acceptCh sc"
  "sc_goAwayRequested (snd (fst (OnSettings c fh ps (h, sc)))) = sc_goAwayRequested sc"
  "sc_goAwaySentID (snd (fst (OnSettings c fh ps (h, sc)))) = sc_goAwaySentID sc"
  "sc_rapidResetCount (snd (fst (OnSettings c fh ps (h, sc)))) = sc_rapidResetCount sc"
  "sc_decSeen (snd (fst (OnSettings c fh ps (h, sc)))) = sc_decSeen sc"
  "sc_spawned (snd (fst (OnSettings c fh ps (h, sc)))) = sc_spawned sc"
  "sc_panicked (snd (fst (OnSettings c fh ps (h, sc)))) = sc_panicked sc"
  by (simp_all add: OnSettings_def Let_def case_prod_beta split: option.splits list.splits sum.splits sendResult.splits)

lemma OnPing_frame [simp]:
  "sc_opts (snd (fst (OnPing c fh payload (h, sc)))) = sc_opts sc"
  "sc_peerSettings (snd (fst (OnPing c fh payload (h, sc)))) = sc_peerSettings sc"
  "sc_tbl (snd (fst (OnPing c fh payload (h, sc)))) = sc_tbl sc"
  "sc_objs (snd (fst (OnPing c fh payload (h, sc)))) = sc_objs sc"
  "sc_next (snd (fst (OnPing c fh payload (h, sc)))) = sc_next sc"
  "sc_connRecvWindow (snd (fst (OnPing c fh payload (h, sc)))) = sc_connRecvWindow sc"
  "sc_connRefundPending (snd (fst (OnPing c fh payload (h, sc)))) = sc_connRefundPending sc"
  "sc_parked (snd (fst (OnPing c fh payload (h, sc)))) = sc_parked sc"
  "sc_tokens (snd (fst (OnPing c fh payload (h, sc)))) = sc_tokens sc"
  "sc_peerConnSendWindow (snd (fst (OnPing c fh payload (h, sc)))) = sc_peerConnSendWindow sc"
  "sc_closed (snd (fst (OnPing c fh payload (h, sc)))) = sc_closed sc"
  "sc_readerDone (snd (fst (OnPing c fh payload (h, sc)))) = sc_readerDone sc"
  "sc_acceptCh (snd (fst (OnPing c fh payload (h, sc)))) = sc_acceptCh sc"
  "sc_goAwayRequested (snd (fst (OnPing c fh payload (h, sc)))) = sc_goAwayRequested sc"
  "sc_goAwaySentID (snd (fst (OnPing c fh payload (h, sc)))) = sc_goAwaySentID sc"
  "sc_rapidResetCount (snd (fst (OnPing c fh payload (h, sc)))) = sc_rapidResetCount sc"
  "sc_decSeen (snd (fst (OnPing c fh payload (h, sc)))) = sc_decSeen sc"
  "sc_encDone (snd (fst (OnPing c fh payload (h, sc)))) = sc_encDone sc"
  "sc_spawned (snd (fst (OnPing c fh payload (h, sc)))) = sc_spawned sc"
  "sc_panicked (snd (fst (OnPing c fh payload (h, sc)))) = sc_panicked sc"
  by (simp_all add: OnPing_def Let_def case_prod_beta split: option.splits list.splits sum.splits sendResult.splits)

lemma OnGoAway_frame [simp]:
  "sc_opts (snd (fst (OnGoAway (h, sc)))) = sc_opts sc"
  "sc_peerSettings (snd (fst (OnGoAway (h, sc)))) = sc_peerSettings sc"
  "sc_tbl (snd (fst (OnGoAway (h, sc)))) = sc_tbl sc"
  "sc_objs (snd (fst (OnGoAway (h, sc)))) = sc_objs sc"
  "sc_next (snd (fst (OnGoAway (h, sc)))) = sc_next sc"
  "sc_connRecvWindow (snd (fst (OnGoAway (h, sc)))) = sc_connRecvWindow sc"
  "sc_connRefundPending (snd (fst (OnGoAway (h, sc)))) = sc_connRefundPending sc"
  "sc_parked (snd (fst (OnGoAway (h, sc)))) = sc_parked sc"
  "sc_tokens (snd (fst (OnGoAway (h, sc)))) = sc_tokens sc"
  "sc_peerConnSendWindow (snd (fst (OnGoAway (h, sc)))) = sc_peerConnSendWindow sc"
  "sc_closed (snd (fst (OnGoAway (h, sc)))) = sc_closed sc"
  "sc_readerDone (snd (fst (OnGoAway (h, sc)))) = sc_readerDone sc"
  "sc_acceptCh (snd (fst (OnGoAway (h, sc)))) = sc_acceptCh sc"
  "sc_goAwayRequested (snd (fst (OnGoAway (h, sc)))) = sc_goAwayRequested sc"
  "sc_goAwaySentID (snd (fst (OnGoAway (h, sc)))) = sc_goAwaySentID sc"
  "sc_rapidResetCount (snd (fst (OnGoAway (h, sc)))) = sc_rapidResetCount sc"
  "sc_wire (snd (fst (OnGoAway (h, sc)))) = sc_wire sc"
  "sc_decSeen (snd (fst (OnGoAway (h, sc)))) = sc_decSeen sc"
  "sc_encDone (snd (fst (OnGoAway (h, sc)))) = sc_encDone sc"
  "sc_spawned (snd (fst (OnGoAway (h, sc)))) = sc_spawned sc"
  "sc_panicked (snd (fst (OnGoAway (h, sc)))) = sc_panicked sc"
  by (simp_all add: OnGoAway_def Let_def case_prod_beta split: option.splits list.splits sum.splits sendResult.splits)

lemma OnWindowUpdate_frame [simp]:
  "sc_opts (snd (fst (OnWindowUpdate c fh n (h, sc)))) = sc_opts sc"
  "sc_peerSettings (snd (fst (OnWindowUpdate c fh n (h, sc)))) = sc_peerSettings sc"
  "sc_next (snd (fst (OnWindowUpdate c fh n (h, sc)))) = sc_next sc"
  "sc_connRecvWindow (snd (fst (OnWindowUpdate c fh n (h, sc)))) = sc_connRecvWindow sc"
  "sc_connRefundPending (snd (fst (OnWindowUpdate c fh n (h, sc)))) = sc_connRefundPending sc"
  "sc_closed (snd (fst (OnWindowUpdate c fh n (h, sc)))) = sc_closed sc"
  "sc_readerDone (snd (fst (OnWindowUpdate c fh n (h, sc)))) = sc_readerDone sc"
  "sc_acceptCh (snd (fst (OnWindowUpdate c fh n (h, sc)))) = sc_acceptCh sc"
  "sc_goAwayRequested (snd (fst (OnWindowUpdate c fh n (h, sc)))) = sc_goAwayRequested sc"
  "sc_goAwaySentID (snd (fst (OnWindowUpdate c fh n (h, sc)))) = sc_goAwaySentID sc"
  "sc_rapidResetCount (snd (fst (OnWindowUpdate c fh n (h, sc)))) = sc_rapidResetCount sc"
  "sc_decSeen (snd (fst (OnWindowUpdate c fh n (h, sc)))) = sc_decSeen sc"
  "sc_encDone (snd (fst (OnWindowUpdate c fh n (h, sc)))) = sc_encDone sc"
  by (simp_all add: OnWindowUpdate_def Let_def case_prod_beta split: option.splits list.splits sum.splits sendResult.splits)

lemma clampGoAwayID_frame [simp]:
  "sc_opts (fst (clampGoAwayID sid sc)) = sc_opts sc"
  "sc_peerSettings (fst (clampGoAwayID sid sc)) = sc_peerSettings sc"
  "sc_tbl (fst (clampGoAwayID sid sc)) = sc_tbl sc"
  "sc_objs (fst (clampGoAwayID sid sc)) = sc_objs sc"
  "sc_next (fst (clampGoAwayID sid sc)) = sc_next sc"
  "sc_connRecvWindow (fst (clampGoAwayID sid sc)) = sc_connRecvWindow sc"
  "sc_connRefundPending (fst (clampGoAwayID sid sc)) = sc_connRefundPending sc"
  "sc_parked (fst (clampGoAwayID sid sc)) = sc_parked sc"
  "sc_tokens (fst (clampGoAwayID sid sc)) = sc_tokens sc"
  "sc_peerConnSendWindow (fst (clampGoAwayID sid sc)) = sc_peerConnSendWindow sc"
  "sc_closed (fst (clampGoAwayID sid sc)) = sc_closed sc"
  "sc_readerDone (fst (clampGoAwayID sid sc)) = sc_readerDone sc"
  "sc_acceptCh (fst (clampGoAwayID sid sc)) = sc_acceptCh sc"
  "sc_goAwayRequested (fst (clampGoAwayID sid sc)) = sc_goAwayRequested sc"
  "sc_rapidResetCount (fst (clampGoAwayID sid sc)) = sc_rapidResetCount sc"
  "sc_wire (fst (clampGoAwayID sid sc)) = sc_wire sc"
  "sc_decSeen (fst (clampGoAwayID sid sc)) = sc_decSeen sc"
  "sc_encDone (fst (clampGoAwayID sid sc)) = sc_encDone sc"
  "sc_spawned (fst (clampGoAwayID sid sc)) = sc_spawned sc"
  "sc_panicked (fst (clampGoAwayID sid sc)) = sc_panicked sc"
  by (simp_all add: clampGoAwayID_def Let_def case_prod_beta split: option.splits list.splits sum.splits sendResult.splits)

lemma writeGoAway_frame [simp]:
  "sc_opts (fst (writeGoAway c sid code sc)) = sc_opts sc"
  "sc_peerSettings (fst (writeGoAway c sid code sc)) = sc_peerSettings sc"
  "sc_tbl (fst (writeGoAway c sid code sc)) = sc_tbl sc"
  "sc_objs (fst (writeGoAway c sid code sc)) = sc_objs sc"
  "sc_next (fst (writeGoAway c sid code sc)) = sc_next sc"
  "sc_connRecvWindow (fst (writeGoAway c sid code sc)) = sc_connRecvWindow sc"
  "sc_connRefundPending (fst (writeGoAway c sid code sc)) = sc_connRefundPending sc"
  "sc_parked (fst (writeGoAway c sid code sc)) = sc_parked sc"
  "sc_tokens (fst (writeGoAway c sid code sc)) = sc_tokens sc"
  "sc_peerConnSendWindow (fst (writeGoAway c sid code sc)) = sc_peerConnSendWindow sc"
  "sc_closed (fst (writeGoAway c sid code sc)) = sc_closed sc"
  "sc_readerDone (fst (writeGoAway c sid code sc)) = sc_readerDone sc"
  "sc_acceptCh (fst (writeGoAway c sid code sc)) = sc_acceptCh sc"
  "sc_goAwayRequested (fst (writeGoAway c sid code sc)) = sc_goAwayRequested sc"
  "sc_rapidResetCount (fst (writeGoAway c sid code sc)) = sc_rapidResetCount sc"
  "sc_decSeen (fst (writeGoAway c sid code sc)) = sc_decSeen sc"
  "sc_encDone (fst (writeGoAway c sid code sc)) = sc_encDone sc"
  "sc_spawned (fst (writeGoAway c sid code sc)) = sc_spawned sc"
  "sc_panicked (fst (writeGoAway c sid code sc)) = sc_panicked sc"
  by (simp_all add: writeGoAway_def Let_def case_prod_beta split: option.splits list.splits sum.splits sendResult.splits)

lemma GoAwayGraceful_frame [simp]:
  "sc_opts (fst (GoAwayGraceful c sc)) = sc_opts sc"
  "sc_peerSettings (fst (GoAwayGraceful c sc)) = sc_peerSettings sc"
  "sc_tbl (fst (GoAwayGraceful c sc)) = sc_tbl sc"
  "sc_objs (fst (GoAwayGraceful c sc)) = sc_objs sc"
  "sc_next (fst (GoAwayGraceful c sc)) = sc_next sc"
  "sc_connRecvWindow (fst (GoAwayGraceful c sc)) = sc_connRecvWindow sc"
  "sc_connRefundPending (fst (GoAwayGraceful c sc)) = sc_connRefundPending sc"
  "sc_parked (fst (GoAwayGraceful c sc)) = sc_parked sc"
  "sc_tokens (fst (GoAwayGraceful c sc)) = sc_tokens sc"
  "sc_peerConnSendWindow (fst (GoAwayGraceful c sc)) = sc_peerConnSendWindow sc"
  "sc_closed (fst (GoAwayGraceful c sc)) = sc_closed sc"
  "sc_readerDone (fst (GoAwayGraceful c sc)) = sc_readerDone sc"
  "sc_acceptCh (fst (GoAwayGraceful c sc)) = sc_acceptCh sc"
  "sc_rapidResetCount (fst (GoAwayGraceful c sc)) = sc_rapidResetCount sc"
  "sc_decSeen (fst (GoAwayGraceful c sc)) = sc_decSeen sc"
  "sc_encDone (fst (GoAwayGraceful c sc)) = sc_encDone sc"
  "sc_spawned (fst (GoAwayGraceful c sc)) = sc_spawned sc"
  "sc_panicked (fst (GoAwayGraceful c sc)) = sc_panicked sc"
  by (simp_all add: GoAwayGraceful_def Let_def case_prod_beta split: option.splits list.splits sum.splits sendResult.splits)

lemma GoAway_frame [simp]:
  "sc_opts (fst (GoAway c code sc)) = sc_opts sc"
  "sc_peerSettings (fst (GoAway c code sc)) = sc_peerSettings sc"
  "sc_tbl (fst (GoAway c code sc)) = sc_tbl sc"
  "sc_objs (fst (GoAway c code sc)) = sc_objs sc"
  "sc_next (fst (GoAway c code sc)) = sc_next sc"
  "sc_connRecvWindow (fst (GoAway c code sc)) = sc_connRecvWindow sc"
  "sc_connRefundPending (fst (GoAway c code sc)) = sc_connRefundPending sc"
  "sc_parked (fst (GoAway c code sc)) = sc_parked sc"
  "sc_tokens (fst (GoAway c code sc)) = sc_tokens sc"
  "sc_peerConnSendWindow (fst (GoAway c code sc)) = sc_peerConnSendWindow sc"
  "sc_closed (fst (GoAway c code sc)) = sc_closed sc"
  "sc_readerDone (fst (GoAway c code sc)) = sc_readerDone sc"
  "sc_acceptCh (fst (GoAway c code sc)) = sc_acceptCh sc"
  "sc_rapidResetCount (fst (GoAway c code sc)) = sc_rapidResetCount sc"
  "sc_decSeen (fst (GoAway c code sc)) = sc_decSeen sc"
  "sc_encDone (fst (GoAway c code sc)) = sc_encDone sc"
  "sc_spawned (fst (GoAway c code sc)) = sc_spawned sc"
  "sc_panicked (fst (GoAway c code sc)) = sc_panicked sc"
  by (simp_all add: GoAway_def Let_def case_prod_beta split: option.splits list.splits sum.splits sendResult.splits)

lemma sendGoAway_frame [simp]:
  "sc_opts (sendGoAway c code sc) = sc_opts sc"
  "sc_peerSettings (sendGoAway c code sc) = sc_peerSettings sc"
  "sc_tbl (sendGoAway c code sc) = sc_tbl sc"
  "sc_objs (sendGoAway c code sc) = sc_objs sc"
  "sc_next (sendGoAway c code sc) = sc_next sc"
  "sc_connRecvWindow (sendGoAway c code sc) = sc_connRecvWindow sc"
  "sc_connRefundPending (sendGoAway c code sc) = sc_connRefundPending sc"
  "sc_parked (sendGoAway c code sc) = sc_parked sc"
  "sc_tokens (sendGoAway c code sc) = sc_tokens sc"
  "sc_peerConnSendWindow (sendGoAway c code sc) = sc_peerConnSendWindow sc"
  "sc_closed (sendGoAway c code sc) = sc_closed sc"
  "sc_readerDone (sendGoAway c code sc) = sc_readerDone sc"
  "sc_acceptCh (sendGoAway c code sc) = sc_acceptCh sc"
  "sc_rapidResetCount (sendGoAway c code sc) = sc_rapidResetCount sc"
  "sc_decSeen (sendGoAway c code sc) = sc_decSeen sc"
  "sc_encDone (sendGoAway c code sc) = sc_encDone sc"
  "sc_spawned (sendGoAway c code sc) = sc_spawned sc"
  "sc_panicked (sendGoAway c code sc) = sc_panicked sc"
  by (simp_all add: sendGoAway_def Let_def case_prod_beta split: option.splits list.splits sum.splits sendResult.splits)

lemma transportClose_frame [simp]:
  "sc_opts (transportClose sc) = sc_opts sc"
  "sc_peerSettings (transportClose sc) = sc_peerSettings sc"
  "sc_tbl (transportClose sc) = sc_tbl sc"
  "sc_objs (transportClose sc) = sc_objs sc"
  "sc_next (transportClose sc) = sc_next sc"
  "sc_connRecvWindow (transportClose sc) = sc_connRecvWindow sc"
  "sc_connRefundPending (transportClose sc) = sc_connRefundPending sc"
  "sc_parked (transportClose sc) = sc_parked sc"
  "sc_tokens (transportClose sc) = sc_tokens sc"
  "sc_peerConnSendWindow (transportClose sc) = sc_peerConnSendWindow sc"
  "sc_closed (transportClose sc) = sc_closed sc"
  "sc_readerDone (transportClose sc) = sc_readerDone sc"
  "sc_acceptCh (transportClose sc) = sc_acceptCh sc"
  "sc_goAwayRequested (transportClose sc) = sc_goAwayRequested sc"
  "sc_goAwaySentID (transportClose sc) = sc_goAwaySentID sc"
  "sc_rapidResetCount (transportClose sc) = sc_rapidResetCount sc"
  "sc_wire (transportClose sc) = sc_wire sc"
  "sc_decSeen (transportClose sc) = sc_decSeen sc"
  "sc_encDone (transportClose sc) = sc_encDone sc"
  "sc_spawned (transportClose sc) = sc_spawned sc"
  "sc_panicked (transportClose sc) = sc_panicked sc"
  by (simp_all add: transportClose_def Let_def case_prod_beta split: option.splits list.splits sum.splits sendResult.splits)

lemma shutdownStream_frame [simp]:
  "sc_opts (shutdownStream s sc) = sc_opts sc"
  "sc_peerSettings (shutdownStream s sc) = sc_peerSettings sc"
  "sc_tbl (shutdownStream s sc) = sc_tbl sc"
  "sc_next (shutdownStream s sc) = sc_next sc"
  "sc_connRecvWindow (shutdownStream s sc) = sc_connRecvWindow sc"
  "sc_connRefundPending (shutdownStream s sc) = sc_connRefundPending sc"
  "sc_parked (shutdownStream s sc) = sc_parked sc"
  "sc_tokens (shutdownStream s sc) = sc_tokens sc"
  "sc_peerConnSendWindow (shutdownStream s sc) = sc_peerConnSendWindow sc"
  "sc_closed (shutdownStream s sc) = sc_closed sc"
  "sc_readerDone (shutdownStream s sc) = sc_readerDone sc"
  "sc_acceptCh (shutdownStream s sc) = sc_acceptCh sc"
  "sc_goAwayRequested (shutdownStream s sc) = sc_goAwayRequested sc"
  "sc_goAwaySentID (shutdownStream s sc) = sc_goAwaySentID sc"
  "sc_rapidResetCount (shutdownStream s sc) = sc_rapidResetCount sc"
  "sc_wire (shutdownStream s sc) = sc_wire sc"
  "sc_decSeen (shutdownStream s sc) = sc_decSeen sc"
  "sc_encDone (shutdownStream s sc) = sc_encDone sc"
  "sc_spawned (shutdownStream s sc) = sc_spawned sc"
  by (simp_all add: shutdownStream_def Let_def case_prod_beta split: option.splits list.splits sum.splits sendResult.splits)

lemma fold_shutdown_frame [simp]:
  "sc_opts (fold shutdownStream l sc) = sc_opts sc"
  "sc_peerSettings (fold shutdownStream l sc) = sc_peerSettings sc"
  "sc_tbl (fold shutdownStream l sc) = sc_tbl sc"
  "sc_next (fold shutdownStream l sc) = sc_next sc"
  "sc_connRecvWindow (fold shutdownStream l sc) = sc_connRecvWindow sc"
  "sc_connRefundPending (fold shutdownStream l sc) = sc_connRefundPending sc"
  "sc_parked (fold shutdownStream l sc) = sc_parked sc"
  "sc_tokens (fold shutdownStream l sc) = sc_tokens sc"
  "sc_peerConnSendWindow (fold shutdownStream l sc) = sc_peerConnSendWindow sc"
  "sc_closed (fold shutdownStream l sc) = sc_closed sc"
  "sc_readerDone (fold shutdownStream l sc) = sc_readerDone sc"
  "sc_acceptCh (fold shutdownStream l sc) = sc_acceptCh sc"
  "sc_goAwayRequested (fold shutdownStream l sc) = sc_goAwayRequested sc"
  "sc_goAwaySentID (fold shutdownStream l sc) = sc_goAwaySentID sc"
  "sc_rapidResetCount (fold shutdownStream l sc) = sc_rapidResetCount sc"
  "sc_wire (fold shutdownStream l sc) = sc_wire sc"
  "sc_decSeen (fold shutdownStream l sc) = sc_decSeen sc"
  "sc_encDone (fold shutdownStream l sc) = sc_encDone sc"
  "sc_spawned (fold shutdownStream l sc) = sc_spawned sc"
  by (induction l arbitrary: sc) simp_all

lemma shutdownStreams_frame [simp]:
  "sc_opts (shutdownStreams sc) = sc_opts sc"
  "sc_peerSettings (shutdownStreams sc) = sc_peerSettings sc"
  "sc_next (shutdownStreams sc) = sc_next sc"
  "sc_connRecvWindow (shutdownStreams sc) = sc_connRecvWindow sc"
  "sc_connRefundPending (shutdownStreams sc) = sc_connRefundPending sc"
  "sc_parked (shutdownStreams sc) = sc_parked sc"
  "sc_tokens (shutdownStreams sc) = sc_tokens sc"
  "sc_peerConnSendWindow (shutdownStreams sc) = sc_peerConnSendWindow sc"
  "sc_closed (shutdownStreams sc) = sc_closed sc"
  "sc_readerDone (shutdownStreams sc) = sc_readerDone sc"
  "sc_acceptCh (shutdownStreams sc) = sc_acceptCh sc"
  "sc_goAwayRequested (shutdownStreams sc) = sc_goAwayRequested sc"
  "sc_goAwaySentID (shutdownStreams sc) = sc_goAwaySentID sc"
  "sc_rapidResetCount (shutdownStreams sc) = sc_rapidResetCount sc"
  "sc_wire (shutdownStreams sc) = sc_wire sc"
  "sc_decSeen (shutdownStreams sc) = sc_decSeen sc"
  "sc_encDone (shutdownStreams sc) = sc_encDone sc"
  "sc_spawned (shutdownStreams sc) = sc_spawned sc"
  by (simp_all add: shutdownStreams_def Let_def case_prod_beta split: option.splits list.splits sum.splits sendResult.splits)

lemma ConnClose_frame [simp]:
  "sc_opts (ConnClose c sc) = sc_opts sc"
  "sc_peerSettings (ConnClose c sc) = sc_peerSettings sc"
  "sc_tbl (ConnClose c sc) = sc_tbl sc"
  "sc_objs (ConnClose c sc) = sc_objs sc"
  "sc_next (ConnClose c sc) = sc_next sc"
  "sc_connRecvWindow (ConnClose c sc) = sc_connRecvWindow sc"
  "sc_connRefundPending (ConnClose c sc) = sc_connRefundPending sc"
  "sc_peerConnSendWindow (ConnClose c sc) = sc_peerConnSendWindow sc"
  "sc_readerDone (ConnClose c sc) = sc_readerDone sc"
  "sc_acceptCh (ConnClose c sc) = sc_acceptCh sc"
  "sc_rapidResetCount (ConnClose c sc) = sc_rapidResetCount sc"
  "sc_decSeen (ConnClose c sc) = sc_decSeen sc"
  "sc_encDone (ConnClose c sc) = sc_encDone sc"
  "sc_spawned (ConnClose c sc) = sc_spawned sc"
  "sc_panicked (ConnClose c sc) = sc_panicked sc"
  by (simp_all add: ConnClose_def Let_def case_prod_beta split: option.splits list.splits sum.splits sendResult.splits)

lemma readerExit_frame [simp]:
  "sc_opts (readerExit code c sc) = sc_opts sc"
  "sc_peerSettings (readerExit code c sc) = sc_peerSettings sc"
  "sc_next (readerExit code c sc) = sc_next sc"
  "sc_connRecvWindow (readerExit code c sc) = sc_connRecvWindow sc"
  "sc_connRefundPending (readerExit code c sc) = sc_connRefundPending sc"
  "sc_parked (readerExit code c sc) = sc_parked sc"
  "sc_tokens (readerExit code c sc) = sc_tokens sc"
  "sc_peerConnSendWindow (readerExit code c sc) = sc_peerConnSendWindow sc"
  "sc_closed (readerExit code c sc) = sc_closed sc"
  "sc_acceptCh (readerExit code c sc) = sc_acceptCh sc"
  "sc_rapidResetCount (readerExit code c sc) = sc_rapidResetCount sc"
  "sc_decSeen (readerExit code c sc) = sc_decSeen sc"
  "sc_encDone (readerExit code c sc) = sc_encDone sc"
  "sc_spawned (readerExit code c sc) = sc_spawned sc"
  by (simp_all add: readerExit_def Let_def case_prod_beta split: option.splits list.splits sum.splits sendResult.splits)

lemma AcceptStream_frame [simp]:
  "sc_opts (fst (AcceptStream ctxErr sc)) = sc_opts sc"
  "sc_peerSettings (fst (AcceptStream ctxErr sc)) = sc_peerSettings sc"
  "sc_tbl (fst (AcceptStream ctxErr sc)) = sc_tbl sc"
  "sc_objs (fst (AcceptStream ctxErr sc)) = sc_objs sc"
  "sc_next (fst (AcceptStream ctxErr sc)) = sc_next sc"
  "sc_connRecvWindow (fst (AcceptStream ctxErr sc)) = sc_connRecvWindow sc"
  "sc_connRefundPending (fst (AcceptStream ctxErr sc)) = sc_connRefundPending sc"
  "sc_parked (fst (AcceptStream ctxErr sc)) = sc_parked sc"
  "sc_tokens (fst (AcceptStream ctxErr sc)) = sc_tokens sc"
  "sc_peerConnSendWindow (fst (AcceptStream ctxErr sc)) = sc_peerConnSendWindow sc"
  "sc_closed (fst (AcceptStream ctxErr sc)) = sc_closed sc"
  "sc_readerDone (fst (AcceptStream ctxErr sc)) = sc_readerDone sc"
  "sc_goAwayRequested (fst (AcceptStream ctxErr sc)) = sc_goAwayRequested sc"
  "sc_goAwaySentID (fst (AcceptStream ctxErr sc)) = sc_goAwaySentID sc"
  "sc_rapidResetCount (fst (AcceptStream ctxErr sc)) = sc_rapidResetCount sc"
  "sc_wire (fst (AcceptStream ctxErr sc)) = sc_wire sc"
  "sc_decSeen (fst (AcceptStream ctxErr sc)) = sc_decSeen sc"
  "sc_encDone (fst (AcceptStream ctxErr sc)) = sc_encDone sc"
  "sc_spawned (fst (AcceptStream ctxErr sc)) = sc_spawned sc"
  "sc_panicked (fst (AcceptStream ctxErr sc)) = sc_panicked sc"
  by (simp_all add: AcceptStream_def Let_def case_prod_beta split: option.splits list.splits sum.splits sendResult.splits)

lemma Ping_send_frame [simp]:
  "sc_opts (fst (Ping_send c sc)) = sc_opts sc"
  "sc_peerSettings (fst (Ping_send c sc)) = sc_peerSettings sc"
  "sc_tbl (fst (Ping_send c sc)) = sc_tbl sc"
  "sc_objs (fst (Ping_send c sc)) = sc_objs sc"
  "sc_next (fst (Ping_send c sc)) = sc_next sc"
  "sc_connRecvWindow (fst (Ping_send c sc)) = sc_connRecvWindow sc"
  "sc_connRefundPending (fst (Ping_send c sc)) = sc_connRefundPending sc"
  "sc_parked (fst (Ping_send c sc)) = sc_parked sc"
  "sc_tokens (fst (Ping_send c sc)) = sc_tokens sc"
  "sc_peerConnSendWindow (fst (Ping_send c sc)) = sc_peerConnSendWindow sc"
  "sc_closed (fst (Ping_send c sc)) = sc_closed sc"
  "sc_readerDone (fst (Ping_send c sc)) = sc_readerDone sc"
  "sc_acceptCh (fst (Ping_send c sc)) = sc_acceptCh sc"
  "sc_goAwayRequested (fst (Ping_send c sc)) = sc_goAwayRequested sc"
  "sc_goAwaySentID (fst (Ping_send c sc)) = sc_goAwaySentID sc"
  "sc_rapidResetCount (fst (Ping_send c sc)) = sc_rapidResetCount sc"
  "sc_decSeen (fst (Ping_send c sc)) = sc_decSeen sc"
  "sc_encDone (fst (Ping_send c sc)) = sc_encDone sc"
  "sc_spawned (fst (Ping_send c sc)) = sc_spawned sc"
  "sc_panicked (fst (Ping_send c sc)) = sc_panicked sc"
  by (simp_all add: Ping_send_def Let_def case_prod_beta split: option.splits list.splits sum.splits sendResult.splits)

lemma Ping_abandon_frame [simp]:
  "sc_opts (Ping_abandon payload sc) = sc_opts sc"
  "sc_peerSettings (Ping_abandon payload sc) = sc_peerSettings sc"
  "sc_tbl (Ping_abandon payload sc) = sc_tbl sc"
  "sc_objs (Ping_abandon payload sc) = sc_objs sc"
  "sc_next (Ping_abandon payload sc) = sc_next sc"
  "sc_connRecvWindow (Ping_abandon payload sc) = sc_connRecvWindow sc"
  "sc_connRefundPending (Ping_abandon payload sc) = sc_connRefundPending sc"
  "sc_parked (Ping_abandon payload sc) = sc_parked sc"
  "sc_tokens (Ping_abandon payload sc) = sc_tokens sc"
  "sc_peerConnSendWindow (Ping_abandon payload sc) = sc_peerConnSendWindow sc"
  "sc_closed (Ping_abandon payload sc) = sc_closed sc"
  "sc_readerDone (Ping_abandon payload sc) = sc_readerDone sc"
  "sc_acceptCh (Ping_abandon payload sc) = sc_acceptCh sc"
  "sc_goAwayRequested (Ping_abandon payload sc) = sc_goAwayRequested sc"
  "sc_goAwaySentID (Ping_abandon payload sc) = sc_goAwaySentID sc"
  "sc_rapidResetCount (Ping_abandon payload sc) = sc_rapidResetCount sc"
  "sc_wire (Ping_abandon payload sc) = sc_wire sc"
  "sc_decSeen (Ping_abandon payload sc) = sc_decSeen sc"
  "sc_encDone (Ping_abandon payload sc) = sc_encDone sc"
  "sc_spawned (Ping_abandon payload sc) = sc_spawned sc"
  "sc_panicked (Ping_abandon payload sc) = sc_panicked sc"
  by (simp_all add: Ping_abandon_def Let_def case_prod_beta split: option.splits list.splits sum.splits sendResult.splits)

text \<open>The credit granted is positive and within the request.\<close>

lemma acquire_ok:
  assumes "acquireSendCredits ctxErr s want sc = (sc1, AcqOk n)" and "0 < want" and "want \<le> maxWindow"
  shows "1 \<le> n \<and> n \<le> want"
proof -
  have "int32 want = want" using assms by (intro int32_id) (simp add: in_int32_def maxWindow_def)
  then show ?thesis using assms
    by (auto simp: acquireSendCredits_def takeSendCredits_def Let_def split: if_splits option.splits)
qed

text \<open>
  What every step of the chunk loop keeps, the loop keeps; the slice expression can only be out
  of range with a frame limit no configuration has.
\<close>

lemma writeServerDataChunks_invariant:
  assumes "P sc"
    and acq: "\<And>n sc. P sc \<Longrightarrow> n \<le> m \<Longrightarrow> P (fst (acquireSendCredits ctxErr s n sc))"
    and pan: "\<And>sc. P sc \<Longrightarrow> m < 1 \<or> maxWindow < m \<Longrightarrow> P (sc\<lparr>sc_panicked := True\<rparr>)"
    and rel: "\<And>n sc. P sc \<Longrightarrow> P (releaseSendCredits s n sc)"
    and wr: "\<And>d l sc. P sc \<Longrightarrow> authorizeSend (strm sc s) = None \<Longrightarrow>
               P (fst (writeCounted c (WData (ss_id (strm sc s)) d l) sc))"
  shows "P (fst (writeServerDataChunks c ctxErr s p m b sc))"
  using assms(1)
proof (induction "length p" arbitrary: p sc rule: less_induct)
  case less
  show ?case
  proof (cases "p = []")
    case True
    then show ?thesis using less.prems by (simp add: writeServerDataChunks.simps)
  next
    case False
    define want where "want = (if int (length p) > m then m else int (length p))"
    obtain sc1 r where r: "acquireSendCredits ctxErr s want sc = (sc1, r)" by (metis surj_pair)
    have want: "want \<le> m" "want \<le> int (length p)" "1 \<le> m \<Longrightarrow> 0 < want" using False by (auto simp: want_def)
    have P1: "P sc1" using acq [OF less.prems want(1)] r by simp
    show ?thesis
    proof (cases r)
      case (AcqOk n)
      obtain sc2 e where w: "writeCounted c (WData (ss_id (strm sc1 s)) (take (nat n) p) (b \<and> n = int (length p))) sc1
          = (sc2, e)" by (metis surj_pair)
      have n: "n < 1 \<or> int (length p) < n \<Longrightarrow> m < 1 \<or> maxWindow < m"
        using acquire_ok [of ctxErr s want sc sc1 n] r AcqOk want by fastforce
      have P2: "P sc2" if "authorizeSend (strm sc1 s) = None" using wr [OF P1 that] w by (metis fst_conv)
      show ?thesis using False r AcqOk w P1 pan [OF P1 n] rel [OF P1, of n] P2 less.hyps [of "drop (nat n) p" sc2]
        by (subst writeServerDataChunks.simps)
           (auto simp: want_def [symmetric] Let_def split: option.splits)
    qed (use False r P1 in \<open>simp_all add: writeServerDataChunks.simps [of _ _ _ p] want_def [symmetric] Let_def\<close>)
  qed
qed

lemma writeServerDataChunks_frame [simp]:
  "sc_opts (fst (writeServerDataChunks c ctxErr s p m b sc)) = sc_opts sc"
  "sc_peerSettings (fst (writeServerDataChunks c ctxErr s p m b sc)) = sc_peerSettings sc"
  "sc_tbl (fst (writeServerDataChunks c ctxErr s p m b sc)) = sc_tbl sc"
  "sc_next (fst (writeServerDataChunks c ctxErr s p m b sc)) = sc_next sc"
  "sc_connRecvWindow (fst (writeServerDataChunks c ctxErr s p m b sc)) = sc_connRecvWindow sc"
  "sc_connRefundPending (fst (writeServerDataChunks c ctxErr s p m b sc)) = sc_connRefundPending sc"
  "sc_closed (fst (writeServerDataChunks c ctxErr s p m b sc)) = sc_closed sc"
  "sc_readerDone (fst (writeServerDataChunks c ctxErr s p m b sc)) = sc_readerDone sc"
  "sc_acceptCh (fst (writeServerDataChunks c ctxErr s p m b sc)) = sc_acceptCh sc"
  "sc_goAwayRequested (fst (writeServerDataChunks c ctxErr s p m b sc)) = sc_goAwayRequested sc"
  "sc_goAwaySentID (fst (writeServerDataChunks c ctxErr s p m b sc)) = sc_goAwaySentID sc"
  "sc_rapidResetCount (fst (writeServerDataChunks c ctxErr s p m b sc)) = sc_rapidResetCount sc"
  "sc_decSeen (fst (writeServerDataChunks c ctxErr s p m b sc)) = sc_decSeen sc"
  "sc_encDone (fst (writeServerDataChunks c ctxErr s p m b sc)) = sc_encDone sc"
  "sc_spawned (fst (writeServerDataChunks c ctxErr s p m b sc)) = sc_spawned sc"
  by (rule writeServerDataChunks_invariant; simp)+

lemma writeServerData_frame [simp]:
  "sc_opts (fst (writeServerData c ctxErr s p b sc)) = sc_opts sc"
  "sc_peerSettings (fst (writeServerData c ctxErr s p b sc)) = sc_peerSettings sc"
  "sc_tbl (fst (writeServerData c ctxErr s p b sc)) = sc_tbl sc"
  "sc_next (fst (writeServerData c ctxErr s p b sc)) = sc_next sc"
  "sc_connRecvWindow (fst (writeServerData c ctxErr s p b sc)) = sc_connRecvWindow sc"
  "sc_connRefundPending (fst (writeServerData c ctxErr s p b sc)) = sc_connRefundPending sc"
  "sc_closed (fst (writeServerData c ctxErr s p b sc)) = sc_closed sc"
  "sc_readerDone (fst (writeServerData c ctxErr s p b sc)) = sc_readerDone sc"
  "sc_acceptCh (fst (writeServerData c ctxErr s p b sc)) = sc_acceptCh sc"
  "sc_goAwayRequested (fst (writeServerData c ctxErr s p b sc)) = sc_goAwayRequested sc"
  "sc_goAwaySentID (fst (writeServerData c ctxErr s p b sc)) = sc_goAwaySentID sc"
  "sc_rapidResetCount (fst (writeServerData c ctxErr s p b sc)) = sc_rapidResetCount sc"
  "sc_decSeen (fst (writeServerData c ctxErr s p b sc)) = sc_decSeen sc"
  "sc_encDone (fst (writeServerData c ctxErr s p b sc)) = sc_encDone sc"
  "sc_spawned (fst (writeServerData c ctxErr s p b sc)) = sc_spawned sc"
  by (simp_all add: writeServerData_def Let_def case_prod_beta split: option.splits list.splits sum.splits sendResult.splits)

lemma SendData_frame [simp]:
  "sc_opts (fst (SendData c ctxErr s p b sc)) = sc_opts sc"
  "sc_peerSettings (fst (SendData c ctxErr s p b sc)) = sc_peerSettings sc"
  "sc_next (fst (SendData c ctxErr s p b sc)) = sc_next sc"
  "sc_connRecvWindow (fst (SendData c ctxErr s p b sc)) = sc_connRecvWindow sc"
  "sc_connRefundPending (fst (SendData c ctxErr s p b sc)) = sc_connRefundPending sc"
  "sc_closed (fst (SendData c ctxErr s p b sc)) = sc_closed sc"
  "sc_readerDone (fst (SendData c ctxErr s p b sc)) = sc_readerDone sc"
  "sc_acceptCh (fst (SendData c ctxErr s p b sc)) = sc_acceptCh sc"
  "sc_goAwayRequested (fst (SendData c ctxErr s p b sc)) = sc_goAwayRequested sc"
  "sc_goAwaySentID (fst (SendData c ctxErr s p b sc)) = sc_goAwaySentID sc"
  "sc_rapidResetCount (fst (SendData c ctxErr s p b sc)) = sc_rapidResetCount sc"
  "sc_decSeen (fst (SendData c ctxErr s p b sc)) = sc_decSeen sc"
  "sc_encDone (fst (SendData c ctxErr s p b sc)) = sc_encDone sc"
  "sc_spawned (fst (SendData c ctxErr s p b sc)) = sc_spawned sc"
  by (simp_all add: SendData_def Let_def case_prod_beta split: option.splits list.splits sum.splits sendResult.splits)

lemma PushWithPriority_frame [simp]:
  "sc_opts (fst (PushWithPriority c s fs prio sc)) = sc_opts sc"
  "sc_peerSettings (fst (PushWithPriority c s fs prio sc)) = sc_peerSettings sc"
  "sc_connRecvWindow (fst (PushWithPriority c s fs prio sc)) = sc_connRecvWindow sc"
  "sc_connRefundPending (fst (PushWithPriority c s fs prio sc)) = sc_connRefundPending sc"
  "sc_parked (fst (PushWithPriority c s fs prio sc)) = sc_parked sc"
  "sc_tokens (fst (PushWithPriority c s fs prio sc)) = sc_tokens sc"
  "sc_peerConnSendWindow (fst (PushWithPriority c s fs prio sc)) = sc_peerConnSendWindow sc"
  "sc_closed (fst (PushWithPriority c s fs prio sc)) = sc_closed sc"
  "sc_readerDone (fst (PushWithPriority c s fs prio sc)) = sc_readerDone sc"
  "sc_acceptCh (fst (PushWithPriority c s fs prio sc)) = sc_acceptCh sc"
  "sc_goAwayRequested (fst (PushWithPriority c s fs prio sc)) = sc_goAwayRequested sc"
  "sc_goAwaySentID (fst (PushWithPriority c s fs prio sc)) = sc_goAwaySentID sc"
  "sc_rapidResetCount (fst (PushWithPriority c s fs prio sc)) = sc_rapidResetCount sc"
  "sc_decSeen (fst (PushWithPriority c s fs prio sc)) = sc_decSeen sc"
  "sc_spawned (fst (PushWithPriority c s fs prio sc)) = sc_spawned sc"
  "sc_panicked (fst (PushWithPriority c s fs prio sc)) = sc_panicked sc"
  by (simp_all add: PushWithPriority_def Let_def case_prod_beta split: option.splits list.splits sum.splits sendResult.splits)

text \<open>The fields of the streams themselves.\<close>

lemma strm_upds: "strm (upds s f sc) x = (if x = s then f (strm sc s) else strm sc x)"
  by (simp add: upds_def)

lemma markStreamDone_obj [simp]:
  "ss_id (strm (markStreamDone sid sc) x) = ss_id (strm sc x)"
  "ss_events (strm (markStreamDone sid sc) x) = ss_events (strm sc x)"
  "ss_eventCap (strm (markStreamDone sid sc) x) = ss_eventCap (strm sc x)"
  "ss_evClosed (strm (markStreamDone sid sc) x) = ss_evClosed (strm sc x)"
  "ss_ctxBound (strm (markStreamDone sid sc) x) = ss_ctxBound (strm sc x)"
  "ss_st (strm (markStreamDone sid sc) x) = ss_st (strm sc x)"
  "ss_priority (strm (markStreamDone sid sc) x) = ss_priority (strm sc x)"
  "ss_recvWindow (strm (markStreamDone sid sc) x) = ss_recvWindow (strm sc x)"
  "ss_recvRefundPending (strm (markStreamDone sid sc) x) = ss_recvRefundPending (strm sc x)"
  "ss_sendWindow (strm (markStreamDone sid sc) x) = ss_sendWindow (strm sc x)"
  by (simp_all add: markStreamDone_def strm_upds Let_def case_prod_beta split: option.splits list.splits sum.splits)

lemma writeServerRSTStream_obj [simp]:
  "ss_id (strm (fst (writeServerRSTStream c s code sc)) x) = ss_id (strm sc x)"
  "ss_events (strm (fst (writeServerRSTStream c s code sc)) x) = ss_events (strm sc x)"
  "ss_eventCap (strm (fst (writeServerRSTStream c s code sc)) x) = ss_eventCap (strm sc x)"
  "ss_evClosed (strm (fst (writeServerRSTStream c s code sc)) x) = ss_evClosed (strm sc x)"
  "ss_ctxBound (strm (fst (writeServerRSTStream c s code sc)) x) = ss_ctxBound (strm sc x)"
  "ss_priority (strm (fst (writeServerRSTStream c s code sc)) x) = ss_priority (strm sc x)"
  "ss_recvWindow (strm (fst (writeServerRSTStream c s code sc)) x) = ss_recvWindow (strm sc x)"
  "ss_recvRefundPending (strm (fst (writeServerRSTStream c s code sc)) x) = ss_recvRefundPending (strm sc x)"
  "ss_sendWindow (strm (fst (writeServerRSTStream c s code sc)) x) = ss_sendWindow (strm sc x)"
  by (simp_all add: writeServerRSTStream_def strm_upds Let_def case_prod_beta split: option.splits list.splits sum.splits)

lemma writeRSTStreamID_obj [simp]:
  "ss_id (strm (fst (writeRSTStreamID c sid code sc)) x) = ss_id (strm sc x)"
  "ss_events (strm (fst (writeRSTStreamID c sid code sc)) x) = ss_events (strm sc x)"
  "ss_eventCap (strm (fst (writeRSTStreamID c sid code sc)) x) = ss_eventCap (strm sc x)"
  "ss_evClosed (strm (fst (writeRSTStreamID c sid code sc)) x) = ss_evClosed (strm sc x)"
  "ss_ctxBound (strm (fst (writeRSTStreamID c sid code sc)) x) = ss_ctxBound (strm sc x)"
  "ss_priority (strm (fst (writeRSTStreamID c sid code sc)) x) = ss_priority (strm sc x)"
  "ss_recvWindow (strm (fst (writeRSTStreamID c sid code sc)) x) = ss_recvWindow (strm sc x)"
  "ss_recvRefundPending (strm (fst (writeRSTStreamID c sid code sc)) x) = ss_recvRefundPending (strm sc x)"
  "ss_sendWindow (strm (fst (writeRSTStreamID c sid code sc)) x) = ss_sendWindow (strm sc x)"
  by (simp_all add: writeRSTStreamID_def strm_upds Let_def case_prod_beta split: option.splits list.splits sum.splits)

lemma push_obj [simp]:
  "ss_id (strm (push s e sc) x) = ss_id (strm sc x)"
  "ss_eventCap (strm (push s e sc) x) = ss_eventCap (strm sc x)"
  "ss_evClosed (strm (push s e sc) x) = ss_evClosed (strm sc x)"
  "ss_ctxBound (strm (push s e sc) x) = ss_ctxBound (strm sc x)"
  "ss_cancelled (strm (push s e sc) x) = ss_cancelled (strm sc x)"
  "ss_priority (strm (push s e sc) x) = ss_priority (strm sc x)"
  "ss_recvWindow (strm (push s e sc) x) = ss_recvWindow (strm sc x)"
  "ss_recvRefundPending (strm (push s e sc) x) = ss_recvRefundPending (strm sc x)"
  "ss_sendWindow (strm (push s e sc) x) = ss_sendWindow (strm sc x)"
  by (simp_all add: push_def strm_upds chanSend_def Let_def case_prod_beta split: option.splits list.splits sum.splits)

lemma runSpawned_obj [simp]:
  "ss_id (strm (runSpawned c sc) x) = ss_id (strm sc x)"
  "ss_events (strm (runSpawned c sc) x) = ss_events (strm sc x)"
  "ss_eventCap (strm (runSpawned c sc) x) = ss_eventCap (strm sc x)"
  "ss_evClosed (strm (runSpawned c sc) x) = ss_evClosed (strm sc x)"
  "ss_ctxBound (strm (runSpawned c sc) x) = ss_ctxBound (strm sc x)"
  "ss_priority (strm (runSpawned c sc) x) = ss_priority (strm sc x)"
  "ss_recvWindow (strm (runSpawned c sc) x) = ss_recvWindow (strm sc x)"
  "ss_recvRefundPending (strm (runSpawned c sc) x) = ss_recvRefundPending (strm sc x)"
  "ss_sendWindow (strm (runSpawned c sc) x) = ss_sendWindow (strm sc x)"
  by (simp_all add: runSpawned_def strm_upds Let_def case_prod_beta split: option.splits list.splits sum.splits)

lemma registerStream_obj [simp]:
  "ss_id (strm (fst (registerStream c sid s sc)) x) = ss_id (strm sc x)"
  "ss_events (strm (fst (registerStream c sid s sc)) x) = ss_events (strm sc x)"
  "ss_eventCap (strm (fst (registerStream c sid s sc)) x) = ss_eventCap (strm sc x)"
  "ss_evClosed (strm (fst (registerStream c sid s sc)) x) = ss_evClosed (strm sc x)"
  "ss_priority (strm (fst (registerStream c sid s sc)) x) = ss_priority (strm sc x)"
  "ss_recvWindow (strm (fst (registerStream c sid s sc)) x) = ss_recvWindow (strm sc x)"
  "ss_recvRefundPending (strm (fst (registerStream c sid s sc)) x) = ss_recvRefundPending (strm sc x)"
  by (simp_all add: registerStream_def strm_upds tbl_admitClient_def Let_def case_prod_beta split: option.splits list.splits sum.splits)

lemma adjust_walk_field:
  assumes "\<And>ss. g (fst (adj ss d)) = g ss"
  shows "g (fst (adjust_walk adj d l h e) x) = g (h x)"
proof (induction l arbitrary: h e)
  case (Cons p l)
  then show ?case using assms by (cases p) (simp add: case_prod_beta Let_def)
qed simp

lemma adjust_walk_obj [simp]:
  "ss_id (fst (adjust_walk adjustSendWindow d l h e) x) = ss_id (h x)"
  "ss_events (fst (adjust_walk adjustSendWindow d l h e) x) = ss_events (h x)"
  "ss_eventCap (fst (adjust_walk adjustSendWindow d l h e) x) = ss_eventCap (h x)"
  "ss_evClosed (fst (adjust_walk adjustSendWindow d l h e) x) = ss_evClosed (h x)"
  "ss_ctxBound (fst (adjust_walk adjustSendWindow d l h e) x) = ss_ctxBound (h x)"
  "ss_cancelled (fst (adjust_walk adjustSendWindow d l h e) x) = ss_cancelled (h x)"
  "ss_st (fst (adjust_walk adjustSendWindow d l h e) x) = ss_st (h x)"
  "ss_priority (fst (adjust_walk adjustSendWindow d l h e) x) = ss_priority (h x)"
  "ss_recvWindow (fst (adjust_walk adjustSendWindow d l h e) x) = ss_recvWindow (h x)"
  "ss_recvRefundPending (fst (adjust_walk adjustSendWindow d l h e) x) = ss_recvRefundPending (h x)"
  by (rule adjust_walk_field, simp add: adjustSendWindow_def Let_def)+

lemma applyPeerSettings_obj [simp]:
  "ss_id (strm (fst (applyPeerSettings ps sc)) x) = ss_id (strm sc x)"
  "ss_events (strm (fst (applyPeerSettings ps sc)) x) = ss_events (strm sc x)"
  "ss_eventCap (strm (fst (applyPeerSettings ps sc)) x) = ss_eventCap (strm sc x)"
  "ss_evClosed (strm (fst (applyPeerSettings ps sc)) x) = ss_evClosed (strm sc x)"
  "ss_ctxBound (strm (fst (applyPeerSettings ps sc)) x) = ss_ctxBound (strm sc x)"
  "ss_cancelled (strm (fst (applyPeerSettings ps sc)) x) = ss_cancelled (strm sc x)"
  "ss_st (strm (fst (applyPeerSettings ps sc)) x) = ss_st (strm sc x)"
  "ss_priority (strm (fst (applyPeerSettings ps sc)) x) = ss_priority (strm sc x)"
  "ss_recvWindow (strm (fst (applyPeerSettings ps sc)) x) = ss_recvWindow (strm sc x)"
  "ss_recvRefundPending (strm (fst (applyPeerSettings ps sc)) x) = ss_recvRefundPending (strm sc x)"
  by (simp_all add: applyPeerSettings_def strm_upds tbl_applyInitialWindow_def Let_def case_prod_beta split: option.splits list.splits sum.splits)

lemma onWindowUpdate_obj [simp]:
  "ss_id (strm (fst (onWindowUpdate c sid n sc)) x) = ss_id (strm sc x)"
  "ss_eventCap (strm (fst (onWindowUpdate c sid n sc)) x) = ss_eventCap (strm sc x)"
  "ss_evClosed (strm (fst (onWindowUpdate c sid n sc)) x) = ss_evClosed (strm sc x)"
  "ss_ctxBound (strm (fst (onWindowUpdate c sid n sc)) x) = ss_ctxBound (strm sc x)"
  "ss_priority (strm (fst (onWindowUpdate c sid n sc)) x) = ss_priority (strm sc x)"
  "ss_recvWindow (strm (fst (onWindowUpdate c sid n sc)) x) = ss_recvWindow (strm sc x)"
  "ss_recvRefundPending (strm (fst (onWindowUpdate c sid n sc)) x) = ss_recvRefundPending (strm sc x)"
  by (simp_all add: onWindowUpdate_def strm_upds Let_def case_prod_beta split: option.splits list.splits sum.splits)

lemma onDataReceived_obj [simp]:
  "ss_id (strm (fst (onDataReceived c so n sc)) x) = ss_id (strm sc x)"
  "ss_events (strm (fst (onDataReceived c so n sc)) x) = ss_events (strm sc x)"
  "ss_eventCap (strm (fst (onDataReceived c so n sc)) x) = ss_eventCap (strm sc x)"
  "ss_evClosed (strm (fst (onDataReceived c so n sc)) x) = ss_evClosed (strm sc x)"
  "ss_ctxBound (strm (fst (onDataReceived c so n sc)) x) = ss_ctxBound (strm sc x)"
  "ss_cancelled (strm (fst (onDataReceived c so n sc)) x) = ss_cancelled (strm sc x)"
  "ss_st (strm (fst (onDataReceived c so n sc)) x) = ss_st (strm sc x)"
  "ss_priority (strm (fst (onDataReceived c so n sc)) x) = ss_priority (strm sc x)"
  "ss_recvRefundPending (strm (fst (onDataReceived c so n sc)) x) = ss_recvRefundPending (strm sc x)"
  "ss_sendWindow (strm (fst (onDataReceived c so n sc)) x) = ss_sendWindow (strm sc x)"
  by (simp_all add: onDataReceived_def strm_upds Let_def case_prod_beta split: option.splits list.splits sum.splits)

lemma endLocal_obj [simp]:
  "ss_id (strm (endLocal s sc) x) = ss_id (strm sc x)"
  "ss_events (strm (endLocal s sc) x) = ss_events (strm sc x)"
  "ss_eventCap (strm (endLocal s sc) x) = ss_eventCap (strm sc x)"
  "ss_evClosed (strm (endLocal s sc) x) = ss_evClosed (strm sc x)"
  "ss_ctxBound (strm (endLocal s sc) x) = ss_ctxBound (strm sc x)"
  "ss_priority (strm (endLocal s sc) x) = ss_priority (strm sc x)"
  "ss_recvWindow (strm (endLocal s sc) x) = ss_recvWindow (strm sc x)"
  "ss_recvRefundPending (strm (endLocal s sc) x) = ss_recvRefundPending (strm sc x)"
  "ss_sendWindow (strm (endLocal s sc) x) = ss_sendWindow (strm sc x)"
  by (simp_all add: endLocal_def strm_upds markLocalEnd_def Let_def case_prod_beta split: option.splits list.splits sum.splits)

lemma SendHeadersWithPriority_obj [simp]:
  "ss_id (strm (fst (SendHeadersWithPriority c s fs b prio sc)) x) = ss_id (strm sc x)"
  "ss_events (strm (fst (SendHeadersWithPriority c s fs b prio sc)) x) = ss_events (strm sc x)"
  "ss_eventCap (strm (fst (SendHeadersWithPriority c s fs b prio sc)) x) = ss_eventCap (strm sc x)"
  "ss_evClosed (strm (fst (SendHeadersWithPriority c s fs b prio sc)) x) = ss_evClosed (strm sc x)"
  "ss_ctxBound (strm (fst (SendHeadersWithPriority c s fs b prio sc)) x) = ss_ctxBound (strm sc x)"
  "ss_priority (strm (fst (SendHeadersWithPriority c s fs b prio sc)) x) = ss_priority (strm sc x)"
  "ss_recvWindow (strm (fst (SendHeadersWithPriority c s fs b prio sc)) x) = ss_recvWindow (strm sc x)"
  "ss_recvRefundPending (strm (fst (SendHeadersWithPriority c s fs b prio sc)) x) = ss_recvRefundPending (strm sc x)"
  "ss_sendWindow (strm (fst (SendHeadersWithPriority c s fs b prio sc)) x) = ss_sendWindow (strm sc x)"
  by (simp_all add: SendHeadersWithPriority_def strm_upds Let_def case_prod_beta split: option.splits list.splits sum.splits)

lemma SendHeaders_obj [simp]:
  "ss_id (strm (fst (SendHeaders c s fs b sc)) x) = ss_id (strm sc x)"
  "ss_events (strm (fst (SendHeaders c s fs b sc)) x) = ss_events (strm sc x)"
  "ss_eventCap (strm (fst (SendHeaders c s fs b sc)) x) = ss_eventCap (strm sc x)"
  "ss_evClosed (strm (fst (SendHeaders c s fs b sc)) x) = ss_evClosed (strm sc x)"
  "ss_ctxBound (strm (fst (SendHeaders c s fs b sc)) x) = ss_ctxBound (strm sc x)"
  "ss_priority (strm (fst (SendHeaders c s fs b sc)) x) = ss_priority (strm sc x)"
  "ss_recvWindow (strm (fst (SendHeaders c s fs b sc)) x) = ss_recvWindow (strm sc x)"
  "ss_recvRefundPending (strm (fst (SendHeaders c s fs b sc)) x) = ss_recvRefundPending (strm sc x)"
  "ss_sendWindow (strm (fst (SendHeaders c s fs b sc)) x) = ss_sendWindow (strm sc x)"
  by (simp_all add: SendHeaders_def strm_upds Let_def case_prod_beta split: option.splits list.splits sum.splits)

lemma takeSendCredits_obj [simp]:
  "ss_id (strm (fst (takeSendCredits s n sc)) x) = ss_id (strm sc x)"
  "ss_events (strm (fst (takeSendCredits s n sc)) x) = ss_events (strm sc x)"
  "ss_eventCap (strm (fst (takeSendCredits s n sc)) x) = ss_eventCap (strm sc x)"
  "ss_evClosed (strm (fst (takeSendCredits s n sc)) x) = ss_evClosed (strm sc x)"
  "ss_ctxBound (strm (fst (takeSendCredits s n sc)) x) = ss_ctxBound (strm sc x)"
  "ss_cancelled (strm (fst (takeSendCredits s n sc)) x) = ss_cancelled (strm sc x)"
  "ss_st (strm (fst (takeSendCredits s n sc)) x) = ss_st (strm sc x)"
  "ss_priority (strm (fst (takeSendCredits s n sc)) x) = ss_priority (strm sc x)"
  "ss_recvWindow (strm (fst (takeSendCredits s n sc)) x) = ss_recvWindow (strm sc x)"
  "ss_recvRefundPending (strm (fst (takeSendCredits s n sc)) x) = ss_recvRefundPending (strm sc x)"
  by (simp_all add: takeSendCredits_def strm_upds Let_def case_prod_beta split: option.splits list.splits sum.splits)

lemma acquireSendCredits_obj [simp]:
  "ss_id (strm (fst (acquireSendCredits ctxErr s n sc)) x) = ss_id (strm sc x)"
  "ss_events (strm (fst (acquireSendCredits ctxErr s n sc)) x) = ss_events (strm sc x)"
  "ss_eventCap (strm (fst (acquireSendCredits ctxErr s n sc)) x) = ss_eventCap (strm sc x)"
  "ss_evClosed (strm (fst (acquireSendCredits ctxErr s n sc)) x) = ss_evClosed (strm sc x)"
  "ss_ctxBound (strm (fst (acquireSendCredits ctxErr s n sc)) x) = ss_ctxBound (strm sc x)"
  "ss_cancelled (strm (fst (acquireSendCredits ctxErr s n sc)) x) = ss_cancelled (strm sc x)"
  "ss_st (strm (fst (acquireSendCredits ctxErr s n sc)) x) = ss_st (strm sc x)"
  "ss_priority (strm (fst (acquireSendCredits ctxErr s n sc)) x) = ss_priority (strm sc x)"
  "ss_recvWindow (strm (fst (acquireSendCredits ctxErr s n sc)) x) = ss_recvWindow (strm sc x)"
  "ss_recvRefundPending (strm (fst (acquireSendCredits ctxErr s n sc)) x) = ss_recvRefundPending (strm sc x)"
  by (simp_all add: acquireSendCredits_def strm_upds Let_def case_prod_beta split: option.splits list.splits sum.splits)

lemma releaseSendCredits_obj [simp]:
  "ss_id (strm (releaseSendCredits s n sc) x) = ss_id (strm sc x)"
  "ss_events (strm (releaseSendCredits s n sc) x) = ss_events (strm sc x)"
  "ss_eventCap (strm (releaseSendCredits s n sc) x) = ss_eventCap (strm sc x)"
  "ss_evClosed (strm (releaseSendCredits s n sc) x) = ss_evClosed (strm sc x)"
  "ss_ctxBound (strm (releaseSendCredits s n sc) x) = ss_ctxBound (strm sc x)"
  "ss_cancelled (strm (releaseSendCredits s n sc) x) = ss_cancelled (strm sc x)"
  "ss_st (strm (releaseSendCredits s n sc) x) = ss_st (strm sc x)"
  "ss_priority (strm (releaseSendCredits s n sc) x) = ss_priority (strm sc x)"
  "ss_recvWindow (strm (releaseSendCredits s n sc) x) = ss_recvWindow (strm sc x)"
  "ss_recvRefundPending (strm (releaseSendCredits s n sc) x) = ss_recvRefundPending (strm sc x)"
  by (simp_all add: releaseSendCredits_def strm_upds Let_def case_prod_beta split: option.splits list.splits sum.splits)

lemma creditConsumed_obj [simp]:
  "ss_id (strm (creditConsumed c s e sc) x) = ss_id (strm sc x)"
  "ss_events (strm (creditConsumed c s e sc) x) = ss_events (strm sc x)"
  "ss_eventCap (strm (creditConsumed c s e sc) x) = ss_eventCap (strm sc x)"
  "ss_evClosed (strm (creditConsumed c s e sc) x) = ss_evClosed (strm sc x)"
  "ss_ctxBound (strm (creditConsumed c s e sc) x) = ss_ctxBound (strm sc x)"
  "ss_cancelled (strm (creditConsumed c s e sc) x) = ss_cancelled (strm sc x)"
  "ss_st (strm (creditConsumed c s e sc) x) = ss_st (strm sc x)"
  "ss_priority (strm (creditConsumed c s e sc) x) = ss_priority (strm sc x)"
  "ss_sendWindow (strm (creditConsumed c s e sc) x) = ss_sendWindow (strm sc x)"
  by (simp_all add: creditConsumed_def strm_upds Let_def case_prod_beta split: option.splits list.splits sum.splits)

lemma Recv_obj [simp]:
  "ss_id (strm (fst (Recv c ctxErr s sc)) x) = ss_id (strm sc x)"
  "ss_eventCap (strm (fst (Recv c ctxErr s sc)) x) = ss_eventCap (strm sc x)"
  "ss_evClosed (strm (fst (Recv c ctxErr s sc)) x) = ss_evClosed (strm sc x)"
  "ss_ctxBound (strm (fst (Recv c ctxErr s sc)) x) = ss_ctxBound (strm sc x)"
  "ss_cancelled (strm (fst (Recv c ctxErr s sc)) x) = ss_cancelled (strm sc x)"
  "ss_st (strm (fst (Recv c ctxErr s sc)) x) = ss_st (strm sc x)"
  "ss_priority (strm (fst (Recv c ctxErr s sc)) x) = ss_priority (strm sc x)"
  "ss_sendWindow (strm (fst (Recv c ctxErr s sc)) x) = ss_sendWindow (strm sc x)"
  by (simp_all add: Recv_def strm_upds Let_def case_prod_beta split: option.splits list.splits sum.splits)

lemma StreamClose_obj [simp]:
  "ss_id (strm (fst (StreamClose c s sc)) x) = ss_id (strm sc x)"
  "ss_events (strm (fst (StreamClose c s sc)) x) = ss_events (strm sc x)"
  "ss_eventCap (strm (fst (StreamClose c s sc)) x) = ss_eventCap (strm sc x)"
  "ss_evClosed (strm (fst (StreamClose c s sc)) x) = ss_evClosed (strm sc x)"
  "ss_ctxBound (strm (fst (StreamClose c s sc)) x) = ss_ctxBound (strm sc x)"
  "ss_priority (strm (fst (StreamClose c s sc)) x) = ss_priority (strm sc x)"
  "ss_recvWindow (strm (fst (StreamClose c s sc)) x) = ss_recvWindow (strm sc x)"
  "ss_recvRefundPending (strm (fst (StreamClose c s sc)) x) = ss_recvRefundPending (strm sc x)"
  "ss_sendWindow (strm (fst (StreamClose c s sc)) x) = ss_sendWindow (strm sc x)"
  by (simp_all add: StreamClose_def strm_upds Let_def case_prod_beta split: option.splits list.splits sum.splits)

lemma respondFieldsTooLarge_obj [simp]:
  "ss_id (strm (respondFieldsTooLarge c so sc) x) = ss_id (strm sc x)"
  "ss_events (strm (respondFieldsTooLarge c so sc) x) = ss_events (strm sc x)"
  "ss_eventCap (strm (respondFieldsTooLarge c so sc) x) = ss_eventCap (strm sc x)"
  "ss_evClosed (strm (respondFieldsTooLarge c so sc) x) = ss_evClosed (strm sc x)"
  "ss_ctxBound (strm (respondFieldsTooLarge c so sc) x) = ss_ctxBound (strm sc x)"
  "ss_priority (strm (respondFieldsTooLarge c so sc) x) = ss_priority (strm sc x)"
  "ss_recvWindow (strm (respondFieldsTooLarge c so sc) x) = ss_recvWindow (strm sc x)"
  "ss_recvRefundPending (strm (respondFieldsTooLarge c so sc) x) = ss_recvRefundPending (strm sc x)"
  "ss_sendWindow (strm (respondFieldsTooLarge c so sc) x) = ss_sendWindow (strm sc x)"
  by (simp_all add: respondFieldsTooLarge_def strm_upds Let_def case_prod_beta split: option.splits list.splits sum.splits)

lemma deliverEvent_obj [simp]:
  "ss_id (strm (deliverEvent s sid b e sc) x) = ss_id (strm sc x)"
  "ss_eventCap (strm (deliverEvent s sid b e sc) x) = ss_eventCap (strm sc x)"
  "ss_evClosed (strm (deliverEvent s sid b e sc) x) = ss_evClosed (strm sc x)"
  "ss_ctxBound (strm (deliverEvent s sid b e sc) x) = ss_ctxBound (strm sc x)"
  "ss_priority (strm (deliverEvent s sid b e sc) x) = ss_priority (strm sc x)"
  "ss_recvWindow (strm (deliverEvent s sid b e sc) x) = ss_recvWindow (strm sc x)"
  "ss_recvRefundPending (strm (deliverEvent s sid b e sc) x) = ss_recvRefundPending (strm sc x)"
  "ss_sendWindow (strm (deliverEvent s sid b e sc) x) = ss_sendWindow (strm sc x)"
  by (simp_all add: deliverEvent_def strm_upds markRemoteEnd_def Let_def case_prod_beta split: option.splits list.splits sum.splits)

lemma emitHeaderBlock_obj [simp]:
  "ss_id (strm (snd (fst (emitHeaderBlock c s hb b b2 (h, sc)))) x) = ss_id (strm sc x)"
  "ss_eventCap (strm (snd (fst (emitHeaderBlock c s hb b b2 (h, sc)))) x) = ss_eventCap (strm sc x)"
  "ss_evClosed (strm (snd (fst (emitHeaderBlock c s hb b b2 (h, sc)))) x) = ss_evClosed (strm sc x)"
  "ss_ctxBound (strm (snd (fst (emitHeaderBlock c s hb b b2 (h, sc)))) x) = ss_ctxBound (strm sc x)"
  "ss_priority (strm (snd (fst (emitHeaderBlock c s hb b b2 (h, sc)))) x) = ss_priority (strm sc x)"
  "ss_recvWindow (strm (snd (fst (emitHeaderBlock c s hb b b2 (h, sc)))) x) = ss_recvWindow (strm sc x)"
  "ss_recvRefundPending (strm (snd (fst (emitHeaderBlock c s hb b b2 (h, sc)))) x) = ss_recvRefundPending (strm sc x)"
  "ss_sendWindow (strm (snd (fst (emitHeaderBlock c s hb b b2 (h, sc)))) x) = ss_sendWindow (strm sc x)"
  by (simp_all add: emitHeaderBlock_def strm_upds decodeBlock_def Let_def case_prod_beta split: option.splits list.splits sum.splits)

text \<open>Only a promise consumes a push identifier.\<close>

lemma tbl_push_frame [simp]:
  "nextPush (fst (tbl_admitClient w t h sid s limit)) = nextPush t"
  "nextPush (fst (tbl_drain t)) = nextPush t"
  by (simp_all add: tbl_admitClient_def tbl_drain_def Let_def)

lemma markStreamDone_push [simp]: "nextPush (sc_tbl (markStreamDone sid sc)) = nextPush (sc_tbl sc)"
  by (simp add: markStreamDone_def Let_def case_prod_beta split: option.splits list.splits sum.splits sendResult.splits prod.splits)

lemma writeServerRSTStream_push [simp]: "nextPush (sc_tbl (fst (writeServerRSTStream c s code sc))) = nextPush (sc_tbl sc)"
  by (simp add: writeServerRSTStream_def Let_def case_prod_beta split: option.splits list.splits sum.splits sendResult.splits prod.splits)

lemma writeRSTStreamID_push [simp]: "nextPush (sc_tbl (fst (writeRSTStreamID c sid code sc))) = nextPush (sc_tbl sc)"
  by (simp add: writeRSTStreamID_def Let_def case_prod_beta split: option.splits list.splits sum.splits sendResult.splits prod.splits)

lemma runSpawned_push [simp]: "nextPush (sc_tbl (runSpawned c sc)) = nextPush (sc_tbl sc)"
  by (simp add: runSpawned_def Let_def case_prod_beta split: option.splits list.splits sum.splits sendResult.splits prod.splits)

lemma registerStream_push [simp]: "nextPush (sc_tbl (fst (registerStream c sid s sc))) = nextPush (sc_tbl sc)"
  by (simp add: registerStream_def Let_def case_prod_beta split: option.splits list.splits sum.splits sendResult.splits prod.splits)

lemma onWindowUpdate_push [simp]: "nextPush (sc_tbl (fst (onWindowUpdate c sid n sc))) = nextPush (sc_tbl sc)"
  by (simp add: onWindowUpdate_def Let_def case_prod_beta split: option.splits list.splits sum.splits sendResult.splits prod.splits)

lemma endLocal_push [simp]: "nextPush (sc_tbl (endLocal s sc)) = nextPush (sc_tbl sc)"
  by (simp add: endLocal_def Let_def case_prod_beta split: option.splits list.splits sum.splits sendResult.splits prod.splits)

lemma SendHeadersWithPriority_push [simp]: "nextPush (sc_tbl (fst (SendHeadersWithPriority c s fs b prio sc))) = nextPush (sc_tbl sc)"
  by (simp add: SendHeadersWithPriority_def Let_def case_prod_beta split: option.splits list.splits sum.splits sendResult.splits prod.splits)

lemma SendHeaders_push [simp]: "nextPush (sc_tbl (fst (SendHeaders c s fs b sc))) = nextPush (sc_tbl sc)"
  by (simp add: SendHeaders_def Let_def case_prod_beta split: option.splits list.splits sum.splits sendResult.splits prod.splits)

lemma StreamClose_push [simp]: "nextPush (sc_tbl (fst (StreamClose c s sc))) = nextPush (sc_tbl sc)"
  by (simp add: StreamClose_def Let_def case_prod_beta split: option.splits list.splits sum.splits sendResult.splits prod.splits)

lemma respondFieldsTooLarge_push [simp]: "nextPush (sc_tbl (respondFieldsTooLarge c so sc)) = nextPush (sc_tbl sc)"
  by (simp add: respondFieldsTooLarge_def Let_def case_prod_beta split: option.splits list.splits sum.splits sendResult.splits prod.splits)

lemma deliverEvent_push [simp]: "nextPush (sc_tbl (deliverEvent s sid b e sc)) = nextPush (sc_tbl sc)"
  by (simp add: deliverEvent_def Let_def case_prod_beta split: option.splits list.splits sum.splits sendResult.splits prod.splits)

lemma emitHeaderBlock_push [simp]: "nextPush (sc_tbl (snd (fst (emitHeaderBlock c s hb b b2 (h, sc))))) = nextPush (sc_tbl sc)"
  by (simp add: emitHeaderBlock_def decodeBlock_def Let_def case_prod_beta split: option.splits list.splits sum.splits sendResult.splits prod.splits)

lemma OnData_push [simp]: "nextPush (sc_tbl (snd (fst (OnData c fh p (h, sc))))) = nextPush (sc_tbl sc)"
  by (simp add: OnData_def Let_def case_prod_beta split: option.splits list.splits sum.splits sendResult.splits prod.splits)

lemma headersBlock_push [simp]: "nextPush (sc_tbl (snd (fst (headersBlock c fh hb s b b2 (h, sc))))) = nextPush (sc_tbl sc)"
  by (simp add: headersBlock_def Let_def case_prod_beta split: option.splits list.splits sum.splits sendResult.splits prod.splits)

lemma OnHeaders_push [simp]: "nextPush (sc_tbl (snd (fst (OnHeaders c fh hb prio (h, sc))))) = nextPush (sc_tbl sc)"
  by (simp add: OnHeaders_def openStream_def allocStream_def Let_def case_prod_beta split: option.splits list.splits sum.splits sendResult.splits prod.splits)

lemma OnContinuation_push [simp]: "nextPush (sc_tbl (snd (fst (OnContinuation c fh hb (h, sc))))) = nextPush (sc_tbl sc)"
  by (simp add: OnContinuation_def Let_def case_prod_beta split: option.splits list.splits sum.splits sendResult.splits prod.splits)

lemma OnRSTStream_push [simp]: "nextPush (sc_tbl (snd (fst (OnRSTStream fh code (h, sc))))) = nextPush (sc_tbl sc)"
  by (simp add: OnRSTStream_def markRemoteEndReset_def Let_def case_prod_beta split: option.splits list.splits sum.splits sendResult.splits prod.splits)

lemma OnWindowUpdate_push [simp]: "nextPush (sc_tbl (snd (fst (OnWindowUpdate c fh n (h, sc))))) = nextPush (sc_tbl sc)"
  by (simp add: OnWindowUpdate_def Let_def case_prod_beta split: option.splits list.splits sum.splits sendResult.splits prod.splits)

lemma shutdownStreams_push [simp]: "nextPush (sc_tbl (shutdownStreams sc)) = nextPush (sc_tbl sc)"
  by (simp add: shutdownStreams_def Let_def case_prod_beta split: option.splits list.splits sum.splits sendResult.splits prod.splits)

lemma readerExit_push [simp]: "nextPush (sc_tbl (readerExit code c sc)) = nextPush (sc_tbl sc)"
  by (simp add: readerExit_def Let_def case_prod_beta split: option.splits list.splits sum.splits sendResult.splits prod.splits)

lemma SendData_push [simp]: "nextPush (sc_tbl (fst (SendData c ctxErr s p b sc))) = nextPush (sc_tbl sc)"
  by (simp add: SendData_def Let_def case_prod_beta split: option.splits list.splits sum.splits sendResult.splits prod.splits)

end
