(* ===== verification/ConnRun.thy ===== *)
theory ConnRun
  imports ConnFrame
begin

text \<open>
  Runs of a connection: the reader takes frames, the application calls the methods of its
  streams and of the connection, spawned goroutines run, in any order. Each step is one whole
  method (theory Writers looks inside the blocking ones). The sections below establish, for
  every state a run can reach, what the windows, the GOAWAY identifiers, the rapid-reset account
  and the HPACK state satisfy.
\<close>

section \<open>Steps\<close>

datatype connOp =
    Read inFrame
  | AppHeaders sref "HeaderField list" bool "Priority option"
  | AppData sref bytes bool "err option"
  | AppRecv sref "err option"
  | AppClose sref
  | AppPush sref "HeaderField list" "Priority option"
  | AppAccept "err option"
  | AppPing
  | AppPingAbandon PingPayload
  | SpawnedReset
  | AppGoAway ErrCode
  | AppGoAwayGraceful
  | AppShutdown

text \<open>The application holds streams that exist and have been given an identifier.\<close>

definition held :: "ServerConn \<Rightarrow> sref \<Rightarrow> bool" where
  "held sc s \<longleftrightarrow> s < sc_next sc \<and> ss_id (strm sc s) \<noteq> 0"

fun appStep :: "codec \<Rightarrow> connOp \<Rightarrow> ServerConn \<Rightarrow> ServerConn" where
  "appStep c (Read fr) sc = sc"
| "appStep c (AppHeaders s fs b prio) sc =
     (if held sc s then fst (SendHeadersWithPriority c s fs b prio sc) else sc)"
| "appStep c (AppData s p b ctxErr) sc = (if held sc s then fst (SendData c ctxErr s p b sc) else sc)"
| "appStep c (AppRecv s ctxErr) sc = (if held sc s then fst (Recv c ctxErr s sc) else sc)"
| "appStep c (AppClose s) sc = (if held sc s then fst (StreamClose c s sc) else sc)"
| "appStep c (AppPush s fs prio) sc = (if held sc s then fst (PushWithPriority c s fs prio sc) else sc)"
| "appStep c (AppAccept ctxErr) sc = fst (AcceptStream ctxErr sc)"
| "appStep c AppPing sc = fst (Ping_send c sc)"
| "appStep c (AppPingAbandon payload) sc = Ping_abandon payload sc"
| "appStep c SpawnedReset sc = runSpawned c sc"
| "appStep c (AppGoAway code) sc = fst (GoAway c code sc)"
| "appStep c AppGoAwayGraceful sc = fst (GoAwayGraceful c sc)"
| "appStep c AppShutdown sc = ConnClose c sc"

definition connStep :: "codec \<Rightarrow> connOp \<Rightarrow> hstate \<Rightarrow> hstate" where
  "connStep c op hs =
     (case op of
        Read fr \<Rightarrow> if sc_readerDone (snd hs) then hs else fst (readerIter c fr hs)
      | _ \<Rightarrow> (fst hs, appStep c op (snd hs)))"

definition connRun :: "codec \<Rightarrow> connOp list \<Rightarrow> hstate \<Rightarrow> hstate" where
  "connRun c ops hs = fold (connStep c) ops hs"

definition freshConn :: "ServerConnOptions \<Rightarrow> hstate" where
  "freshConn o' = (newHandler (opts_defaulted o'), newConn (opts_defaulted o'))"

text \<open>An invariant of all steps is an invariant of runs.\<close>

lemma connRun_invariant:
  assumes "I hs" and "\<And>op hs. op \<in> set ops \<Longrightarrow> I hs \<Longrightarrow> I (connStep c op hs)"
  shows "I (connRun c ops hs)"
  using assms unfolding connRun_def
  by (induction ops arbitrary: hs) auto

text \<open>Case analysis on a step: an application step, or an iteration of a reader that still runs.\<close>

lemma connStep_cases:
  assumes "\<And>sc. snd hs = sc \<Longrightarrow> I (fst hs, appStep c op sc)"
    and "\<And>fr. op = Read fr \<Longrightarrow> \<not> sc_readerDone (snd hs) \<Longrightarrow> I (fst (readerIter c fr hs))"
    and "I hs"
  shows "I (connStep c op hs)"
  using assms by (cases op) (auto simp: connStep_def)

section \<open>Iterations of the reader\<close>

text \<open>
  What an iteration leaves behind, by its outcome: nothing more than the callback; a stream
  reset for the two stream-scoped rejections; or the exit of the reader.
\<close>

lemma readerIter_outcome:
  assumes "dispatch c fr (h, sc) = ((h1, sc1), e0)"
  obtains (ok) "readerIter c fr (h, sc) = ((h1, sc1\<lparr>sc_framesReceived := sc_framesReceived sc1 + 1\<rparr>), Continue)"
      "e0 = None"
  | (reset) code where "readerIter c fr (h, sc) = ((h1, fst (writeRSTStreamID c (fStreamID (frameHeader fr)) code sc1)), Continue)"
      "h_pendingStreamID h1 = 0" "\<not> isIdleStream sc1 (fStreamID (frameHeader fr))"
      "e0 = Some ErrPriorityWrongLength \<or> e0 = Some ErrZeroIncrement"
  | (quit) code where "readerIter c fr (h, sc) = ((h1, readerExit code c sc1), Exit)"
proof (cases "e0 = None \<and> \<not> (h_pendingStreamID h1 \<noteq> 0 \<and> undispatchedFrameType (fType (frameHeader fr)))")
  case True
  then show ?thesis using assms by (intro ok) (auto simp: readerIter_def Let_def)
next
  case False
  define e where "e = (case e0 of None \<Rightarrow> connError ErrCodeProtocolError ''extension frame inside an open field block'' | Some e \<Rightarrow> e)"
  let ?stream = "h_pendingStreamID h1 = 0 \<and> fStreamID (frameHeader fr) \<noteq> 0
                 \<and> \<not> isIdleStream sc1 (fStreamID (frameHeader fr))"
  have eq: "readerIter c fr (h, sc) =
      (if h_pendingStreamID h1 \<noteq> 0 \<and> \<not> transportErr e
          \<and> (fType (frameHeader fr) \<noteq> FrameContinuation \<or> fStreamID (frameHeader fr) \<noteq> h_pendingStreamID h1)
       then ((h1, readerExit (Some ErrCodeProtocolError) c sc1), Exit)
       else if ?stream \<and> e = ErrPriorityWrongLength
       then ((h1, fst (writeRSTStreamID c (fStreamID (frameHeader fr)) ErrCodeFrameSizeError sc1)), Continue)
       else if ?stream \<and> e = ErrZeroIncrement
       then ((h1, fst (writeRSTStreamID c (fStreamID (frameHeader fr)) ErrCodeProtocolError sc1)), Continue)
       else ((h1, readerExit (fatalCode e) c sc1), Exit))"
    using False assms by (cases e0) (auto simp: readerIter_def Let_def e_def)
  have e0: "e0 = Some e" if "e = ErrPriorityWrongLength \<or> e = ErrZeroIncrement"
    using that by (cases e0) (auto simp: e_def)
  show ?thesis using eq e0 by (auto intro: reset quit split: if_splits)
qed

section \<open>The invariant contract\<close>

text \<open>
  What an invariant of runs has to satisfy, and what follows once: the application's methods and
  the reader's three ways of finishing an iteration keep it. \<open>ok\<close> is what the codec guarantees
  of the frames it delivers.
\<close>

locale conn_invariant =
  fixes c :: codec and ok :: "inFrame \<Rightarrow> bool" and I :: "hstate \<Rightarrow> bool"
  assumes app: "I (h, sc) \<Longrightarrow> I (h, appStep c op sc)"
    and count: "I (h, sc) \<Longrightarrow> I (h, sc\<lparr>sc_framesReceived := n\<rparr>)"
    and frame: "I (h, sc) \<Longrightarrow> ok fr \<Longrightarrow> \<not> sc_readerDone sc \<Longrightarrow> dispatch c fr (h, sc) = ((h1, sc1), e) \<Longrightarrow>
                  e = None \<or> e = Some ErrPriorityWrongLength \<or> e = Some ErrZeroIncrement \<Longrightarrow> I (h1, sc1)"
    and stream_reset: "I (h, sc) \<Longrightarrow> \<not> isIdleStream sc sid \<Longrightarrow> I (h, fst (writeRSTStreamID c sid code sc))"
    and exits: "I (h, sc) \<Longrightarrow> ok fr \<Longrightarrow> \<not> sc_readerDone sc \<Longrightarrow> dispatch c fr (h, sc) = ((h1, sc1), e) \<Longrightarrow>
                 I (h1, readerExit code' c sc1)"
begin

lemma readerIter_I:
  assumes "I (h, sc)" and "ok fr" and "\<not> sc_readerDone sc"
  shows "I (fst (readerIter c fr (h, sc)))"
proof -
  obtain h1 sc1 e where d: "dispatch c fr (h, sc) = ((h1, sc1), e)" by (metis surj_pair)
  note f = frame [OF assms d] and q = exits [OF assms d]
  from d show ?thesis
  proof (cases rule: readerIter_outcome)
    case ok
    then show ?thesis using f count by simp
  next
    case (reset code)
    then show ?thesis using f stream_reset [of h1 sc1] by auto
  next
    case (quit code)
    then show ?thesis using q by simp
  qed
qed

lemma connStep_I:
  assumes "I hs" and "\<And>fr. op = Read fr \<Longrightarrow> ok fr"
  shows "I (connStep c op hs)"
proof -
  obtain h sc where hs: "hs = (h, sc)" by (cases hs)
  show ?thesis
    by (rule connStep_cases) (use assms hs app readerIter_I in auto)
qed

lemma connRun_I:
  assumes "I hs" and "\<And>fr. Read fr \<in> set ops \<Longrightarrow> ok fr"
  shows "I (connRun c ops hs)"
proof (rule connRun_invariant [where I = I])
  fix op hs
  assume "op \<in> set ops" and "I hs"
  then show "I (connStep c op hs)" using assms(2) by (intro connStep_I) simp_all
qed (rule assms(1))

end

section \<open>A sample connection\<close>

text \<open>A codec that writes everything and decodes every block to one request, and a request with a body.\<close>

definition sampleFields :: "HeaderField list" where
  "sampleFields = [\<lparr>Name = '':method'', Value = Some ''POST'', Indexing = 0\<rparr>,
     \<lparr>Name = '':scheme'', Value = Some ''https'', Indexing = 0\<rparr>,
     \<lparr>Name = '':path'', Value = Some ''/'', Indexing = 0\<rparr>]"

definition sampleCodec :: codec where
  "sampleCodec = \<lparr>cWrite = \<lambda>_ _. None, cDecode = \<lambda>_ _. (sampleFields, None), cEncode = \<lambda>_ _. ''x''\<rparr>"

definition sampleOptions :: ServerConnOptions where
  "sampleOptions =
     \<lparr>advSettings = \<lparr>HeaderTableSize = 0, MaxConcurrentStreams = 0, InitialWindowSize = 0,
        MaxFrameSize = 0, MaxHeaderListSize = 0\<rparr>, StreamEventBuffer = 0, KeepaliveInterval = 0,
      KeepaliveTimeout = 0, MaxRapidResets = 0, HandshakeTimeout = 0, ConnRecvWindow = 0,
      optUpgradedRequest = None\<rparr>"

definition sampleHeader :: "uint32 \<Rightarrow> 8 word \<Rightarrow> bool \<Rightarrow> uint32 \<Rightarrow> FrameHeader" where
  "sampleHeader sid ty endStream len =
     \<lparr>fLength = len, fType = ty, fStreamID = sid, fEndStream = endStream, fEndHeaders = True, fAck = False\<rparr>"

definition sampleRequest :: "connOp list" where
  "sampleRequest = [Read (FHeaders (sampleHeader 1 1 False 1) ''h'' None),
     Read (FData (sampleHeader 1 0 False 5) ''hello'')]"

section \<open>The connection's receive window\<close>

text \<open>The codec delivers at most 2 to the 24 minus 1 octets in a frame.\<close>

fun lengthOk :: "inFrame \<Rightarrow> bool" where
  "lengthOk (FData fh p) \<longleftrightarrow> uint (fLength fh) < 16777216"
| "lengthOk _ \<longleftrightarrow> True"

definition recvOk :: "ServerConn \<Rightarrow> bool" where
  "recvOk sc \<longleftrightarrow> 0 \<le> sc_connRecvWindow sc \<and> uint (sc_connRefundPending sc) < 32768
     \<and> sc_connRecvWindow sc + uint (sc_connRefundPending sc) = effectiveConnRecvWindow (sc_opts sc)"

definition recvInv :: "hstate \<Rightarrow> bool" where
  "recvInv hs \<longleftrightarrow> sc_readerDone (snd hs) \<or> recvOk (snd hs)"

lemma effectiveConnRecvWindow_range:
  "65535 \<le> effectiveConnRecvWindow o' \<and> effectiveConnRecvWindow o' \<le> 2147483647"
proof (cases "ConnRecvWindow o' \<le> 65535")
  case True
  then show ?thesis by (simp add: effectiveConnRecvWindow_def connInitialRecvWindow_def)
next
  case False
  let ?v = "if maxWindow < ConnRecvWindow o' then maxWindow else ConnRecvWindow o'"
  have v: "65535 \<le> ?v \<and> ?v \<le> 2147483647" using False by (simp add: maxWindow_def)
  then have "int32 ?v = ?v" by (intro int32_id) (simp add: in_int32_def)
  then show ?thesis using v False
    by (simp add: effectiveConnRecvWindow_def connInitialRecvWindow_def Let_def)
qed

lemma connDebit_cases:
  assumes "recvOk sc" and "uint len < 16777216"
  shows "(\<exists>m. snd (connDebit c len sc) = Some (connError ErrCodeFlowControlError m))
         \<or> recvOk (fst (connDebit c len sc))"
proof -
  note range = effectiveConnRecvWindow_range [of "sc_opts sc"]
  have len: "sint len = uint len" using assms(2) by (intro sint_small) simp
  let ?w = "sc_connRecvWindow sc - uint len"
  have "0 \<le> sc_connRecvWindow sc" "sc_connRecvWindow sc \<le> 2147483647"
    using assms(1) range uint_ge_0 [of "sc_connRefundPending sc"] unfolding recvOk_def by linarith+
  then have "- 2147483648 \<le> ?w" "?w < 2147483648"
    using assms(2) uint_ge_0 [of len] by linarith+
  then have w: "int32 ?w = ?w" by (intro int32_id) (simp add: in_int32_def)
  have sum: "uint (sc_connRefundPending sc + len) = uint (sc_connRefundPending sc) + uint len"
    using assms by (simp add: recvOk_def uint_plus_if')
  have pend: "sint (sc_connRefundPending sc + len) = uint (sc_connRefundPending sc + len)"
    using assms sum by (intro sint_small) (simp add: recvOk_def)
  have total: "?w + uint (sc_connRefundPending sc + len) = effectiveConnRecvWindow (sc_opts sc)"
    using assms(1) sum by (simp add: recvOk_def)
  then have tot32: "int32 (?w + uint (sc_connRefundPending sc + len)) = effectiveConnRecvWindow (sc_opts sc)"
    using range by (simp add: int32_id in_int32_def)
  show ?thesis
  proof (cases "?w < 0")
    case True
    then show ?thesis by (simp add: connDebit_def Let_def len w)
  next
    case False
    then show ?thesis using total tot32 range
      by (auto simp: connDebit_def Let_def len w pend recvOk_def recvWindowRefundThreshold_def word_le_def
          not_le)
  qed
qed

lemma OnData_recv:
  assumes "recvOk sc" and "uint (fLength fh) < 16777216"
    and "OnData c fh p (h, sc) = ((h1, sc1), e)"
  shows "(\<exists>m. e = Some (connError ErrCodeFlowControlError m)) \<or> recvOk sc1"
proof -
  have *: "recvOk (upds s f sc') = recvOk sc'" for s f sc' by (simp add: recvOk_def)
  have d: "(\<exists>m. snd (onDataReceived c so (fLength fh) sc) = Some (connError ErrCodeFlowControlError m))
        \<or> recvOk (fst (onDataReceived c so (fLength fh) sc))" for so
    using connDebit_cases [OF _ assms(2), of _ c] assms(1)
    by (cases so) (simp_all add: onDataReceived_def Let_def *)
  obtain sc2 e2 where r: "onDataReceived c (lookupStream sc (fStreamID fh)) (fLength fh) sc = (sc2, e2)"
    by (metis surj_pair)
  have after: "recvOk sc' \<Longrightarrow> recvOk (fst (writeServerRSTStream c s code sc')) \<and> recvOk (deliverEvent s sid b ev sc')"
    for sc' s code sid b ev by (simp add: recvOk_def)
  show ?thesis
  proof (cases e2)
    case None
    then have "recvOk sc2" using d [of "lookupStream sc (fStreamID fh)"] r by simp
    then show ?thesis using assms(1,3) r None after
      by (auto simp: OnData_def Let_def guardHeaderBlock_def split: if_splits option.splits)
  next
    case (Some e')
    then show ?thesis using assms(1,3) r d [of "lookupStream sc (fStreamID fh)"]
      by (auto simp: OnData_def Let_def guardHeaderBlock_def split: if_splits)
  qed
qed

lemma appStep_window [simp]:
  "sc_connRecvWindow (appStep c op sc) = sc_connRecvWindow sc"
  "sc_connRefundPending (appStep c op sc) = sc_connRefundPending sc"
  "sc_opts (appStep c op sc) = sc_opts sc"
  "sc_readerDone (appStep c op sc) = sc_readerDone sc"
  by (cases op; simp)+

lemma dispatch_readerDone [simp]: "sc_readerDone (snd (fst (dispatch c fr (h, sc)))) = sc_readerDone sc"
  by (cases fr) (simp_all add: OnIgnored_def OnPushPromise_def)

lemma dispatch_opts [simp]: "sc_opts (snd (fst (dispatch c fr (h, sc)))) = sc_opts sc"
  by (cases fr) (simp_all add: OnIgnored_def OnPushPromise_def)

lemma readerExit_done [simp]: "sc_readerDone (readerExit code c sc)"
  by (simp add: readerExit_def Let_def)

lemma dispatch_recv:
  assumes "recvOk sc" and "lengthOk fr" and "dispatch c fr (h, sc) = ((h1, sc1), e)"
  shows "(\<exists>m. e = Some (connError ErrCodeFlowControlError m)) \<or> recvOk sc1"
proof (cases "\<exists>fh p. fr = FData fh p")
  case True
  then obtain fh p where fr: "fr = FData fh p" by blast
  show ?thesis by (rule OnData_recv [of sc fh c p h]) (use assms fr in simp_all)
next
  case False
  have "recvOk (snd (fst (dispatch c fr (h, sc)))) = recvOk sc"
    using False by (cases fr) (simp_all add: recvOk_def OnIgnored_def OnPushPromise_def)
  then show ?thesis using assms by simp
qed

interpretation recv: conn_invariant c lengthOk recvInv for c
proof
  fix h sc op n fr h1 sc1 e sid code code'
  assume I: "recvInv (h, sc)"
  show "recvInv (h, appStep c op sc)" using I by (simp add: recvInv_def recvOk_def)
  show "recvInv (h, sc\<lparr>sc_framesReceived := n\<rparr>)" using I by (simp add: recvInv_def recvOk_def)
  show "recvInv (h, fst (writeRSTStreamID c sid code sc))" using I by (simp add: recvInv_def recvOk_def)
  assume "lengthOk fr" "\<not> sc_readerDone sc" and d: "dispatch c fr (h, sc) = ((h1, sc1), e)"
  show "recvInv (h1, readerExit code' c sc1)" by (simp add: recvInv_def)
  assume "e = None \<or> e = Some ErrPriorityWrongLength \<or> e = Some ErrZeroIncrement"
  then show "recvInv (h1, sc1)"
    using I dispatch_recv [OF _ \<open>lengthOk fr\<close> d] \<open>\<not> sc_readerDone sc\<close> by (auto simp: recvInv_def)
qed

lemma recvInv_fresh: "recvInv (freshConn o')"
  using effectiveConnRecvWindow_range [of "opts_defaulted o'"]
  by (simp add: recvInv_def recvOk_def freshConn_def newConn_def)


lemma sampleRequest_alive: "\<not> sc_readerDone (snd (connRun sampleCodec sampleRequest (freshConn sampleOptions)))"
  by code_simp

lemma sampleRequest_lengths: "Read fr \<in> set sampleRequest \<Longrightarrow> lengthOk fr"
  by (auto simp: sampleRequest_def sampleHeader_def)


section \<open>The rapid-reset account\<close>

lemma appStep_resets [simp]: "sc_rapidResetCount (appStep c op sc) = sc_rapidResetCount sc"
  by (cases op; simp)

text \<open>
  A frame is charged: a RST\_STREAM, outside a header block, for a stream that is gone, or whose
  request the client had not finished.
\<close>

fun rapidFrame :: "inFrame \<Rightarrow> hstate \<Rightarrow> bool" where
  "rapidFrame (FRSTStream fh code) (h, sc) \<longleftrightarrow>
     h_pendingStreamID h = 0 \<and> \<not> isIdleStream sc (fStreamID fh)
     \<and> (case lookupStream sc (fStreamID fh) of None \<Rightarrow> True | Some s \<Rightarrow> \<not> RemoteEnded (ss_st (strm sc s)))"
| "rapidFrame _ _ \<longleftrightarrow> False"

text \<open>How many frames of a run are charged.\<close>

fun rapidResets :: "codec \<Rightarrow> connOp list \<Rightarrow> hstate \<Rightarrow> nat" where
  "rapidResets c [] hs = 0"
| "rapidResets c (op # ops) hs =
     (case op of Read fr \<Rightarrow> if \<not> sc_readerDone (snd hs) \<and> rapidFrame fr hs then 1 else 0 | _ \<Rightarrow> 0)
     + rapidResets c ops (connStep c op hs)"

lemma OnRSTStream_account:
  assumes "OnRSTStream fh code (h, sc) = ((h1, sc1), e)"
  shows "\<exists>sc'. sc_rapidResetCount sc' = sc_rapidResetCount sc \<and> sc_opts sc' = sc_opts sc
           \<and> (onClientRSTStream (rapidFrame (FRSTStream fh code) (h, sc)) sc' = (sc1, e)
              \<or> sc1 = sc \<and> \<not> rapidFrame (FRSTStream fh code) (h, sc))"
proof (cases "guardHeaderBlock h = None \<and> \<not> isIdleStream sc (fStreamID fh)")
  case False
  then show ?thesis using assms
    by (auto simp: OnRSTStream_def Let_def guardHeaderBlock_def split: option.splits if_splits)
next
  case True
  define sc' where "sc' = (case lookupStream sc (fStreamID fh) of None \<Rightarrow> sc
    | Some s \<Rightarrow> markStreamDone (fStreamID fh)
        (push s (resetEvent code) (upds s (\<lambda>_. fst (markRemoteEndReset (strm sc s))) sc)))"
  have "onClientRSTStream (rapidFrame (FRSTStream fh code) (h, sc)) sc' = (sc1, e)"
    using assms True
    by (cases "lookupStream sc (fStreamID fh)")
       (auto simp: OnRSTStream_def Let_def sc'_def markRemoteEndReset_def guardHeaderBlock_def
         case_prod_beta prod_eq_iff split: if_splits)
  moreover have "sc_rapidResetCount sc' = sc_rapidResetCount sc" "sc_opts sc' = sc_opts sc"
    by (auto simp: sc'_def split: option.splits)
  ultimately show ?thesis by blast
qed

lemma onClientRSTStream_charge:
  assumes "onClientRSTStream rapid sc = (sc1, e)" and "rapidResetBudget (sc_opts sc) = budget"
    and "0 < budget" and "budget < 4294967295" and "uint (sc_rapidResetCount sc) \<le> budget"
    and "e = None \<or> e = Some ErrPriorityWrongLength \<or> e = Some ErrZeroIncrement"
  shows "uint (sc_rapidResetCount sc1) = uint (sc_rapidResetCount sc) + (if rapid then 1 else 0)
         \<and> uint (sc_rapidResetCount sc1) \<le> budget"
proof -
  have "uint (sc_rapidResetCount sc + 1) = uint (sc_rapidResetCount sc) + 1"
    using assms(4,5) by (simp add: uint_plus_if')
  then show ?thesis using assms
    by (auto simp: onClientRSTStream_def Let_def split: if_splits)
qed

lemma dispatch_charge:
  assumes "dispatch c fr (h, sc) = ((h1, sc1), e)" and "rapidResetBudget (sc_opts sc) = budget"
    and "0 < budget" and "budget < 4294967295" and "uint (sc_rapidResetCount sc) \<le> budget"
    and "e = None \<or> e = Some ErrPriorityWrongLength \<or> e = Some ErrZeroIncrement"
  shows "uint (sc_rapidResetCount sc1) = uint (sc_rapidResetCount sc) + (if rapidFrame fr (h, sc) then 1 else 0)
         \<and> uint (sc_rapidResetCount sc1) \<le> budget"
proof (cases "\<exists>fh code. fr = FRSTStream fh code")
  case True
  then obtain fh code where fr: "fr = FRSTStream fh code" by blast
  from OnRSTStream_account [of fh code h sc h1 sc1 e] assms(1) fr obtain sc'
    where "sc_rapidResetCount sc' = sc_rapidResetCount sc" "sc_opts sc' = sc_opts sc"
      and "onClientRSTStream (rapidFrame fr (h, sc)) sc' = (sc1, e) \<or> sc1 = sc \<and> \<not> rapidFrame fr (h, sc)"
    by auto
  then show ?thesis using onClientRSTStream_charge [of "rapidFrame fr (h, sc)" sc' sc1 e budget] assms(2-6) by auto
next
  case False
  then have "\<not> rapidFrame fr (h, sc)" by (cases fr) auto
  moreover have "sc_rapidResetCount (snd (fst (dispatch c fr (h, sc)))) = sc_rapidResetCount sc"
    using False by (cases fr) (simp_all add: OnIgnored_def OnPushPromise_def)
  ultimately show ?thesis using assms by simp
qed

lemma readerIter_charge:
  assumes "rapidResetBudget (sc_opts sc) = budget" and "0 < budget" and "budget < 4294967295"
    and "uint (sc_rapidResetCount sc) \<le> budget"
    and "fst (readerIter c fr (h, sc)) = (h2, sc2)" and "\<not> sc_readerDone sc2"
  shows "uint (sc_rapidResetCount sc2) = uint (sc_rapidResetCount sc) + (if rapidFrame fr (h, sc) then 1 else 0)
         \<and> uint (sc_rapidResetCount sc2) \<le> budget \<and> sc_opts sc2 = sc_opts sc"
proof -
  obtain h1 sc1 e where d: "dispatch c fr (h, sc) = ((h1, sc1), e)" by (metis surj_pair)
  have "sc_opts sc1 = sc_opts sc" using dispatch_opts [of c fr h sc] d by simp
  with d show ?thesis
  proof (cases rule: readerIter_outcome)
    case ok
    then show ?thesis using dispatch_charge [OF d assms(1-4)] assms(5) \<open>sc_opts sc1 = sc_opts sc\<close> by auto
  next
    case (reset code)
    then show ?thesis using dispatch_charge [OF d assms(1-4)] assms(5) \<open>sc_opts sc1 = sc_opts sc\<close> by auto
  next
    case (quit code)
    then show ?thesis using assms(5,6) by auto
  qed
qed

lemma connStep_done: "sc_readerDone (snd hs) \<Longrightarrow> sc_readerDone (snd (connStep c op hs))"
  by (cases op) (simp_all add: connStep_def)

lemma connRun_done: "sc_readerDone (snd hs) \<Longrightarrow> sc_readerDone (snd (connRun c ops hs))"
  by (rule connRun_invariant) (auto intro: connStep_done)

lemma connRun_Cons [simp]: "connRun c (op # ops) hs = connRun c ops (connStep c op hs)"
  by (simp add: connRun_def)

lemma connRun_Nil [simp]: "connRun c [] hs = hs"
  by (simp add: connRun_def)

lemma connRun_charge:
  assumes "\<not> sc_readerDone (snd (connRun c ops hs))"
    and "rapidResetBudget (sc_opts (snd hs)) = budget" and "0 < budget" and "budget < 4294967295"
    and "uint (sc_rapidResetCount (snd hs)) \<le> budget"
  shows "uint (sc_rapidResetCount (snd hs)) + int (rapidResets c ops hs) \<le> budget"
  using assms
proof (induction ops arbitrary: hs)
  case (Cons op ops)
  obtain h sc where hs: "hs = (h, sc)" by (cases hs)
  have alive: "\<not> sc_readerDone (snd (connStep c op hs))" using Cons.prems(1) connRun_done [of "connStep c op hs" c ops] by auto
  then have "\<not> sc_readerDone sc" using connStep_done hs by auto
  have IH: "uint (sc_rapidResetCount (snd (connStep c op hs))) + int (rapidResets c ops (connStep c op hs)) \<le> budget"
    if "sc_opts (snd (connStep c op hs)) = sc_opts sc"
      "uint (sc_rapidResetCount (snd (connStep c op hs))) \<le> budget"
    using Cons.IH [of "connStep c op hs"] Cons.prems that hs by simp
  show ?case
  proof (cases "\<exists>fr. op = Read fr")
    case True
    then obtain fr where op: "op = Read fr" by blast
    have "fst (readerIter c fr (h, sc)) = (fst (connStep c op hs), snd (connStep c op hs))"
      using op hs \<open>\<not> sc_readerDone sc\<close> by (simp add: connStep_def)
    from readerIter_charge [OF _ Cons.prems(3,4) _ this alive] IH show ?thesis
      using Cons.prems hs op \<open>\<not> sc_readerDone sc\<close> by (auto split: if_splits)
  next
    case False
    then have "connStep c op hs = (h, appStep c op sc)" using hs by (cases op) (simp_all add: connStep_def)
    moreover have "rapidResets c (op # ops) hs = rapidResets c ops (connStep c op hs)"
      using False by (cases op) simp_all
    ultimately show ?thesis using IH Cons.prems(5) hs by simp
  qed
qed simp

text \<open>
  C22. The rapid-reset account (CVE-2023-44487) is exact and enforced: with a positive budget,
  the number of resets of unfinished or already closed streams a client has had processed on a
  connection whose reader still runs is at most the budget. One more, and the reader has ended.
\<close>

theorem rapid_resets_within_budget:
  assumes "\<not> sc_readerDone (snd (connRun c ops (freshConn o')))"
    and "0 < rapidResetBudget (opts_defaulted o')" and "rapidResetBudget (opts_defaulted o') < 4294967295"
  shows "int (rapidResets c ops (freshConn o')) \<le> rapidResetBudget (opts_defaulted o')"
  using connRun_charge [OF assms(1) _ assms(2,3)] assms(2)
  by (simp add: freshConn_def newConn_def)

theorem rapid_resets_within_budget_witness:
  "int (rapidResets sampleCodec sampleRequest (freshConn sampleOptions))
     \<le> rapidResetBudget (opts_defaulted sampleOptions)"
proof -
  have "0 < rapidResetBudget (opts_defaulted sampleOptions)"
    "rapidResetBudget (opts_defaulted sampleOptions) < 4294967295" by code_simp+
  then show ?thesis by (rule rapid_resets_within_budget [OF sampleRequest_alive])
qed

end
