(* ===== verification/FieldSections.thy ===== *)
theory FieldSections
  imports ConnHandler
begin

text \<open>
  The path of a field section from the hpack decoder to the application (\<open>emitHeaderBlock\<close> and
  \<open>ownedCopy\<close> of conn/server\_handler.go): the two copies through shared buffers give back the
  decoded fields, the size account is the one of RFC 9113 section 6.5.2, and a section that
  reaches an event satisfies the rules of theory HttpFields.
\<close>

section \<open>Copies\<close>

text \<open>A field whose value slice is not nil.\<close>

definition owned :: "HeaderField \<Rightarrow> HeaderField" where
  "owned f = f\<lparr>Value := Some (bval (Value f))\<rparr>"

lemma owned_fields [simp]: "Name (owned f) = Name f" "bval (Value (owned f)) = bval (Value f)"
  by (simp_all add: owned_def)

lemma slice_middle: "slice (pre @ x @ post) (length pre) (length pre + length x) = x"
  by (simp add: slice_def)

definition flat :: "HeaderField list \<Rightarrow> bytes" where
  "flat fs = concat (map (\<lambda>f. Name f @ bval (Value f)) fs)"

lemma flat_simps [simp]:
  "flat [] = []" "flat (f # fs) = Name f @ bval (Value f) @ flat fs" "flat (fs @ gs) = flat fs @ flat gs"
  by (simp_all add: flat_def)

definition spansOf :: "HeaderField list \<Rightarrow> (nat \<times> nat \<times> 8 word) list" where
  "spansOf fs = map (\<lambda>f. (length (Name f), length (bval (Value f)), Indexing f)) fs"

lemma materialise_spans:
  "materialise (pre @ flat fs) (length pre) (spansOf fs) = map owned fs"
proof (induction fs arbitrary: pre)
  case (Cons f fs)
  let ?v = "bval (Value f)"
  have "slice (pre @ Name f @ ?v @ flat fs) (length pre) (length pre + length (Name f)) = Name f"
    by (rule slice_middle)
  moreover have "slice (pre @ Name f @ ?v @ flat fs) (length pre + length (Name f))
      (length pre + length (Name f) + length ?v) = ?v"
    using slice_middle [of "pre @ Name f" ?v "flat fs"] by simp
  moreover have "materialise (pre @ Name f @ ?v @ flat fs) (length pre + length (Name f) + length ?v) (spansOf fs)
      = map owned fs"
    using Cons.IH [of "pre @ Name f @ ?v"] by (simp add: ac_simps)
  ultimately show ?case by (simp add: spansOf_def owned_def)
qed (simp add: spansOf_def)

fun offsets :: "nat \<Rightarrow> HeaderField list \<Rightarrow> (nat \<times> nat \<times> nat \<times> 8 word) list" where
  "offsets n [] = []"
| "offsets n (f # fs) =
     (n, n + length (Name f), n + length (Name f) + length (bval (Value f)), Indexing f)
     # offsets (n + length (Name f) + length (bval (Value f))) fs"

lemma copy_loop_offsets:
  "copy_loop fs slab acc = (slab @ flat fs, acc @ offsets (length slab) fs)"
  by (induction fs arbitrary: slab acc) (simp_all add: Let_def ac_simps)

lemma map_offsets:
  "map (\<lambda>(n, v, e, ix). \<lparr>Name = slice (pre @ flat fs) n v, Value = Some (slice (pre @ flat fs) v e), Indexing = ix\<rparr>)
     (offsets (length pre) fs) = map owned fs"
proof (induction fs arbitrary: pre)
  case (Cons f fs)
  let ?v = "bval (Value f)"
  have "slice (pre @ Name f @ ?v @ flat fs) (length pre + length (Name f))
      (length pre + length (Name f) + length ?v) = ?v"
    using slice_middle [of "pre @ Name f" ?v "flat fs"] by simp
  moreover note slice_middle [of pre "Name f" "?v @ flat fs"]
  moreover note Cons.IH [of "pre @ Name f @ ?v"]
  ultimately show ?case by (simp add: owned_def ac_simps)
qed simp

text \<open>The copy handed to the application has exactly the fields of the scratch list.\<close>

lemma ownedCopy_eq: "ownedCopy fs = map owned fs"
  using map_offsets [of "[]" fs] by (simp add: ownedCopy_def copy_loop_offsets)

lemma owned_idem [simp]: "owned (owned f) = owned f"
  by (simp add: owned_def)

section \<open>The decode callback\<close>

text \<open>RFC 9113 section 6.5.2: the uncompressed size of a field list.\<close>

definition listSize :: "HeaderField list \<Rightarrow> int" where
  "listSize fs = sum_list (map (\<lambda>f. int (length (Name f)) + int (length (bval (Value f))) + 32) fs)"

lemma listSize_simps [simp]:
  "listSize [] = 0"
  "listSize (f # fs) = int (length (Name f)) + int (length (bval (Value f))) + 32 + listSize fs"
  "listSize (fs @ gs) = listSize fs + listSize gs"
  by (simp_all add: listSize_def)

lemma listSize_nonneg [simp]: "0 \<le> listSize fs"
  by (induction fs) simp_all

definition malformedField :: "bool \<Rightarrow> HeaderField \<Rightarrow> bool" where
  "malformedField isTrailer f \<longleftrightarrow> Prohibited (Name f) (bval (Value f)) isTrailer"

text \<open>What the callback has gathered after the fields \<open>gs\<close>.\<close>

definition gathered :: "int \<Rightarrow> bool \<Rightarrow> HeaderField list \<Rightarrow> collect \<Rightarrow> bool" where
  "gathered mx isTrailer gs co \<longleftrightarrow>
     co_malformed co = (\<exists>f \<in> set gs. malformedField isTrailer f) \<and> co_listSize co = listSize gs
     \<and> co_oversized co = (listSize gs > mx)
     \<and> (\<not> co_oversized co \<longrightarrow> co_fieldBuf co = flat gs \<and> co_spans co = spansOf gs)"

lemma gathered_visit:
  assumes "gathered mx isTrailer gs co" and "0 \<le> mx"
  shows "gathered mx isTrailer (gs @ [f]) (visitField mx isTrailer f co)"
  using assms
  by (auto simp: gathered_def visitField_def Let_def malformedField_def fieldEntryOverhead_def spansOf_def)

lemma gathered_fold:
  assumes "gathered mx isTrailer gs co" and "0 \<le> mx"
  shows "gathered mx isTrailer (gs @ fs) (fold (visitField mx isTrailer) fs co)"
  using assms
proof (induction fs arbitrary: gs co)
  case (Cons f fs)
  then show ?case using Cons.IH [OF gathered_visit [OF Cons.prems, of f] Cons.prems(2)] by simp
qed simp

lemma collectFields_gathered: "0 \<le> mx \<Longrightarrow> gathered mx isTrailer fs (collectFields mx isTrailer fs)"
  using gathered_fold [of mx isTrailer "[]" collect0 fs]
  by (simp add: collectFields_def gathered_def collect0_def spansOf_def)

lemma scratch_eq:
  assumes "0 \<le> mx" and "\<not> co_oversized (collectFields mx isTrailer fs)"
  shows "materialise (co_fieldBuf (collectFields mx isTrailer fs)) 0 (co_spans (collectFields mx isTrailer fs))
         = map owned fs"
  using collectFields_gathered [OF assms(1), of isTrailer fs] assms(2) materialise_spans [of "[]" fs]
  by (simp add: gathered_def)

lemma malformed_iff:
  "0 \<le> mx \<Longrightarrow> co_malformed (collectFields mx isTrailer fs) \<longleftrightarrow> (\<exists>f \<in> set fs. malformedField isTrailer f)"
  using collectFields_gathered [of mx isTrailer fs] by (simp add: gathered_def)

lemma oversized_iff: "0 \<le> mx \<Longrightarrow> co_oversized (collectFields mx isTrailer fs) \<longleftrightarrow> listSize fs > mx"
  using collectFields_gathered [of mx isTrailer fs] by (simp add: gathered_def)

text \<open>
  What a field section has to satisfy to be delivered: as a request, the pseudo-header rules; as
  trailers, the end of the stream; in both cases no forbidden field.
\<close>

definition wellFormedSection :: "bool \<Rightarrow> bool \<Rightarrow> HeaderField list \<Rightarrow> bool" where
  "wellFormedSection isTrailer endStream fs \<longleftrightarrow>
     (\<forall>f \<in> set fs. \<not> malformedField isTrailer f)
     \<and> (if isTrailer then endStream else ValidRequestPseudoHeaders (map owned fs))"

section \<open>The whole path\<close>

lemma emitHeaderBlock_cases:
  assumes "0 \<le> h_maxHeaderBytes h" and "cDecode c (sc_decSeen sc) hb = (fs, e)"
  shows "emitHeaderBlock c s hb endStream isTrailer (h, sc) =
    (let h' = h\<lparr>h_pendingStreamID := 0\<rparr>; sc' = sc\<lparr>sc_decSeen := sc_decSeen sc @ [hb]\<rparr> in
     case e of
       Some m \<Rightarrow> ((h', sc'), Some (connError ErrCodeCompressionError (''HPACK decoding error: '' @ m)))
     | None \<Rightarrow>
         if listSize fs > h_maxHeaderBytes h then ((h', respondFieldsTooLarge c (Some s) sc'), None)
         else if RemoteEnded (ss_st (strm sc s))
           then ((h', fst (writeServerRSTStream c s ErrCodeStreamClosed sc')), None)
         else if \<not> wellFormedSection isTrailer endStream fs
           then ((h', fst (writeServerRSTStream c s ErrCodeProtocolError sc')), None)
         else ((h', deliverEvent s (ss_id (strm sc s)) endStream
                      (headersEvent isTrailer (map owned fs) endStream) sc'), None))"
proof (cases "listSize fs > h_maxHeaderBytes h")
  case True
  then show ?thesis using assms oversized_iff [OF assms(1), of isTrailer fs]
    by (auto simp: emitHeaderBlock_def decodeBlock_def Let_def split: option.split)
next
  case False
  then have over: "\<not> co_oversized (collectFields (h_maxHeaderBytes h) isTrailer fs)"
    using oversized_iff [OF assms(1)] by simp
  have "ownedCopy (map owned fs) = map owned fs" by (simp add: ownedCopy_eq)
  then show ?thesis using assms over False malformed_iff [OF assms(1), of isTrailer fs] scratch_eq [OF assms(1) over]
    by (auto simp: emitHeaderBlock_def decodeBlock_def Let_def wellFormedSection_def split: option.split)
qed

end
