(* ===== verification/ConnAtomic.thy ===== *)
theory ConnAtomic
  imports ConnFrame FieldSections
begin

text \<open>
  The connection as an interleaving of atomic sections. \<open>atomic c sc sc'\<close> holds if one lock
  section (or one atomic store) of some method of the connection takes \<open>sc\<close> to \<open>sc'\<close>; the guard
  of a rule is what the code has tested inside that section, or a fact about the stream that no
  section takes back. Sections of different goroutines may follow each other in any order.

  Every operation of theories ConnOps, ConnHandler and ConnLoop is a sequence of such sections
  (\<open>atomics\<close>), so an invariant of the sections is one of every interleaving and, in particular, of
  every run in which the operations are executed one after the other.
\<close>

section \<open>The sections\<close>

text \<open>
  An update of a stream that leaves identity, state, queue and send window alone and neither
  unbinds its context nor revives it.
\<close>

definition quiet :: "(ServerStream \<Rightarrow> ServerStream) \<Rightarrow> bool" where
  "quiet f \<longleftrightarrow> (\<forall>ss. ss_id (f ss) = ss_id ss \<and> ss_events (f ss) = ss_events ss
     \<and> ss_eventCap (f ss) = ss_eventCap ss \<and> ss_evClosed (f ss) = ss_evClosed ss
     \<and> ss_st (f ss) = ss_st ss \<and> ss_sendWindow (f ss) = ss_sendWindow ss
     \<and> (ss_ctxBound ss \<longrightarrow> ss_ctxBound (f ss)) \<and> (ss_cancelled ss \<longrightarrow> ss_cancelled (f ss)))"

text \<open>An event the reader may hand over: a field section in it has passed the checks.\<close>

definition eventOk :: "StreamEvent \<Rightarrow> bool" where
  "eventOk e \<longleftrightarrow> (evType e = EventHeaders \<longrightarrow> wellFormedSection False (evEndStream e) (evHeaders e))
     \<and> (evType e = EventTrailers \<longrightarrow> wellFormedSection True (evEndStream e) (evHeaders e))"

text \<open>The two states agree on everything the invariants look at.\<close>

definition agree :: "ServerConn \<Rightarrow> ServerConn \<Rightarrow> bool" where
  "agree sc sc' \<longleftrightarrow> sc_opts sc' = sc_opts sc \<and> sc_peerSettings sc' = sc_peerSettings sc
     \<and> sc_tbl sc' = sc_tbl sc \<and> sc_objs sc' = sc_objs sc \<and> sc_next sc' = sc_next sc
     \<and> sc_peerConnSendWindow sc' = sc_peerConnSendWindow sc \<and> sc_closed sc' = sc_closed sc
     \<and> sc_readerDone sc' = sc_readerDone sc \<and> sc_goAwaySentID sc' = sc_goAwaySentID sc
     \<and> sc_wire sc' = sc_wire sc \<and> sc_encDone sc' = sc_encDone sc \<and> sc_panicked sc' = sc_panicked sc"

text \<open>The framer refuses some frame at this point of the connection.\<close>

definition failed :: "codec \<Rightarrow> ServerConn \<Rightarrow> bool" where
  "failed c sc \<longleftrightarrow> (\<exists>f e. cWrite c (sc_wire sc) f = Some e)"

text \<open>
  A stream may leave the table: it can no longer be written to. Otherwise the connection is
  closed, the framer failed, or the peer's frame limit is below what any legal peer may set.
\<close>

definition releasable :: "codec \<Rightarrow> uint32 \<Rightarrow> ServerConn \<Rightarrow> bool" where
  "releasable c sid sc \<longleftrightarrow>
     (\<forall>s. lookupStream sc sid = Some s \<longrightarrow> \<not> Writable (ss_st (strm sc s)))
     \<or> (\<exists>s. ss_id (strm sc s) = sid \<and> \<not> Writable (ss_st (strm sc s)))
     \<or> sc_closed sc \<or> failed c sc \<or> maxWritableFrame sc < 24"

text \<open>Frames that belong to no stream's field section or body.\<close>

fun isControl :: "wframe \<Rightarrow> bool" where
  "isControl (WSettings ps) = True"
| "isControl WSettingsAck = True"
| "isControl (WPing b n) = True"
| "isControl (WWindowUpdate sid n) = True"
| "isControl _ = False"

text \<open>
  A client stream is built and admitted: nothing else can see the stream before the table
  publishes it, and a refused one is never published.
\<close>

definition admission :: "uint32 \<Rightarrow> nat \<Rightarrow> int \<Rightarrow> Priority option \<Rightarrow> ServerConn \<Rightarrow> ServerConn" where
  "admission sid cap seed prio sc =
     (let (sc, s) = allocStream (newServerStream sid cap seed) sc;
          sc = upds s (\<lambda>ss. ss\<lparr>ss_ctxBound := True\<rparr>) (upds s (setPriority prio) sc);
          (t, h, ok) = tbl_admitClient (peerWindow sc) (sc_tbl sc) (sc_objs sc) sid s
                         (uint (MaxConcurrentStreams (advSettings (sc_opts sc))));
          sc = sc\<lparr>sc_tbl := t, sc_objs := h\<rparr>
      in if ok then sc else upds s cancelCtx (upds s (ss_advance stReset) sc))"

definition reservation :: "ServerConn \<Rightarrow> ServerConn" where
  "reservation sc =
     (let pushLimit = settingValue (sc_peerSettings sc) SettingMaxConcurrentStreams noStreamLimit;
          (sc, ps) = allocStream newPushStream sc;
          (t, h, r) = tbl_reservePush (peerWindow sc) (sc_tbl sc) (sc_objs sc) ps pushLimit
      in sc\<lparr>sc_tbl := t, sc_objs := h\<rparr>)"

text \<open>The encoder is asked for a block and the frame that carries it is written.\<close>

definition encodeWrite :: "codec \<Rightarrow> (bytes \<Rightarrow> wframe) \<Rightarrow> HeaderField list \<Rightarrow> ServerConn \<Rightarrow> ServerConn" where
  "encodeWrite c f fs sc =
     fst (frWrite c (f (cEncode c (sc_encDone sc) fs)) (sc\<lparr>sc_encDone := sc_encDone sc @ [EncBlock fs]\<rparr>))"

definition settle :: "SettingsParams \<Rightarrow> ServerConn \<Rightarrow> ServerConn" where
  "settle s sc0 =
     (let sc = sc0\<lparr>sc_encDone := sc_encDone sc0 @ encResizes s,
                   sc_peerSettings := mergeSettings (sc_peerSettings sc0) s\<rparr>
      in sc\<lparr>sc_objs := fst (tbl_applyInitialWindow (peerWindow sc0) (peerWindow sc) adjustSendWindow
                             (sc_tbl sc) (sc_objs sc))\<rparr>)"

inductive atomic :: "codec \<Rightarrow> ServerConn \<Rightarrow> ServerConn \<Rightarrow> bool" for c :: codec where
  other: "agree sc sc' \<Longrightarrow> atomic c sc sc'"
| local: "quiet f \<Longrightarrow> atomic c sc (upds s f sc)"
| mark: "atomic c sc (upds s (ss_advance d) sc)"
| queue: "\<not> ss_evClosed (strm sc s) \<Longrightarrow> \<not> chanFull (strm sc s) \<Longrightarrow> eventOk e \<Longrightarrow> atomic c sc (chanSend s e sc)"
| take: "ss_events (strm sc s) = e # es \<Longrightarrow> atomic c sc (upds s (\<lambda>ss. ss\<lparr>ss_events := es\<rparr>) sc)"
| grant: "0 \<le> n \<Longrightarrow> ss_sendWindow (strm sc s) + n \<le> maxWindow \<Longrightarrow>
    atomic c sc (upds s (\<lambda>ss. ss\<lparr>ss_sendWindow := int32 (ss_sendWindow (strm sc s) + n)\<rparr>) sc)"
| grantConn: "0 \<le> n \<Longrightarrow> sc_peerConnSendWindow sc + n \<le> maxWindow \<Longrightarrow>
    atomic c sc (sc\<lparr>sc_peerConnSendWindow := int32 (sc_peerConnSendWindow sc + n)\<rparr>)"
| debit: "0 < want \<Longrightarrow> want \<le> maxWindow \<or> maxWindow < dataMaxFrame sc \<Longrightarrow>
    atomic c sc (fst (takeSendCredits s want sc))"
| refund: "atomic c sc (releaseSendCredits s n sc)"
| admit: "tbl_validateClientID (sc_tbl sc) sid = None \<Longrightarrow> \<not> sc_readerDone sc \<Longrightarrow> atomic c sc (admission sid cap seed prio sc)"
| reserve: "pushRoom (sc_tbl sc) \<Longrightarrow> lookupStream sc sid \<noteq> None \<Longrightarrow> atomic c sc (reservation sc)"
| release: "releasable c sid sc \<Longrightarrow> atomic c sc (markStreamDone sid sc)"
| drain: "\<not> sc_readerDone sc \<Longrightarrow> atomic c sc ((shutdownStreams sc)\<lparr>sc_readerDone := True\<rparr>)"
| headers: "\<not> sc_closed sc \<Longrightarrow> Writable (ss_st (strm sc s)) \<Longrightarrow>
    atomic c sc (encodeWrite c (\<lambda>b. WHeaders (ss_id (strm sc s)) b endStream prio) fs sc)"
| promise: "\<not> sc_closed sc \<Longrightarrow> lookupStream sc (ss_id (strm sc s)) \<noteq> None \<Longrightarrow>
    atomic c sc (encodeWrite c (WPushPromise (ss_id (strm sc s)) pid) fs sc)"
| data: "\<not> sc_closed sc \<Longrightarrow> Writable (ss_st (strm sc s)) \<Longrightarrow>
    atomic c sc (fst (frWrite c (WData (ss_id (strm sc s)) p fin) sc))"
| reset: "\<not> sc_closed sc \<Longrightarrow> WasReset (ss_st (strm sc s)) \<Longrightarrow>
    atomic c sc (markStreamDone (ss_id (strm sc s)) (fst (frWrite c (WRSTStream (ss_id (strm sc s)) code) sc)))"
| resetID: "\<not> sc_closed sc \<Longrightarrow> \<not> sc_readerDone sc \<Longrightarrow> \<not> isIdleStream sc sid \<Longrightarrow>
    (\<And>s. lookupStream sc sid = Some s \<Longrightarrow> WasReset (ss_st (strm sc s))) \<Longrightarrow>
    atomic c sc (markStreamDone sid (fst (frWrite c (WRSTStream sid code) sc)))"
| control: "isControl f \<Longrightarrow> atomic c sc (fst (frWrite c f sc))"
| goaway: "atomic c sc (fst (frWrite c (WGoAway (snd (clampGoAwayID sid sc)) code) (fst (clampGoAwayID sid sc))))"
| close: "atomic c sc (sc\<lparr>sc_closed := True\<rparr>)"
| settings: "validatePeerSettings s = None \<Longrightarrow> atomic c sc (settle s sc)"
| panicClosed: "ss_evClosed (strm sc s) \<Longrightarrow> \<not> sc_readerDone sc \<Longrightarrow> atomic c sc (sc\<lparr>sc_panicked := True\<rparr>)"
| panicSlice: "maxWindow < dataMaxFrame sc \<Longrightarrow> atomic c sc (sc\<lparr>sc_panicked := True\<rparr>)"

abbreviation atomics :: "codec \<Rightarrow> ServerConn \<Rightarrow> ServerConn \<Rightarrow> bool" where
  "atomics c \<equiv> (atomic c)\<^sup>*\<^sup>*"


section \<open>Building sequences of sections\<close>

lemma atomicsI: "atomics c sc0 sc \<Longrightarrow> atomic c sc sc' \<Longrightarrow> atomics c sc0 sc'"
  by (rule rtranclp.rtrancl_into_rtrancl)

lemma at_other: "atomics c sc0 sc \<Longrightarrow> agree sc sc' \<Longrightarrow> atomics c sc0 sc'"
  by (blast intro: atomicsI atomic.other)

lemma agree_refl [simp]: "agree sc sc"
  by (simp add: agree_def)

lemma agree_fields [simp]:
  "agree sc (bumpFramesSent sc)" "agree sc (wakeSel P sc)" "agree sc (notePeerGoAway sc)"
  "agree sc (deliverPingAck payload sc)" "agree sc (Ping_abandon payload sc)" "agree sc (transportClose sc)"
  "agree sc (fst (onClientRSTStream rapid sc))" "agree sc (fst (decodeBlock c hb sc))"
  "agree sc (fst (AcceptStream ctxErr sc))"
  "agree sc (sc\<lparr>sc_framesReceived := n\<rparr>)" "agree sc (sc\<lparr>sc_spawned := sp\<rparr>)" "agree sc (sc\<lparr>sc_acceptCh := q\<rparr>)"
  "agree sc (sc\<lparr>sc_goAwayRequested := b\<rparr>)" "agree sc (sc\<lparr>sc_connCancelled := b\<rparr>)"
  "agree sc (sc\<lparr>sc_rapidResetCount := r\<rparr>)" "agree sc (sc\<lparr>sc_decSeen := ds\<rparr>)"
  "agree sc (sc\<lparr>sc_pingWaiters := pw\<rparr>)" "agree sc (sc\<lparr>sc_pingCounter := k, sc_pingWaiters := pw\<rparr>)"
  "agree sc (sc\<lparr>sc_connRecvWindow := w\<rparr>)" "agree sc (sc\<lparr>sc_connRefundPending := u\<rparr>)"
  "agree sc (sc\<lparr>sc_connRefundPending := u, sc_connRecvWindow := w\<rparr>)"
  by (simp_all add: agree_def)

lemma at_quiet: "atomics c sc0 sc \<Longrightarrow> quiet f \<Longrightarrow> atomics c sc0 (upds s f sc)"
  by (blast intro: atomicsI atomic.local)

lemma at_mark: "atomics c sc0 sc \<Longrightarrow> atomics c sc0 (upds s (ss_advance d) sc)"
  by (blast intro: atomicsI atomic.mark)

lemma quiet_simps [simp]:
  "quiet cancelCtx" "quiet (setPriority prio)" "quiet (\<lambda>ss. ss\<lparr>ss_ctxBound := True\<rparr>)"
  "quiet (\<lambda>ss. ss\<lparr>ss_recvWindow := w ss\<rparr>)" "quiet (\<lambda>ss. ss\<lparr>ss_recvRefundPending := r ss\<rparr>)"
  "quiet (\<lambda>ss. ss\<lparr>ss_recvRefundPending := r ss, ss_recvWindow := w ss\<rparr>)"
  by (simp_all add: quiet_def cancelCtx_def setPriority_def split: option.split)

lemma agree_writeCounted: "agree (fst (frWrite c f sc)) (fst (writeCounted c f sc))"
  by (simp add: writeCounted_def case_prod_beta split: option.splits prod.splits)

lemma at_counted: "atomics c sc0 (fst (frWrite c f sc)) \<Longrightarrow> atomics c sc0 (fst (writeCounted c f sc))"
  by (rule at_other [OF _ agree_writeCounted])

lemma at_control: "atomics c sc0 sc \<Longrightarrow> isControl f \<Longrightarrow> atomics c sc0 (fst (frWrite c f sc))"
  by (blast intro: atomicsI atomic.control)

lemma at_release: "atomics c sc0 sc \<Longrightarrow> releasable c sid sc \<Longrightarrow> atomics c sc0 (markStreamDone sid sc)"
  by (blast intro: atomicsI atomic.release)

lemma markStreamDone_agree:
  "agree sc sc' \<Longrightarrow> agree (markStreamDone sid sc) (markStreamDone sid sc')"
  by (auto simp: agree_def markStreamDone_def upds_def split: option.splits prod.splits)

text \<open>Small operations.\<close>

named_theorems at_intros \<open>operations as sequences of sections\<close>

lemma at_writeSettingsAck [at_intros]: "atomics c sc0 sc \<Longrightarrow> atomics c sc0 (fst (writeSettingsAck c sc))"
  by (auto simp: writeSettingsAck_def intro!: at_counted at_control)

lemma at_writePingAck [at_intros]: "atomics c sc0 sc \<Longrightarrow> atomics c sc0 (fst (writePingAck c payload sc))"
  by (auto simp: writePingAck_def intro!: at_counted at_control)

lemma at_writeWindowUpdate [at_intros]:
  "atomics c sc0 sc \<Longrightarrow> atomics c sc0 (fst (writeWindowUpdate c sid n sc))"
  by (auto simp: writeWindowUpdate_def intro!: at_counted at_control)

lemma writeServerRSTStream_fst:
  "fst (writeServerRSTStream c s code sc) =
     (let sc1 = upds s (ss_advance stReset) sc in
      if sc_closed sc then markStreamDone (ss_id (strm sc s)) sc1
      else markStreamDone (ss_id (strm sc s)) (fst (writeCounted c (WRSTStream (ss_id (strm sc s)) code) sc1)))"
  by (simp add: writeServerRSTStream_def Let_def case_prod_beta strm_upds)

text \<open>A reset, from the point where it has been recorded.\<close>

lemma at_writeServerRSTStream:
  assumes "atomics c sc0 (upds s (ss_advance stReset) sc)"
  shows "atomics c sc0 (fst (writeServerRSTStream c s code sc))"
proof (cases "sc_closed sc")
  case True
  then have "releasable c (ss_id (strm sc s)) (upds s (ss_advance stReset) sc)" by (simp add: releasable_def)
  then show ?thesis using True at_release [OF assms] by (simp add: writeServerRSTStream_fst Let_def)
next
  case False
  let ?sc = "upds s (ss_advance stReset) sc"
  have "atomic c ?sc (markStreamDone (ss_id (strm ?sc s)) (fst (frWrite c (WRSTStream (ss_id (strm ?sc s)) code) ?sc)))"
    by (rule atomic.reset) (simp_all add: False strm_upds)
  then have "atomics c sc0 (markStreamDone (ss_id (strm sc s)) (fst (frWrite c (WRSTStream (ss_id (strm sc s)) code) ?sc)))"
    using atomicsI [OF assms] by (simp add: strm_upds)
  then show ?thesis using False at_other [OF _ markStreamDone_agree [OF agree_writeCounted]]
    by (simp add: writeServerRSTStream_fst Let_def)
qed

lemma at_reset [at_intros]: "atomics c sc0 sc \<Longrightarrow> atomics c sc0 (fst (writeServerRSTStream c s code sc))"
  by (rule at_writeServerRSTStream) (rule at_mark)

lemma at_writeRSTStreamID:
  assumes "atomics c sc0 sc" and "\<not> sc_readerDone sc" and "\<not> isIdleStream sc sid"
  shows "atomics c sc0 (fst (writeRSTStreamID c sid code sc))"
proof (cases "sc_closed sc")
  case False
  define sc1 where "sc1 = (case lookupStream sc sid of None \<Rightarrow> sc | Some s \<Rightarrow> upds s (ss_advance stReset) sc)"
  have sc1: "atomics c sc0 sc1" "sc_closed sc1 = sc_closed sc" "sc_readerDone sc1 = sc_readerDone sc"
    "sc_tbl sc1 = sc_tbl sc"
    using assms(1) by (simp_all add: sc1_def at_mark split: option.splits)
  have "atomic c sc1 (markStreamDone sid (fst (frWrite c (WRSTStream sid code) sc1)))"
    by (rule atomic.resetID)
       (use False assms sc1 in \<open>auto simp: isIdleStream_def lookupStream_def sc1_def strm_upds split: option.splits\<close>)
  then have "atomics c sc0 (markStreamDone sid (fst (writeCounted c (WRSTStream sid code) sc1)))"
    using at_other [OF _ markStreamDone_agree [OF agree_writeCounted]] atomicsI [OF sc1(1)] by blast
  moreover have "markStreamDone sid sc' = sc'" if "tbl_lookup (sc_tbl sc') sid = None" for sc'
    using that by (simp add: markStreamDone_def tbl_release_def tbl_lookup_def)
  ultimately show ?thesis using False
    by (auto simp: writeRSTStreamID_def sc1_def lookupStream_def case_prod_beta Let_def split: option.splits)
qed (use assms in \<open>simp add: writeRSTStreamID_def\<close>)


section \<open>The reader's operations\<close>

lemma eventOk_simps [simp]:
  "eventOk (resetEvent code)" "eventOk (dataEvent p b)"
  by (simp_all add: eventOk_def resetEvent_def dataEvent_def)

lemma wellFormedSection_owned [simp]:
  "wellFormedSection isTrailer b (map owned fs) = wellFormedSection isTrailer b fs"
proof -
  have "owned \<circ> owned = owned" by (rule ext) simp
  then show ?thesis by (simp add: wellFormedSection_def malformedField_def)
qed

lemma eventOk_headers: "wellFormedSection isTrailer b fs \<Longrightarrow> eventOk (headersEvent isTrailer (map owned fs) b)"
  by (cases isTrailer) (simp_all add: eventOk_def headersEvent_def)

lemma at_queue:
  "atomics c sc0 sc \<Longrightarrow> \<not> ss_evClosed (strm sc s) \<Longrightarrow> \<not> chanFull (strm sc s) \<Longrightarrow> eventOk e \<Longrightarrow>
     atomics c sc0 (chanSend s e sc)"
  by (blast intro: atomicsI atomic.queue)

lemma at_push [at_intros]:
  assumes "atomics c sc0 sc" and "\<not> sc_readerDone sc" and "eventOk e"
  shows "atomics c sc0 (push s e sc)"
proof -
  let ?sc1 = "upds s (ss_advance stReset) sc"
  let ?sc2 = "?sc1\<lparr>sc_spawned := sc_spawned ?sc1 @ [(s, ErrCodeInternalError)]\<rparr>"
  have 1: "atomics c sc0 ?sc1" by (rule at_mark [OF assms(1)])
  have 2: "atomics c sc0 ?sc2" by (rule at_other [OF 1]) simp
  have p: "atomics c sc0 (sc\<lparr>sc_panicked := True\<rparr>)" if "ss_evClosed (strm sc s)"
    by (rule atomicsI [OF assms(1) atomic.panicClosed [OF that assms(2)]])
  have f: "chanFull (strm ?sc2 s) = chanFull (strm sc s)" by (simp add: chanFull_def strm_upds)
  show ?thesis using assms(1,3) 1 2 p f by (auto simp: push_def Let_def intro: at_queue)
qed

lemma cancel_commutes:
  "upds s (ss_advance d) (upds s cancelCtx sc) = upds s cancelCtx (upds s (ss_advance d) sc)"
  "upds s cancelCtx (upds x cancelCtx sc) = upds x cancelCtx (upds s cancelCtx sc)"
  "fst (writeServerRSTStream c s code (upds s cancelCtx sc)) = upds s cancelCtx (fst (writeServerRSTStream c s code sc))"
proof -
  show 1: "upds s (ss_advance d) (upds s cancelCtx sc) = upds s cancelCtx (upds s (ss_advance d) sc)" for d sc
    by (cases "strm sc s") (simp add: upds_def cancelCtx_def ss_advance_def)
  show 2: "upds s cancelCtx (upds x cancelCtx sc) = upds x cancelCtx (upds s cancelCtx sc)" for sc x
    by (cases "s = x") (simp_all add: upds_def fun_upd_twist)
  have 3: "markStreamDone sid (upds s cancelCtx sc) = upds s cancelCtx (markStreamDone sid sc)" for sid sc
    using 2 [of _ "sc\<lparr>sc_tbl := fst (tbl_release (sc_tbl sc) sid)\<rparr>"]
    by (simp add: markStreamDone_def case_prod_beta upds_def split: option.split prod.split)
  have 4: "writeCounted c f (upds s cancelCtx sc) = (upds s cancelCtx (fst (writeCounted c f sc)), snd (writeCounted c f sc))" for f sc
    by (simp add: writeCounted_def frWrite_def upds_def bumpFramesSent_def split: option.split)
  have 5: "ss_id (strm (upds s cancelCtx sc) s) = ss_id (strm sc s)" "sc_closed (upds s cancelCtx sc) = sc_closed sc" for sc
    by (simp_all add: upds_def cancelCtx_def)
  show "fst (writeServerRSTStream c s code (upds s cancelCtx sc)) = upds s cancelCtx (fst (writeServerRSTStream c s code sc))"
    by (simp add: writeServerRSTStream_def 1 3 4 5 Let_def case_prod_beta)
qed

lemma at_open:
  assumes "atomics c sc0 sc" and "tbl_validateClientID (sc_tbl sc) sid = None" and "\<not> sc_readerDone sc"
  shows "atomics c sc0 (fst (registerStream c sid (sc_next sc)
           (upds (sc_next sc) (setPriority prio) (fst (allocStream (newServerStream sid cap seed) sc)))))"
proof -
  let ?s = "sc_next sc"
  define sc2 where "sc2 = upds ?s (\<lambda>ss. ss\<lparr>ss_ctxBound := True\<rparr>)
    (upds ?s (setPriority prio) (fst (allocStream (newServerStream sid cap seed) sc)))"
  define r where "r = tbl_admitClient (peerWindow sc2) (sc_tbl sc2) (sc_objs sc2) sid ?s
                  (uint (MaxConcurrentStreams (advSettings (sc_opts sc2))))"
  let ?sc3 = "sc2\<lparr>sc_tbl := fst r, sc_objs := fst (snd r)\<rparr>"
  have adm: "admission sid cap seed prio sc = (if snd (snd r) then ?sc3 else upds ?s cancelCtx (upds ?s (ss_advance stReset) ?sc3))"
    by (simp add: admission_def r_def sc2_def allocStream_def Let_def case_prod_beta)
  have "atomics c sc0 (admission sid cap seed prio sc)" by (rule atomicsI [OF assms(1) atomic.admit [OF assms(2,3)]])
  then have ok: "snd (snd r) \<Longrightarrow> atomics c sc0 ?sc3"
    and refused: "\<not> snd (snd r) \<Longrightarrow> atomics c sc0 (upds ?s (ss_advance stReset) (upds ?s cancelCtx ?sc3))"
    by (simp_all add: adm cancel_commutes)
  have q: "atomics c sc0 (?sc3\<lparr>sc_acceptCh := q\<rparr>)" if "snd (snd r)" for q
    by (rule at_other [OF ok [OF that]]) simp
  show ?thesis
  proof (cases "snd (snd r)")
    case True
    then show ?thesis using ok q
      by (simp add: registerStream_def sc2_def [symmetric] r_def [symmetric] Let_def case_prod_beta at_quiet at_reset)
  next
    case False
    then show ?thesis using at_writeServerRSTStream [OF refused]
      by (simp add: registerStream_def sc2_def [symmetric] r_def [symmetric] Let_def case_prod_beta cancel_commutes)
  qed
qed

lemma at_applyPeerSettings [at_intros]:
  assumes "atomics c sc0 sc"
  shows "atomics c sc0 (fst (applyPeerSettings s sc))"
proof (cases "validatePeerSettings s")
  case None
  have "atomics c sc0 (settle s sc)" by (rule atomicsI [OF assms atomic.settings [OF None]])
  moreover have "agree (settle s sc) (fst (applyPeerSettings s sc))"
    using None by (simp add: applyPeerSettings_def settle_def peerWindow_def agree_def Let_def case_prod_beta
        wakeSel_def split: option.split)
  ultimately show ?thesis by (rule at_other)
qed (simp add: applyPeerSettings_def assms)

lemma at_onWindowUpdate [at_intros]:
  assumes "atomics c sc0 sc" and "\<not> sc_readerDone sc"
  shows "atomics c sc0 (fst (onWindowUpdate c sid n sc))"
proof -
  have 1: "atomics c sc0 (wakeConn (sc\<lparr>sc_peerConnSendWindow := int32 (sc_peerConnSendWindow sc + uint n)\<rparr>))"
    if "sc_peerConnSendWindow sc + uint n \<le> maxWindow"
    by (rule at_other [OF atomicsI [OF assms(1) atomic.grantConn [OF _ that]]]) simp_all
  have 2: "atomics c sc0 (wakeStream s (upds s (\<lambda>ss. ss\<lparr>ss_sendWindow := int32 (ss_sendWindow (strm sc s) + uint n)\<rparr>) sc))"
    if "ss_sendWindow (strm sc s) + uint n \<le> maxWindow" for s
    by (rule at_other [OF atomicsI [OF assms(1) atomic.grant [OF _ that]]]) simp_all
  show ?thesis using assms 1 2
    by (auto simp: onWindowUpdate_def Let_def case_prod_beta not_less
        intro!: at_reset at_push at_mark split: option.split)
qed

lemma at_connDebit [at_intros]:
  assumes "atomics c sc0 sc"
  shows "atomics c sc0 (fst (connDebit c n sc))"
proof -
  have "atomics c sc0 (sc\<lparr>sc_connRefundPending := u, sc_connRecvWindow := w\<rparr>)"
    "atomics c sc0 (sc\<lparr>sc_connRecvWindow := w\<rparr>)" "atomics c sc0 (sc\<lparr>sc_connRecvWindow := w, sc_connRefundPending := u\<rparr>)"
    for u w by (rule at_other [OF assms], simp add: agree_def)+
  then show ?thesis by (simp add: connDebit_def Let_def at_writeWindowUpdate)
qed

lemma at_onDataReceived [at_intros]:
  "atomics c sc0 sc \<Longrightarrow> atomics c sc0 (fst (onDataReceived c so n sc))"
  by (auto simp: onDataReceived_def Let_def intro!: at_connDebit at_quiet split: option.split)


section \<open>The application's operations\<close>

lemma at_writeServerHeaders [at_intros]:
  assumes "atomics c sc0 sc"
  shows "atomics c sc0 (fst (writeServerHeaders c s fs endStream prio sc))"
proof -
  have w: "atomics c sc0 (fst (writeCounted c (WHeaders (ss_id (strm sc s)) (cEncode c (sc_encDone sc) fs) endStream prio')
      (sc\<lparr>sc_encDone := sc_encDone sc @ [EncBlock fs]\<rparr>)))"
    if "\<not> sc_closed sc" "authorizeSend (strm sc s) = None" for prio'
    using atomicsI [OF assms atomic.headers [of sc s, OF that(1)]] that(2)
    by (intro at_counted) (simp add: encodeWrite_def authorizeSend_def split: if_splits)
  show ?thesis using assms w by (simp add: writeServerHeaders_def Let_def split: option.split)
qed

lemma releasable_ended: "\<not> Writable (ss_st (strm sc s)) \<Longrightarrow> releasable c (ss_id (strm sc s)) sc"
  by (auto simp: releasable_def)

lemma at_endLocal [at_intros]:
  assumes "atomics c sc0 sc"
  shows "atomics c sc0 (endLocal s sc)"
proof -
  have u: "upds s (\<lambda>_. ss_advance stSentEnded (strm sc s)) sc = upds s (ss_advance stSentEnded) sc"
    by (simp add: upds_def)
  let ?sc = "upds s (ss_advance stSentEnded) sc"
  have "releasable c (ss_id (strm ?sc s)) ?sc" by (rule releasable_ended) (simp add: Writable_iff strm_upds)
  then show ?thesis using at_mark [OF assms, of s stSentEnded]
    by (auto simp: endLocal_def markLocalEnd_def u strm_upds Let_def intro: at_release)
qed

lemma at_SendHeadersWithPriority [at_intros]:
  assumes "atomics c sc0 sc"
  shows "atomics c sc0 (fst (SendHeadersWithPriority c s fs endStream prio sc))"
  using at_writeServerHeaders [OF assms, of s fs endStream prio] assms
  by (auto simp: SendHeadersWithPriority_def Let_def case_prod_beta intro!: at_endLocal at_mark split: option.split prod.split)

lemma at_acquireSendCredits:
  assumes "atomics c sc0 sc" and "n \<le> maxWindow \<or> maxWindow < dataMaxFrame sc"
  shows "atomics c sc0 (fst (acquireSendCredits ctxErr s n sc))"
proof -
  have "atomics c sc0 (fst (takeSendCredits s n sc))" if "0 < n"
    by (rule atomicsI [OF assms(1) atomic.debit [OF that assms(2)]])
  then show ?thesis using assms(1)
    by (auto simp: acquireSendCredits_def case_prod_beta not_le split: option.split)
qed

lemma dataMaxFrame_cong: "sc_peerSettings sc' = sc_peerSettings sc \<Longrightarrow> sc_opts sc' = sc_opts sc \<Longrightarrow> dataMaxFrame sc' = dataMaxFrame sc"
  by (simp add: dataMaxFrame_def)

lemma dataMaxFrame_pos: "1 \<le> dataMaxFrame sc"
  by (simp add: dataMaxFrame_def Let_def)

lemma at_writeServerDataChunks:
  assumes "atomics c sc0 sc" and "\<not> sc_closed sc" and "m = dataMaxFrame sc"
  shows "atomics c sc0 (fst (writeServerDataChunks c ctxErr s p m b sc))"
proof -
  let ?P = "\<lambda>sc'. atomics c sc0 sc' \<and> \<not> sc_closed sc' \<and> sc_peerSettings sc' = sc_peerSettings sc
    \<and> sc_opts sc' = sc_opts sc"
  have D: "dataMaxFrame sc' = m" if "?P sc'" for sc' using that assms(3) dataMaxFrame_cong [of sc' sc] by simp
  have "?P (fst (writeServerDataChunks c ctxErr s p m b sc))"
  proof (rule writeServerDataChunks_invariant [where P = ?P])
    fix n sc' assume P: "?P sc'" and n: "n \<le> m"
    have "atomics c sc0 (fst (acquireSendCredits ctxErr s n sc'))"
    proof (rule at_acquireSendCredits)
      show "n \<le> maxWindow \<or> maxWindow < dataMaxFrame sc'" using n D [OF P] by linarith
    qed (use P in blast)
    then show "?P (fst (acquireSendCredits ctxErr s n sc'))" using P by simp
  next
    fix sc' assume P: "?P sc'" and m: "m < 1 \<or> maxWindow < m"
    have "maxWindow < dataMaxFrame sc'" using m D [OF P] dataMaxFrame_pos [of sc'] by linarith
    then have "atomics c sc0 (sc'\<lparr>sc_panicked := True\<rparr>)" by (rule atomicsI [OF conjunct1 [OF P] atomic.panicSlice])
    then show "?P (sc'\<lparr>sc_panicked := True\<rparr>)" using P by simp
  next
    fix n sc' assume P: "?P sc'"
    show "?P (releaseSendCredits s n sc')"
      using P atomicsI [OF conjunct1 [OF P] atomic.refund [of c sc' s n]] by simp
  next
    fix d l sc' assume P: "?P sc'" and w: "authorizeSend (strm sc' s) = None"
    have "Writable (ss_st (strm sc' s))" using w by (simp add: authorizeSend_def split: if_splits)
    then have "atomic c sc' (fst (frWrite c (WData (ss_id (strm sc' s)) d l) sc'))" using P by (intro atomic.data) simp
    then show "?P (fst (writeCounted c (WData (ss_id (strm sc' s)) d l) sc'))"
      using P at_counted [OF atomicsI [OF conjunct1 [OF P]]] by simp
  qed (use assms in simp)
  then show ?thesis by blast
qed

lemma at_SendData [at_intros]:
  assumes "atomics c sc0 sc"
  shows "atomics c sc0 (fst (SendData c ctxErr s p b sc))"
proof -
  have e: "atomics c sc0 (fst (writeCounted c (WData (ss_id (strm sc s)) [] True) sc))"
    if "\<not> sc_closed sc" "authorizeSend (strm sc s) = None"
    using that atomicsI [OF assms atomic.data [of sc s]] by (intro at_counted) (simp add: authorizeSend_def split: if_splits)
  have "atomics c sc0 (fst (writeServerData c ctxErr s p b sc))"
    using assms e at_writeServerDataChunks [OF assms, of "dataMaxFrame sc" ctxErr s p b]
    by (auto simp: writeServerData_def Let_def case_prod_beta split: option.split prod.split)
  then show ?thesis using assms
    by (auto simp: SendData_def case_prod_beta intro!: at_endLocal split: sendResult.split prod.split)
qed

lemma at_creditConsumed [at_intros]:
  assumes "atomics c sc0 sc"
  shows "atomics c sc0 (creditConsumed c s e sc)"
  using assms by (auto simp: creditConsumed_def Let_def intro!: at_writeWindowUpdate at_quiet)

lemma at_Recv [at_intros]:
  assumes "atomics c sc0 sc"
  shows "atomics c sc0 (fst (Recv c ctxErr s sc))"
  using assms atomicsI [OF assms atomic.take [of sc s]]
  by (auto simp: Recv_def intro!: at_creditConsumed split: list.split option.split)

lemma at_StreamClose [at_intros]:
  "atomics c sc0 sc \<Longrightarrow> atomics c sc0 (fst (StreamClose c s sc))"
  by (auto simp: StreamClose_def Let_def intro!: at_reset at_mark)


lemma markStreamDone_live:
  "lookupStream sc sid = Some s \<Longrightarrow> markStreamDone sid sc = upds s cancelCtx (sc\<lparr>sc_tbl := fst (tbl_release (sc_tbl sc) sid)\<rparr>)"
  using snd_release [of "sc_tbl sc" sid]
  by (cases "tbl_release (sc_tbl sc) sid") (simp add: markStreamDone_def lookupStream_def)

lemma at_writePushPromise [at_intros]:
  assumes "atomics c sc0 sc" and "pushRoom (sc_tbl sc)"
  shows "atomics c sc0 (fst (writePushPromise c parent fs sc))"
proof -
  let ?ps = "sc_next sc"
  define sc1 where "sc1 = fst (allocStream newPushStream sc)"
  define r where "r = tbl_reservePush (peerWindow sc1) (sc_tbl sc1) (sc_objs sc1) ?ps
    (settingValue (sc_peerSettings sc) SettingMaxConcurrentStreams noStreamLimit)"
  define sc2 where "sc2 = sc1\<lparr>sc_tbl := fst r, sc_objs := fst (snd r)\<rparr>"
  have res: "reservation sc = sc2"
    by (simp add: reservation_def sc2_def r_def sc1_def allocStream_def Let_def case_prod_beta)
  let ?ready = "\<not> sc_closed sc \<and> lookupStream sc (ss_id (strm sc parent)) = Some parent
      \<and> fieldsFitFrame fs (maxWritableFrame sc - 4)"
  have 2: "atomics c sc0 sc2" if "lookupStream sc (ss_id (strm sc parent)) = Some parent"
    using atomicsI [OF assms(1) atomic.reserve [OF assms(2)]] res that by (metis option.distinct(1))
  show ?thesis
  proof (cases "?ready \<and> snd (snd r) \<noteq> None")
    case False
    then show ?thesis using assms(1) at_quiet [OF 2, of cancelCtx ?ps]
      by (auto simp: writePushPromise_def Let_def case_prod_beta sc1_def r_def sc2_def allocStream_def)
  next
    case True
    then obtain pid where pid: "snd (snd r) = Some pid" by auto
    then have S: "pid = nextPush (sc_tbl sc1)" "streams (fst r) = aput pid ?ps (streams (sc_tbl sc1))"
      "fst (snd r) = (sc_objs sc1)(?ps := (sc_objs sc1 ?ps)\<lparr>ss_id := pid, ss_sendWindow := sint (peerWindow sc1)\<rparr>)"
      by (auto simp: r_def tbl_reservePush_def Let_def split: if_splits)
    let ?f = "WPushPromise (ss_id (strm sc2 parent)) pid"
    have live: "lookupStream sc2 pid = Some ?ps" using S by (simp add: sc2_def lookupStream_def tbl_lookup_def)
    have "lookupStream sc2 (ss_id (strm sc2 parent)) \<noteq> None"
      using S True by (auto simp: sc2_def sc1_def allocStream_def lookupStream_def tbl_lookup_def)
    moreover have "\<not> sc_closed sc2" using True by (simp add: sc2_def sc1_def allocStream_def)
    ultimately have 3: "atomics c sc0 (encodeWrite c ?f fs sc2)" using atomicsI [OF 2 atomic.promise] True by blast
    define sc3 where "sc3 = sc2\<lparr>sc_encDone := sc_encDone sc2 @ [EncBlock fs]\<rparr>"
    let ?b = "cEncode c (sc_encDone sc2) fs"
    have enc: "encodeWrite c ?f fs sc2 = fst (frWrite c (?f ?b) sc3)" by (simp add: encodeWrite_def sc3_def)
    have unfold: "fst (writePushPromise c parent fs sc) =
      (case frWrite c (?f ?b) sc3 of
         (sc, Some e) \<Rightarrow> upds ?ps cancelCtx (sc\<lparr>sc_tbl := fst (tbl_release (sc_tbl sc) pid)\<rparr>)
       | (sc, None) \<Rightarrow> bumpFramesSent sc)"
      using True pid by (simp add: writePushPromise_def Let_def case_prod_beta sc1_def r_def sc2_def sc3_def
          allocStream_def split: option.split)
    show ?thesis
    proof (cases "cWrite c (sc_wire sc3) (?f ?b)")
      case None
      then show ?thesis using at_other [OF 3, of "bumpFramesSent (encodeWrite c ?f fs sc2)"] enc
        by (simp add: unfold frWrite_def)
    next
      case (Some e)
      then have "encodeWrite c ?f fs sc2 = sc3" using enc by (simp add: frWrite_def)
      moreover have "lookupStream sc3 pid = Some ?ps" using live by (simp add: sc3_def lookupStream_def)
      moreover have "releasable c pid sc3" using Some by (auto simp: releasable_def failed_def)
      ultimately show ?thesis using at_release [of c sc0 sc3 pid] 3 Some
        by (simp add: unfold frWrite_def markStreamDone_live)
    qed
  qed
qed

lemma at_PushWithPriority [at_intros]:
  assumes "atomics c sc0 sc" and "pushRoom (sc_tbl sc)"
  shows "atomics c sc0 (fst (PushWithPriority c s fs prio sc))"
  using assms at_writePushPromise [OF assms, of s fs]
  by (auto simp: PushWithPriority_def Push_def case_prod_beta intro!: at_quiet split: sum.split prod.split)

lemma at_Ping_send [at_intros]:
  assumes "atomics c sc0 sc"
  shows "atomics c sc0 (fst (Ping_send c sc))"
proof -
  let ?n = "sc_pingCounter sc + 1"
  let ?sc = "sc\<lparr>sc_pingCounter := ?n, sc_pingWaiters := aput ?n (unat ?n) (sc_pingWaiters sc)\<rparr>"
  have "atomics c sc0 ?sc" by (rule at_other [OF assms]) simp
  then have w: "atomics c sc0 (fst (writeCounted c (WPing False ?n) ?sc))" by (intro at_counted at_control) simp_all
  show ?thesis using assms w at_other [OF w]
    by (simp add: Ping_send_def Let_def case_prod_beta split: option.split prod.split)
qed

lemma at_runSpawned [at_intros]:
  assumes "atomics c sc0 sc"
  shows "atomics c sc0 (runSpawned c sc)"
proof -
  have "atomics c sc0 (sc\<lparr>sc_spawned := q\<rparr>)" for q by (rule at_other [OF assms]) (simp add: agree_def)
  then show ?thesis using assms by (simp add: runSpawned_def at_reset split: list.split prod.split)
qed

section \<open>GOAWAY and the end of the connection\<close>

lemma at_writeGoAway [at_intros]:
  "atomics c sc0 sc \<Longrightarrow> atomics c sc0 (fst (writeGoAway c sid code sc))"
  using atomicsI [of c sc0 sc, OF _ atomic.goaway] by (simp add: writeGoAway_def case_prod_beta at_counted)

lemma at_requested: "atomics c sc0 sc \<Longrightarrow> atomics c sc0 (sc\<lparr>sc_goAwayRequested := b\<rparr>)"
  by (rule at_other) (simp_all add: agree_def)

lemma at_GoAwayGraceful [at_intros]: "atomics c sc0 sc \<Longrightarrow> atomics c sc0 (fst (GoAwayGraceful c sc))"
  by (auto simp: GoAwayGraceful_def Let_def intro!: at_writeGoAway at_requested)

lemma at_GoAway [at_intros]: "atomics c sc0 sc \<Longrightarrow> atomics c sc0 (fst (GoAway c code sc))"
  by (auto simp: GoAway_def Let_def intro!: at_writeGoAway at_requested)

lemma at_sendGoAway [at_intros]: "atomics c sc0 sc \<Longrightarrow> atomics c sc0 (sendGoAway c code sc)"
  by (auto simp: sendGoAway_def Let_def intro!: at_writeGoAway at_requested)

lemma at_ConnClose [at_intros]:
  assumes "atomics c sc0 sc"
  shows "atomics c sc0 (ConnClose c sc)"
proof -
  let ?sc = "wakeAll (sc\<lparr>sc_closed := True, sc_connCancelled := True\<rparr>)"
  have "atomics c sc0 (sc\<lparr>sc_closed := True, sc_connCancelled := True\<rparr>)"
    using at_other [OF atomicsI [OF assms atomic.close], of "sc\<lparr>sc_closed := True, sc_connCancelled := True\<rparr>"]
    by (simp add: agree_def)
  then have "atomics c sc0 ?sc" by (rule at_other) simp
  then have g: "atomics c sc0 (fst (writeGoAway c (lastPeerStreamID ?sc) ErrCodeNoError ?sc))" by (rule at_writeGoAway)
  have t: "atomics c sc0 (transportClose sc')" if "atomics c sc0 sc'" for sc'
    by (rule at_other [OF that]) (simp add: agree_def transportClose_def)
  show ?thesis using assms t [OF g] t [OF at_requested [OF g, of True]]
    by (simp add: ConnClose_def Let_def case_prod_beta split: option.split prod.split)
qed

lemma at_readerExit:
  assumes "atomics c sc0 sc" and "\<not> sc_readerDone sc"
  shows "atomics c sc0 (readerExit code c sc)"
proof -
  define sc1 where "sc1 = (case code of Some code \<Rightarrow> transportClose (sendGoAway c code sc) | None \<Rightarrow> sc)"
  have "atomics c sc0 (transportClose (sendGoAway c k sc))" for k
    by (rule at_other [OF at_sendGoAway [OF assms(1)]]) (simp add: agree_def transportClose_def)
  then have "atomics c sc0 sc1" using assms(1) by (simp add: sc1_def split: option.split)
  moreover have "\<not> sc_readerDone sc1" using assms(2) by (simp add: sc1_def split: option.split)
  ultimately have "atomics c sc0 ((shutdownStreams sc1)\<lparr>sc_readerDone := True\<rparr>)" by (blast intro: atomicsI atomic.drain)
  then show ?thesis by (simp add: readerExit_def sc1_def Let_def)
qed


section \<open>The callbacks\<close>

lemma status431_fits: "fieldsFitFrame status431Fields n \<longleftrightarrow> 19 \<le> n"
  by (auto simp: fieldsFitFrame_def status431Fields_def fieldLineOverhead_def)

lemma failed_encoded: "cWrite c (sc_wire sc) f = Some e \<Longrightarrow> failed c (sc\<lparr>sc_encDone := ops\<rparr>)"
  unfolding failed_def by (intro exI) simp

lemma releasable_431:
  "releasable c (ss_id (strm sc s)) (fst (SendHeaders c s status431Fields True sc))"
proof (cases "Writable (ss_st (strm sc s))")
  case False
  then show ?thesis by (simp add: SendHeaders_def SendHeadersWithPriority_def releasable_ended)
next
  case True
  obtain sc1 e where w: "writeServerHeaders c s status431Fields True None sc = (sc1, e)" by (metis surj_pair)
  show ?thesis
  proof (cases e)
    case None
    let ?sc = "endLocal s (upds s (ss_advance stSentFields) sc1)"
    have "\<not> Writable (ss_st (strm ?sc s))"
      by (simp add: endLocal_def markLocalEnd_def Let_def strm_upds Writable_iff)
    moreover have "ss_id (strm ?sc s) = ss_id (strm sc s)"
      using writeServerHeaders_frame(4) [of c s status431Fields True None sc] w by (simp add: strm_upds)
    ultimately show ?thesis using True None w releasable_ended [of ?sc s c]
      by (simp add: SendHeaders_def SendHeadersWithPriority_def Let_def)
  next
    case (Some err)
    then have "fst (SendHeaders c s status431Fields True sc) = sc1"
      using True w by (simp add: SendHeaders_def SendHeadersWithPriority_def)
    moreover have "sc_closed sc1 \<or> failed c sc1 \<or> maxWritableFrame sc1 < 24"
      using w Some True
      by (auto simp: writeServerHeaders_def authorizeSend_def Let_def status431_fits writeCounted_def frWrite_def
          not_le split: if_splits option.splits intro: failed_encoded)
    ultimately show ?thesis by (auto simp: releasable_def)
  qed
qed

lemma at_respondFieldsTooLarge [at_intros]:
  assumes "atomics c sc0 sc"
  shows "atomics c sc0 (respondFieldsTooLarge c so sc)"
  using assms at_release [OF at_SendHeadersWithPriority [OF assms] releasable_431 [unfolded SendHeaders_def]]
  by (auto simp: respondFieldsTooLarge_def SendHeaders_def case_prod_beta Let_def split: option.split)

lemma at_decoded: "atomics c sc0 sc \<Longrightarrow> atomics c sc0 (sc\<lparr>sc_decSeen := ds\<rparr>)"
  by (rule at_other) (simp_all add: agree_def)

lemma at_discardHeaderBlock [at_intros]:
  "atomics c sc0 sc \<Longrightarrow> atomics c sc0 (snd (fst (discardHeaderBlock c hb (h, sc))))"
  by (simp add: discardHeaderBlock_def decodeBlock_def Let_def case_prod_beta at_decoded split: option.split)

lemma strm_push_id: "ss_id (strm (push s e sc) x) = ss_id (strm sc x)" by simp

lemma push_st: "\<not> Writable (ss_st (strm sc x)) \<Longrightarrow> \<not> Writable (ss_st (strm (push s e sc) x))"
  by (auto simp: push_def chanSend_def strm_upds Let_def Writable_iff)

lemma at_deliverEvent [at_intros]:
  assumes "atomics c sc0 sc" and "\<not> sc_readerDone sc" and "eventOk e"
    and "sid = ss_id (strm sc s) \<or> lookupStream sc sid = Some s"
  shows "atomics c sc0 (deliverEvent s sid b e sc)"
proof (cases b)
  case False
  then show ?thesis using at_push [OF assms(1-3), of s] by (simp add: deliverEvent_def)
next
  case True
  let ?sc1 = "upds s (\<lambda>ss. fst (markRemoteEnd ss)) sc"
  have u: "(\<lambda>ss. fst (markRemoteEnd ss)) = ss_advance stRecvEnded" by (rule ext) (simp add: markRemoteEnd_def)
  have p: "atomics c sc0 (push s e ?sc1)" using at_push [OF at_mark [OF assms(1), of s stRecvEnded] _ assms(3), of s] assms(2) u by simp
  have "releasable c sid (push s e ?sc1)" if "LocalEnded (ss_st (strm sc s))"
  proof -
    have "\<not> Writable (ss_st (strm ?sc1 s))" using that by (simp add: strm_upds u Writable_iff)
    note W = push_st [OF this, of s e]
    from assms(4) show ?thesis
    proof
      assume "sid = ss_id (strm sc s)"
      then have "sid = ss_id (strm (push s e ?sc1) s)" by (simp add: strm_upds u)
      then show ?thesis using releasable_ended [OF W] by simp
    next
      assume "lookupStream sc sid = Some s"
      then have "lookupStream (push s e ?sc1) sid = Some s" by (simp add: lookupStream_def)
      then show ?thesis using W by (auto simp: releasable_def)
    qed
  qed
  then show ?thesis using p True at_release [OF p] by (simp add: deliverEvent_def markRemoteEnd_def Let_def)
qed

lemma at_emitHeaderBlock [at_intros]:
  assumes "atomics c sc0 sc" and "\<not> sc_readerDone sc" and "0 \<le> h_maxHeaderBytes h"
  shows "atomics c sc0 (snd (fst (emitHeaderBlock c s hb endStream isTrailer (h, sc))))"
proof -
  obtain fs e where d: "cDecode c (sc_decSeen sc) hb = (fs, e)" by (metis surj_pair)
  let ?sc = "sc\<lparr>sc_decSeen := sc_decSeen sc @ [hb]\<rparr>"
  have 1: "atomics c sc0 ?sc" by (rule at_decoded [OF assms(1)])
  have "atomics c sc0 (deliverEvent s (ss_id (strm sc s)) endStream (headersEvent isTrailer (map owned fs) endStream) ?sc)"
    if "wellFormedSection isTrailer endStream fs"
    by (rule at_deliverEvent [OF 1]) (use assms(2) eventOk_headers [OF that] in simp_all)
  then show ?thesis using emitHeaderBlock_cases [OF assms(3) d] 1
    by (simp add: Let_def at_respondFieldsTooLarge at_reset split: option.split)
qed

lemma at_OnData [at_intros]:
  assumes "atomics c sc0 sc" and "\<not> sc_readerDone sc"
  shows "atomics c sc0 (snd (fst (OnData c fh p (h, sc))))"
proof -
  let ?so = "lookupStream sc (fStreamID fh)"
  obtain sc1 e where r: "onDataReceived c ?so (fLength fh) sc = (sc1, e)" by (metis surj_pair)
  have 1: "atomics c sc0 sc1" using at_onDataReceived [OF assms(1), of ?so "fLength fh"] r by simp
  have same: "\<not> sc_readerDone sc1" "sc_tbl sc1 = sc_tbl sc"
    using onDataReceived_frame [of c ?so "fLength fh" sc] assms(2) r by simp_all
  have "atomics c sc0 (deliverEvent s (fStreamID fh) (fEndStream fh) (dataEvent p (fEndStream fh)) sc1)" if "?so = Some s" for s
    by (rule at_deliverEvent [OF 1]) (use same that in \<open>simp_all add: lookupStream_def\<close>)
  then show ?thesis using assms(1) 1 r
    by (simp add: OnData_def Let_def at_reset split: option.split)
qed

lemma openStream_eq:
  assumes "openStream c h sid prio sc = Inr (sc1, s, refused)"
  shows "tbl_validateClientID (sc_tbl sc) sid = None"
    and "sc1 = fst (registerStream c sid (sc_next sc) (upds (sc_next sc) (setPriority prio)
           (fst (allocStream (newServerStream sid (nat (h_eventBuf h)) (h_recvWindowSeed h)) sc))))"
    and "s = sc_next sc"
  using assms by (auto simp: openStream_def validateClientStreamID_def allocStream_def Let_def case_prod_beta split: option.splits)

lemma at_headersBlock [at_intros]:
  assumes "atomics c sc0 sc" and "\<not> sc_readerDone sc" and "0 \<le> h_maxHeaderBytes h"
  shows "atomics c sc0 (snd (fst (headersBlock c fh hb s isNew refused (h, sc))))"
  using assms
  by (simp add: headersBlock_def Let_def at_respondFieldsTooLarge at_discardHeaderBlock at_emitHeaderBlock at_mark)

lemma at_OnHeaders [at_intros]:
  assumes "atomics c sc0 sc" and "\<not> sc_readerDone sc" and "0 \<le> h_maxHeaderBytes h"
  shows "atomics c sc0 (snd (fst (OnHeaders c fh hb prio (h, sc))))"
proof (cases "openStream c h (fStreamID fh) prio sc")
  case (Inl e)
  then show ?thesis using assms at_headersBlock [OF assms]
    by (simp add: OnHeaders_def Let_def split: option.split)
next
  case (Inr x)
  then obtain sc1 s refused where x: "openStream c h (fStreamID fh) prio sc = Inr (sc1, s, refused)"
    by (cases x) auto
  note o = openStream_eq [OF x]
  have 1: "atomics c sc0 sc1" using at_open [OF assms(1) o(1) assms(2)] o(2) by simp
  have "\<not> sc_readerDone sc1" using assms(2) o(2) by (simp add: allocStream_def)
  then show ?thesis using assms at_headersBlock [OF assms] at_headersBlock [OF 1 _ assms(3)] x
    by (simp add: OnHeaders_def Let_def split: option.split)
qed

lemma at_OnContinuation [at_intros]:
  assumes "atomics c sc0 sc" and "\<not> sc_readerDone sc" and "0 \<le> h_maxHeaderBytes h"
  shows "atomics c sc0 (snd (fst (OnContinuation c fh hb (h, sc))))"
  using assms
  by (simp add: OnContinuation_def Let_def at_respondFieldsTooLarge at_discardHeaderBlock at_emitHeaderBlock at_mark
      split: option.split)

lemma at_OnRSTStream [at_intros]:
  assumes "atomics c sc0 sc" and "\<not> sc_readerDone sc"
  shows "atomics c sc0 (snd (fst (OnRSTStream fh code (h, sc))))"
proof -
  have r: "atomics c sc0 (fst (onClientRSTStream b sc'))" if "atomics c sc0 sc'" for b sc'
    by (rule at_other [OF that]) simp
  have "atomics c sc0 (markStreamDone (fStreamID fh) (push s (resetEvent code)
      (upds s (\<lambda>_. ss_advance (stRecvEnded OR stReset) (strm sc s)) sc)))" if l: "lookupStream sc (fStreamID fh) = Some s" for s
  proof -
    have u: "upds s (\<lambda>_. ss_advance (stRecvEnded OR stReset) (strm sc s)) sc = upds s (ss_advance (stRecvEnded OR stReset)) sc"
      by (simp add: upds_def)
    let ?sc1 = "upds s (ss_advance (stRecvEnded OR stReset)) sc"
    have "atomics c sc0 (push s (resetEvent code) ?sc1)" by (rule at_push [OF at_mark [OF assms(1)]]) (simp_all add: assms(2))
    moreover have "\<not> Writable (ss_st (strm (push s (resetEvent code) ?sc1) s))"
      by (rule push_st) (simp add: strm_upds Writable_iff)
    ultimately show ?thesis unfolding u using l by (intro at_release) (auto simp: releasable_def lookupStream_def)
  qed
  then show ?thesis using assms(1)
    by (simp add: OnRSTStream_def Let_def case_prod_beta markRemoteEndReset_def r split: option.split)
qed

lemma at_dispatch [at_intros]:
  assumes "atomics c sc0 sc" and "\<not> sc_readerDone sc" and "0 \<le> h_maxHeaderBytes h"
  shows "atomics c sc0 (snd (fst (dispatch c fr (h, sc))))"
proof -
  have "atomics c sc0 (deliverPingAck payload sc)" "atomics c sc0 (notePeerGoAway sc)" for payload
    by (rule at_other [OF assms(1)], simp)+
  moreover have "atomics c sc0 (snd (fst (OnSettings c fh ps (h, sc))))" for fh ps
    using assms(1) at_applyPeerSettings [OF assms(1), of ps] at_writeSettingsAck [OF at_applyPeerSettings [OF assms(1), of ps]]
    by (auto simp: OnSettings_def Let_def case_prod_beta split: option.split prod.split)
  ultimately show ?thesis using assms
    by (cases fr)
       (simp_all add: at_OnData at_OnHeaders at_OnContinuation at_OnRSTStream OnIgnored_def OnPushPromise_def OnPing_def
         OnGoAway_def OnWindowUpdate_def Let_def case_prod_beta at_writePingAck at_onWindowUpdate split: option.split)
qed

end
