(* ===== verification/ConnReach.thy ===== *)
theory ConnReach
  imports ConnRun ConnAtomic
begin

text \<open>
  Every state of a connection is reached by atomic sections: the SETTINGS handshake of
  \<open>NewServerConn\<close> and every run of the connection after it (theory ConnRun) are sequences of the
  sections of theory ConnAtomic. The hypothesis on the number of steps keeps the identifiers of
  pushed streams below 2 to the 32, which the code does not check.
\<close>

section \<open>Runs\<close>

lemma handler_limit [simp]:
  "h_maxHeaderBytes (fst (fst (dispatch c fr (h, sc)))) = h_maxHeaderBytes h"
  by (cases fr)
     (simp_all add: OnData_def OnHeaders_def headersBlock_def OnContinuation_def OnIgnored_def OnRSTStream_def OnSettings_def
       OnPushPromise_def OnPing_def OnGoAway_def OnWindowUpdate_def emitHeaderBlock_def discardHeaderBlock_def Let_def
       case_prod_beta split: option.split sum.split prod.split)

lemma readerIter_limit [simp]:
  "h_maxHeaderBytes (fst (fst (readerIter c fr (h, sc)))) = h_maxHeaderBytes h"
proof -
  obtain h1 sc1 e where d: "dispatch c fr (h, sc) = ((h1, sc1), e)" by (metis surj_pair)
  have "h_maxHeaderBytes h1 = h_maxHeaderBytes h" using handler_limit [of c fr h sc] d by simp
  with d show ?thesis by (cases rule: readerIter_outcome) simp_all
qed

lemma connStep_limit [simp]: "h_maxHeaderBytes (fst (connStep c op hs)) = h_maxHeaderBytes (fst hs)"
  by (cases hs) (simp add: connStep_def split: connOp.split)

lemma at_appStep:
  assumes "atomics c sc0 sc" and "pushRoom (sc_tbl sc)"
  shows "atomics c sc0 (appStep c op sc)"
  using assms at_other [OF assms(1) agree_fields(9)]
  by (cases op) (simp_all add: at_intros at_other)

lemma at_readerIter:
  assumes "atomics c sc0 sc" and "\<not> sc_readerDone sc" and "0 \<le> h_maxHeaderBytes h"
  shows "atomics c sc0 (snd (fst (readerIter c fr (h, sc))))"
proof -
  obtain h1 sc1 e where d: "dispatch c fr (h, sc) = ((h1, sc1), e)" by (metis surj_pair)
  have 1: "atomics c sc0 sc1" "\<not> sc_readerDone sc1"
    using at_dispatch [OF assms, of fr] dispatch_readerDone [of c fr h sc] assms(2) d by simp_all
  from d show ?thesis
  proof (cases rule: readerIter_outcome)
    case ok
    then show ?thesis using at_other [OF 1(1) agree_fields(10)] by simp
  next
    case (reset code)
    then show ?thesis using at_writeRSTStreamID [OF 1] by simp
  next
    case (quit code)
    then show ?thesis using at_readerExit [OF 1] by simp
  qed
qed

text \<open>Room for the promises of \<open>n\<close> more steps.\<close>

lemma appStep_room:
  assumes "room (Suc n) (sc_tbl sc)"
  shows "room n (sc_tbl (appStep c op sc))"
proof (cases "\<exists>s fs prio. op = AppPush s fs prio")
  case True
  then obtain s fs prio where op: "op = AppPush s fs prio" by blast
  have "nextPush (sc_tbl (fst (writePushPromise c s fs sc))) \<in> {nextPush (sc_tbl sc), nextPush (sc_tbl sc) + 2}"
    by (auto simp: writePushPromise_def allocStream_def tbl_reservePush_def Let_def case_prod_beta
        split: option.splits prod.splits)
  moreover have "sc_tbl (fst (PushWithPriority c s fs prio sc)) \<in> {sc_tbl sc, sc_tbl (fst (writePushPromise c s fs sc))}"
    by (auto simp: PushWithPriority_def Push_def split: prod.splits sum.splits)
  ultimately have "nextPush (sc_tbl (appStep c op sc)) \<in> {nextPush (sc_tbl sc), nextPush (sc_tbl sc) + 2}"
    using op by auto
  then show ?thesis using assms by (auto simp: room_def unat_word_ariths)
next
  case False
  then have "nextPush (sc_tbl (appStep c op sc)) = nextPush (sc_tbl sc)" by (cases op) auto
  then show ?thesis using assms by (simp add: room_def)
qed

lemma dispatch_push [simp]: "nextPush (sc_tbl (snd (fst (dispatch c fr (h, sc))))) = nextPush (sc_tbl sc)"
  by (cases fr) (simp_all add: OnIgnored_def OnPushPromise_def)

lemma connStep_room:
  assumes "room (Suc n) (sc_tbl (snd hs))"
  shows "room n (sc_tbl (snd (connStep c op hs)))"
proof (cases "\<exists>fr. op = Read fr")
  case True
  then obtain fr where op: "op = Read fr" by blast
  obtain h sc where hs: "hs = (h, sc)" by (cases hs)
  obtain h1 sc1 e where d: "dispatch c fr (h, sc) = ((h1, sc1), e)" by (metis surj_pair)
  have n: "nextPush (sc_tbl sc1) = nextPush (sc_tbl sc)" using dispatch_push [of c fr h sc] d by simp
  from d have "nextPush (sc_tbl (snd (fst (readerIter c fr (h, sc))))) = nextPush (sc_tbl sc)"
    by (cases rule: readerIter_outcome) (simp_all add: n)
  then show ?thesis using assms op hs by (simp add: connStep_def room_def)
next
  case False
  then have "connStep c op hs = (fst hs, appStep c op (snd hs))" by (cases op) (simp_all add: connStep_def)
  then show ?thesis using appStep_room [OF assms] by simp
qed

lemma at_connStep:
  assumes "atomics c sc0 (snd hs)" and "0 \<le> h_maxHeaderBytes (fst hs)" and "pushRoom (sc_tbl (snd hs))"
  shows "atomics c sc0 (snd (connStep c op hs))"
  by (rule connStep_cases [where I = "\<lambda>hs. atomics c sc0 (snd hs)"])
     (use at_appStep [OF assms(1,3)] at_readerIter [OF assms(1) _ assms(2)] assms(1) in simp_all)

lemma at_connRun:
  assumes "atomics c sc0 (snd hs)" and "0 \<le> h_maxHeaderBytes (fst hs)" and "room (length ops) (sc_tbl (snd hs))"
  shows "atomics c sc0 (snd (connRun c ops hs))"
  using assms
proof (induction ops arbitrary: hs)
  case (Cons op ops)
  have room: "room (Suc (length ops)) (sc_tbl (snd hs))" using Cons.prems(3) by simp
  have "atomics c sc0 (snd (connRun c ops (connStep c op hs)))"
    by (rule Cons.IH) (use at_connStep [OF Cons.prems(1,2) room_pushRoom [OF room]] connStep_room [OF room] Cons.prems(2)
        in simp_all)
  then show ?case by simp
qed simp


section \<open>The handshake\<close>

text \<open>What the handshake establishes besides the sections: the reader has not run and nothing was promised.\<close>

definition settling :: "codec \<Rightarrow> ServerConn \<Rightarrow> hstate \<Rightarrow> bool" where
  "settling c sc0 hs \<longleftrightarrow> atomics c sc0 (snd hs) \<and> 0 \<le> h_maxHeaderBytes (fst hs)
     \<and> \<not> sc_readerDone (snd hs) \<and> nextPush (sc_tbl (snd hs)) = 2"

lemma recorderDispatch_settling:
  assumes "settling c sc0 hs" and "recorderDispatch c fr (r, hs) = ((r', hs'), e)"
  shows "settling c sc0 hs'"
proof (cases "\<exists>fh s. fr = FSettings fh s")
  case True
  then obtain fh s where fr: "fr = FSettings fh s" by blast
  obtain h sc where hs: "hs = (h, sc)" by (cases hs)
  have at: "atomics c sc0 sc" using assms(1) hs by (simp add: settling_def)
  let ?sc1 = "fst (applyPeerSettings (mergeSettings (r_peer r) s) sc)"
  have "atomics c sc0 ?sc1" by (rule at_applyPeerSettings [OF at])
  then have "atomics c sc0 ?sc1" "atomics c sc0 (fst (frWrite c WSettingsAck ?sc1))" by (simp_all add: at_control)
  moreover have "hs' = (h, sc) \<or> hs' = (h, ?sc1) \<or> hs' = (h, fst (frWrite c WSettingsAck ?sc1))"
    using assms(2) fr hs
    by (auto simp: recorderDispatch_def recorderOnSettings_def Let_def case_prod_beta split: if_splits option.splits prod.splits)
  ultimately show ?thesis using assms(1) hs by (auto simp: settling_def)
next
  case False
  obtain h sc where hs: "hs = (h, sc)" by (cases hs)
  have "hs' = fst (dispatch c fr (h, sc))"
    using assms(2) False hs by (cases fr) (auto simp: recorderDispatch_def Let_def case_prod_beta)
  then show ?thesis using assms(1) hs at_dispatch [of c sc0 sc h fr] by (simp add: settling_def)
qed

lemma handshake_settling:
  assumes "settling c sc0 hs" and "handshakeServerSettings c frs (r, hs) = ((r', hs'), res)"
  shows "settling c sc0 hs'"
  using assms
proof (induction frs arbitrary: r hs)
  case Nil
  then show ?case by (auto split: if_splits)
next
  case (Cons fr frs)
  obtain r1 hs1 e where d: "recorderDispatch c fr (r, hs) = ((r1, hs1), e)" by (metis surj_pair)
  note s = recorderDispatch_settling [OF Cons.prems(1) d]
  have "handshakeServerSettings c (fr # frs) (r, hs) =
      (if r_peerSeen r \<and> r_ackSeen r then ((r, hs), ShakeDone (fr # frs))
       else case e of Some e' \<Rightarrow> ((r1, hs1), ShakeErr e') | None \<Rightarrow> handshakeServerSettings c frs (r1, hs1))"
    using d by (subst handshakeServerSettings.simps) (simp split: option.split del: handshakeServerSettings.simps)
  then show ?case using Cons.prems s Cons.IH [OF s]
    by (auto simp del: handshakeServerSettings.simps split: if_splits option.splits)
qed

lemma settling_start: "settling c (newConn opts) (newHandler opts, newConn opts)"
  by (simp add: settling_def newHandler_def newServerConnHandler_def newConn_def newStreamTable_def defaultMaxHeaderBytes_def)

lemma NewServerConn_settling:
  assumes "NewServerConn c o' preface frs = StartOk hs rest" and "optUpgradedRequest o' = None"
  shows "settling c (newConn (opts_defaulted o')) hs"
proof -
  let ?o = "opts_defaulted o'" let ?sc0 = "newConn (opts_defaulted o')"
  have up: "optUpgradedRequest ?o = None" using assms(2) by (simp add: opts_defaulted_def Let_def)
  obtain sc1 where w: "frWrite c (WSettings (encodeAdvertised (advSettings ?o))) ?sc0 = (sc1, None)"
    using assms(1) by (auto simp: NewServerConn_def Let_def split: option.splits prod.splits)
  have "atomics c ?sc0 (fst (frWrite c (WSettings (encodeAdvertised (advSettings ?o))) ?sc0))"
    by (rule at_control) simp_all
  then have "atomics c ?sc0 (bumpFramesSent sc1)" using w by (auto intro: at_other)
  moreover have "sc_readerDone sc1 = sc_readerDone ?sc0" "sc_tbl sc1 = sc_tbl ?sc0"
    using frWrite_frame [of c "WSettings (encodeAdvertised (advSettings ?o))" ?sc0] w by simp_all
  ultimately have "settling c ?sc0 (newHandler ?o, bumpFramesSent sc1)"
    using settling_start [of c ?o] by (simp add: settling_def)
  moreover obtain r h sc2 rest' where hs: "handshakeServerSettings c frs (recorder0, newHandler ?o, bumpFramesSent sc1)
      = ((r, h, sc2), ShakeDone rest')" and fin: "hs = (h, fst (sendInitialConnWindowUpdate c sc2))"
    using assms(1) w up
    by (auto simp: NewServerConn_def Let_def split: option.splits prod.splits shakeResult.splits err.splits)
  ultimately have s: "settling c ?sc0 (h, sc2)" using handshake_settling [OF _ hs] by simp
  then have "atomics c ?sc0 (fst (sendInitialConnWindowUpdate c sc2))"
    by (simp add: settling_def sendInitialConnWindowUpdate_def Let_def at_writeWindowUpdate)
  then show ?thesis using s fin by (simp add: settling_def sendInitialConnWindowUpdate_def Let_def)
qed

text \<open>The states of a connection: its handshake has completed and any operations have run since.\<close>

definition connState :: "codec \<Rightarrow> ServerConnOptions \<Rightarrow> ServerConn \<Rightarrow> bool" where
  "connState c o' sc \<longleftrightarrow> optUpgradedRequest o' = None \<and>
     (\<exists>preface frs hs rest ops. NewServerConn c o' preface frs = StartOk hs rest
        \<and> length ops < 2000000000 \<and> sc = snd (connRun c ops hs))"

lemma connState_atomics:
  assumes "connState c o' sc"
  shows "atomics c (newConn (opts_defaulted o')) sc"
proof -
  from assms obtain preface frs hs rest ops
    where new: "NewServerConn c o' preface frs = StartOk hs rest" "optUpgradedRequest o' = None"
      and ops: "length ops < 2000000000" and sc: "sc = snd (connRun c ops hs)"
    by (auto simp: connState_def)
  from NewServerConn_settling [OF new] have s: "settling c (newConn (opts_defaulted o')) hs" .
  have "room (length ops) (sc_tbl (snd hs))" using s ops by (simp add: settling_def room_def)
  then show ?thesis using at_connRun s sc by (simp add: settling_def)
qed

text \<open>So an invariant of the sections holds in every state of every connection.\<close>

lemma connState_invariant:
  assumes "connState c o' sc" and "I (newConn (opts_defaulted o'))"
    and "\<And>sc sc'. I sc \<Longrightarrow> atomic c sc sc' \<Longrightarrow> I sc'"
  shows "I sc"
  using connState_atomics [OF assms(1)]
  by (induction rule: rtranclp_induct) (use assms(2,3) in auto)


section \<open>A sample connection\<close>

definition sampleShake :: "inFrame list" where
  "sampleShake = [FSettings (sampleHeader 0 4 False 0) [], FSettings ((sampleHeader 0 4 False 0)\<lparr>fAck := True\<rparr>) []]"

definition sampleStart :: hstate where
  "sampleStart = (case NewServerConn sampleCodec sampleOptions clientPreface sampleShake of
     StartOk hs rest \<Rightarrow> hs | _ \<Rightarrow> freshConn sampleOptions)"

text \<open>A request with its response, a reset and an attempt to go on, both GOAWAY frames.\<close>

definition sampleOps :: "connOp list" where
  "sampleOps = [Read (FHeaders (sampleHeader 1 1 False 1) ''h'' None), AppAccept None,
     AppHeaders 0 [\<lparr>Name = '':status'', Value = Some ''200'', Indexing = 0\<rparr>] False None, AppData 0 ''hello'' False None,
     AppClose 0, AppData 0 ''more'' True None, AppGoAwayGraceful, AppShutdown]"

definition sampleState :: ServerConn where
  "sampleState = snd (connRun sampleCodec sampleOps sampleStart)"

lemma sample_started: "\<exists>rest. NewServerConn sampleCodec sampleOptions clientPreface sampleShake = StartOk sampleStart rest"
proof -
  have "case NewServerConn sampleCodec sampleOptions clientPreface sampleShake of StartOk hs rest \<Rightarrow> True | _ \<Rightarrow> False"
    by code_simp
  then show ?thesis by (simp add: sampleStart_def split: startResult.splits)
qed

lemma sample_connState:
  assumes "length ops < 2000000000"
  shows "connState sampleCodec sampleOptions (snd (connRun sampleCodec ops sampleStart))"
proof -
  have "optUpgradedRequest sampleOptions = None" by (simp add: sampleOptions_def)
  then show ?thesis using sample_started assms unfolding connState_def by blast
qed

lemma sampleState_connState: "connState sampleCodec sampleOptions sampleState"
  unfolding sampleState_def by (rule sample_connState) (simp add: sampleOps_def)

lemma sampleState_wire:
  "sc_wire sampleState = [WSettings (encodeAdvertised (as_defaulted (advSettings sampleOptions))), WSettingsAck,
     WHeaders 1 ''x'' False None, WData 1 ''hello'' False, WRSTStream 1 ErrCodeCancel,
     WGoAway maxStreamID ErrCodeNoError, WGoAway 1 ErrCodeNoError]"
  unfolding sampleState_def by code_simp

end
