(* ===== verification/ConnDecode.thy ===== *)
theory ConnDecode
  imports ConnReach
begin

text \<open>
  The receiving side of field blocks (conn/server\_handler.go): which octets reach the shared
  HPACK decoder, that a block split over CONTINUATION frames is treated as the unsplit one, and
  that nothing may come between the frames of a block (RFC 9113 sections 4.3 and 6.10).
\<close>

section \<open>The blocks of a sequence of frames\<close>

text \<open>The specification: the field blocks a sequence of frames completes, given the open one.\<close>

fun blockStep :: "bytes option \<Rightarrow> inFrame \<Rightarrow> bytes list \<times> bytes option" where
  "blockStep None (FHeaders fh hb prio) = (if fEndHeaders fh then ([hb], None) else ([], Some hb))"
| "blockStep (Some b) (FContinuation fh hb) = (if fEndHeaders fh then ([b @ hb], None) else ([], Some (b @ hb)))"
| "blockStep p _ = ([], p)"

fun fieldBlocks :: "bytes option \<Rightarrow> inFrame list \<Rightarrow> bytes list" where
  "fieldBlocks p [] = []"
| "fieldBlocks p (fr # frs) = fst (blockStep p fr) @ fieldBlocks (snd (blockStep p fr)) frs"

definition openBlock :: "serverConnHandler \<Rightarrow> bytes option" where
  "openBlock h = (if h_pendingStreamID h = 0 then None else Some (h_pendingBuf h))"

fun readFrames :: "connOp list \<Rightarrow> inFrame list" where
  "readFrames [] = []"
| "readFrames (Read fr # ops) = fr # readFrames ops"
| "readFrames (op # ops) = readFrames ops"

text \<open>The results after which the reader goes on.\<close>

definition goesOn :: "err option \<Rightarrow> bool" where
  "goesOn e \<longleftrightarrow> e = None \<or> e = Some ErrPriorityWrongLength \<or> e = Some ErrZeroIncrement"

lemma goesOn_simps [simp]: "goesOn None" "\<not> goesOn (Some (connError code m))"
  by (simp_all add: goesOn_def)

lemma guardHeaderBlock_goesOn: "goesOn (guardHeaderBlock h) \<longleftrightarrow> h_pendingStreamID h = 0"
  by (simp add: guardHeaderBlock_def goesOn_def)

lemma emit_decoder:
  assumes "emitHeaderBlock c s hb b t (h, sc) = ((h1, sc1), e)"
  shows "sc_decSeen sc1 = sc_decSeen sc @ [hb]" and "h_pendingStreamID h1 = 0"
  using assms by (auto simp: emitHeaderBlock_def decodeBlock_def Let_def case_prod_beta split: option.splits if_splits)

lemma discard_decoder:
  assumes "discardHeaderBlock c hb (h, sc) = ((h1, sc1), e)"
  shows "sc_decSeen sc1 = sc_decSeen sc @ [hb]" and "h_pendingStreamID h1 = 0"
  using assms by (auto simp: discardHeaderBlock_def decodeBlock_def Let_def case_prod_beta split: option.splits if_splits)

lemma headersBlock_decoder:
  assumes "headersBlock c fh hb s isNew refused (h, sc) = ((h1, sc1), e)" and "goesOn e"
    and "h_pendingStreamID h = 0" and "fStreamID fh \<noteq> 0"
  shows "sc_decSeen sc1 = sc_decSeen sc @ (if fEndHeaders fh then [hb] else [])
         \<and> openBlock h1 = (if fEndHeaders fh then None else Some hb)"
  using assms emit_decoder [of c s hb _ _ h _ h1 sc1 e] discard_decoder [of c hb h sc h1 sc1 e]
  by (auto simp: headersBlock_def openBlock_def Let_def split: if_splits)

lemma dispatch_decoder:
  assumes "dispatch c fr (h, sc) = ((h1, sc1), e)" and "goesOn e"
  shows "sc_decSeen sc1 = sc_decSeen sc @ fst (blockStep (openBlock h) fr)
         \<and> openBlock h1 = snd (blockStep (openBlock h) fr)"
proof (cases fr)
  case (FHeaders fh hb prio)
  then have d: "OnHeaders c fh hb prio (h, sc) = ((h1, sc1), e)" using assms(1) by simp
  have p: "h_pendingStreamID h = 0" and odd: "isClientID (fStreamID fh)"
    using d assms(2) by (auto simp: OnHeaders_def Let_def guardHeaderBlock_def split: if_splits)
  then have nz: "fStreamID fh \<noteq> 0" by (auto simp: isClientID_def)
  have "\<exists>s isNew refused sc'. headersBlock c fh hb s isNew refused (h, sc') = ((h1, sc1), e) \<and> sc_decSeen sc' = sc_decSeen sc"
  proof (cases "lookupStream sc (fStreamID fh)")
    case None
    then obtain sc' s refused where o: "openStream c h (fStreamID fh) prio sc = Inr (sc', s, refused)"
      and "headersBlock c fh hb s True refused (h, sc') = ((h1, sc1), e)"
      using d p odd assms(2)
      by (auto simp: OnHeaders_def Let_def guardHeaderBlock_def openStream_def validateClientStreamID_def
          tbl_validateClientID_def goesOn_def split: sum.splits option.splits if_splits prod.splits)
    moreover have "sc_decSeen sc' = sc_decSeen sc" using openStream_eq(2) [OF o] by (simp add: allocStream_def)
    ultimately show ?thesis by blast
  qed (use d p odd in \<open>auto simp: OnHeaders_def Let_def guardHeaderBlock_def\<close>)
  then obtain s isNew refused sc' where hb: "headersBlock c fh hb s isNew refused (h, sc') = ((h1, sc1), e)"
    and s: "sc_decSeen sc' = sc_decSeen sc" by blast
  show ?thesis using headersBlock_decoder [OF hb assms(2) p nz] s FHeaders p by (simp add: openBlock_def)
next
  case (FContinuation fh hb)
  then have d: "OnContinuation c fh hb (h, sc) = ((h1, sc1), e)" using assms(1) by simp
  let ?h = "h\<lparr>h_pendingBuf := h_pendingBuf h @ hb\<rparr>"
  have p: "h_pendingStreamID h \<noteq> 0" using d assms(2) by (auto simp: OnContinuation_def Let_def split: if_splits)
  show ?thesis
  proof (cases "fEndHeaders fh")
    case False
    then show ?thesis using d assms(2) FContinuation p by (auto simp: OnContinuation_def openBlock_def Let_def split: if_splits)
  next
    case True
    then have "discardHeaderBlock c (h_pendingBuf h @ hb) (?h, sc) = ((h1, sc1), e)
        \<or> (\<exists>s b t sc'. emitHeaderBlock c s (h_pendingBuf h @ hb) b t (?h, sc') = ((h1, sc1), e) \<and> sc_decSeen sc' = sc_decSeen sc)"
      using d assms(2) p by (auto simp: OnContinuation_def Let_def split: if_splits option.splits) (metis upds_frame(17))+
    then have "sc_decSeen sc1 = sc_decSeen sc @ [h_pendingBuf h @ hb] \<and> h_pendingStreamID h1 = 0"
      using emit_decoder discard_decoder by (metis (no_types))
    then show ?thesis using True FContinuation p by (simp add: openBlock_def)
  qed
qed (use assms in \<open>auto simp: OnData_def OnIgnored_def OnRSTStream_def OnSettings_def OnPushPromise_def OnPing_def OnGoAway_def
       OnWindowUpdate_def openBlock_def Let_def case_prod_beta split: option.splits if_splits\<close>)


section \<open>The decoder's history\<close>

definition openAfter :: "bytes option \<Rightarrow> inFrame list \<Rightarrow> bytes option" where
  "openAfter p frs = foldl (\<lambda>p fr. snd (blockStep p fr)) p frs"

lemma fieldBlocks_append: "fieldBlocks p (frs @ frs') = fieldBlocks p frs @ fieldBlocks (openAfter p frs) frs'"
  by (induction frs arbitrary: p) (simp_all add: openAfter_def)

lemma appStep_decoder [simp]: "sc_decSeen (appStep c op sc) = sc_decSeen sc"
  by (cases op) simp_all

lemma readerIter_decoder:
  assumes "\<not> sc_readerDone (snd (fst (readerIter c fr (h, sc))))"
  shows "sc_decSeen (snd (fst (readerIter c fr (h, sc)))) = sc_decSeen sc @ fst (blockStep (openBlock h) fr)
         \<and> openBlock (fst (fst (readerIter c fr (h, sc)))) = snd (blockStep (openBlock h) fr)"
proof -
  obtain h1 sc1 e where d: "dispatch c fr (h, sc) = ((h1, sc1), e)" by (metis surj_pair)
  from d show ?thesis
  proof (cases rule: readerIter_outcome)
    case ok
    then show ?thesis using dispatch_decoder [OF d] by simp
  next
    case (reset code)
    then show ?thesis using dispatch_decoder [OF d] by (auto simp: goesOn_def)
  next
    case (quit code)
    then show ?thesis using assms by simp
  qed
qed

lemma connRun_decoder:
  assumes "\<not> sc_readerDone (snd (connRun c ops hs))"
  shows "sc_decSeen (snd (connRun c ops hs)) = sc_decSeen (snd hs) @ fieldBlocks (openBlock (fst hs)) (readFrames ops)"
  using assms
proof (induction ops arbitrary: hs)
  case (Cons op ops)
  obtain h sc where hs: "hs = (h, sc)" by (cases hs)
  have alive: "\<not> sc_readerDone (snd (connStep c op hs))"
    using Cons.prems connRun_done [of "connStep c op hs" c ops] by auto
  then have alive0: "\<not> sc_readerDone sc" using connStep_done [of hs c op] hs by auto
  have IH: "sc_decSeen (snd (connRun c ops (connStep c op hs))) =
      sc_decSeen (snd (connStep c op hs)) @ fieldBlocks (openBlock (fst (connStep c op hs))) (readFrames ops)"
    using Cons by simp
  show ?case
  proof (cases "\<exists>fr. op = Read fr")
    case True
    then obtain fr where op: "op = Read fr" by blast
    then have s: "connStep c op hs = fst (readerIter c fr (h, sc))" using hs alive0 by (simp add: connStep_def)
    show ?thesis using IH readerIter_decoder [of c fr h sc] alive unfolding connRun_Cons s by (simp add: op hs)
  next
    case False
    then have "connStep c op hs = (h, appStep c op sc)" "readFrames (op # ops) = readFrames ops"
      using hs by (cases op; simp add: connStep_def)+
    then show ?thesis using IH hs by simp
  qed
qed simp

lemma recorderDispatch_decoder:
  assumes "recorderDispatch c fr (r, h, sc) = ((r1, h1, sc1), None)"
  shows "sc_decSeen sc1 = sc_decSeen sc @ fst (blockStep (openBlock h) fr) \<and> openBlock h1 = snd (blockStep (openBlock h) fr)"
proof (cases "\<exists>fh s. fr = FSettings fh s")
  case True
  then obtain fh s where fr: "fr = FSettings fh s" by blast
  have "sc_decSeen sc1 = sc_decSeen (snd (snd (fst (recorderDispatch c fr (r, h, sc)))))" "h1 = h"
    using assms by (auto simp: fr recorderDispatch_def recorderOnSettings_def Let_def case_prod_beta split: if_splits option.splits prod.splits)
  moreover have "sc_decSeen (snd (snd (fst (recorderDispatch c fr (r, h, sc))))) = sc_decSeen sc"
    by (simp add: fr recorderDispatch_def recorderOnSettings_def Let_def case_prod_beta split: option.splits prod.splits)
  ultimately show ?thesis by (simp add: fr)
next
  case False
  then have "dispatch c fr (h, sc) = ((h1, sc1), None)"
    using assms by (cases fr) (auto simp: recorderDispatch_def Let_def split: prod.splits)
  then show ?thesis using dispatch_decoder by fastforce
qed

lemma handshake_decoder:
  assumes "handshakeServerSettings c frs (r, h, sc) = ((r1, h1, sc1), ShakeDone rest)"
  shows "\<exists>used. frs = used @ rest \<and> sc_decSeen sc1 = sc_decSeen sc @ fieldBlocks (openBlock h) used
           \<and> openBlock h1 = openAfter (openBlock h) used"
  using assms
proof (induction frs arbitrary: r h sc)
  case Nil
  then show ?case by (auto simp: openAfter_def split: if_splits)
next
  case (Cons fr frs)
  obtain r2 h2 sc2 e where d: "recorderDispatch c fr (r, h, sc) = ((r2, h2, sc2), e)" by (metis surj_pair)
  have eq: "handshakeServerSettings c (fr # frs) (r, h, sc) =
      (if r_peerSeen r \<and> r_ackSeen r then ((r, h, sc), ShakeDone (fr # frs))
       else case e of Some e' \<Rightarrow> ((r2, h2, sc2), ShakeErr e') | None \<Rightarrow> handshakeServerSettings c frs (r2, h2, sc2))"
    using d by (subst handshakeServerSettings.simps) (simp split: option.split del: handshakeServerSettings.simps)
  show ?case
  proof (cases "r_peerSeen r \<and> r_ackSeen r")
    case True
    then show ?thesis using Cons.prems eq by (intro exI [of _ "[]"]) (simp add: openAfter_def)
  next
    case False
    then have e: "e = None" and rest: "handshakeServerSettings c frs (r2, h2, sc2) = ((r1, h1, sc1), ShakeDone rest)"
      using Cons.prems eq by (auto split: option.splits simp del: handshakeServerSettings.simps)
    from Cons.IH [OF rest] obtain used where u: "frs = used @ rest"
      "sc_decSeen sc1 = sc_decSeen sc2 @ fieldBlocks (openBlock h2) used" "openBlock h1 = openAfter (openBlock h2) used" by blast
    then show ?thesis using recorderDispatch_decoder [of c fr r h sc r2 h2 sc2] d e
      by (intro exI [of _ "fr # used"]) (simp add: openAfter_def)
  qed
qed

lemma seedUpgradedStream_decoder [simp]: "sc_decSeen (seedUpgradedStream c up sc) = sc_decSeen sc"
  by (simp add: seedUpgradedStream_def allocStream_def Let_def case_prod_beta)

lemma NewServerConn_decoder:
  assumes "NewServerConn c o' preface frs = StartOk (h, sc) rest"
  shows "\<exists>used. frs = used @ rest \<and> sc_decSeen sc = fieldBlocks None used \<and> openBlock h = openAfter None used"
proof -
  let ?o = "opts_defaulted o'"
  obtain sc1 r sc2 where w: "frWrite c (WSettings (encodeAdvertised (advSettings ?o))) (newConn ?o) = (sc1, None)"
    and hs: "handshakeServerSettings c frs (recorder0, newHandler ?o, bumpFramesSent sc1) = ((r, h, sc2), ShakeDone rest)"
    and fin: "sc = (case optUpgradedRequest ?o of None \<Rightarrow> fst (sendInitialConnWindowUpdate c sc2)
                    | Some up \<Rightarrow> seedUpgradedStream c up (fst (sendInitialConnWindowUpdate c sc2)))"
    using assms
    by (auto simp: NewServerConn_def Let_def simp del: handshakeServerSettings.simps
        split: option.splits prod.splits shakeResult.splits err.splits)
  have "sc_decSeen (fst (sendInitialConnWindowUpdate c sc2)) = sc_decSeen sc2"
    by (simp add: sendInitialConnWindowUpdate_def Let_def)
  then have "sc_decSeen sc = sc_decSeen sc2" using fin by (simp split: option.splits)
  moreover have "sc_decSeen (newConn ?o) = []" by (simp add: newConn_def)
  then have "sc_decSeen sc1 = []"
    using frWrite_frame [of c "WSettings (encodeAdvertised (advSettings ?o))" "newConn ?o"] w by simp
  moreover have "openBlock (newHandler ?o) = None" by (simp add: openBlock_def newHandler_def newServerConnHandler_def)
  ultimately show ?thesis using handshake_decoder [OF hs] by simp
qed

text \<open>
  C7. The HPACK decoder never falls out of step (RFC 9113 section 4.3): from the handshake on and
  as long as the reader runs, the blocks the shared decoder has been given are exactly the field
  blocks the peer completed, in order: those of refused, reset, unknown and oversized streams
  included, those split over CONTINUATION frames reassembled, whatever the application did
  meanwhile.
\<close>

theorem decoder_in_step:
  assumes "NewServerConn c o' preface frs = StartOk hs rest" and "\<not> sc_readerDone (snd (connRun c ops hs))"
  shows "\<exists>used. frs = used @ rest \<and> sc_decSeen (snd (connRun c ops hs)) = fieldBlocks None (used @ readFrames ops)"
proof -
  obtain h sc where hs: "hs = (h, sc)" by (cases hs)
  from NewServerConn_decoder [OF assms(1) [unfolded hs]] obtain used where
    "frs = used @ rest" "sc_decSeen sc = fieldBlocks None used" "openBlock h = openAfter None used" by blast
  then show ?thesis using connRun_decoder [OF assms(2)] hs by (auto simp: fieldBlocks_append)
qed


theorem decoder_in_step_witness:
  "sc_decSeen (snd (connRun sampleCodec sampleRequest sampleStart)) = [''h'']
   \<and> fieldBlocks None (sampleShake @ readFrames sampleRequest) = [''h'']"
proof -
  obtain rest where start: "NewServerConn sampleCodec sampleOptions clientPreface sampleShake = StartOk sampleStart rest"
    using sample_started by blast
  have "\<not> sc_readerDone (snd (connRun sampleCodec sampleRequest sampleStart))" by code_simp
  from decoder_in_step [OF start this] obtain used where u: "sampleShake = used @ rest"
    "sc_decSeen (snd (connRun sampleCodec sampleRequest sampleStart)) = fieldBlocks None (used @ readFrames sampleRequest)" by blast
  have "fieldBlocks None (us @ readFrames sampleRequest) = [''h'']" if "set us \<subseteq> set sampleShake" for us
    using that by (induction us) (auto simp: sampleShake_def sampleRequest_def sampleHeader_def)
  moreover have "set used \<subseteq> set sampleShake" unfolding u(1) by simp
  ultimately show ?thesis using u(2) by simp
qed

section \<open>Split blocks\<close>

text \<open>Frames handed to the callbacks one after the other until one of them fails.\<close>

fun dispatches :: "codec \<Rightarrow> inFrame list \<Rightarrow> hstate \<Rightarrow> hstate \<times> err option" where
  "dispatches c [] hs = (hs, None)"
| "dispatches c (fr # frs) hs =
     (case dispatch c fr hs of (hs, None) \<Rightarrow> dispatches c frs hs | (hs, Some e) \<Rightarrow> (hs, Some e))"

text \<open>The CONTINUATION frames of the remaining fragments; the last one ends the block.\<close>

fun continuations :: "uint32 \<Rightarrow> bytes list \<Rightarrow> inFrame list" where
  "continuations sid [] = []"
| "continuations sid [b] = [FContinuation \<lparr>fLength = of_nat (length b), fType = FrameContinuation, fStreamID = sid,
     fEndStream = False, fEndHeaders = True, fAck = False\<rparr> b]"
| "continuations sid (b # bs) = FContinuation \<lparr>fLength = of_nat (length b), fType = FrameContinuation, fStreamID = sid,
     fEndStream = False, fEndHeaders = False, fAck = False\<rparr> b # continuations sid bs"

text \<open>What a callback leaves of the handler that the next frame can see.\<close>

definition sameOutcome :: "hstate \<times> err option \<Rightarrow> hstate \<times> err option \<Rightarrow> bool" where
  "sameOutcome r r' \<longleftrightarrow> snd (fst r) = snd (fst r') \<and> snd r = snd r' \<and> openBlock (fst (fst r)) = openBlock (fst (fst r'))"

lemma continuations_collect:
  assumes "bs \<noteq> []" and "h_pendingStreamID h = sid" and "sid \<noteq> 0"
    and "int (length (h_pendingBuf h)) + int (length (concat bs)) \<le> h_maxHeaderBytes h"
  shows "dispatches c (continuations sid bs) (h, sc) =
    (let h' = h\<lparr>h_pendingBuf := h_pendingBuf h @ concat bs\<rparr> in
     if h_pendingDiscard h then discardHeaderBlock c (h_pendingBuf h') (h', sc)
     else case lookupStream sc sid of
            None \<Rightarrow> discardHeaderBlock c (h_pendingBuf h') (h', sc)
          | Some s \<Rightarrow> emitHeaderBlock c s (h_pendingBuf h') (h_pendingEndStream h) (h_pendingTrailer h)
              (h', if \<not> h_pendingTrailer h then upds s (ss_advance stRecvFields) sc else sc))"
  using assms
proof (induction sid bs arbitrary: h rule: continuations.induct)
  case (2 sid b)
  then show ?case by (auto simp: OnContinuation_def Let_def split: option.splits prod.splits)
next
  case (3 sid b b' bs)
  let ?h = "h\<lparr>h_pendingBuf := h_pendingBuf h @ b\<rparr>"
  have "OnContinuation c \<lparr>fLength = of_nat (length b), fType = FrameContinuation, fStreamID = sid,
     fEndStream = False, fEndHeaders = False, fAck = False\<rparr> b (h, sc) = ((?h, sc), None)"
    using 3 by (simp add: OnContinuation_def Let_def)
  moreover have "dispatches c (continuations sid (b' # bs)) (?h, sc) =
    (let h' = ?h\<lparr>h_pendingBuf := h_pendingBuf ?h @ concat (b' # bs)\<rparr> in
     if h_pendingDiscard ?h then discardHeaderBlock c (h_pendingBuf h') (h', sc)
     else case lookupStream sc sid of
            None \<Rightarrow> discardHeaderBlock c (h_pendingBuf h') (h', sc)
          | Some s \<Rightarrow> emitHeaderBlock c s (h_pendingBuf h') (h_pendingEndStream ?h) (h_pendingTrailer ?h)
              (h', if \<not> h_pendingTrailer ?h then upds s (ss_advance stRecvFields) sc else sc))"
    by (rule "3.IH") (use 3 in simp_all)
  ultimately show ?case by (simp add: Let_def split: option.split)
qed simp


text \<open>The handler's own fields beyond its limit play no part in the outcome of a complete block.\<close>

lemma emit_shape:
  "\<exists>sc' e. \<forall>h. h_maxHeaderBytes h = mx \<longrightarrow> emitHeaderBlock c s hb b t (h, sc) = ((h\<lparr>h_pendingStreamID := 0\<rparr>, sc'), e)"
proof -
  obtain fs e0 where d: "cDecode c (sc_decSeen sc) hb = (fs, e0)" by (metis surj_pair)
  define co where "co = collectFields mx t fs"
  define scratch where "scratch = materialise (co_fieldBuf co) 0 (co_spans co)"
  let ?sc = "sc\<lparr>sc_decSeen := sc_decSeen sc @ [hb]\<rparr>"
  let ?sc' = "if e0 \<noteq> None then ?sc else if co_oversized co then respondFieldsTooLarge c (Some s) ?sc
    else if RemoteEnded (ss_st (strm sc s)) then fst (writeServerRSTStream c s ErrCodeStreamClosed ?sc)
    else if co_malformed co \<or> (\<not> t \<and> \<not> ValidRequestPseudoHeaders scratch) \<or> (t \<and> \<not> b)
    then fst (writeServerRSTStream c s ErrCodeProtocolError ?sc)
    else deliverEvent s (ss_id (strm sc s)) b (headersEvent t (ownedCopy scratch) b) ?sc"
  have "emitHeaderBlock c s hb b t (h, sc) = ((h\<lparr>h_pendingStreamID := 0\<rparr>, ?sc'),
      map_option (\<lambda>m. connError ErrCodeCompressionError (''HPACK decoding error: '' @ m)) e0)" if "h_maxHeaderBytes h = mx" for h
    using that d by (cases e0; cases t) (simp_all add: emitHeaderBlock_def decodeBlock_def Let_def co_def scratch_def)
  then show ?thesis by blast
qed

lemma emit_outcome:
  assumes "h_maxHeaderBytes h = h_maxHeaderBytes h'"
  shows "sameOutcome (emitHeaderBlock c s hb b t (h, sc)) (emitHeaderBlock c s hb b t (h', sc))"
  using emit_shape [of "h_maxHeaderBytes h" c s hb b t sc] assms by (auto simp: sameOutcome_def openBlock_def)

lemma discard_outcome: "sameOutcome (discardHeaderBlock c hb (h, sc)) (discardHeaderBlock c hb (h', sc))"
  by (auto simp: discardHeaderBlock_def decodeBlock_def sameOutcome_def openBlock_def Let_def case_prod_beta split: option.split)

lemma registered_live: "registerStream c sid s sc = (sc', True) \<Longrightarrow> lookupStream sc' sid = Some s"
  by (auto simp: registerStream_def tbl_admitClient_def lookupStream_def tbl_lookup_def Let_def case_prod_beta split: if_splits)

lemma opened_live:
  "openStream c h sid prio sc = Inr (sc', s, refused) \<Longrightarrow> \<not> refused \<Longrightarrow> lookupStream sc' sid = Some s"
  by (auto simp: openStream_def Let_def split: option.splits prod.splits intro: registered_live)

lemma headersBlock_split:
  assumes "bs \<noteq> []" and "fStreamID fh \<noteq> 0" and "int (length b) + int (length (concat bs)) \<le> h_maxHeaderBytes h"
    and "\<not> refused \<Longrightarrow> lookupStream sc (fStreamID fh) = Some s"
  shows "sameOutcome
    (case headersBlock c (fh\<lparr>fEndHeaders := False\<rparr>) b s isNew refused (h, sc) of
       (hs, None) \<Rightarrow> dispatches c (continuations (fStreamID fh) bs) hs | (hs, Some e) \<Rightarrow> (hs, Some e))
    (headersBlock c (fh\<lparr>fEndHeaders := True\<rparr>) (b @ concat bs) s isNew refused (h, sc))"
proof -
  let ?t = "\<not> isNew \<and> RecvdFields (ss_st (strm sc s))"
  let ?h = "h\<lparr>h_pendingStreamID := fStreamID fh, h_pendingBuf := b, h_pendingEndStream := fEndStream fh,
              h_pendingDiscard := refused, h_pendingTrailer := ?t\<rparr>"
  have "headersBlock c (fh\<lparr>fEndHeaders := False\<rparr>) b s isNew refused (h, sc) = ((?h, sc), None)"
    using assms(3) by (simp add: headersBlock_def Let_def)
  moreover note continuations_collect [of bs ?h "fStreamID fh" c sc]
  ultimately show ?thesis using assms
    by (auto simp: headersBlock_def Let_def intro!: emit_outcome discard_outcome)
qed

text \<open>
  C8. CONTINUATION is transparent: a field block delivered as one HEADERS frame or split into any
  number of fragments over HEADERS and CONTINUATION frames has the same effect on the
  connection, the same error and leaves no block open, as long as it is within the configured
  size: the stream is admitted or refused alike, the trailer test gives the same answer, and the
  same section is decoded and delivered.
\<close>

theorem continuation_transparent:
  assumes "bs \<noteq> []" and "h_pendingStreamID h = 0" and "int (length (b @ concat bs)) \<le> h_maxHeaderBytes h"
  shows "sameOutcome
    (dispatches c (FHeaders (fh\<lparr>fEndHeaders := False\<rparr>) b prio # continuations (fStreamID fh) bs) (h, sc))
    (dispatches c [FHeaders (fh\<lparr>fEndHeaders := True\<rparr>) (b @ concat bs) prio] (h, sc))"
proof (cases "isClientID (fStreamID fh)")
  case False
  then show ?thesis using assms(2) by (simp add: OnHeaders_def guardHeaderBlock_def Let_def sameOutcome_def)
next
  case True
  then have nz: "fStreamID fh \<noteq> 0" by (auto simp: isClientID_def)
  note split = headersBlock_split [OF assms(1) nz, of b h]
  have one: "dispatches c [fr] hs = dispatch c fr hs" for fr hs by (auto split: prod.split option.split)
  show ?thesis
  proof (cases "lookupStream sc (fStreamID fh)")
    case (Some s)
    then show ?thesis using True assms(2,3) split [of False sc s c False]
      by (simp add: one del: dispatches.simps) (simp add: OnHeaders_def guardHeaderBlock_def Let_def)
  next
    case None
    show ?thesis
    proof (cases "openStream c h (fStreamID fh) prio sc")
      case (Inl e)
      then show ?thesis using None True assms(2) by (simp add: OnHeaders_def guardHeaderBlock_def Let_def sameOutcome_def)
    next
      case (Inr x)
      obtain sc' s refused where x: "x = (sc', s, refused)" by (metis surj_pair)
      have "\<not> refused \<Longrightarrow> lookupStream sc' (fStreamID fh) = Some s" using opened_live Inr x by blast
      then show ?thesis using None True assms(2,3) Inr x split [of refused sc' s c True]
        by (simp add: one del: dispatches.simps) (simp add: OnHeaders_def guardHeaderBlock_def Let_def)
    qed
  qed
qed


theorem continuation_transparent_witness:
  "sameOutcome
    (dispatches sampleCodec (FHeaders ((sampleHeader 1 1 False 1)\<lparr>fEndHeaders := False\<rparr>) ''h'' None
       # continuations (fStreamID (sampleHeader 1 1 False 1)) [''e'', ''a'']) (fst sampleStart, snd sampleStart))
    (dispatches sampleCodec [FHeaders ((sampleHeader 1 1 False 1)\<lparr>fEndHeaders := True\<rparr>) (''h'' @ concat [''e'', ''a'']) None]
       (fst sampleStart, snd sampleStart))"
proof (rule continuation_transparent)
  show "[''e'', ''a''] \<noteq> []" by simp
  show "h_pendingStreamID (fst sampleStart) = 0" by code_simp
  show "int (length (''h'' @ concat [''e'', ''a''])) \<le> h_maxHeaderBytes (fst sampleStart)" by code_simp
qed

section \<open>Nothing inside a block\<close>

text \<open>
  The frames the codec can deliver while a block is open without breaking the rule: its
  CONTINUATION, on its stream. A rejected frame counts by its header; the failure of the
  transport itself is not a frame; an unrecognised frame has a type the codec does not dispatch.
\<close>

fun inOrder :: "uint32 \<Rightarrow> inFrame \<Rightarrow> bool" where
  "inOrder sid (FContinuation fh hb) \<longleftrightarrow> fStreamID fh = sid"
| "inOrder sid (FReject fh e) \<longleftrightarrow> transportErr e \<or> fType fh = FrameContinuation \<and> fStreamID fh = sid"
| "inOrder sid (FUnknown fh) \<longleftrightarrow> \<not> undispatchedFrameType (fType fh)"
| "inOrder sid _ \<longleftrightarrow> False"

lemma dispatch_guarded:
  assumes "h_pendingStreamID h \<noteq> 0" and "\<not> inOrder (h_pendingStreamID h) fr"
  shows "fst (dispatch c fr (h, sc)) = (h, sc)
    \<and> (snd (dispatch c fr (h, sc)) = None \<longrightarrow> (\<exists>fh. fr = FUnknown fh))
    \<and> (\<forall>e. snd (dispatch c fr (h, sc)) = Some e \<longrightarrow> (\<exists>m. e = connError ErrCodeProtocolError m)
          \<or> (\<exists>fh. fr = FReject fh e))"
  using assms
  by (cases fr) (auto simp: OnData_def OnHeaders_def OnIgnored_def OnRSTStream_def OnSettings_def OnPushPromise_def OnPing_def
      OnGoAway_def OnWindowUpdate_def OnContinuation_def guardHeaderBlock_def Let_def)



end
