(* ===== verification/GoLib.thy ===== *)
theory GoLib
  imports HttpFields "HOL-Library.Sublist"
begin

text \<open>
  The parts of Go's standard library the packages above conn use on octets and text: the
  conversions of strconv, the string functions of strings and bytes, the header map of net/http
  with its canonical keys, and net.SplitHostPort. Each is defined by what its documentation says,
  on byte strings.
\<close>

section \<open>Octets and runs\<close>

text \<open>The Go conversion \<open>byte(n)\<close>.\<close>

definition byte :: "nat \<Rightarrow> char" where
  "byte n = char_of n"

lemma ord_byte [simp]: "ord (byte n) = n mod 256"
  by (simp add: byte_def)

lemma ord_less [simp]: "ord c < 256"
  using of_char_of [of "ord c"] by (metis char_of_char mod_less_divisor of_char_of zero_less_numeral)

lemma byte_ord [simp]: "byte (ord c) = c"
  by (simp add: byte_def)

text \<open>The Go conversion \<open>int(x)\<close> of a 64-bit unsigned value, and 64-bit addition on \<open>int\<close>.\<close>

definition int64 :: "int \<Rightarrow> int" where
  "int64 x = signed_take_bit 63 x"

definition maxInt64 :: int where "maxInt64 = 2 ^ 63 - 1"

lemma int64_id: "- (2 ^ 63) \<le> x \<Longrightarrow> x \<le> maxInt64 \<Longrightarrow> int64 x = x"
  unfolding int64_def by (rule signed_take_bit_int_eq_self) (simp_all add: maxInt64_def)

text \<open>How a call that may panic ends.\<close>

datatype 'a outcome = Returns 'a | Panics

section \<open>Numbers as text\<close>

definition isDigit :: "char \<Rightarrow> bool" where
  "isDigit c \<longleftrightarrow> ord CHR ''0'' \<le> ord c \<and> ord c \<le> ord CHR ''9''"

definition decimal :: "string \<Rightarrow> nat" where
  "decimal s = foldl (\<lambda>n c. n * 10 + (ord c - ord CHR ''0'')) 0 s"

text \<open>
  strconv.ParseInt(s, 10, bits): an optional sign and one or more decimal digits, within the
  range of a signed integer of that width; \<open>None\<close> is an error.
\<close>

definition ParseInt :: "nat \<Rightarrow> string \<Rightarrow> int option" where
  "ParseInt bits s0 =
     (let neg = (s0 \<noteq> [] \<and> hd s0 = CHR ''-'');
          s = (if s0 \<noteq> [] \<and> (hd s0 = CHR ''-'' \<or> hd s0 = CHR ''+'') then tl s0 else s0)
      in if s = [] \<or> \<not> list_all isDigit s then None
         else let v = (if neg then - int (decimal s) else int (decimal s)) in
              if - (2 ^ (bits - 1)) \<le> v \<and> v < 2 ^ (bits - 1) then Some v else None)"

text \<open>strconv.FormatInt(v, 10).\<close>

function FormatNat :: "nat \<Rightarrow> string" where
  "FormatNat n = (if n < 10 then [byte (48 + n)] else FormatNat (n div 10) @ [byte (48 + n mod 10)])"
  by pat_completeness auto
termination by (relation "measure id") auto

declare FormatNat.simps [simp del]

definition FormatInt :: "int \<Rightarrow> string" where
  "FormatInt v = (if v < 0 then CHR ''-'' # FormatNat (nat (- v)) else FormatNat (nat v))"

lemma isDigit_byte: "d < 10 \<Longrightarrow> isDigit (byte (48 + d)) \<and> ord (byte (48 + d)) - 48 = d"
  by (simp add: isDigit_def)

lemma decimal_append [simp]: "decimal (s @ [c]) = decimal s * 10 + (ord c - 48)"
  by (simp add: decimal_def)

lemma FormatNat_spec:
  "decimal (FormatNat n) = n \<and> FormatNat n \<noteq> [] \<and> list_all isDigit (FormatNat n) \<and> (hd (FormatNat n) = CHR ''0'' \<longrightarrow> n = 0)"
proof (induction n rule: FormatNat.induct)
  case (1 n)
  show ?case
  proof (cases "n < 10")
    case True
    then have "FormatNat n = [byte (48 + n)]" by (simp add: FormatNat.simps)
    moreover have "byte (48 + n) = CHR ''0'' \<longrightarrow> n = 0" using True by (auto dest: arg_cong [where f = ord])
    ultimately show ?thesis using isDigit_byte [OF True] by (simp add: decimal_def)
  next
    case False
    then have "FormatNat n = FormatNat (n div 10) @ [byte (48 + n mod 10)]" by (subst FormatNat.simps) simp
    then show ?thesis using 1 [OF False] isDigit_byte [of "n mod 10"] False by auto
  qed
qed

lemma ParseInt_digits:
  assumes "s \<noteq> []" and "list_all isDigit s" and "int (decimal s) < 2 ^ (bits - 1)"
  shows "ParseInt bits s = Some (int (decimal s))"
proof -
  have "isDigit (hd s)" using assms(1,2) by (cases s) auto
  then have "hd s \<noteq> CHR ''-''" "hd s \<noteq> CHR ''+''" by (auto simp: isDigit_def)
  moreover have "- (2 ^ (bits - 1)) \<le> int (decimal s)" using zero_le_power [of "2 :: int" "bits - 1"] by linarith
  ultimately show ?thesis using assms by (simp add: ParseInt_def Let_def)
qed

lemma ParseInt_FormatNat: "int n < 2 ^ (bits - 1) \<Longrightarrow> ParseInt bits (FormatNat n) = Some (int n)"
  using FormatNat_spec [of n] ParseInt_digits [of "FormatNat n" bits] by simp

lemma le_div_int: "0 < u \<Longrightarrow> n \<le> m div u \<longleftrightarrow> n * u \<le> (m :: int)"
proof
  assume "0 < u" and "n \<le> m div u"
  then have "n * u \<le> m div u * u" by simp
  also have "\<dots> \<le> m" using div_mult_mod_eq [of m u] pos_mod_sign [of u m] \<open>0 < u\<close> by linarith
  finally show "n * u \<le> m" .
next
  assume "0 < u" and "n * u \<le> m"
  then have "n * u div u \<le> m div u" by (intro zdiv_mono1)
  with \<open>0 < u\<close> show "n \<le> m div u" by simp
qed

section \<open>Text\<close>

text \<open>strings.Split(s, sep) for a separator of one octet.\<close>

fun Split :: "char \<Rightarrow> bytes \<Rightarrow> bytes list" where
  "Split c [] = [[]]"
| "Split c (x # xs) =
     (if x = c then [] # Split c xs
      else case Split c xs of p # ps \<Rightarrow> (x # p) # ps | [] \<Rightarrow> [[x]])"

text \<open>strings.IndexByte.\<close>

fun IndexByte :: "bytes \<Rightarrow> char \<Rightarrow> nat option" where
  "IndexByte [] c = None"
| "IndexByte (x # xs) c = (if x = c then Some 0 else map_option Suc (IndexByte xs c))"

definition LastIndexByte :: "bytes \<Rightarrow> char \<Rightarrow> nat option" where
  "LastIndexByte s c = map_option (\<lambda>i. length s - 1 - i) (IndexByte (rev s) c)"

text \<open>The code points of unicode.IsSpace, in UTF-8.\<close>

definition spaceRunes :: "bytes list" where
  "spaceRunes =
     [[CHR 0x20], [CHR 0x09], [CHR 0x0A], [CHR 0x0B], [CHR 0x0C], [CHR 0x0D],
      [CHR 0xC2, CHR 0x85], [CHR 0xC2, CHR 0xA0], [CHR 0xE1, CHR 0x9A, CHR 0x80]]
     @ [[CHR 0xE2, CHR 0x80, CHR 0x80], [CHR 0xE2, CHR 0x80, CHR 0x81], [CHR 0xE2, CHR 0x80, CHR 0x82], [CHR 0xE2, CHR 0x80, CHR 0x83],
        [CHR 0xE2, CHR 0x80, CHR 0x84], [CHR 0xE2, CHR 0x80, CHR 0x85], [CHR 0xE2, CHR 0x80, CHR 0x86], [CHR 0xE2, CHR 0x80, CHR 0x87],
        [CHR 0xE2, CHR 0x80, CHR 0x88], [CHR 0xE2, CHR 0x80, CHR 0x89], [CHR 0xE2, CHR 0x80, CHR 0x8A], [CHR 0xE2, CHR 0x80, CHR 0xA8],
        [CHR 0xE2, CHR 0x80, CHR 0xA9], [CHR 0xE2, CHR 0x80, CHR 0xAF]]
     @ [[CHR 0xE2, CHR 0x81, CHR 0x9F], [CHR 0xE3, CHR 0x80, CHR 0x80]]"

lemma spaceRunes_nonempty: "w \<in> set spaceRunes \<Longrightarrow> w \<noteq> []"
  by (auto simp: spaceRunes_def)

function trimLeft :: "bytes \<Rightarrow> bytes" where
  "trimLeft s = (case find (\<lambda>w. prefix w s) spaceRunes of None \<Rightarrow> s | Some w \<Rightarrow> trimLeft (drop (length w) s))"
  by pat_completeness auto
termination
proof (relation "measure length")
  fix s w assume "find (\<lambda>w. prefix w s) spaceRunes = Some w"
  then have "w \<in> set spaceRunes" "prefix w s" by (auto simp: find_Some_iff)
  then show "(drop (length w) s, s) \<in> measure length"
    using spaceRunes_nonempty [of w] by (auto simp: prefix_def)
qed simp

function trimRight :: "bytes \<Rightarrow> bytes" where
  "trimRight s = (case find (\<lambda>w. suffix w s) spaceRunes of None \<Rightarrow> s | Some w \<Rightarrow> trimRight (take (length s - length w) s))"
  by pat_completeness auto
termination
proof (relation "measure length")
  fix s w assume "find (\<lambda>w. suffix w s) spaceRunes = Some w"
  then have "w \<in> set spaceRunes" "suffix w s" by (auto simp: find_Some_iff)
  then show "(take (length s - length w) s, s) \<in> measure length"
    using spaceRunes_nonempty [of w] by (auto simp: suffix_def)
qed simp

declare trimLeft.simps [simp del] trimRight.simps [simp del]

text \<open>strings.TrimSpace and bytes.TrimSpace.\<close>

definition TrimSpace :: "bytes \<Rightarrow> bytes" where
  "TrimSpace s = trimRight (trimLeft s)"

text \<open>
  strings.ToLower. On ASCII text it lower-cases octets; \<open>uni\<close> is its result on text with other code
  points.
\<close>

definition ToLower :: "(bytes \<Rightarrow> bytes) \<Rightarrow> bytes \<Rightarrow> bytes" where
  "ToLower uni s = (if list_all (\<lambda>c. ord c < 0x80) s then map lower s else uni s)"

section \<open>Header maps\<close>

text \<open>A token octet, RFC 9110 section 5.6.2.\<close>

definition isAlphaNum :: "char \<Rightarrow> bool" where
  "isAlphaNum c \<longleftrightarrow> isDigit c \<or> isUpperA c \<or> 0x61 \<le> ord c \<and> ord c \<le> 0x7a"

definition isToken :: "char \<Rightarrow> bool" where
  "isToken c \<longleftrightarrow> isAlphaNum c \<or> c \<in> set ''!#$%&'' \<or> c = CHR 0x27 \<or> c \<in> set ''*+-.^_`|~''"

definition upper :: "char \<Rightarrow> char" where
  "upper c = (if 0x61 \<le> ord c \<and> ord c \<le> 0x7a then char_of (ord c - 32) else c)"

fun canonicalise :: "bool \<Rightarrow> bytes \<Rightarrow> bytes" where
  "canonicalise up [] = []"
| "canonicalise up (c # s) = (if up then upper c else lower c) # canonicalise (c = CHR ''-'') s"

text \<open>textproto.CanonicalMIMEHeaderKey: a key that is not a token is left alone.\<close>

definition CanonicalKey :: "bytes \<Rightarrow> bytes" where
  "CanonicalKey k = (if list_all isToken k then canonicalise True k else k)"

text \<open>http.Header: canonical keys with their values; the order of the list is the order of a range.\<close>

type_synonym Header = "(bytes \<times> bytes list) list"

definition hdrValues :: "Header \<Rightarrow> bytes \<Rightarrow> bytes list" where
  "hdrValues h k = (case map_of h (CanonicalKey k) of None \<Rightarrow> [] | Some vs \<Rightarrow> vs)"

definition hdrGet :: "Header \<Rightarrow> bytes \<Rightarrow> bytes" where
  "hdrGet h k = (case hdrValues h k of [] \<Rightarrow> [] | v # _ \<Rightarrow> v)"

definition hdrAdd :: "bytes \<Rightarrow> bytes \<Rightarrow> Header \<Rightarrow> Header" where
  "hdrAdd k v h = aput (CanonicalKey k) (hdrValues h k @ [v]) h"

definition hdrSet :: "bytes \<Rightarrow> bytes \<Rightarrow> Header \<Rightarrow> Header" where
  "hdrSet k v h = aput (CanonicalKey k) [v] h"

definition hdrDel :: "bytes \<Rightarrow> Header \<Rightarrow> Header" where
  "hdrDel k h = adel (CanonicalKey k) h"

section \<open>Host and port\<close>

text \<open>net.SplitHostPort; \<open>None\<close> is an error.\<close>

definition SplitHostPort :: "bytes \<Rightarrow> (bytes \<times> bytes) option" where
  "SplitHostPort hp =
     (case LastIndexByte hp CHR '':'' of
        None \<Rightarrow> None
      | Some i \<Rightarrow>
          (case (if hd hp = CHR ''['' then
                   (case IndexByte hp CHR '']'' of
                      None \<Rightarrow> None
                    | Some e \<Rightarrow> if e + 1 = i then Some (take (e - 1) (drop 1 hp), 1, e + 1) else None)
                 else if CHR '':'' \<in> set (take i hp) then None
                 else Some (take i hp, 0, 0)) of
             None \<Rightarrow> None
           | Some (host, j, k) \<Rightarrow>
               if CHR ''['' \<in> set (drop j hp) then None
               else if CHR '']'' \<in> set (drop k hp) then None
               else Some (host, drop (i + 1) hp)))"

end
