(* ===== verification/Requests.thy ===== *)
theory Requests
  imports GoLib ConnTypes
begin

text \<open>
  Requests of the server package: the request record and how \<open>buildRequest\<close> fills it from a
  field section (server/server.go), the predicates that decide on a request before any handler
  sees it (100-continue, misdirected requests, TLS admission), and the conversions to and from
  net/http's request (server/handler.go).

  \<open>BodyReader\<close> records whether a body stream is attached; the stream itself is in theory ServeStream.
  A certificate is the set of host names it is valid for, as a predicate (\<open>VerifyHostname\<close>).
\<close>

record Request =
  Method :: bytes
  Path :: bytes
  RawQuery :: bytes
  Scheme :: bytes
  Authority :: bytes
  Headers :: "HeaderField list"
  Trailers :: "HeaderField list"
  Body :: "bytes option"
  BodyReader :: bool
  req_streamID :: uint32

definition schemeHTTPS :: bytes where "schemeHTTPS = ''https''"
definition schemeHTTP :: bytes where "schemeHTTP = ''http''"

section \<open>Building a request\<close>

fun splitPathQuery :: "bytes \<Rightarrow> bytes \<times> bytes" where
  "splitPathQuery [] = ([], [])"
| "splitPathQuery (c # s) =
     (if c = CHR ''?'' then ([], s) else case splitPathQuery s of (path, query) \<Rightarrow> (c # path, query))"

text \<open>One field of the loop: the Host fallback first, then the switch on the name.\<close>

definition buildField :: "HeaderField \<Rightarrow> Request \<times> bytes \<Rightarrow> Request \<times> bytes" where
  "buildField h = (\<lambda>(req, hostField).
     let v = bval (Value h);
         hostField = (if Authority req = [] \<and> length (Name h) > 0 \<and> Name h ! 0 \<noteq> CHR '':'' \<and> EqualFold (Name h) ''host''
                      then v else hostField);
         req = (if Name h = '':method'' then req\<lparr>Method := v\<rparr>
                else if Name h = '':path'' then req\<lparr>Path := v, RawQuery := snd (splitPathQuery v)\<rparr>
                else if Name h = '':scheme'' then req\<lparr>Scheme := v\<rparr>
                else if Name h = '':authority'' then req\<lparr>Authority := v\<rparr>
                else req)
     in (req, hostField))"

definition emptyReq :: Request where
  "emptyReq = \<lparr>Method = [], Path = [], RawQuery = [], Scheme = [], Authority = [], Headers = [], Trailers = [],
     Body = None, BodyReader = False, req_streamID = 0\<rparr>"

definition buildRequest :: "HeaderField list \<Rightarrow> uint32 \<Rightarrow> Request" where
  "buildRequest headers sid =
     (let (req, hostField) = fold buildField headers (emptyReq\<lparr>Headers := headers, req_streamID := sid\<rparr>, [])
      in if Authority req = [] then req\<lparr>Authority := hostField\<rparr> else req)"

definition joinChunks :: "bytes list \<Rightarrow> bytes option" where
  "joinChunks chunks =
     (if length chunks = 0 then None
      else if length chunks = 1 then Some (chunks ! 0)
      else Some (foldl (\<lambda>out c. out @ c) [] chunks))"

section \<open>Deciding on a request\<close>

text \<open>The members of an Expect value, scanned one by one.\<close>

function expect_loop :: "bytes \<Rightarrow> bool" where
  "expect_loop v =
     (if length v > 0 then
        let (member, rest) = (case IndexByte v CHR '','' of Some j \<Rightarrow> (take j v, drop (j + 1) v) | None \<Rightarrow> (v, []))
        in if EqualFold (TrimSpace member) ''100-continue'' then True else expect_loop rest
      else False)"
  by pat_completeness auto
termination by (relation "measure length") (auto split: option.splits)

declare expect_loop.simps [simp del]

definition hasExpectContinue :: "HeaderField list \<Rightarrow> bool" where
  "hasExpectContinue headers =
     list_ex (\<lambda>h. EqualFold (Name h) ''expect'' \<and> expect_loop (bval (Value h))) headers"

definition continue100Headers :: "HeaderField list" where
  "continue100Headers = [\<lparr>Name = '':status'', Value = Some ''100'', Indexing = 0\<rparr>]"

definition misdirectedRequest :: "Request \<Rightarrow> (bytes \<Rightarrow> bool) option \<Rightarrow> bool" where
  "misdirectedRequest req leaf =
     (case leaf of
        None \<Rightarrow> False
      | Some validFor \<Rightarrow>
          if \<not> EqualFold (Scheme req) schemeHTTPS then False
          else let host = (case SplitHostPort (Authority req) of Some (h, _) \<Rightarrow> h | None \<Rightarrow> Authority req) in
               if host = [] then False else \<not> validFor host)"

text \<open>What a TLS connection negotiated: protocol and version number; \<open>None\<close> is a cleartext connection.\<close>

definition VersionTLS12 :: int where "VersionTLS12 = 0x0303"

definition tlsAdmissible :: "(bytes \<times> int) option \<Rightarrow> bool" where
  "tlsAdmissible nc = (case nc of None \<Rightarrow> True | Some (alpn, version) \<Rightarrow> alpn = ''h2'' \<and> version \<ge> VersionTLS12)"

text \<open>
  The certificate choice of \<open>selectLeaf\<close>: whether a callback may choose, and the configured
  certificates with the leaf each one has or parses to.
\<close>

definition selectLeaf :: "bool \<Rightarrow> 'cert option list \<Rightarrow> 'cert option" where
  "selectLeaf callbacks certs = (if callbacks then None else if length certs \<noteq> 1 then None else certs ! 0)"

definition presentedLeaf :: "(bool \<times> 'cert option list) option \<Rightarrow> bool \<Rightarrow> 'cert option" where
  "presentedLeaf cfg isTLS =
     (case cfg of None \<Rightarrow> None | Some (callbacks, certs) \<Rightarrow> if \<not> isTLS then None else selectLeaf callbacks certs)"

section \<open>net/http requests\<close>

text \<open>
  The parts of http.Request the adapters fill. \<open>newRequest\<close> stands for http.NewRequest on a method
  and a URL; \<open>None\<close> is its error.
\<close>

datatype httpBody = NoBody | BodyBytes bytes | BodyStream

record httpRequest =
  hr_target :: "bytes \<times> bytes"
  hr_Header :: Header
  hr_Body :: httpBody
  hr_ContentLength :: int

datatype reqErr = ErrNoAuthority | ErrNewRequest

definition cookieStep :: "HeaderField \<Rightarrow> bytes \<times> Header \<Rightarrow> bytes \<times> Header" where
  "cookieStep h = (\<lambda>(cookie, hdr).
     if length (Name h) = 6 \<and> Name h = ''cookie''
     then ((if length cookie > 0 then cookie @ ''; '' else cookie) @ bval (Value h), hdr)
     else (cookie, hdrAdd (Name h) (bval (Value h)) hdr))"

definition NewHTTPRequest :: "(bytes \<Rightarrow> bytes \<Rightarrow> Header option) \<Rightarrow> Request \<Rightarrow> reqErr + httpRequest" where
  "NewHTTPRequest newRequest req =
     (let scheme = (if Scheme req = [] then schemeHTTP else Scheme req);
          host = Authority req
      in if host = [] \<and> (scheme = schemeHTTP \<or> scheme = schemeHTTPS) then Inl ErrNoAuthority
         else let urlStr = scheme @ ''://'' @ host @ Path req in
           case newRequest (Method req) urlStr of
             None \<Rightarrow> Inl ErrNewRequest
           | Some hdr0 \<Rightarrow>
               let (body, len) = (case Body req of
                                    Some b \<Rightarrow> (BodyBytes b, int (length b))
                                  | None \<Rightarrow> if BodyReader req then (BodyStream, - 1) else (NoBody, 0));
                   (cookie, hdr) = fold cookieStep (Headers req) ([], hdr0);
                   hdr = (if length cookie > 0 then hdrSet ''Cookie'' cookie hdr else hdr)
               in Inr \<lparr>hr_target = (Method req, urlStr), hr_Header = hdr, hr_Body = body, hr_ContentLength = len\<rparr>)"

text \<open>
  \<open>HTTPRequestToRequest\<close>. Of the incoming request it reads the method, Host, the URL's host, scheme,
  raw query and request URI, whether the connection is TLS, RequestURI, the header map and whether
  there is a body.
\<close>

record httpIncoming =
  in_Method :: bytes
  in_Host :: bytes
  in_URLHost :: bytes
  in_URLScheme :: bytes
  in_URLQuery :: bytes
  in_URLRequestURI :: bytes
  in_TLS :: bool
  in_RequestURI :: bytes
  in_Header :: Header
  in_Body :: bool

definition headerFields :: "Header \<Rightarrow> HeaderField list" where
  "headerFields h = concat (map (\<lambda>(k, vv). map (\<lambda>v. \<lparr>Name = k, Value = Some v, Indexing = 0\<rparr>) vv) h)"

definition HTTPRequestToRequest :: "httpIncoming \<Rightarrow> Request" where
  "HTTPRequestToRequest r =
     (let authority = (if in_Host r = [] then in_URLHost r else in_Host r);
          scheme = (if in_URLScheme r = [] then (if in_TLS r then schemeHTTPS else schemeHTTP) else in_URLScheme r);
          target = (if in_RequestURI r = [] \<or> in_RequestURI r ! 0 \<noteq> CHR ''/'' then in_URLRequestURI r else in_RequestURI r)
      in emptyReq\<lparr>Method := in_Method r, Path := target, RawQuery := in_URLQuery r, Scheme := scheme,
           Authority := authority, Headers := headerFields (in_Header r), BodyReader := in_Body r\<rparr>)"

end
