(* ===== verification/ConnSafety.thy ===== *)
theory ConnSafety
  imports ConnReach
begin

text \<open>
  Safety of the connection, proved for the atomic sections of theory ConnAtomic by rule induction
  and so for every interleaving of them: what is on the wire after a reset, the identifiers of
  GOAWAY frames, the HPACK encoder, the send windows, the event queues, and the absence of panics.
\<close>

section \<open>Fields the sections leave alone\<close>

lemma encodeWrite_frame [simp]:
  "sc_opts (encodeWrite c f fs sc) = sc_opts sc" "sc_peerSettings (encodeWrite c f fs sc) = sc_peerSettings sc"
  "sc_tbl (encodeWrite c f fs sc) = sc_tbl sc" "sc_objs (encodeWrite c f fs sc) = sc_objs sc"
  "sc_next (encodeWrite c f fs sc) = sc_next sc"
  "sc_peerConnSendWindow (encodeWrite c f fs sc) = sc_peerConnSendWindow sc"
  "sc_closed (encodeWrite c f fs sc) = sc_closed sc" "sc_readerDone (encodeWrite c f fs sc) = sc_readerDone sc"
  "sc_goAwaySentID (encodeWrite c f fs sc) = sc_goAwaySentID sc"
  "sc_encDone (encodeWrite c f fs sc) = sc_encDone sc @ [EncBlock fs]"
  "sc_panicked (encodeWrite c f fs sc) = sc_panicked sc"
  by (simp_all add: encodeWrite_def)

lemma admission_frame [simp]:
  "sc_opts (admission sid cap seed prio sc) = sc_opts sc"
  "sc_peerSettings (admission sid cap seed prio sc) = sc_peerSettings sc"
  "sc_next (admission sid cap seed prio sc) = sc_next sc + 1"
  "sc_peerConnSendWindow (admission sid cap seed prio sc) = sc_peerConnSendWindow sc"
  "sc_closed (admission sid cap seed prio sc) = sc_closed sc"
  "sc_readerDone (admission sid cap seed prio sc) = sc_readerDone sc"
  "sc_goAwaySentID (admission sid cap seed prio sc) = sc_goAwaySentID sc"
  "sc_wire (admission sid cap seed prio sc) = sc_wire sc" "sc_encDone (admission sid cap seed prio sc) = sc_encDone sc"
  "sc_panicked (admission sid cap seed prio sc) = sc_panicked sc"
  by (simp_all add: admission_def allocStream_def Let_def case_prod_beta)

lemma reservation_frame [simp]:
  "sc_opts (reservation sc) = sc_opts sc" "sc_peerSettings (reservation sc) = sc_peerSettings sc"
  "sc_next (reservation sc) = sc_next sc + 1" "sc_peerConnSendWindow (reservation sc) = sc_peerConnSendWindow sc"
  "sc_closed (reservation sc) = sc_closed sc" "sc_readerDone (reservation sc) = sc_readerDone sc"
  "sc_goAwaySentID (reservation sc) = sc_goAwaySentID sc" "sc_wire (reservation sc) = sc_wire sc"
  "sc_encDone (reservation sc) = sc_encDone sc" "sc_panicked (reservation sc) = sc_panicked sc"
  by (simp_all add: reservation_def allocStream_def Let_def case_prod_beta)

lemma settle_frame [simp]:
  "sc_opts (settle s sc) = sc_opts sc" "sc_tbl (settle s sc) = sc_tbl sc" "sc_next (settle s sc) = sc_next sc"
  "sc_peerSettings (settle s sc) = mergeSettings (sc_peerSettings sc) s"
  "sc_peerConnSendWindow (settle s sc) = sc_peerConnSendWindow sc" "sc_closed (settle s sc) = sc_closed sc"
  "sc_readerDone (settle s sc) = sc_readerDone sc" "sc_goAwaySentID (settle s sc) = sc_goAwaySentID sc"
  "sc_wire (settle s sc) = sc_wire sc" "sc_encDone (settle s sc) = sc_encDone sc @ encResizes s"
  "sc_panicked (settle s sc) = sc_panicked sc"
  by (simp_all add: settle_def Let_def)

lemma settle_obj [simp]:
  "ss_id (strm (settle s sc) x) = ss_id (strm sc x)" "ss_st (strm (settle s sc) x) = ss_st (strm sc x)"
  "ss_events (strm (settle s sc) x) = ss_events (strm sc x)" "ss_eventCap (strm (settle s sc) x) = ss_eventCap (strm sc x)"
  "ss_evClosed (strm (settle s sc) x) = ss_evClosed (strm sc x)"
  by (simp_all add: settle_def tbl_applyInitialWindow_def Let_def)

section \<open>GOAWAY\<close>

fun goAwayIDs :: "wframe list \<Rightarrow> uint32 list" where
  "goAwayIDs [] = []"
| "goAwayIDs (WGoAway sid code # fs) = sid # goAwayIDs fs"
| "goAwayIDs (f # fs) = goAwayIDs fs"

lemma goAwayIDs_append [simp]: "goAwayIDs (fs @ gs) = goAwayIDs fs @ goAwayIDs gs"
  by (induction fs rule: goAwayIDs.induct) simp_all

lemma goAwayIDs_single: "goAwayIDs [f] = (case f of WGoAway sid code \<Rightarrow> [sid] | _ \<Rightarrow> [])"
  by (cases f) simp_all

lemma wire_frWrite: "sc_wire (fst (frWrite c f sc)) = sc_wire sc @ (if cWrite c (sc_wire sc) f = None then [f] else [])"
  by (simp add: frWrite_def split: option.split)

lemma wire_encodeWrite:
  "sc_wire (encodeWrite c f fs sc) =
     sc_wire sc @ (let g = f (cEncode c (sc_encDone sc) fs) in if cWrite c (sc_wire sc) g = None then [g] else [])"
  by (simp add: encodeWrite_def wire_frWrite Let_def)

definition goAwayInv :: "ServerConn \<Rightarrow> bool" where
  "goAwayInv sc \<longleftrightarrow> sorted_wrt (\<ge>) (goAwayIDs (sc_wire sc)) \<and> (\<forall>i \<in> set (goAwayIDs (sc_wire sc)). sc_goAwaySentID sc \<le> i)"

lemma goAwayInv_atomic:
  assumes "goAwayInv sc" and "atomic c sc sc'"
  shows "goAwayInv sc'"
  using assms(2,1)
proof (induction rule: atomic.induct)
  case (other sc sc')
  then show ?case by (simp add: goAwayInv_def agree_def)
next
  case (control f sc)
  then show ?case by (cases f) (simp_all add: goAwayInv_def wire_frWrite)
next
  case (goaway sc sid code)
  then show ?case by (auto simp: goAwayInv_def clampGoAwayID_def wire_frWrite sorted_wrt_append Let_def)
qed (simp_all add: goAwayInv_def wire_frWrite wire_encodeWrite Let_def)

text \<open>
  C6. The last-stream-id a server announces in GOAWAY never increases (RFC 9113 section 6.8):
  whatever the graceful and the final GOAWAY, the reader's error GOAWAY and \<open>Close\<close> race to
  send, the identifiers are in non-increasing order on the wire.
\<close>

theorem goaway_ids_never_increase:
  assumes "connState c o' sc"
  shows "sorted_wrt (\<ge>) (goAwayIDs (sc_wire sc))"
proof -
  have "goAwayInv sc"
    by (rule connState_invariant [OF assms _ goAwayInv_atomic]) (simp_all add: goAwayInv_def newConn_def)
  then show ?thesis by (simp add: goAwayInv_def)
qed

theorem goaway_ids_never_increase_witness:
  "sorted_wrt (\<ge>) (goAwayIDs (sc_wire sampleState)) \<and> goAwayIDs (sc_wire sampleState) = [2147483647, 1]"
  using goaway_ids_never_increase [OF sampleState_connState] by (simp add: sampleState_wire maxStreamID_def)


section \<open>Streams and the table\<close>

text \<open>
  Every entry of the table is a stream that carries the entry's identifier, every identifier
  given out has been consumed, and no two streams carry the same one.
\<close>

definition tableInv :: "ServerConn \<Rightarrow> bool" where
  "tableInv sc \<longleftrightarrow> tbl_wf (sc_tbl sc) \<and> lookupStream sc 0 = None
     \<and> (\<forall>sid s. lookupStream sc sid = Some s \<longrightarrow> ss_id (strm sc s) = sid)
     \<and> (\<forall>s. ss_id (strm sc s) \<noteq> 0 \<longrightarrow> s < sc_next sc \<and> \<not> isIdleStream sc (ss_id (strm sc s)))
     \<and> (\<forall>s s'. ss_id (strm sc s) = ss_id (strm sc s') \<longrightarrow> ss_id (strm sc s) \<noteq> 0 \<longrightarrow> s = s')"

text \<open>The invariant only looks at the table, the pointer supply and the identifiers.\<close>

lemma tableInv_cong:
  assumes "tableInv sc" and "sc_tbl sc' = sc_tbl sc" and "sc_next sc' = sc_next sc"
    and "\<And>s. ss_id (strm sc' s) = ss_id (strm sc s)"
  shows "tableInv sc'"
  using assms by (simp add: tableInv_def lookupStream_def isIdleStream_def)

lemma tableInv_remove:
  assumes "tableInv sc" and "tbl_wf (sc_tbl sc')" and "tbl_idle (sc_tbl sc') = tbl_idle (sc_tbl sc)"
    and "\<And>sid s. lookupStream sc' sid = Some s \<Longrightarrow> lookupStream sc sid = Some s"
    and "sc_next sc' = sc_next sc" and "\<And>s. ss_id (strm sc' s) = ss_id (strm sc s)"
  shows "tableInv sc'"
proof -
  have "lookupStream sc' 0 = None" using assms(1) assms(4) [of 0] by (cases "lookupStream sc' 0") (auto simp: tableInv_def)
  then show ?thesis using assms by (simp add: tableInv_def isIdleStream_def)
qed

lemma tableInvD:
  assumes "tableInv sc"
  shows "tbl_wf (sc_tbl sc)" and "lookupStream sc 0 = None"
    and "lookupStream sc sid = Some s \<Longrightarrow> ss_id (strm sc s) = sid"
    and "ss_id (strm sc s) \<noteq> 0 \<Longrightarrow> s < sc_next sc"
    and "ss_id (strm sc s) \<noteq> 0 \<Longrightarrow> \<not> isIdleStream sc (ss_id (strm sc s))"
    and "ss_id (strm sc s) = ss_id (strm sc s') \<Longrightarrow> ss_id (strm sc s) \<noteq> 0 \<Longrightarrow> s = s'"
  using assms by (auto simp: tableInv_def)

lemma tableInv_fresh: "tableInv sc \<Longrightarrow> ss_id (strm sc (sc_next sc)) = 0"
  using tableInvD(4) by blast

lemma tableInv_live_old:
  assumes "tableInv sc" and "lookupStream sc sid = Some s"
  shows "s \<noteq> sc_next sc"
  using tableInvD(2,3) [OF assms(1)] tableInv_fresh [OF assms(1)] assms(2) by (metis option.distinct(1))

text \<open>A new stream under the next pointer, with an identifier that was idle, or with none.\<close>

lemma tableInv_extend:
  assumes I: "tableInv sc" and wf: "tbl_wf (sc_tbl sc')" and next': "sc_next sc' = sc_next sc + 1"
    and old: "\<And>x. x \<noteq> sc_next sc \<Longrightarrow> strm sc' x = strm sc x"
    and sid: "ss_id (strm sc' (sc_next sc)) = sid"
    and idle: "\<And>j. isIdleStream sc' j \<Longrightarrow> isIdleStream sc j"
    and used: "sid \<noteq> 0 \<Longrightarrow> isIdleStream sc sid \<and> \<not> isIdleStream sc' sid"
    and look: "\<And>j. lookupStream sc' j = lookupStream sc j \<or> j = sid \<and> sid \<noteq> 0 \<and> lookupStream sc' j = Some (sc_next sc)"
  shows "tableInv sc'"
proof -
  note D = tableInvD [OF I]
  have other: "ss_id (strm sc s) \<noteq> sid" if "sid \<noteq> 0" for s using D(5) [of s] used that by auto
  have lk: "ss_id (strm sc' s) = j" if "lookupStream sc' j = Some s" for s j
    using look [of j] that D(3) [of j s] old [of s] tableInv_live_old [OF I, of j s] sid by auto
  have nz: "lookupStream sc' 0 = None" using look [of 0] D(2) by auto
  have lt: "s < sc_next sc'" if "ss_id (strm sc' s) \<noteq> 0" for s
    using that D(4) [of s] old [of s] next' by (cases "s = sc_next sc") auto
  have ni: "\<not> isIdleStream sc' (ss_id (strm sc' s))" if "ss_id (strm sc' s) \<noteq> 0" for s
    using that D(5) [of s] old [of s] idle used sid by (cases "s = sc_next sc") auto
  have uq: "s = s'" if "ss_id (strm sc' s) = ss_id (strm sc' s')" "ss_id (strm sc' s) \<noteq> 0" for s s'
    using that D(6) [of s s'] old [of s] old [of s'] sid other [of s] other [of s']
    by (cases "s = sc_next sc"; cases "s' = sc_next sc") auto
  show ?thesis unfolding tableInv_def using wf lk nz lt ni uq by blast
qed

lemma admission_tbl:
  "\<exists>w h limit. sc_tbl (admission sid cap seed prio sc) = fst (tbl_admitClient w (sc_tbl sc) h sid (sc_next sc) limit)"
  by (simp add: admission_def allocStream_def Let_def case_prod_beta) blast

lemma strm_admission:
  "x \<noteq> sc_next sc \<Longrightarrow> strm (admission sid cap seed prio sc) x = strm sc x"
  "ss_id (strm (admission sid cap seed prio sc) (sc_next sc)) = sid"
  "ss_events (strm (admission sid cap seed prio sc) (sc_next sc)) = []"
  "\<not> ss_evClosed (strm (admission sid cap seed prio sc) (sc_next sc))"
  by (auto simp: admission_def allocStream_def tbl_admitClient_def upds_def newServerStream_def Let_def)

lemma lookup_admission:
  "lookupStream (admission sid cap seed prio sc) sid = Some (sc_next sc)
     \<and> ss_sendWindow (strm (admission sid cap seed prio sc) (sc_next sc)) = sint (peerWindow sc)
   \<or> lookupStream (admission sid cap seed prio sc) = lookupStream sc
     \<and> \<not> Writable (ss_st (strm (admission sid cap seed prio sc) (sc_next sc)))
     \<and> ss_sendWindow (strm (admission sid cap seed prio sc) (sc_next sc)) = 0"
  by (auto simp: admission_def allocStream_def tbl_admitClient_def upds_def newServerStream_def Let_def peerWindow_def
      lookupStream_def tbl_lookup_def Writable_iff)

lemma admission_ids:
  assumes "tbl_validateClientID (sc_tbl sc) sid = None"
  shows "isIdleStream sc sid" and "\<not> isIdleStream (admission sid cap seed prio sc) sid"
    and "isIdleStream (admission sid cap seed prio sc) j \<Longrightarrow> isIdleStream sc j"
    and "j \<noteq> sid \<Longrightarrow> lookupStream (admission sid cap seed prio sc) j = lookupStream sc j" and "sid \<noteq> 0"
proof -
  obtain w h limit where t: "sc_tbl (admission sid cap seed prio sc) = fst (tbl_admitClient w (sc_tbl sc) h sid (sc_next sc) limit)"
    using admission_tbl by blast
  note ids = admitClient_ids [OF assms]
  show "isIdleStream sc sid" "\<not> isIdleStream (admission sid cap seed prio sc) sid"
    "isIdleStream (admission sid cap seed prio sc) j \<Longrightarrow> isIdleStream sc j"
    "j \<noteq> sid \<Longrightarrow> lookupStream (admission sid cap seed prio sc) j = lookupStream sc j"
    using ids by (simp_all add: isIdleStream_def lookupStream_def t)
  show "sid \<noteq> 0" using assms by (auto simp: validateClientID_None_iff isClientID_def)
qed

lemma tableInv_admission:
  assumes "tableInv sc" and "tbl_validateClientID (sc_tbl sc) sid = None"
  shows "tableInv (admission sid cap seed prio sc)"
proof (rule tableInv_extend [OF assms(1)])
  note ids = admission_ids [OF assms(2)]
  show "tbl_wf (sc_tbl (admission sid cap seed prio sc))"
    using admission_tbl [of sid cap seed prio sc] tbl_wf_admitClient [OF tableInvD(1) [OF assms(1)] assms(2)] by auto
  show "lookupStream (admission sid cap seed prio sc) j = lookupStream sc j
      \<or> j = sid \<and> sid \<noteq> 0 \<and> lookupStream (admission sid cap seed prio sc) j = Some (sc_next sc)" for j
    using ids lookup_admission [of sid cap seed prio sc] by (cases "j = sid") auto
qed (use admission_ids [OF assms(2)] strm_admission in auto)

lemma reservation_cases:
  obtains (refused) "strm (reservation sc) = (strm sc)(sc_next sc := newPushStream)" "sc_tbl (reservation sc) = sc_tbl sc"
  | (reserved) "strm (reservation sc) = (strm sc)(sc_next sc := newPushStream\<lparr>ss_id := nextPush (sc_tbl sc),
        ss_sendWindow := sint (peerWindow sc)\<rparr>)"
      "sc_tbl (reservation sc) = (sc_tbl sc)\<lparr>nextPush := nextPush (sc_tbl sc) + 2,
        streams := aput (nextPush (sc_tbl sc)) (sc_next sc) (streams (sc_tbl sc)), nPush := nPush (sc_tbl sc) + 1\<rparr>"
proof (cases "let limit = settingValue (sc_peerSettings sc) SettingMaxConcurrentStreams noStreamLimit
    in limit \<noteq> noStreamLimit \<and> (word_of_int (nPush (sc_tbl sc)) :: uint32) \<ge> limit")
  case True
  then show ?thesis
    by (intro refused) (auto simp: reservation_def allocStream_def tbl_reservePush_def Let_def peerWindow_def)
next
  case False
  then show ?thesis
    by (intro reserved) (auto simp: reservation_def allocStream_def tbl_reservePush_def Let_def peerWindow_def)
qed

lemma tableInv_reservation:
  assumes "tableInv sc" and "pushRoom (sc_tbl sc)"
  shows "tableInv (reservation sc)"
proof (cases sc rule: reservation_cases)
  case refused
  show ?thesis
    by (rule tableInv_extend [OF assms(1), where sid = 0])
       (use tableInvD(1) [OF assms(1)] refused in \<open>simp_all add: isIdleStream_def lookupStream_def newPushStream_def newServerStream_def\<close>)
next
  case reserved
  note wf = tableInvD(1) [OF assms(1)]
  obtain w h limit h' where r: "tbl_reservePush w (sc_tbl sc) h (sc_next sc) limit = (sc_tbl (reservation sc), h', Some (nextPush (sc_tbl sc)))"
    using reserved(2) by (auto simp: tbl_reservePush_def Let_def intro!: exI [of _ noStreamLimit] that)
  note ids = reservePush_ids [OF wf assms(2) r]
  show ?thesis
  proof (rule tableInv_extend [OF assms(1), where sid = "nextPush (sc_tbl sc)"])
    show "tbl_wf (sc_tbl (reservation sc))" using tbl_wf_reservePush [OF wf assms(2), of w h "sc_next sc" limit] r by simp
    show "lookupStream (reservation sc) j = lookupStream sc j
      \<or> j = nextPush (sc_tbl sc) \<and> nextPush (sc_tbl sc) \<noteq> 0 \<and> lookupStream (reservation sc) j = Some (sc_next sc)" for j
      using ids(4) [of j] wf reserved(2) by (cases "j = nextPush (sc_tbl sc)") (auto simp: lookupStream_def tbl_lookup_def tbl_wf_def)
  qed (use ids reserved in \<open>auto simp: isIdleStream_def\<close>)
qed


lemma markStreamDone_fields [simp]:
  "sc_tbl (markStreamDone sid sc) = fst (tbl_release (sc_tbl sc) sid)"
  "lookupStream (markStreamDone sid sc) = (lookupStream sc)(sid := None)"
  "isIdleStream (markStreamDone sid sc) = isIdleStream sc"
proof -
  show t: "sc_tbl (markStreamDone sid sc) = fst (tbl_release (sc_tbl sc) sid)"
    by (auto simp: markStreamDone_def tbl_release_def Let_def split: option.splits)
  show "lookupStream (markStreamDone sid sc) = (lookupStream sc)(sid := None)"
    "isIdleStream (markStreamDone sid sc) = isIdleStream sc"
    by (auto simp: lookupStream_def isIdleStream_def t fun_eq_iff)
qed

lemma tableInv_markStreamDone: "tableInv sc \<Longrightarrow> tableInv (markStreamDone sid sc)"
  by (rule tableInv_remove, assumption) (auto intro: tbl_wf_release dest: tableInvD(1) split: if_splits)

lemma shutdown_fold_obj [simp]:
  "ss_id (strm (fold shutdownStream l sc) x) = ss_id (strm sc x)"
  "ss_st (strm (fold shutdownStream l sc) x) = ss_st (strm sc x)"
  "ss_eventCap (strm (fold shutdownStream l sc) x) = ss_eventCap (strm sc x)"
  "ss_sendWindow (strm (fold shutdownStream l sc) x) = ss_sendWindow (strm sc x)"
  by (induction l arbitrary: sc) (simp_all add: shutdownStream_def chanSend_def strm_upds Let_def)

lemma shutdownStreams_obj [simp]:
  "ss_id (strm (shutdownStreams sc) x) = ss_id (strm sc x)" "ss_st (strm (shutdownStreams sc) x) = ss_st (strm sc x)"
  "ss_eventCap (strm (shutdownStreams sc) x) = ss_eventCap (strm sc x)"
  "ss_sendWindow (strm (shutdownStreams sc) x) = ss_sendWindow (strm sc x)"
  by (simp_all add: shutdownStreams_def case_prod_beta)

lemma shutdownStreams_tbl [simp]:
  "sc_tbl (shutdownStreams sc) = fst (tbl_drain (sc_tbl sc))"
  "lookupStream (shutdownStreams sc) = (\<lambda>_. None)" "isIdleStream (shutdownStreams sc) = isIdleStream sc"
  by (auto simp: shutdownStreams_def case_prod_beta lookupStream_def isIdleStream_def fun_eq_iff)

lemma strm_upds_field: "g (f (strm sc s)) = g (strm sc s) \<Longrightarrow> g (strm (upds s f sc) x) = g (strm sc x)"
  by (simp add: strm_upds)

lemma quiet_obj:
  assumes "quiet f"
  shows "ss_id (strm (upds s f sc) x) = ss_id (strm sc x)" "ss_st (strm (upds s f sc) x) = ss_st (strm sc x)"
    "ss_events (strm (upds s f sc) x) = ss_events (strm sc x)" "ss_eventCap (strm (upds s f sc) x) = ss_eventCap (strm sc x)"
    "ss_evClosed (strm (upds s f sc) x) = ss_evClosed (strm sc x)"
    "ss_sendWindow (strm (upds s f sc) x) = ss_sendWindow (strm sc x)"
  using assms by (simp_all add: strm_upds quiet_def)

lemma tableInv_atomic:
  assumes "tableInv sc" and "atomic c sc sc'"
  shows "tableInv sc'"
  using assms(2,1)
proof (induction rule: atomic.induct)
  case (other sc sc')
  then show ?case by (auto intro: tableInv_cong simp: agree_def)
next
  case (local f sc s)
  show ?case by (rule tableInv_cong [OF local(2)]) (simp_all add: quiet_obj [OF local(1)])
next
  case (admit sc sid cap seed prio)
  then show ?case by (blast intro: tableInv_admission)
next
  case (reserve sc sid)
  then show ?case by (blast intro: tableInv_reservation)
next
  case (release sid sc)
  then show ?case by (blast intro: tableInv_markStreamDone)
next
  case (drain sc)
  show ?case
    by (rule tableInv_remove [OF drain(2)])
       (use tableInvD(1) [OF drain(2)] in \<open>simp_all add: tbl_wf_drain lookupStream_def\<close>)
next
  case (reset sc s code)
  show ?case by (rule tableInv_markStreamDone) (rule tableInv_cong [OF reset(3)], simp_all)
next
  case (resetID sc sid code)
  show ?case by (rule tableInv_markStreamDone) (rule tableInv_cong [OF resetID(5)], simp_all)
qed (rule tableInv_cong, assumption, simp_all add: strm_upds chanSend_def)+

lemma tableInv_new: "tableInv (newConn o')"
  using tbl_wf_new by (simp add: tableInv_def newConn_def lookupStream_def newStreamTable_def tbl_lookup_def newServerStream_def)


section \<open>Limits in force\<close>

text \<open>The peer's settings have been validated and the configured frame size has been clamped.\<close>

definition limitsInv :: "ServerConn \<Rightarrow> bool" where
  "limitsInv sc \<longleftrightarrow> settings_wf (sc_peerSettings sc)
     \<and> (\<forall>x v. map_of (sc_peerSettings sc) x = Some v \<longrightarrow> setting_ok x v)
     \<and> 16384 \<le> MaxFrameSize (advSettings (sc_opts sc)) \<and> MaxFrameSize (advSettings (sc_opts sc)) \<le> 16777215"

lemma limitsInv_cong:
  "limitsInv sc \<Longrightarrow> sc_peerSettings sc' = sc_peerSettings sc \<Longrightarrow> sc_opts sc' = sc_opts sc \<Longrightarrow> limitsInv sc'"
  by (simp add: limitsInv_def)

lemma limitsInv_atomic:
  assumes "limitsInv sc" and "atomic c sc sc'"
  shows "limitsInv sc'"
  using assms(2,1)
proof (induction rule: atomic.induct)
  case (other sc sc')
  then show ?case by (auto intro: limitsInv_cong simp: agree_def)
next
  case (settings s sc)
  have "setting_ok x v" if "map_of (rev s) x = Some v" for x v
    using settings(1) that map_of_SomeD [OF that] by (auto simp: validate_None_iff)
  then show ?case using settings(2) mergeSettings_wf [of "sc_peerSettings sc" s]
    by (auto simp: limitsInv_def map_of_mergeSettings split: if_splits option.splits)
qed (rule limitsInv_cong, assumption, simp_all add: chanSend_def)+

lemma as_defaulted_frame:
  "16384 \<le> MaxFrameSize (as_defaulted a)" "MaxFrameSize (as_defaulted a) \<le> 16777215"
  by (simp_all add: as_defaulted_def Let_def not_less)

lemma opts_defaulted_adv [simp]: "advSettings (opts_defaulted o') = as_defaulted (advSettings o')"
  by (simp add: opts_defaulted_def Let_def)

lemma limitsInv_new: "limitsInv (newConn (opts_defaulted o'))"
  by (simp add: limitsInv_def newConn_def settings_wf_def as_defaulted_frame)

lemma limits_frames:
  assumes "limitsInv sc"
  shows "24 \<le> maxWritableFrame sc" and "dataMaxFrame sc \<le> 16777215" and "peerWindow sc \<le> 2147483647"
proof -
  let ?p = "settingValue (sc_peerSettings sc) SettingMaxFrameSize 16384"
  have p: "16384 \<le> ?p" "?p \<le> 16777215"
    using assms by (auto simp: limitsInv_def settingValue_map_of setting_ok_def split: option.split)
  have w: "16384 \<le> uint ?p" "uint ?p \<le> 16777215" using p by (simp_all add: word_le_def)
  have o: "16384 \<le> uint (MaxFrameSize (advSettings (sc_opts sc)))" "uint (MaxFrameSize (advSettings (sc_opts sc))) \<le> 16777215"
    using assms by (simp_all add: limitsInv_def word_le_def)
  show "24 \<le> maxWritableFrame sc" using w o by (simp add: maxWritableFrame_def peerMaxFrameSize_def Let_def)
  show "dataMaxFrame sc \<le> 16777215" using w o by (simp add: dataMaxFrame_def Let_def)
  show "peerWindow sc \<le> 2147483647"
    using assms by (auto simp: limitsInv_def peerWindow_def settingValue_map_of setting_ok_def connInitialRecvWindow_def split: option.split)
qed

section \<open>The HPACK encoder\<close>

text \<open>A transport that has failed a write fails every later one.\<close>

definition sticky :: "codec \<Rightarrow> bool" where
  "sticky c \<longleftrightarrow> (\<forall>sent f g. cWrite c sent f \<noteq> None \<longrightarrow> cWrite c sent g \<noteq> None)"

lemma failed_stuck: "sticky c \<Longrightarrow> failed c sc \<Longrightarrow> cWrite c (sc_wire sc) f \<noteq> None"
  unfolding sticky_def failed_def by (metis option.distinct(1))

lemma failed_cong: "sc_wire sc' = sc_wire sc \<Longrightarrow> failed c sc' = failed c sc"
  by (simp add: failed_def)

lemma failed_frWrite: "sticky c \<Longrightarrow> failed c sc \<Longrightarrow> failed c (fst (frWrite c f sc))"
  using failed_stuck [of c sc f] by (auto simp: frWrite_def split: option.split)

lemma failed_atomic:
  assumes "failed c sc" and "atomic c sc sc'" and "sticky c"
  shows "sc_wire sc' = sc_wire sc"
  using assms(2,1)
proof (induction rule: atomic.induct)
  case (other sc sc')
  then show ?case by (simp add: agree_def)
qed (simp_all add: wire_frWrite wire_encodeWrite Let_def chanSend_def clampGoAwayID_def failed_stuck [OF assms(3)])


text \<open>The header blocks on the wire, and the blocks the encoder produced.\<close>

fun wireBlocks :: "wframe list \<Rightarrow> bytes list" where
  "wireBlocks [] = []"
| "wireBlocks (WHeaders sid b e prio # fs) = b # wireBlocks fs"
| "wireBlocks (WPushPromise sid pid b # fs) = b # wireBlocks fs"
| "wireBlocks (f # fs) = wireBlocks fs"

fun encBlocksFrom :: "codec \<Rightarrow> encOp list \<Rightarrow> encOp list \<Rightarrow> bytes list" where
  "encBlocksFrom c hist [] = []"
| "encBlocksFrom c hist (EncBlock fs # ops) = cEncode c hist fs # encBlocksFrom c (hist @ [EncBlock fs]) ops"
| "encBlocksFrom c hist (EncResize n # ops) = encBlocksFrom c (hist @ [EncResize n]) ops"

definition encBlocks :: "codec \<Rightarrow> encOp list \<Rightarrow> bytes list" where
  "encBlocks c ops = encBlocksFrom c [] ops"

lemma wireBlocks_append [simp]: "wireBlocks (fs @ gs) = wireBlocks fs @ wireBlocks gs"
  by (induction fs rule: wireBlocks.induct) simp_all

lemma encBlocksFrom_append: "encBlocksFrom c hist (ops @ ops') = encBlocksFrom c hist ops @ encBlocksFrom c (hist @ ops) ops'"
  by (induction c hist ops rule: encBlocksFrom.induct) simp_all

lemma encBlocks_snoc [simp]: "encBlocks c (ops @ [EncBlock fs]) = encBlocks c ops @ [cEncode c ops fs]"
  by (simp add: encBlocks_def encBlocksFrom_append)

lemma encBlocks_resizes [simp]: "encBlocks c (ops @ encResizes s) = encBlocks c ops"
proof -
  have "encBlocksFrom c hist (encResizes s) = []" for hist
    by (induction s arbitrary: hist) (simp_all add: encResizes_def)
  then show ?thesis by (simp add: encBlocks_def encBlocksFrom_append)
qed

definition encInv :: "codec \<Rightarrow> ServerConn \<Rightarrow> bool" where
  "encInv c sc \<longleftrightarrow> failed c sc \<or> wireBlocks (sc_wire sc) = encBlocks c (sc_encDone sc)"

lemma encInv_atomic:
  assumes "encInv c sc" and "atomic c sc sc'" and "sticky c"
  shows "encInv c sc'"
proof (cases "failed c sc")
  case True
  then show ?thesis using failed_cong [OF failed_atomic [OF True assms(2,3)], of c] by (simp add: encInv_def)
next
  case False
  have "wireBlocks (sc_wire sc') = encBlocks c (sc_encDone sc') \<or> failed c sc'"
    if "wireBlocks (sc_wire sc) = encBlocks c (sc_encDone sc)"
    using assms(2) that
  proof (induction rule: atomic.induct)
    case (other sc sc')
    then show ?case by (simp add: agree_def)
  next
    case (control f sc)
    then show ?case by (cases f) (simp_all add: wire_frWrite)
  next
    case (headers sc s endStream prio fs)
    then show ?case by (auto simp: wire_encodeWrite failed_def Let_def)
  next
    case (promise sc s pid fs)
    then show ?case by (auto simp: wire_encodeWrite failed_def Let_def)
  qed (simp_all add: wire_frWrite chanSend_def clampGoAwayID_def)
  then show ?thesis using assms(1) False by (auto simp: encInv_def)
qed


lemma sampleCodec_sticky: "sticky sampleCodec" "\<not> failed sampleCodec sc"
  by (simp_all add: sticky_def failed_def sampleCodec_def)


section \<open>After a reset\<close>

definition resetIDs :: "wframe list \<Rightarrow> uint32 set" where
  "resetIDs w = {sid. \<exists>code. WRSTStream sid code \<in> set w}"

fun carries :: "wframe \<Rightarrow> uint32 \<Rightarrow> bool" where
  "carries (WHeaders sid b e prio) x \<longleftrightarrow> sid = x"
| "carries (WData sid d e) x \<longleftrightarrow> sid = x"
| "carries (WPushPromise sid pid b) x \<longleftrightarrow> sid = x"
| "carries _ x \<longleftrightarrow> False"

text \<open>No HEADERS, DATA or PUSH\_PROMISE follows a RST\_STREAM of the same stream.\<close>

definition silentAfterReset :: "wframe list \<Rightarrow> bool" where
  "silentAfterReset w \<longleftrightarrow> (\<forall>i j sid code. i < j \<longrightarrow> j < length w \<longrightarrow> w ! i = WRSTStream sid code \<longrightarrow> sid \<noteq> 0 \<longrightarrow> \<not> carries (w ! j) sid)"

lemma resetIDs_simps [simp]:
  "resetIDs [] = {}" "resetIDs (v @ w) = resetIDs v \<union> resetIDs w"
  "resetIDs [WRSTStream sid code] = {sid}" "carries f x \<Longrightarrow> resetIDs [f] = {}" "isControl f \<Longrightarrow> resetIDs [f] = {}"
  "resetIDs [WGoAway n code] = {}" "resetIDs [WHeaders sid b e prio] = {}" "resetIDs [WData sid d e] = {}"
  "resetIDs [WPushPromise sid pid b] = {}"
  by (auto simp: resetIDs_def)

lemma silent_snoc:
  "silentAfterReset (w @ [f]) \<longleftrightarrow> silentAfterReset w \<and> (\<forall>sid. sid \<noteq> 0 \<longrightarrow> carries f sid \<longrightarrow> sid \<notin> resetIDs w)"
  (is "?L \<longleftrightarrow> ?R")
proof
  assume L: ?L
  have "sid \<notin> resetIDs w" if "sid \<noteq> 0" "carries f sid" for sid
  proof
    assume "sid \<in> resetIDs w"
    then obtain i code where "i < length w" "w ! i = WRSTStream sid code" by (auto simp: resetIDs_def in_set_conv_nth)
    then show False using L that unfolding silentAfterReset_def
      by (elim allE [of _ i] allE [of _ "length w"] allE [of _ sid] allE [of _ code]) (simp add: nth_append)
  qed
  moreover have "silentAfterReset w" unfolding silentAfterReset_def
  proof (intro allI impI)
    fix i j sid code
    assume "i < j" "j < length w" "w ! i = WRSTStream sid code" "sid \<noteq> 0"
    then show "\<not> carries (w ! j) sid" using L unfolding silentAfterReset_def
      by (elim allE [of _ i] allE [of _ j] allE [of _ sid] allE [of _ code]) (simp add: nth_append)
  qed
  ultimately show ?R by blast
next
  assume R: ?R
  show ?L unfolding silentAfterReset_def
  proof (intro allI impI)
    fix i j sid code
    assume *: "i < j" "j < length (w @ [f])" "(w @ [f]) ! i = WRSTStream sid code" "sid \<noteq> 0"
    then have wi: "w ! i = WRSTStream sid code" "i < length w" by (simp_all add: nth_append)
    then have "sid \<in> resetIDs w" by (auto simp: resetIDs_def) (metis nth_mem)
    then show "\<not> carries ((w @ [f]) ! j) sid" using R * wi unfolding silentAfterReset_def
      by (cases "j = length w") (auto simp: nth_append)
  qed
qed


text \<open>
  Why it holds, as long as the connection is open and the transport has not failed: a stream
  that can be written to is in the table while the reader runs, and an identifier that was reset
  has left the table, is not idle, and its stream can no longer be written to.
\<close>

definition resetOk :: "ServerConn \<Rightarrow> bool" where
  "resetOk sc \<longleftrightarrow>
     (\<forall>s. \<not> sc_readerDone sc \<longrightarrow> ss_id (strm sc s) \<noteq> 0 \<longrightarrow> Writable (ss_st (strm sc s)) \<longrightarrow>
        lookupStream sc (ss_id (strm sc s)) = Some s)
     \<and> (\<forall>s. ss_id (strm sc s) \<noteq> 0 \<longrightarrow> ss_id (strm sc s) \<in> resetIDs (sc_wire sc) \<longrightarrow> \<not> Writable (ss_st (strm sc s)))
     \<and> (\<forall>sid \<in> resetIDs (sc_wire sc). sid \<noteq> 0 \<longrightarrow> \<not> isIdleStream sc sid \<and> lookupStream sc sid = None)"

definition resetInv :: "codec \<Rightarrow> ServerConn \<Rightarrow> bool" where
  "resetInv c sc \<longleftrightarrow> tableInv sc \<and> limitsInv sc \<and> silentAfterReset (sc_wire sc)
     \<and> (sc_closed sc \<or> failed c sc \<or> resetOk sc)"

lemma resetOkD:
  assumes "resetOk sc"
  shows "\<not> sc_readerDone sc \<Longrightarrow> ss_id (strm sc s) \<noteq> 0 \<Longrightarrow> Writable (ss_st (strm sc s)) \<Longrightarrow>
      lookupStream sc (ss_id (strm sc s)) = Some s"
    and "ss_id (strm sc s) \<noteq> 0 \<Longrightarrow> ss_id (strm sc s) \<in> resetIDs (sc_wire sc) \<Longrightarrow> \<not> Writable (ss_st (strm sc s))"
    and "sid \<in> resetIDs (sc_wire sc) \<Longrightarrow> sid \<noteq> 0 \<Longrightarrow> \<not> isIdleStream sc sid \<and> lookupStream sc sid = None"
  using assms by (auto simp: resetOk_def)

text \<open>States with the same table, wire and streams up to a growing state word.\<close>

lemma resetOk_mono:
  assumes "resetOk sc" and "sc_tbl sc' = sc_tbl sc" and "sc_readerDone sc' = sc_readerDone sc"
    and "resetIDs (sc_wire sc') = resetIDs (sc_wire sc)" and "\<And>s. ss_id (strm sc' s) = ss_id (strm sc s)"
    and "\<And>s. Writable (ss_st (strm sc' s)) \<Longrightarrow> Writable (ss_st (strm sc s))"
  shows "resetOk sc'"
  using assms unfolding resetOk_def lookupStream_def isIdleStream_def by metis

lemma resetOk_new_stream:
  assumes "resetOk sc" and "tableInv sc" and "sc_readerDone sc' = sc_readerDone sc" and "sc_wire sc' = sc_wire sc"
    and old: "\<And>x. x \<noteq> sc_next sc \<Longrightarrow> strm sc' x = strm sc x"
    and sid: "ss_id (strm sc' (sc_next sc)) = sid"
    and idle: "\<And>j. isIdleStream sc' j \<Longrightarrow> isIdleStream sc j" and used: "sid \<noteq> 0 \<Longrightarrow> isIdleStream sc sid"
    and look: "\<And>j. j \<noteq> sid \<Longrightarrow> lookupStream sc' j = lookupStream sc j"
    and new: "sid \<noteq> 0 \<Longrightarrow> Writable (ss_st (strm sc' (sc_next sc))) \<Longrightarrow> lookupStream sc' sid = Some (sc_next sc)"
  shows "resetOk sc'"
proof -
  note D = tableInvD [OF assms(2)] and R = resetOkD [OF assms(1)]
  have other: "ss_id (strm sc s) \<noteq> sid" if "sid \<noteq> 0" for s using D(5) [of s] used that by auto
  have fresh: "sid \<notin> resetIDs (sc_wire sc)" if "sid \<noteq> 0" using R(3) used that by blast
  have a: "lookupStream sc' (ss_id (strm sc' s)) = Some s"
    if "\<not> sc_readerDone sc'" "ss_id (strm sc' s) \<noteq> 0" "Writable (ss_st (strm sc' s))" for s
  proof (cases "s = sc_next sc")
    case False
    then have "ss_id (strm sc s) \<noteq> sid" using that(2) other [of s] old [of s] by (cases "sid = 0") auto
    then show ?thesis using False that old [of s] look R(1) [of s] assms(3) by simp
  qed (use that new sid in simp)
  have b: "\<not> Writable (ss_st (strm sc' s))" if "ss_id (strm sc' s) \<noteq> 0" "ss_id (strm sc' s) \<in> resetIDs (sc_wire sc')" for s
    using that old [of s] R(2) [of s] sid fresh assms(4) by (cases "s = sc_next sc") auto
  have d: "\<not> isIdleStream sc' j \<and> lookupStream sc' j = None" if "j \<in> resetIDs (sc_wire sc')" "j \<noteq> 0" for j
    using that R(3) [of j] assms(4) idle [of j] look [of j] fresh by (cases "j = sid") auto
  show ?thesis unfolding resetOk_def using a b d by blast
qed

text \<open>A reset is written: its stream is closed for writing, and released in the same section.\<close>

lemma resetOk_reset:
  assumes "resetOk sc" and "tableInv sc" and "sid \<noteq> 0 \<Longrightarrow> \<not> isIdleStream sc sid"
    and "\<And>s. ss_id (strm sc s) = sid \<Longrightarrow> sid \<noteq> 0 \<Longrightarrow> \<not> Writable (ss_st (strm sc s))"
  shows "resetOk (markStreamDone sid (fst (frWrite c (WRSTStream sid code) sc)))"
proof -
  let ?sc = "fst (frWrite c (WRSTStream sid code) sc)"
  note R = resetOkD [OF assms(1)]
  have w: "resetIDs (sc_wire ?sc) \<subseteq> insert sid (resetIDs (sc_wire sc))" by (auto simp: wire_frWrite)
  show ?thesis unfolding resetOk_def
    using R assms(3,4) w by (auto simp: lookupStream_def isIdleStream_def)
qed


lemma closed_atomic:
  assumes "sc_closed sc" and "atomic c sc sc'"
  shows "sc_closed sc'"
  using assms(2,1) by (induction rule: atomic.induct) (simp_all add: agree_def chanSend_def clampGoAwayID_def)

lemma silent_other: "(\<And>sid. \<not> carries f sid) \<Longrightarrow> silentAfterReset (w @ [f]) = silentAfterReset w"
  by (simp add: silent_snoc)

lemma isControl_carries: "isControl f \<Longrightarrow> \<not> carries f sid"
  by (cases f) simp_all

lemma silent_atomic:
  assumes "sc_closed sc \<or> resetOk sc \<and> tableInv sc" and "silentAfterReset (sc_wire sc)" and "atomic c sc sc'"
  shows "silentAfterReset (sc_wire sc')"
  using assms(3,1,2)
proof (induction rule: atomic.induct)
  case (other sc sc')
  then show ?case by (simp add: agree_def)
next
  case (control f sc)
  then show ?case by (simp add: wire_frWrite silent_other isControl_carries)
next
  case (headers sc s endStream prio fs)
  then show ?case using resetOkD(2) [of sc s] by (auto simp: wire_encodeWrite silent_snoc Let_def)
next
  case (data sc s p fin)
  then show ?case using resetOkD(2) [of sc s] by (auto simp: wire_frWrite silent_snoc)
next
  case (promise sc s pid fs)
  then show ?case using resetOkD(3) [of sc "ss_id (strm sc s)"] by (auto simp: wire_encodeWrite silent_snoc Let_def)
qed (simp_all add: wire_frWrite silent_other chanSend_def clampGoAwayID_def)

lemma resetOk_release:
  assumes "resetOk sc" and "tableInv sc" and "limitsInv sc" and "releasable c sid sc"
  shows "sc_closed sc \<or> failed c sc \<or> resetOk (markStreamDone sid sc)"
proof -
  note R = resetOkD [OF assms(1)] and D = tableInvD [OF assms(2)]
  have gone: "\<not> Writable (ss_st (strm sc s))" if "ss_id (strm sc s) = sid" "sid \<noteq> 0" "\<not> sc_closed sc" "\<not> failed c sc"
      "lookupStream sc sid = Some s" for s
    using assms(4) that limits_frames(1) [OF assms(3)] D(6) unfolding releasable_def by fastforce
  have "resetOk (markStreamDone sid sc)" if "\<not> sc_closed sc" "\<not> failed c sc"
    unfolding resetOk_def using R gone that by auto
  then show ?thesis by blast
qed

lemma resetOk_atomic:
  assumes "resetOk sc" and "tableInv sc" and "limitsInv sc" and "atomic c sc sc'"
  shows "sc_closed sc' \<or> failed c sc' \<or> resetOk sc'"
  using assms(4,1-3)
proof (induction rule: atomic.induct)
  case (other sc sc')
  then show ?case by (auto simp: agree_def intro: resetOk_mono)
next
  case (local f sc s)
  show ?case by (intro disjI2, rule resetOk_mono [OF local(2)]) (simp_all add: quiet_obj [OF local(1)])
next
  case (mark sc s d)
  show ?case by (intro disjI2, rule resetOk_mono [OF mark(1)]) (simp_all add: strm_upds Writable_iff split: if_splits)
next
  case (admit sc sid cap seed prio)
  have "resetOk (admission sid cap seed prio sc)"
    by (rule resetOk_new_stream [OF admit(3,4)])
       (use admission_ids [OF admit(1)] strm_admission lookup_admission [of sid cap seed prio sc] in auto)
  then show ?case by blast
next
  case (reserve sc sid)
  note wf = tableInvD(1) [OF reserve(4)]
  have "resetOk (reservation sc)"
  proof (cases sc rule: reservation_cases)
    case refused
    show ?thesis
      by (rule resetOk_new_stream [OF reserve(3,4), where sid = 0])
         (use refused in \<open>simp_all add: isIdleStream_def lookupStream_def newPushStream_def newServerStream_def\<close>)
  next
    case reserved
    show ?thesis
      by (rule resetOk_new_stream [OF reserve(3,4), where sid = "nextPush (sc_tbl sc)"])
         (use reserved wf pushRoom_less [OF reserve(1)] in
           \<open>auto simp: isIdleStream_def lookupStream_def tbl_idle_def tbl_lookup_def tbl_wf_def split: if_splits\<close>)
  qed
  then show ?case by blast
next
  case (release sid sc)
  then show ?case using resetOk_release [OF release(2-4,1)] failed_cong [of "markStreamDone sid sc" sc c] by simp
next
  case (drain sc)
  have "resetOk ((shutdownStreams sc)\<lparr>sc_readerDone := True\<rparr>)"
    using resetOkD [OF drain(2)] by (auto simp: resetOk_def lookupStream_def isIdleStream_def)
  then show ?case by blast
next
  case (reset sc s code)
  have "resetOk (markStreamDone (ss_id (strm sc s)) (fst (frWrite c (WRSTStream (ss_id (strm sc s)) code) sc)))"
    by (rule resetOk_reset [OF reset(3,4)]) (use tableInvD(5,6) [OF reset(4)] reset(2) in \<open>auto simp: Writable_iff\<close>)
  then show ?case by blast
next
  case (resetID sc sid code)
  have "resetOk (markStreamDone sid (fst (frWrite c (WRSTStream sid code) sc)))"
  proof (rule resetOk_reset [OF resetID(5,6)])
    fix s assume s: "ss_id (strm sc s) = sid" "sid \<noteq> 0"
    then have "Writable (ss_st (strm sc s)) \<Longrightarrow> lookupStream sc sid = Some s" using resetOkD(1) [OF resetID(5,2), of s] by simp
    then show "\<not> Writable (ss_st (strm sc s))" using resetID(4) [of s] by (auto simp: Writable_iff)
  qed (use resetID(3) in simp)
  then show ?case by blast
next
  case (control f sc)
  show ?case by (intro disjI2, rule resetOk_mono [OF control(2)]) (simp_all add: wire_frWrite control(1))
next
  case (headers sc s endStream prio fs)
  show ?case by (intro disjI2, rule resetOk_mono [OF headers(3)]) (simp_all add: wire_encodeWrite Let_def)
next
  case (promise sc s pid fs)
  show ?case by (intro disjI2, rule resetOk_mono [OF promise(3)]) (simp_all add: wire_encodeWrite Let_def)
next
  case (data sc s p fin)
  show ?case by (intro disjI2, rule resetOk_mono [OF data(3)]) (simp_all add: wire_frWrite)
next
  case (goaway sc sid code)
  show ?case by (intro disjI2, rule resetOk_mono [OF goaway(1)]) (simp_all add: wire_frWrite clampGoAwayID_def Let_def)
qed (intro disjI2, erule resetOk_mono; simp add: strm_upds chanSend_def split: if_splits)+

lemma resetInv_atomic:
  assumes "resetInv c sc" and "atomic c sc sc'" and "sticky c"
  shows "resetInv c sc'"
proof -
  note I = assms(1) [unfolded resetInv_def]
  have "tableInv sc'" "limitsInv sc'" using I tableInv_atomic limitsInv_atomic assms(2) by blast+
  moreover have "silentAfterReset (sc_wire sc') \<and> (sc_closed sc' \<or> failed c sc' \<or> resetOk sc')"
  proof (cases "failed c sc")
    case True
    note w = failed_atomic [OF True assms(2,3)]
    then show ?thesis using I True failed_cong [OF w, of c] by simp
  next
    case False
    then show ?thesis using I silent_atomic [OF _ _ assms(2)] closed_atomic [OF _ assms(2)] resetOk_atomic [OF _ _ _ assms(2)]
      by blast
  qed
  ultimately show ?thesis by (simp add: resetInv_def)
qed




section \<open>No panics\<close>

text \<open>The reader is the only sender on event channels and closes them last.\<close>

definition panicInv :: "ServerConn \<Rightarrow> bool" where
  "panicInv sc \<longleftrightarrow> tableInv sc \<and> limitsInv sc \<and> \<not> sc_panicked sc \<and> (\<forall>s. ss_evClosed (strm sc s) \<longrightarrow> sc_readerDone sc)"

lemma table_pointers_distinct:
  assumes "tableInv sc"
  shows "distinct (map snd (streams (sc_tbl sc)))"
proof -
  have keys: "distinct (akeys (streams (sc_tbl sc)))" using tableInvD(1) [OF assms] by (simp add: tbl_wf_def)
  have "ss_id (strm sc s) = sid" if "(sid, s) \<in> set (streams (sc_tbl sc))" for sid s
    using tableInvD(3) [OF assms, of sid s] that keys by (simp add: lookupStream_def tbl_lookup_def)
  then have "inj_on snd (set (streams (sc_tbl sc)))" by (intro inj_onI) (metis prod.collapse)
  then show ?thesis using keys by (simp add: distinct_map)
qed

lemma shutdown_no_panic:
  assumes "distinct l" and "\<forall>s \<in> set l. \<not> ss_evClosed (strm sc s)"
  shows "sc_panicked (fold shutdownStream l sc) = sc_panicked sc"
  using assms
proof (induction l arbitrary: sc)
  case (Cons s l)
  have "\<forall>x \<in> set l. \<not> ss_evClosed (strm (shutdownStream s sc) x)"
    using Cons.prems by (auto simp: shutdownStream_def chanSend_def strm_upds Let_def)
  moreover have "sc_panicked (shutdownStream s sc) = sc_panicked sc"
    using Cons.prems by (auto simp: shutdownStream_def chanSend_def Let_def)
  ultimately show ?case using Cons by simp
qed simp

lemma panicInv_atomic:
  assumes "panicInv sc" and "atomic c sc sc'"
  shows "panicInv sc'"
proof -
  note I = assms(1) [unfolded panicInv_def]
  have "tableInv sc'" "limitsInv sc'" using I tableInv_atomic limitsInv_atomic assms(2) by blast+
  moreover have "\<not> sc_panicked sc' \<and> (\<forall>s. ss_evClosed (strm sc' s) \<longrightarrow> sc_readerDone sc')"
    using assms(2) I
  proof (induction rule: atomic.induct)
    case (other sc sc')
    then show ?case by (simp add: agree_def)
  next
    case (local f sc s)
    then show ?case by (simp add: quiet_obj)
  next
    case (admit sc sid cap seed prio)
    then show ?case using strm_admission(1) [of _ sc] strm_admission(4) [of sid cap seed prio sc]
      by (metis admission_frame(6,10))
  next
    case (reserve sc sid)
    then show ?case by (cases sc rule: reservation_cases) (auto simp: newPushStream_def newServerStream_def)
  next
    case (drain sc)
    let ?sc = "sc\<lparr>sc_tbl := fst (tbl_drain (sc_tbl sc))\<rparr>"
    have "sc_panicked (fold shutdownStream (map snd (streams (sc_tbl sc))) ?sc) = sc_panicked sc"
      using shutdown_no_panic [OF table_pointers_distinct [of sc], of ?sc] drain by auto
    then show ?case using drain by (simp add: shutdownStreams_def tbl_drain_def)
  next
    case (panicSlice sc)
    then show ?case using limits_frames(2) [of sc] by (simp add: maxWindow_def)
  qed (auto simp: strm_upds chanSend_def clampGoAwayID_def Let_def split: if_splits)
  ultimately show ?thesis by (simp add: panicInv_def)
qed

text \<open>
  C5. The connection never panics: in no state of any connection has a goroutine sent on a closed
  event channel, closed one twice, or sliced a body beyond its length. Event channels are closed
  only by the reader's own exit.
\<close>

theorem conn_never_panics:
  assumes "connState c o' sc"
  shows "\<not> sc_panicked sc \<and> (\<forall>s. ss_evClosed (strm sc s) \<longrightarrow> sc_readerDone sc)"
proof -
  have "panicInv sc"
    by (rule connState_invariant [OF assms _ panicInv_atomic])
       (use tableInv_new limitsInv_new in \<open>simp_all add: panicInv_def newConn_def newServerStream_def\<close>)
  then show ?thesis by (simp add: panicInv_def)
qed

theorem conn_never_panics_witness: "\<not> sc_panicked sampleState"
  using conn_never_panics [OF sampleState_connState] by simp

section \<open>Event queues\<close>

definition queuesInv :: "ServerConn \<Rightarrow> bool" where
  "queuesInv sc \<longleftrightarrow> (\<forall>s. list_all eventOk (ss_events (strm sc s)) \<and> length (ss_events (strm sc s)) \<le> ss_eventCap (strm sc s))"

lemma shutdown_fold_queues:
  "queuesInv sc \<Longrightarrow> queuesInv (fold shutdownStream l sc)"
proof (induction l arbitrary: sc)
  case (Cons s l)
  have "queuesInv (shutdownStream s sc)" using Cons.prems
    by (auto simp: queuesInv_def shutdownStream_def chanSend_def strm_upds chanFull_def Let_def)
  then show ?case using Cons.IH by simp
qed simp

lemma queuesInv_atomic:
  assumes "queuesInv sc" and "atomic c sc sc'"
  shows "queuesInv sc'"
  using assms(2,1)
proof (induction rule: atomic.induct)
  case (other sc sc')
  then show ?case by (simp add: agree_def queuesInv_def)
next
  case (local f sc s)
  then show ?case by (simp add: quiet_obj queuesInv_def)
next
  case (take sc s e es)
  then have "list_all eventOk (e # es) \<and> length (e # es) \<le> ss_eventCap (strm sc s)" unfolding queuesInv_def by metis
  then show ?case using take(2) by (auto simp: queuesInv_def strm_upds)
next
  case (admit sc sid cap seed prio)
  then show ?case using strm_admission(1) [of _ sc sid cap seed prio] strm_admission(3) [of sid cap seed prio sc]
    unfolding queuesInv_def by (metis list.pred_inject(1) list.size(3) zero_le)
next
  case (reserve sc sid)
  then show ?case by (cases sc rule: reservation_cases) (auto simp: newPushStream_def newServerStream_def queuesInv_def)
next
  case (drain sc)
  have "queuesInv (sc\<lparr>sc_tbl := t\<rparr>)" for t using drain(2) by (simp add: queuesInv_def)
  from shutdown_fold_queues [OF this] show ?case by (simp add: queuesInv_def shutdownStreams_def case_prod_beta)
qed (auto simp: queuesInv_def strm_upds chanSend_def chanFull_def clampGoAwayID_def Let_def)


text \<open>The state in which a request has arrived, and the event that is received.\<close>

definition sampleArrival :: ServerConn where
  "sampleArrival = snd (connRun sampleCodec sampleRequest sampleStart)"

lemma sampleArrival_connState: "connState sampleCodec sampleOptions sampleArrival"
  unfolding sampleArrival_def by (rule sample_connState) (simp add: sampleRequest_def)

lemma sampleArrival_Recv: "snd (Recv sampleCodec None 0 sampleArrival) = RecvOk (headersEvent False sampleFields False)"
  unfolding sampleArrival_def by code_simp



section \<open>Send windows\<close>

text \<open>
  The connection's window is never negative; a stream's stays within the 31-bit bounds, and that
  of a live stream is at most 2 to the 31 minus 1 below the peer's current initial window.
\<close>

definition windowInv :: "ServerConn \<Rightarrow> bool" where
  "windowInv sc \<longleftrightarrow> 0 \<le> sc_peerConnSendWindow sc \<and> sc_peerConnSendWindow sc \<le> maxWindow
     \<and> (\<forall>s. - maxWindow \<le> ss_sendWindow (strm sc s) \<and> ss_sendWindow (strm sc s) \<le> maxWindow)
     \<and> (\<forall>sid s. lookupStream sc sid = Some s \<longrightarrow> uint (peerWindow sc) - maxWindow \<le> ss_sendWindow (strm sc s))"

lemma windowInvD:
  assumes "windowInv sc"
  shows "0 \<le> sc_peerConnSendWindow sc" "sc_peerConnSendWindow sc \<le> maxWindow"
    "- maxWindow \<le> ss_sendWindow (strm sc s)" "ss_sendWindow (strm sc s) \<le> maxWindow"
    "lookupStream sc sid = Some s \<Longrightarrow> uint (peerWindow sc) - maxWindow \<le> ss_sendWindow (strm sc s)"
  using assms by (auto simp: windowInv_def)

lemma int32_window: "- maxWindow \<le> x \<Longrightarrow> x \<le> maxWindow \<Longrightarrow> int32 x = x"
  by (intro int32_id) (simp add: in_int32_def maxWindow_def)

lemma windowInv_cong:
  assumes "windowInv sc" and "sc_peerConnSendWindow sc' = sc_peerConnSendWindow sc" and "sc_peerSettings sc' = sc_peerSettings sc"
    and "\<And>s. ss_sendWindow (strm sc' s) = ss_sendWindow (strm sc s)"
    and "\<And>sid s. lookupStream sc' sid = Some s \<Longrightarrow> lookupStream sc sid = Some s"
  shows "windowInv sc'"
proof -
  have "peerWindow sc' = peerWindow sc" using assms(3) by (simp add: peerWindow_def)
  then show ?thesis using assms(1,2,4) assms(5) unfolding windowInv_def by metis
qed

text \<open>One stream's window and the connection's change to values within bounds.\<close>

lemma windowInv_change:
  assumes "windowInv sc" and "0 \<le> sc_peerConnSendWindow sc'" and "sc_peerConnSendWindow sc' \<le> maxWindow"
    and "sc_peerSettings sc' = sc_peerSettings sc" and "sc_tbl sc' = sc_tbl sc"
    and "\<And>x. x \<noteq> s \<Longrightarrow> ss_sendWindow (strm sc' x) = ss_sendWindow (strm sc x)"
    and "ss_sendWindow (strm sc' s) \<le> maxWindow"
    and "ss_sendWindow (strm sc s) \<le> ss_sendWindow (strm sc' s) \<or> 0 \<le> ss_sendWindow (strm sc' s)"
    and "uint (peerWindow sc) \<le> maxWindow"
  shows "windowInv sc'"
proof -
  have pw: "peerWindow sc' = peerWindow sc" using assms(4) by (simp add: peerWindow_def)
  have a: "- maxWindow \<le> ss_sendWindow (strm sc' x) \<and> ss_sendWindow (strm sc' x) \<le> maxWindow" for x
    using windowInvD(3,4) [OF assms(1), of x] assms(6) [of x] assms(7,8) by (cases "x = s") (auto simp: maxWindow_def)
  have b: "uint (peerWindow sc') - maxWindow \<le> ss_sendWindow (strm sc' x)" if "lookupStream sc' sid = Some x" for sid x
    using windowInvD(5) [OF assms(1), of sid x] assms(6) [of x] assms(5,8,9) that pw
    by (cases "x = s") (auto simp: lookupStream_def)
  show ?thesis unfolding windowInv_def using assms(2,3) a b by blast
qed

lemma takeSendCredits_window:
  assumes "windowInv sc" and "0 < want" and "want \<le> maxWindow" and "uint (peerWindow sc) \<le> maxWindow"
  shows "windowInv (fst (takeSendCredits s want sc))"
proof (cases "0 < ss_sendWindow (strm sc s) \<and> 0 < sc_peerConnSendWindow sc")
  case False
  then show ?thesis using assms(1) by (auto simp: takeSendCredits_def Let_def)
next
  case True
  note D = windowInvD [OF assms(1)]
  define n where "n = min want (min (ss_sendWindow (strm sc s)) (sc_peerConnSendWindow sc))"
  have n: "0 < n" "n \<le> ss_sendWindow (strm sc s)" "n \<le> sc_peerConnSendWindow sc" using True assms(2) by (auto simp: n_def)
  have w: "int32 want = want" using assms(2,3) by (intro int32_window) (simp_all add: maxWindow_def)
  have i: "int32 (ss_sendWindow (strm sc s) - n) = ss_sendWindow (strm sc s) - n"
    "int32 (sc_peerConnSendWindow sc - n) = sc_peerConnSendWindow sc - n"
    using n D(2) D(4) [of s] by (intro int32_window; simp add: maxWindow_def)+
  have t: "fst (takeSendCredits s want sc) =
      (upds s (\<lambda>ss. ss\<lparr>ss_sendWindow := int32 (ss_sendWindow ss - n)\<rparr>) sc)\<lparr>sc_peerConnSendWindow := int32 (sc_peerConnSendWindow sc - n)\<rparr>"
    using True w by (auto simp: takeSendCredits_def Let_def n_def min_def)
  show ?thesis unfolding t
    by (rule windowInv_change [OF assms(1), where s = s]) (use n D(2) D(4) [of s] assms(4) in \<open>simp_all add: strm_upds i\<close>)
qed

lemma addWindowSaturating_window:
  assumes "- maxWindow \<le> w" and "0 < n"
  shows "addWindowSaturating w n = min maxWindow (w + n)"
  using assms int32_window [of "w + n"] by (auto simp: addWindowSaturating_def Let_def min_def)

lemma releaseSendCredits_window:
  assumes "windowInv sc" and "uint (peerWindow sc) \<le> maxWindow"
  shows "windowInv (releaseSendCredits s n sc)"
proof (cases "n \<le> 0")
  case True
  then show ?thesis using assms by (simp add: releaseSendCredits_def)
next
  case False
  note D = windowInvD [OF assms(1)]
  have conn: "sc_peerConnSendWindow (releaseSendCredits s n sc) = min maxWindow (sc_peerConnSendWindow sc + n)"
    using False addWindowSaturating_window [of "sc_peerConnSendWindow sc" n] D(1)
    by (simp add: releaseSendCredits_def maxWindow_def)
  have strm: "ss_sendWindow (strm (releaseSendCredits s n sc) s) = min maxWindow (ss_sendWindow (strm sc s) + n)"
    using False addWindowSaturating_window [of "ss_sendWindow (strm sc s)" n] D(3) [of s]
    by (simp add: releaseSendCredits_def strm_upds)
  show ?thesis
    by (rule windowInv_change [OF assms(1), where s = s])
       (use conn strm False D(1) D(4) [of s] assms(2) in \<open>auto simp: releaseSendCredits_def strm_upds maxWindow_def min_def\<close>)
qed

text \<open>The retroactive walk reaches every live stream exactly once.\<close>

lemma adjust_walk_distinct:
  assumes "distinct (map snd l)"
  shows "fst (adjust_walk adj d l h e) s = (if s \<in> snd ` set l then fst (adj (h s) d) else h s)"
  using assms
proof (induction l arbitrary: h e)
  case (Cons p l)
  obtain sid r where p: "p = (sid, r)" by (cases p)
  show ?case using Cons by (auto simp: p case_prod_beta Let_def)
qed simp

lemma settle_window:
  assumes "windowInv sc" and "tableInv sc" and "uint (peerWindow sc) \<le> maxWindow" and "uint (peerWindow (settle ps sc)) \<le> maxWindow"
  shows "windowInv (settle ps sc)"
proof -
  let ?sc = "settle ps sc"
  define old where "old = uint (peerWindow sc)"
  define pw' where "pw' = peerWindow ?sc"
  define new where "new = uint pw'"
  note D = windowInvD [OF assms(1)]
  have pos: "0 \<le> old" "0 \<le> new" "new \<le> maxWindow" using assms(4) by (simp_all add: old_def new_def pw'_def)
  have pw: "peerWindow (sc\<lparr>sc_encDone := x, sc_peerSettings := mergeSettings (sc_peerSettings sc) ps\<rparr>) = pw'" for x
    by (simp add: peerWindow_def pw'_def)
  have "ran (map_of (streams (sc_tbl sc))) = snd ` set (streams (sc_tbl sc))"
    using tableInvD(1) [OF assms(2)] by (intro ran_distinct) (simp add: tbl_wf_def)
  then have live: "s \<in> snd ` set (streams (sc_tbl sc)) \<longleftrightarrow> (\<exists>sid. lookupStream sc sid = Some s)" for s
    by (auto simp: lookupStream_def tbl_lookup_def ran_def)
  have low: "old - maxWindow \<le> ss_sendWindow (strm sc s)" if "\<exists>sid. lookupStream sc sid = Some s" for s
    using D(5) that by (auto simp: old_def)
  have step: "ss_sendWindow (strm ?sc s) =
      (if (\<exists>sid. lookupStream sc sid = Some s) \<and> ss_sendWindow (strm sc s) + (new - old) \<le> maxWindow
       then ss_sendWindow (strm sc s) + (new - old) else ss_sendWindow (strm sc s))" for s
  proof (cases "peerWindow sc = pw'")
    case True
    then show ?thesis by (simp add: settle_def Let_def pw tbl_applyInitialWindow_def old_def new_def)
  next
    case False
    have i: "int32 (ss_sendWindow (strm sc s) + (new - old)) = ss_sendWindow (strm sc s) + (new - old)"
      if "\<exists>sid. lookupStream sc sid = Some s" "ss_sendWindow (strm sc s) + (new - old) \<le> maxWindow"
      using that low [OF that(1)] pos by (intro int32_window) linarith+
    have "strm ?sc s = (if \<exists>sid. lookupStream sc sid = Some s then fst (adjustSendWindow (strm sc s) (new - old)) else strm sc s)"
      using False adjust_walk_distinct [OF table_pointers_distinct [OF assms(2)], of adjustSendWindow "new - old" "sc_objs sc" None s]
      by (simp add: settle_def Let_def pw tbl_applyInitialWindow_def live old_def new_def)
    then show ?thesis using i by (simp add: adjustSendWindow_def Let_def not_less)
  qed
  have a: "- maxWindow \<le> ss_sendWindow (strm ?sc s) \<and> ss_sendWindow (strm ?sc s) \<le> maxWindow" for s
    using step [of s] D(3,4) [of s] low [of s] pos by (cases "\<exists>sid. lookupStream sc sid = Some s") (auto split: if_splits)
  have b: "new - maxWindow \<le> ss_sendWindow (strm ?sc s)" if "lookupStream ?sc sid = Some s" for s sid
  proof -
    have "\<exists>sid. lookupStream sc sid = Some s" using that by (auto simp: lookupStream_def)
    then show ?thesis using step [of s] low [of s] pos by (simp split: if_splits)
  qed
  show ?thesis unfolding windowInv_def using a b D(1,2) by (simp add: new_def pw'_def)
qed


lemma windowInv_new_stream:
  assumes "windowInv sc" and "sc_peerConnSendWindow sc' = sc_peerConnSendWindow sc" and "sc_peerSettings sc' = sc_peerSettings sc"
    and "\<And>x. x \<noteq> s \<Longrightarrow> strm sc' x = strm sc x" and "0 \<le> ss_sendWindow (strm sc' s)" and "ss_sendWindow (strm sc' s) \<le> maxWindow"
    and "\<And>j x. lookupStream sc' j = Some x \<Longrightarrow> x = s \<or> lookupStream sc j = Some x" and "uint (peerWindow sc) \<le> maxWindow"
  shows "windowInv sc'"
proof -
  note D = windowInvD [OF assms(1)]
  have pw: "peerWindow sc' = peerWindow sc" using assms(3) by (simp add: peerWindow_def)
  have "- maxWindow \<le> ss_sendWindow (strm sc' x) \<and> ss_sendWindow (strm sc' x) \<le> maxWindow" for x
    using D(3,4) [of x] assms(4) [of x] assms(5,6) by (cases "x = s") (auto simp: maxWindow_def)
  moreover have "uint (peerWindow sc') - maxWindow \<le> ss_sendWindow (strm sc' x)" if "lookupStream sc' sid = Some x" for sid x
    using assms(7) [OF that] assms(4) [of x] D(5) [of sid x] assms(5,8) pw by (cases "x = s") auto
  ultimately show ?thesis unfolding windowInv_def using D(1,2) assms(2) by simp
qed

lemma windowInv_atomic:
  assumes "windowInv sc \<and> tableInv sc \<and> limitsInv sc" and "atomic c sc sc'"
  shows "windowInv sc' \<and> tableInv sc' \<and> limitsInv sc'"
proof -
  have tl: "tableInv sc'" "limitsInv sc'" using assms tableInv_atomic limitsInv_atomic by blast+
  have pw: "uint (peerWindow x) \<le> maxWindow" if "limitsInv x" for x
    using limits_frames(3) [OF that] by (simp add: maxWindow_def word_le_def)
  have "windowInv sc'"
    using assms(2,1) tl
  proof (induction rule: atomic.induct)
    case (other sc sc')
    then show ?case by - (rule windowInv_cong [of sc sc'], simp_all add: agree_def lookupStream_def)
  next
    case (local f sc s)
    then show ?case by - (rule windowInv_cong [of sc], simp_all add: quiet_obj lookupStream_def)
  next
    case (grant n sc s)
    then have w: "windowInv sc" "limitsInv sc" by simp_all
    have "int32 (ss_sendWindow (strm sc s) + n) = ss_sendWindow (strm sc s) + n"
      using grant(1,2) windowInvD(3) [OF w(1), of s] by (intro int32_window) simp_all
    then show ?case
      by (intro windowInv_change [OF w(1), where s = s]) (use grant(1,2) windowInvD(1,2) [OF w(1)] pw [OF w(2)] in \<open>simp_all add: strm_upds\<close>)
  next
    case (grantConn n sc)
    then have w: "windowInv sc" "limitsInv sc" by simp_all
    have "int32 (sc_peerConnSendWindow sc + n) = sc_peerConnSendWindow sc + n"
      using grantConn(1,2) windowInvD(1) [OF w(1)] by (intro int32_window) (simp_all add: maxWindow_def)
    then show ?case
      by (intro windowInv_change [OF w(1), where s = s]) (use grantConn(1,2) windowInvD [OF w(1)] pw [OF w(2)] in simp_all)
  next
    case (debit want sc s)
    then show ?case using limits_frames(2) [of sc] pw [of sc] by (intro takeSendCredits_window) (auto simp: maxWindow_def)
  next
    case (refund sc s n)
    then show ?case using pw by (blast intro: releaseSendCredits_window)
  next
    case (admit sc sid cap seed prio)
    then have w: "windowInv sc" "tableInv sc" "limitsInv sc" by simp_all
    have "0 \<le> ss_sendWindow (strm (admission sid cap seed prio sc) (sc_next sc))
        \<and> ss_sendWindow (strm (admission sid cap seed prio sc) (sc_next sc)) \<le> maxWindow"
      using lookup_admission [of sid cap seed prio sc] sint_window [OF limits_frames(3) [OF w(3)]] pw [OF w(3)]
      by (auto simp: maxWindow_def)
    moreover have "x = sc_next sc \<or> lookupStream sc j = Some x" if "lookupStream (admission sid cap seed prio sc) j = Some x" for j x
      using that admission_ids(4) [OF admit(1), of j cap seed prio] lookup_admission [of sid cap seed prio sc] by (cases "j = sid") auto
    ultimately show ?case
      by (intro windowInv_new_stream [OF w(1), where s = "sc_next sc"]) (use strm_admission(1) [of _ sc] pw [OF w(3)] in auto)
  next
    case (reserve sc sid)
    then have w: "windowInv sc" "limitsInv sc" by simp_all
    show ?case
    proof (cases sc rule: reservation_cases)
      case refused
      show ?thesis
        by (rule windowInv_new_stream [OF w(1), where s = "sc_next sc"])
           (use refused pw [OF w(2)] in \<open>simp_all add: newPushStream_def newServerStream_def lookupStream_def maxWindow_def\<close>)
    next
      case reserved
      show ?thesis
        by (rule windowInv_new_stream [OF w(1), where s = "sc_next sc"])
           (use reserved pw [OF w(2)] sint_window [OF limits_frames(3) [OF w(2)]] in
             \<open>auto simp: lookupStream_def tbl_lookup_def split: if_splits\<close>)
    qed
  next
    case (settings s sc)
    then show ?case using pw by (intro settle_window) auto
  next
    case (release sid sc)
    then show ?case by - (rule windowInv_cong [of sc], auto split: if_splits)
  next
    case (drain sc)
    then show ?case by - (rule windowInv_cong [of sc], simp_all add: lookupStream_def)
  next
    case (reset sc s code)
    then show ?case by - (rule windowInv_cong [of sc], auto simp: lookupStream_def split: if_splits)
  next
    case (resetID sc sid code)
    then show ?case by - (rule windowInv_cong [of sc], auto simp: lookupStream_def split: if_splits)
  next
    case (goaway sc sid code)
    then show ?case by - (rule windowInv_cong [of sc], simp_all add: clampGoAwayID_def Let_def lookupStream_def)
  qed (rule windowInv_cong, erule conjunct1; simp add: strm_upds chanSend_def lookupStream_def)+
  then show ?thesis using tl by blast
qed

lemma connState_windows:
  assumes "connState c o' sc"
  shows "windowInv sc \<and> tableInv sc \<and> limitsInv sc"
  by (rule connState_invariant [OF assms _ windowInv_atomic])
     (use tableInv_new limitsInv_new in \<open>simp_all add: windowInv_def newConn_def newServerStream_def lookupStream_def
        newStreamTable_def tbl_lookup_def connInitialRecvWindow_def maxWindow_def\<close>)



end
