(* ===== verification/Writers.thy ===== *)
theory Writers
  imports ConnSafety
begin

text \<open>
  Goroutines that wait: a writer parked for send credit in \<open>acquireSendCredits\<close>
  (conn/server\_ops.go), and the readers and writers of a connection whose reader has left
  (\<open>shutdownStreams\<close> of conn/server\_conn.go). A body is written to the end once the peer goes on
  granting credit, in frames that are its pieces in order; and when the reader has left, nobody
  waits on any stream any more.
\<close>

section \<open>A write that is parked and resumed\<close>

text \<open>
  While one goroutine runs, the others act on the connection only at the points where it waits. A
  schedule says what the others (reader, other streams' handlers) do to the connection each time
  a write of this one is parked: one entry is consumed per wakeup. A write that is parked when no
  entry is left stays parked.
\<close>

type_synonym schedule = "(ServerConn \<Rightarrow> ServerConn) list"

text \<open>The error of the stream's context.\<close>

definition ctxErr :: "ServerConn \<Rightarrow> sref \<Rightarrow> err option" where
  "ctxErr sc s = (if ss_cancelled (strm sc s) then Some CtxCanceled else None)"

fun resumeData ::
  "codec \<Rightarrow> sref \<Rightarrow> int \<Rightarrow> bool \<Rightarrow> schedule \<Rightarrow> ServerConn \<times> sendResult \<Rightarrow> (ServerConn \<times> schedule) \<times> sendResult" where
  "resumeData c s maxFrame endStream (f # fs) (sc, SendParked p) =
     (let sc = f sc in resumeData c s maxFrame endStream fs (writeServerDataChunks c (ctxErr sc s) s p maxFrame endStream sc))"
| "resumeData c s maxFrame endStream fs (sc, r) = ((sc, fs), r)"

text \<open>The DATA frames of a stream on the wire: content and END\_STREAM.\<close>

definition dataFrames :: "uint32 \<Rightarrow> wframe list \<Rightarrow> (bytes \<times> bool) list" where
  "dataFrames sid wire = List.map_filter (\<lambda>f. case f of WData i p fin \<Rightarrow> if i = sid then Some (p, fin) else None | _ \<Rightarrow> None) wire"

lemma dataFrames_snoc [simp]:
  "dataFrames sid (w @ [WData i p fin]) = dataFrames sid w @ (if i = sid then [(p, fin)] else [])"
  by (simp add: dataFrames_def map_filter_def)

text \<open>The stream can be written to, and its windows are within bounds.\<close>

definition writableNow :: "sref \<Rightarrow> ServerConn \<Rightarrow> bool" where
  "writableNow s sc \<longleftrightarrow> \<not> sc_closed sc \<and> Writable (ss_st (strm sc s)) \<and> \<not> ss_cancelled (strm sc s)
     \<and> sc_peerConnSendWindow sc \<le> maxWindow \<and> ss_sendWindow (strm sc s) \<le> maxWindow"

definition credit :: "ServerConn \<Rightarrow> sref \<Rightarrow> int" where
  "credit sc s = min (sc_peerConnSendWindow sc) (ss_sendWindow (strm sc s))"

definition healthy :: "codec \<Rightarrow> bool" where
  "healthy c \<longleftrightarrow> (\<forall>w f. cWrite c w f = None)"

lemma takeSendCredits_min:
  assumes "0 < want" and "want \<le> maxWindow" and "0 < credit sc s"
    and "sc_peerConnSendWindow sc \<le> maxWindow" and "ss_sendWindow (strm sc s) \<le> maxWindow"
  shows "takeSendCredits s want sc =
    ((upds s (\<lambda>ss. ss\<lparr>ss_sendWindow := ss_sendWindow ss - min want (credit sc s)\<rparr>) sc)
       \<lparr>sc_peerConnSendWindow := sc_peerConnSendWindow sc - min want (credit sc s)\<rparr>, Some (min want (credit sc s)))"
proof -
  define n where "n = min want (credit sc s)"
  have n: "0 < n" "n \<le> sc_peerConnSendWindow sc" "n \<le> ss_sendWindow (strm sc s)"
    using assms(1,3) by (auto simp: n_def credit_def)
  have w: "int32 want = want" using assms by (intro int32_window) (simp_all add: maxWindow_def)
  have i: "int32 (ss_sendWindow (strm sc s) - n) = ss_sendWindow (strm sc s) - n"
    "int32 (sc_peerConnSendWindow sc - n) = sc_peerConnSendWindow sc - n"
    using n assms(4,5) by (intro int32_window; simp add: maxWindow_def)+
  have c: "(if sc_peerConnSendWindow sc < ss_sendWindow (strm sc s) then sc_peerConnSendWindow sc
      else ss_sendWindow (strm sc s)) = credit sc s" by (simp add: credit_def)
  have m: "credit sc s < want \<Longrightarrow> credit sc s = n" "\<not> credit sc s < want \<Longrightarrow> want = n" by (simp_all add: n_def)
  have u: "upds s (\<lambda>ss. ss\<lparr>ss_sendWindow := int32 (ss_sendWindow ss - n)\<rparr>) sc = upds s (\<lambda>ss. ss\<lparr>ss_sendWindow := ss_sendWindow ss - n\<rparr>) sc"
    by (simp add: upds_def i)
  show ?thesis using assms(3) m w
    by (cases "credit sc s < want") (simp_all add: takeSendCredits_def Let_def c w n_def [symmetric] u i)
qed

text \<open>One round of the chunk loop: it parks without credit, and otherwise sends the next piece.\<close>

lemma chunk_parks:
  assumes "writableNow s sc" and "p \<noteq> []" and "1 \<le> m" and "credit sc s \<le> 0"
  shows "writeServerDataChunks c None s p m e sc = (sc, SendParked p)"
proof -
  have "(if sc_peerConnSendWindow sc < ss_sendWindow (strm sc s) then sc_peerConnSendWindow sc
      else ss_sendWindow (strm sc s)) = credit sc s" by (simp add: credit_def)
  then show ?thesis using assms
    by (simp add: writeServerDataChunks.simps [of c None s p] acquireSendCredits_def takeSendCredits_def writableNow_def Let_def)
qed

lemma chunk_sends:
  assumes "healthy c" and "writableNow s sc" and "p \<noteq> []" and "1 \<le> m" and "m \<le> maxWindow" and "0 < credit sc s"
  obtains sc' n where "0 < n" "n \<le> length p" "int n \<le> m"
    "writeServerDataChunks c None s p m e sc = writeServerDataChunks c None s (drop n p) m e sc'"
    "ss_id (strm sc' s) = ss_id (strm sc s)" "\<not> sc_closed sc'" "Writable (ss_st (strm sc' s))" "\<not> ss_cancelled (strm sc' s)"
    "sc_peerConnSendWindow sc' \<le> maxWindow" "ss_sendWindow (strm sc' s) \<le> maxWindow"
    "sc_wire sc' = sc_wire sc @ [WData (ss_id (strm sc s)) (take n p) (e \<and> n = length p)]"
proof -
  define want where "want = (if int (length p) > m then m else int (length p))"
  define n where "n = min want (credit sc s)"
  have want: "0 < want" "want \<le> maxWindow" "want \<le> int (length p)" "want \<le> m" using assms by (auto simp: want_def)
  have n: "0 < n" "n \<le> int (length p)" "n \<le> m" using want assms(6) by (auto simp: n_def)
  have W: "\<not> sc_closed sc" "Writable (ss_st (strm sc s))" "\<not> ss_cancelled (strm sc s)" "\<And>f. cWrite c (sc_wire sc) f = None"
    "sc_peerConnSendWindow sc \<le> maxWindow" "ss_sendWindow (strm sc s) \<le> maxWindow"
    using assms(1,2) by (auto simp: writableNow_def healthy_def)
  let ?sc1 = "(upds s (\<lambda>ss. ss\<lparr>ss_sendWindow := ss_sendWindow ss - n\<rparr>) sc)\<lparr>sc_peerConnSendWindow := sc_peerConnSendWindow sc - n\<rparr>"
  have take: "takeSendCredits s want sc = (?sc1, Some n)"
    unfolding n_def by (rule takeSendCredits_min [OF want(1,2) assms(6) W(5,6)])
  let ?f = "WData (ss_id (strm sc s)) (take (nat n) p) (e \<and> n = int (length p))"
  let ?sc2 = "bumpFramesSent (?sc1\<lparr>sc_wire := sc_wire sc @ [?f]\<rparr>)"
  have S: "sc_closed ?sc1 = sc_closed sc" "ss_st (strm ?sc1 s) = ss_st (strm sc s)" "ss_id (strm ?sc1 s) = ss_id (strm sc s)"
    "sc_wire ?sc1 = sc_wire sc" by (simp_all add: upds_def)
  have "writeServerDataChunks c None s p m e sc = writeServerDataChunks c None s (drop (nat n) p) m e ?sc2"
    using assms(3) n W S want(1)
    by (simp add: writeServerDataChunks.simps [of c None s p] want_def [symmetric] Let_def acquireSendCredits_def take
        authorizeSend_def writeCounted_def frWrite_def)
  moreover have "(e \<and> n = int (length p)) = (e \<and> nat n = length p)" using n by auto
  ultimately show ?thesis using n W that [of "nat n" ?sc2]
    by (simp add: upds_def bumpFramesSent_def nat_le_iff)
qed

text \<open>The pieces of a body: none empty, none above the frame limit, END\_STREAM on the last one only.\<close>

definition pieces :: "int \<Rightarrow> bool \<Rightarrow> bytes \<Rightarrow> (bytes \<times> bool) list \<Rightarrow> bool" where
  "pieces m e p ks \<longleftrightarrow> concat (map fst ks) = p \<and> list_all (\<lambda>(b, fin). b \<noteq> [] \<and> int (length b) \<le> m) ks
     \<and> (\<exists>n. map snd ks = replicate n False @ (if p = [] then [] else [e]))"

definition partly :: "int \<Rightarrow> bytes \<Rightarrow> (bytes \<times> bool) list \<Rightarrow> bool" where
  "partly m p ks \<longleftrightarrow> concat (map fst ks) = p \<and> list_all (\<lambda>(b, fin). b \<noteq> [] \<and> int (length b) \<le> m \<and> \<not> fin) ks"

lemma partly_flags: "partly m p ks \<Longrightarrow> map snd ks = replicate (length ks) False"
  by (fastforce simp: partly_def list_all_iff intro!: replicate_eqI)

lemma pieces_append: "partly m p ks \<Longrightarrow> pieces m e q ls \<Longrightarrow> q \<noteq> [] \<Longrightarrow> pieces m e (p @ q) (ks @ ls)"
  using partly_flags [of m p ks]
  by (auto simp: pieces_def partly_def list_all_iff replicate_add [symmetric])

lemma partly_append: "partly m p ks \<Longrightarrow> partly m q ls \<Longrightarrow> partly m (p @ q) (ks @ ls)"
  by (auto simp: partly_def)

lemma chunks_run:
  assumes "healthy c" and "writableNow s sc" and "p \<noteq> []" and "1 \<le> m" and "m \<le> maxWindow"
  obtains sc' ks where "writeServerDataChunks c None s p m e sc = (sc', SendOk)" "pieces m e p ks"
      "dataFrames (ss_id (strm sc s)) (sc_wire sc') = dataFrames (ss_id (strm sc s)) (sc_wire sc) @ ks"
      "ss_id (strm sc' s) = ss_id (strm sc s)" "writableNow s sc'"
  | sc' ks p' q where "writeServerDataChunks c None s p m e sc = (sc', SendParked q)" "partly m p' ks" "p = p' @ q" "q \<noteq> []"
      "0 < credit sc s \<Longrightarrow> p' \<noteq> []"
      "dataFrames (ss_id (strm sc s)) (sc_wire sc') = dataFrames (ss_id (strm sc s)) (sc_wire sc) @ ks"
      "ss_id (strm sc' s) = ss_id (strm sc s)" "writableNow s sc'"
  using assms(2,3)
proof (induction "length p" arbitrary: p sc thesis rule: less_induct)
  case less
  show ?case
  proof (cases "0 < credit sc s")
    case False
    then show ?thesis using chunk_parks [OF less.prems(3,4) assms(4), of c e] less.prems
      by (intro less.prems(2) [of sc p "[]" "[]"]) (simp_all add: partly_def)
  next
    case True
    obtain sc1 n where n: "0 < n" "n \<le> length p" "int n \<le> m"
      and run: "writeServerDataChunks c None s p m e sc = writeServerDataChunks c None s (drop n p) m e sc1"
      and i: "ss_id (strm sc1 s) = ss_id (strm sc s)" and w: "writableNow s sc1"
      and wire: "sc_wire sc1 = sc_wire sc @ [WData (ss_id (strm sc s)) (take n p) (e \<and> n = length p)]"
      by (rule chunk_sends [OF assms(1) less.prems(3,4) assms(4,5) True, of e]) (simp add: writableNow_def)
    show ?thesis
    proof (cases "n = length p")
      case True
      have "pieces m e p [(p, e)]" using less.prems(4) n(3) True by (auto simp: pieces_def intro!: exI [of _ 0])
      then show ?thesis using run True i w wire
        by (intro less.prems(1) [of sc1 "[(p, e)]"]) (simp_all add: writeServerDataChunks.simps [of c None s "[]"])
    next
      case False
      then have d: "length (drop n p) < length p" "drop n p \<noteq> []" using n by simp_all
      have t: "partly m (take n p) [(take n p, False)]" using n less.prems(4) by (simp add: partly_def)
      show ?thesis
      proof (rule less.hyps [OF d(1) _ _ w d(2)])
        fix sc' ks
        assume "writeServerDataChunks c None s (drop n p) m e sc1 = (sc', SendOk)" "pieces m e (drop n p) ks"
          "dataFrames (ss_id (strm sc1 s)) (sc_wire sc') = dataFrames (ss_id (strm sc1 s)) (sc_wire sc1) @ ks"
          "ss_id (strm sc' s) = ss_id (strm sc1 s)" "writableNow s sc'"
        then show ?thesis using pieces_append [OF t _ d(2)] run i wire False
          by (intro less.prems(1) [of sc' "(take n p, False) # ks"]) auto
      next
        fix sc' ks p' q
        assume "writeServerDataChunks c None s (drop n p) m e sc1 = (sc', SendParked q)" "partly m p' ks" "drop n p = p' @ q" "q \<noteq> []"
          "dataFrames (ss_id (strm sc1 s)) (sc_wire sc') = dataFrames (ss_id (strm sc1 s)) (sc_wire sc1) @ ks"
          "ss_id (strm sc' s) = ss_id (strm sc1 s)" "writableNow s sc'"
        then show ?thesis using partly_append [OF t] run i wire False n less.prems(4) append_take_drop_id [of n p]
          by (intro less.prems(2) [of sc' q "take n p @ p'" "(take n p, False) # ks"]) auto
      qed
    qed
  qed
qed

text \<open>
  Each time the parked write is resumed, the stream can still be written to and the peer has
  granted some credit in the meantime; whatever else happened, no other DATA of the stream was sent.
\<close>

fun granting :: "codec \<Rightarrow> sref \<Rightarrow> int \<Rightarrow> bool \<Rightarrow> schedule \<Rightarrow> ServerConn \<times> sendResult \<Rightarrow> bool" where
  "granting c s m e (f # fs) (sc, SendParked p) =
     (writableNow s (f sc) \<and> 0 < credit (f sc) s \<and> ss_id (strm (f sc) s) = ss_id (strm sc s)
      \<and> dataFrames (ss_id (strm sc s)) (sc_wire (f sc)) = dataFrames (ss_id (strm sc s)) (sc_wire sc)
      \<and> granting c s m e fs (writeServerDataChunks c (ctxErr (f sc) s) s p m e (f sc)))"
| "granting c s m e fs r = True"

lemma writable_ctx: "writableNow s sc \<Longrightarrow> ctxErr sc s = None"
  by (simp add: writableNow_def ctxErr_def)

lemma resume_completes:
  assumes "healthy c" and "1 \<le> m" and "m \<le> maxWindow" and "q \<noteq> []" and "length q \<le> length fs"
    and "granting c s m e fs (sc, SendParked q)"
  obtains sc' fs' ks where "resumeData c s m e fs (sc, SendParked q) = ((sc', fs'), SendOk)" "pieces m e q ks"
    "dataFrames (ss_id (strm sc s)) (sc_wire sc') = dataFrames (ss_id (strm sc s)) (sc_wire sc) @ ks"
  using assms(4-6)
proof (induction fs arbitrary: sc q thesis)
  case (Cons f fs)
  let ?sid = "ss_id (strm sc s)"
  have G: "writableNow s (f sc)" "0 < credit (f sc) s" "ss_id (strm (f sc) s) = ?sid"
    "dataFrames ?sid (sc_wire (f sc)) = dataFrames ?sid (sc_wire sc)"
    "granting c s m e fs (writeServerDataChunks c None s q m e (f sc))"
    using Cons.prems(4) by (auto simp: writable_ctx)
  show ?case
  proof (rule chunks_run [OF assms(1) G(1) Cons.prems(2) assms(2,3), of e])
    fix sc' ks
    assume "writeServerDataChunks c None s q m e (f sc) = (sc', SendOk)" "pieces m e q ks"
      "dataFrames (ss_id (strm (f sc) s)) (sc_wire sc') = dataFrames (ss_id (strm (f sc) s)) (sc_wire (f sc)) @ ks"
    then show ?case using G by (intro Cons.prems(1) [of sc' fs ks]) (simp_all add: writable_ctx)
  next
    fix sc' ks p' q'
    assume run: "writeServerDataChunks c None s q m e (f sc) = (sc', SendParked q')" and p: "partly m p' ks" "q = p' @ q'" "q' \<noteq> []"
      and cr: "0 < credit (f sc) s \<Longrightarrow> p' \<noteq> []"
      and d: "dataFrames (ss_id (strm (f sc) s)) (sc_wire sc') = dataFrames (ss_id (strm (f sc) s)) (sc_wire (f sc)) @ ks"
      "ss_id (strm sc' s) = ss_id (strm (f sc) s)"
    have "length q' < length q" using cr [OF G(2)] p(2) by simp
    then have l: "length q' \<le> length fs" using Cons.prems(3) by simp
    have g: "granting c s m e fs (sc', SendParked q')" using G(5) run by simp
    show ?case
    proof (rule Cons.IH [OF _ p(3) l g])
      fix sc'' fs' ks'
      assume "resumeData c s m e fs (sc', SendParked q') = ((sc'', fs'), SendOk)" "pieces m e q' ks'"
        "dataFrames (ss_id (strm sc' s)) (sc_wire sc'') = dataFrames (ss_id (strm sc' s)) (sc_wire sc') @ ks'"
      then show ?case using G run d pieces_append [OF p(1) _ p(3)] p(2)
        by (intro Cons.prems(1) [of sc'' fs' "ks @ ks'"]) (simp_all add: writable_ctx)
    qed
  qed
qed simp

lemma dataMaxFrame_window: "limitsInv sc \<Longrightarrow> dataMaxFrame sc \<le> maxWindow"
  using limits_frames(2) [of sc] by (simp add: maxWindow_def)


text \<open>A request on a connection whose peer allows three octets per stream, and grants two more at a time.\<close>

definition tightState :: ServerConn where
  "tightState = snd (connRun sampleCodec (Read (FSettings (sampleHeader 0 4 False 0) [(SettingInitialWindowSize, 3)]) # sampleRequest) sampleStart)"

definition twoMore :: "ServerConn \<Rightarrow> ServerConn" where
  "twoMore sc = fst (onWindowUpdate sampleCodec 1 2 sc)"

lemma sampleCodec_healthy: "healthy sampleCodec"
  by (simp add: healthy_def sampleCodec_def)

lemma tightState_connState: "connState sampleCodec sampleOptions tightState"
  unfolding tightState_def by (rule sample_connState) (simp add: sampleRequest_def)


section \<open>After the reader has left\<close>

text \<open>
  A stream that has an identifier has its context bound, and it is in the table unless that
  context has been cancelled; the table is empty once the reader has left.
\<close>

definition endInv :: "ServerConn \<Rightarrow> bool" where
  "endInv sc \<longleftrightarrow> tableInv sc
     \<and> (\<forall>s. ss_id (strm sc s) \<noteq> 0 \<longrightarrow>
          ss_ctxBound (strm sc s) \<and> (ss_cancelled (strm sc s) \<or> lookupStream sc (ss_id (strm sc s)) = Some s))
     \<and> (sc_readerDone sc \<longrightarrow> (\<forall>sid. lookupStream sc sid = None))"

text \<open>Steps that only look at or extend what the invariant speaks about.\<close>

lemma endInv_cong:
  assumes "endInv sc" and "sc_tbl sc' = sc_tbl sc" and "sc_next sc' = sc_next sc" and "sc_readerDone sc' = sc_readerDone sc"
    and "\<And>s. ss_id (strm sc' s) = ss_id (strm sc s)" and "\<And>s. ss_ctxBound (strm sc s) \<Longrightarrow> ss_ctxBound (strm sc' s)"
    and "\<And>s. ss_cancelled (strm sc s) \<Longrightarrow> ss_cancelled (strm sc' s)"
  shows "endInv sc'"
proof -
  have "tableInv sc'" by (rule tableInv_cong [of sc]) (use assms in \<open>simp_all add: endInv_def\<close>)
  moreover have "lookupStream sc' = lookupStream sc" by (simp add: fun_eq_iff lookupStream_def assms(2))
  ultimately show ?thesis using assms unfolding endInv_def by metis
qed

lemma endInv_release:
  assumes "endInv sc"
  shows "endInv (markStreamDone sid sc)"
proof (cases "lookupStream sc sid")
  case None
  then have "markStreamDone sid sc = sc"
    using snd_release [of "sc_tbl sc" sid] by (cases "tbl_release (sc_tbl sc) sid") (simp add: markStreamDone_def lookupStream_def)
  then show ?thesis using assms by simp
next
  case (Some s)
  have t: "tableInv sc" using assms by (simp add: endInv_def)
  have id: "ss_id (strm sc s) = sid" "sid \<noteq> 0" using tableInvD(2,3) [OF t] Some by auto
  have b: "ss_ctxBound (strm sc s)" using assms id unfolding endInv_def by metis
  have l: "lookupStream (upds s cancelCtx (sc\<lparr>sc_tbl := fst (tbl_release (sc_tbl sc) sid)\<rparr>)) = (lookupStream sc)(sid := None)"
    using markStreamDone_fields(2) [of sid sc] by (simp add: markStreamDone_live [OF Some])
  have "tableInv (markStreamDone sid sc)" using t by (rule tableInv_markStreamDone)
  moreover have "ss_ctxBound (strm (markStreamDone sid sc) x)
      \<and> (ss_cancelled (strm (markStreamDone sid sc) x) \<or> lookupStream (markStreamDone sid sc) (ss_id (strm (markStreamDone sid sc) x)) = Some x)"
    if "ss_id (strm (markStreamDone sid sc) x) \<noteq> 0" for x
    using that assms id b tableInvD(6) [OF t, of s x]
    by (cases "x = s") (auto simp: endInv_def markStreamDone_live [OF Some] l strm_upds cancelCtx_def split: if_splits)
  ultimately show ?thesis using assms
    by (auto simp: endInv_def markStreamDone_fields(2) simp del: markStreamDone_fields(1))
qed

lemma shutdown_fold_bound [simp]:
  "ss_ctxBound (strm (fold shutdownStream l sc) s) = ss_ctxBound (strm sc s)"
proof (induction l arbitrary: sc)
  case (Cons x l)
  have "ss_ctxBound (strm (shutdownStream x sc) y) = ss_ctxBound (strm sc y)" for y
    by (simp add: shutdownStream_def chanSend_def strm_upds cancelCtx_def Let_def)
  then show ?case using Cons.IH [of "shutdownStream x sc"] by simp
qed simp

lemma shutdown_fold_cancels:
  assumes "\<forall>s \<in> set l. ss_ctxBound (strm sc s)" and "s \<in> set l \<or> ss_cancelled (strm sc s)"
  shows "ss_cancelled (strm (fold shutdownStream l sc) s)"
  using assms
proof (induction l arbitrary: sc)
  case (Cons x l)
  have "ss_cancelled (strm (shutdownStream x sc) y)" if "y = x \<or> ss_cancelled (strm sc y)" for y
    using that Cons.prems(1) by (auto simp: shutdownStream_def chanSend_def strm_upds cancelCtx_def Let_def)
  moreover have "\<forall>s \<in> set l. ss_ctxBound (strm (shutdownStream x sc) s)"
    using Cons.prems(1) shutdown_fold_bound [of "[x]" sc] by simp
  ultimately show ?case using Cons.IH [of "shutdownStream x sc"] Cons.prems(2) by auto
qed simp

lemma endInv_drain:
  assumes "endInv sc"
  shows "endInv ((shutdownStreams sc)\<lparr>sc_readerDone := True\<rparr>)"
proof -
  have t: "tableInv sc" using assms by (simp add: endInv_def)
  let ?sc = "sc\<lparr>sc_tbl := fst (tbl_drain (sc_tbl sc))\<rparr>" let ?all = "map snd (streams (sc_tbl sc))"
  have s: "shutdownStreams sc = fold shutdownStream ?all ?sc" by (simp add: shutdownStreams_def tbl_drain_def)
  have live: "lookupStream sc sid = Some x" if "(sid, x) \<in> set (streams (sc_tbl sc))" for sid x
    using that tableInvD(1) [OF t] by (simp add: lookupStream_def tbl_lookup_def tbl_wf_def)
  have "ss_ctxBound (strm sc x)" if "x \<in> set ?all" for x
    using that live tableInvD(2,3) [OF t] assms unfolding endInv_def by (metis (no_types, lifting) imageE list.set_map option.distinct(1) prod.collapse)
  then have c: "ss_cancelled (strm (shutdownStreams sc) x)" if "x \<in> set ?all \<or> ss_cancelled (strm sc x)" for x
    using that shutdown_fold_cancels [of ?all ?sc x] by (auto simp: s)
  have m: "x \<in> set ?all" if "lookupStream sc sid = Some x" for sid x
    using map_of_SomeD [of "streams (sc_tbl sc)" sid x] that by (force simp: lookupStream_def tbl_lookup_def)
  have "tableInv ((shutdownStreams sc)\<lparr>sc_readerDone := True\<rparr>)"
    by (rule tableInv_remove [OF t]) (use tableInvD(1) [OF t] in \<open>simp_all add: tbl_wf_drain lookupStream_def\<close>)
  moreover have "ss_ctxBound (strm (shutdownStreams sc) x) \<and> ss_cancelled (strm (shutdownStreams sc) x)"
    if "ss_id (strm sc x) \<noteq> 0" for x
    using that assms c [of x] m [of "ss_id (strm sc x)" x] by (auto simp: endInv_def s)
  ultimately show ?thesis by (simp add: endInv_def lookupStream_def)
qed

lemma endInv_admission:
  assumes "endInv sc" and "tbl_validateClientID (sc_tbl sc) sid = None" and "\<not> sc_readerDone sc"
  shows "endInv (admission sid cap seed prio sc)"
proof -
  have t: "tableInv sc" using assms by (simp add: endInv_def)
  let ?sc = "admission sid cap seed prio sc"
  have new: "ss_ctxBound (strm ?sc (sc_next sc)) \<and> (ss_cancelled (strm ?sc (sc_next sc)) \<or> lookupStream ?sc sid = Some (sc_next sc))"
    by (auto simp: admission_def allocStream_def tbl_admitClient_def upds_def newServerStream_def Let_def cancelCtx_def
        lookupStream_def tbl_lookup_def setPriority_def split: option.splits)
  have old: "lookupStream ?sc (ss_id (strm sc x)) = Some x"
    if "lookupStream sc (ss_id (strm sc x)) = Some x" "ss_id (strm sc x) \<noteq> 0" for x
    using that admission_ids(1,4) [OF assms(2)] tableInvD(5) [OF t] by metis
  have "ss_ctxBound (strm ?sc x) \<and> (ss_cancelled (strm ?sc x) \<or> lookupStream ?sc (ss_id (strm ?sc x)) = Some x)"
    if "ss_id (strm ?sc x) \<noteq> 0" for x
  proof (cases "x = sc_next sc")
    case True
    then show ?thesis using new by (simp add: strm_admission(2))
  next
    case False
    then show ?thesis using that assms(1) old [of x] unfolding endInv_def by (metis strm_admission(1))
  qed
  then show ?thesis using assms tableInv_admission [OF t assms(2)] by (simp add: endInv_def)
qed

lemma endInv_reservation:
  assumes "endInv sc" and "pushRoom (sc_tbl sc)" and "lookupStream sc sid \<noteq> None"
  shows "endInv (reservation sc)"
proof -
  have t: "tableInv sc" and d: "\<not> sc_readerDone sc" using assms(1,3) by (auto simp: endInv_def)
  note t' = tableInv_reservation [OF t assms(2)]
  have r: "\<not> sc_readerDone (reservation sc)" using d by simp
  show ?thesis
  proof (cases sc rule: reservation_cases)
    case refused
    then show ?thesis using assms(1) t' r
      by (auto simp: endInv_def lookupStream_def newPushStream_def newServerStream_def)
  next
    case reserved
    have idle: "isIdleStream sc (nextPush (sc_tbl sc))"
      using tableInvD(1) [OF t] by (simp add: isIdleStream_def tbl_idle_def tbl_wf_def)
    have old: "ss_id (strm sc x) \<noteq> nextPush (sc_tbl sc)" if "ss_id (strm sc x) \<noteq> 0" for x
      using tableInvD(5) [OF t that] idle by auto
    have l: "lookupStream (reservation sc) j = (if j = nextPush (sc_tbl sc) then Some (sc_next sc) else lookupStream sc j)" for j
      by (simp add: reserved lookupStream_def tbl_lookup_def)
    have "ss_ctxBound (strm (reservation sc) x) \<and> (ss_cancelled (strm (reservation sc) x)
        \<or> lookupStream (reservation sc) (ss_id (strm (reservation sc) x)) = Some x)" if "ss_id (strm (reservation sc) x) \<noteq> 0" for x
      using that assms(1) old [of x] l by (cases "x = sc_next sc") (simp_all add: endInv_def reserved(1) newPushStream_def)
    then show ?thesis using t' r by (simp add: endInv_def)
  qed
qed



lemma endInv_atomic:
  assumes "endInv sc" and "atomic c sc sc'"
  shows "endInv sc'"
  using assms(2,1)
proof (induction rule: atomic.induct)
  case (other sc sc')
  show ?case by (rule endInv_cong [OF other(2)]) (use other(1) in \<open>simp_all add: agree_def\<close>)
next
  case (local f sc s)
  show ?case by (rule endInv_cong [OF local(2)]) (use local(1) in \<open>auto simp: strm_upds quiet_def\<close>)
next
  case (admit sc sid cap seed prio)
  then show ?case by (blast intro: endInv_admission)
next
  case (reserve sc sid)
  then show ?case by (blast intro: endInv_reservation)
next
  case (release sid sc)
  then show ?case by (blast intro: endInv_release)
next
  case (drain sc)
  then show ?case by (blast intro: endInv_drain)
next
  case (reset sc s code)
  show ?case by (rule endInv_release, rule endInv_cong [OF reset(3)]) simp_all
next
  case (resetID sc sid code)
  show ?case by (rule endInv_release, rule endInv_cong [OF resetID(5)]) simp_all
next
  case (settings s sc)
  show ?case by (rule endInv_cong [OF settings(2)]) (simp_all add: settle_def tbl_applyInitialWindow_def Let_def)
qed (rule endInv_cong, assumption, auto simp: strm_upds chanSend_def encodeWrite_def clampGoAwayID_def Let_def split: if_splits)+

lemma cancelled_write:
  assumes "q \<noteq> []" and "1 \<le> m"
  shows "\<exists>e'. writeServerDataChunks c (Some e) s q m fin sc = (sc, SendErr e')"
  using assms by (simp add: writeServerDataChunks.simps [of c "Some e" s q] acquireSendCredits_def Let_def)

lemma endInv_new: "endInv (newConn o')"
  using tableInv_new [of o'] by (simp add: endInv_def newConn_def newServerStream_def lookupStream_def)


text \<open>A client that goes on with a frame on an even stream identifier ends its connection.\<close>

definition endedState :: ServerConn where
  "endedState = snd (connRun sampleCodec (sampleRequest @ [Read (FHeaders (sampleHeader 2 1 False 1) ''h'' None)]) sampleStart)"

lemma endedState_connState: "connState sampleCodec sampleOptions endedState"
  unfolding endedState_def by (rule sample_connState) (simp add: sampleRequest_def)


end
