(* ===== verification/ResponseWriter.thy ===== *)
theory ResponseWriter
  imports Requests Writers
begin

text \<open>
  The response side of the server package: the writer handlers receive (server/handler.go, its
  native and its net/http methods), the Date field (server/date.go), server push
  (server/push.go), the two stream writers behind a response writer, and the walk that finds a
  capability through wrapping middleware (server/responsewriter.go).

  A stream writer is a record of two operations on a state of its own. A call may block for ever
  when nothing else happens; its result then is \<open>WBlocked\<close>.
\<close>

section \<open>Stream writers\<close>

datatype wres = WOk | WErr err | WBlocked

record 's streamWriter =
  sw_sendHeaders :: "HeaderField list \<Rightarrow> bool \<Rightarrow> 's \<Rightarrow> 's \<times> wres"
  sw_sendData :: "bytes \<Rightarrow> bool \<Rightarrow> 's \<Rightarrow> 's \<times> wres"

definition errRes :: "err option \<Rightarrow> wres" where
  "errRes e = (case e of None \<Rightarrow> WOk | Some e \<Rightarrow> WErr e)"

definition connSendHeaders :: "codec \<Rightarrow> sref \<Rightarrow> HeaderField list \<Rightarrow> bool \<Rightarrow> ServerConn \<times> schedule \<Rightarrow> (ServerConn \<times> schedule) \<times> wres" where
  "connSendHeaders c s headers endStream = (\<lambda>(sc, fs). case SendHeaders c s headers endStream sc of (sc, e) \<Rightarrow> ((sc, fs), errRes e))"

definition connSendData :: "codec \<Rightarrow> sref \<Rightarrow> bytes \<Rightarrow> bool \<Rightarrow> ServerConn \<times> schedule \<Rightarrow> (ServerConn \<times> schedule) \<times> wres" where
  "connSendData c s p endStream = (\<lambda>(sc, fs).
     if \<not> Writable (ss_st (strm sc s)) then ((sc, fs), WErr ErrStreamClosed)
     else case resumeData c s (dataMaxFrame sc) endStream fs (writeServerData c (ctxErr sc s) s p endStream sc) of
            ((sc, fs), SendOk) \<Rightarrow> ((if endStream then endLocal s sc else sc, fs), WOk)
          | ((sc, fs), SendErr e) \<Rightarrow> ((sc, fs), WErr e)
          | ((sc, fs), SendParked q) \<Rightarrow> ((sc, fs), WBlocked))"

definition connStreamWriter :: "codec \<Rightarrow> sref \<Rightarrow> (ServerConn \<times> schedule) streamWriter" where
  "connStreamWriter c s = \<lparr>sw_sendHeaders = connSendHeaders c s, sw_sendData = connSendData c s\<rparr>"

text \<open>\<open>bufferStreamWriter\<close>: what \<open>ToHTTPHandler\<close> replays.\<close>

record bufferState =
  b_headerFields :: "HeaderField list"
  b_trailers :: "HeaderField list"
  b_body :: bytes

definition bufferSendHeaders :: "HeaderField list \<Rightarrow> bool \<Rightarrow> bufferState \<Rightarrow> bufferState \<times> wres" where
  "bufferSendHeaders headers endStream b =
     (if endStream then (b\<lparr>b_trailers := b_trailers b @ headers\<rparr>, WOk)
      else (b\<lparr>b_headerFields := b_headerFields b @ headers\<rparr>, WOk))"

definition bufferSendData :: "bytes \<Rightarrow> bool \<Rightarrow> bufferState \<Rightarrow> bufferState \<times> wres" where
  "bufferSendData p endStream b = (b\<lparr>b_body := b_body b @ p\<rparr>, WOk)"

definition bufferStreamWriter :: "bufferState streamWriter" where
  "bufferStreamWriter = \<lparr>sw_sendHeaders = bufferSendHeaders, sw_sendData = bufferSendData\<rparr>"

section \<open>The Date field\<close>

text \<open>
  \<open>httpDate\<close> with its one-second cache: the second and the text cached last. \<open>fmt\<close> is the text of a
  second in the format of http.TimeFormat.
\<close>

definition httpDate :: "(int \<Rightarrow> bytes) \<Rightarrow> int \<Rightarrow> (int \<times> bytes) option \<Rightarrow> (int \<times> bytes) option \<times> bytes" where
  "httpDate fmt sec cached =
     (case cached of
        Some (s, val) \<Rightarrow> if s = sec then (cached, val) else (Some (sec, fmt sec), fmt sec)
      | None \<Rightarrow> (Some (sec, fmt sec), fmt sec))"

definition dateRequired :: "int \<Rightarrow> bool" where
  "dateRequired status \<longleftrightarrow> status \<ge> 200 \<and> status < 500"

definition sFieldDate :: bytes where "sFieldDate = ''date''"

section \<open>The writer\<close>

record responseWriter =
  rw_headers :: Header
  rw_status :: int
  rw_written :: bool
  rw_req :: "Request option"

definition newResponseWriter :: "Request option \<Rightarrow> responseWriter" where
  "newResponseWriter req = \<lparr>rw_headers = [], rw_status = 0, rw_written = False, rw_req = req\<rparr>"

definition statusTable :: "(int \<times> bytes) list" where
  "statusTable = [(200, ''200''), (201, ''201''), (204, ''204''), (301, ''301''), (302, ''302''), (304, ''304''),
     (400, ''400''), (401, ''401''), (403, ''403''), (404, ''404''), (500, ''500''), (502, ''502''), (503, ''503'')]"

definition statusBytes :: "int \<Rightarrow> bytes" where
  "statusBytes code = (case map_of statusTable code of Some b \<Rightarrow> b | None \<Rightarrow> FormatInt code)"

definition statusField :: "int \<Rightarrow> HeaderField" where
  "statusField status = \<lparr>Name = '':status'', Value = Some (statusBytes status), Indexing = 0\<rparr>"

definition dateField :: "bytes \<Rightarrow> HeaderField" where
  "dateField date = \<lparr>Name = sFieldDate, Value = Some date, Indexing = 0\<rparr>"

definition hasField :: "HeaderField list \<Rightarrow> bytes \<Rightarrow> bool" where
  "hasField fs name = list_ex (\<lambda>f. EqualFold (Name f) name) fs"

definition WriteHeaders ::
  "'s streamWriter \<Rightarrow> bytes \<Rightarrow> int \<Rightarrow> HeaderField list \<Rightarrow> responseWriter \<times> 's \<Rightarrow> (responseWriter \<times> 's) \<times> wres" where
  "WriteHeaders sw date status headers = (\<lambda>(w, s).
     if rw_written w then ((w, s), WOk)
     else if InterimStatus status then ((w, s), WOk)
     else let w = w\<lparr>rw_status := status, rw_written := True\<rparr>;
              fields = [statusField status];
              fields = (if dateRequired status \<and> \<not> hasField headers sFieldDate then fields @ [dateField date] else fields);
              fields = fields @ filter (\<lambda>h. \<not> ProhibitedInResponse (Name h)) headers;
              (s, e) = sw_sendHeaders sw fields False s
          in ((w, s), e))"

definition suppressContent :: "responseWriter \<Rightarrow> bool" where
  "suppressContent w = (case rw_req w of Some req \<Rightarrow> Method req = ''HEAD'' | None \<Rightarrow> False)"

definition WriteData :: "'s streamWriter \<Rightarrow> bytes \<Rightarrow> bytes \<Rightarrow> responseWriter \<times> 's \<Rightarrow> (responseWriter \<times> 's) \<times> wres" where
  "WriteData sw date p ws =
     (let (ws, e) = (if \<not> rw_written (fst ws) then WriteHeaders sw date 200 [] ws else (ws, WOk)) in
      if e \<noteq> WOk then (ws, e)
      else if suppressContent (fst ws) then (ws, WOk)
      else let (s, e) = sw_sendData sw p False (snd ws) in ((fst ws, s), e))"

definition WriteTrailers :: "'s streamWriter \<Rightarrow> HeaderField list \<Rightarrow> responseWriter \<times> 's \<Rightarrow> (responseWriter \<times> 's) \<times> wres" where
  "WriteTrailers sw trailers ws = (let (s, e) = sw_sendHeaders sw trailers True (snd ws) in ((fst ws, s), e))"

text \<open>The net/http methods. \<open>WriteHeader\<close> discards the error of the send.\<close>

definition stdFields :: "(bytes \<Rightarrow> bytes) \<Rightarrow> Header \<Rightarrow> HeaderField list" where
  "stdFields uni hdr =
     concat (map (\<lambda>(k, vv). if ProhibitedInResponse (ToLower uni k) then []
                            else map (\<lambda>v. \<lparr>Name = ToLower uni k, Value = Some v, Indexing = 0\<rparr>) vv) hdr)"

definition WriteHeader ::
  "(bytes \<Rightarrow> bytes) \<Rightarrow> 's streamWriter \<Rightarrow> bytes \<Rightarrow> int \<Rightarrow> responseWriter \<times> 's \<Rightarrow> (responseWriter \<times> 's) \<times> wres" where
  "WriteHeader uni sw date status = (\<lambda>(w, s).
     if rw_written w then ((w, s), WOk)
     else if InterimStatus status then ((w, s), WOk)
     else let w = w\<lparr>rw_status := status, rw_written := True\<rparr>;
              fields = [statusField status];
              fields = (if dateRequired status \<and> hdrGet (rw_headers w) ''Date'' = [] then fields @ [dateField date] else fields);
              fields = fields @ stdFields uni (rw_headers w);
              (s, e) = sw_sendHeaders sw fields False s
          in ((w, s), if e = WBlocked then WBlocked else WOk))"

definition Write ::
  "(bytes \<Rightarrow> bytes) \<Rightarrow> 's streamWriter \<Rightarrow> bytes \<Rightarrow> bytes \<Rightarrow> responseWriter \<times> 's \<Rightarrow> (responseWriter \<times> 's) \<times> int \<times> wres" where
  "Write uni sw date p ws =
     (let (ws, e) = (if \<not> rw_written (fst ws) then WriteHeader uni sw date 200 ws else (ws, WOk)) in
      if e \<noteq> WOk then (ws, 0, e)
      else if suppressContent (fst ws) then (ws, int (length p), WOk)
      else let (s, e) = sw_sendData sw p False (snd ws) in
           ((fst ws, s), if e = WOk then int (length p) else 0, e))"

section \<open>Server push\<close>

datatype pushErr = ErrPushNotSupported | ErrPushAlreadySent | ErrPushNoAuthority | PushFailed err

definition promiseFields :: "responseWriter \<Rightarrow> bytes \<Rightarrow> bytes \<Rightarrow> HeaderField list \<Rightarrow> pushErr + HeaderField list" where
  "promiseFields w promisePath promiseScheme promiseHeaders =
     (let scheme = (if promiseScheme = [] then schemeHTTPS else promiseScheme);
          authority = (case rw_req w of Some req \<Rightarrow> Authority req | None \<Rightarrow> []);
          (authority, callerSupplied) =
            (case find (\<lambda>h. Name h = '':authority'') promiseHeaders of
               Some h \<Rightarrow> (bval (Value h), True) | None \<Rightarrow> (authority, False))
      in if authority = [] then Inl ErrPushNoAuthority
         else Inr ([\<lparr>Name = '':method'', Value = Some ''GET'', Indexing = 0\<rparr>,
                    \<lparr>Name = '':path'', Value = Some promisePath, Indexing = 0\<rparr>,
                    \<lparr>Name = '':scheme'', Value = Some scheme, Indexing = 0\<rparr>,
                    \<lparr>Name = '':authority'', Value = Some authority, Indexing = 0\<rparr>]
                   @ filter (\<lambda>h. \<not> (callerSupplied \<and> Name h = '':authority'')) promiseHeaders))"

definition deriveScheme :: "responseWriter \<Rightarrow> bytes" where
  "deriveScheme w = (case rw_req w of Some req \<Rightarrow> if Scheme req \<noteq> [] then Scheme req else schemeHTTPS | None \<Rightarrow> schemeHTTPS)"

text \<open>
  \<open>PushWithScheme\<close> and \<open>pushWithPriorityAndScheme\<close> on a writer backed by stream \<open>s\<close>: the second passes
  a priority on. The writer of the pushed response is that of the new stream.
\<close>

definition rwPushWithScheme ::
  "codec \<Rightarrow> sref \<Rightarrow> responseWriter \<Rightarrow> bytes \<Rightarrow> bytes \<Rightarrow> HeaderField list \<Rightarrow> ServerConn
     \<Rightarrow> ServerConn \<times> (pushErr + sref \<times> responseWriter)" where
  "rwPushWithScheme c s w promisePath promiseScheme promiseHeaders sc =
     (if rw_written w then (sc, Inl ErrPushAlreadySent)
      else case promiseFields w promisePath promiseScheme promiseHeaders of
             Inl e \<Rightarrow> (sc, Inl e)
           | Inr fs \<Rightarrow>
               (case Push c s fs sc of
                  (sc, Inl e) \<Rightarrow> (sc, Inl (PushFailed e))
                | (sc, Inr ps) \<Rightarrow> (sc, Inr (ps, newResponseWriter (rw_req w)))))"

definition rwPush ::
  "codec \<Rightarrow> sref \<Rightarrow> responseWriter \<Rightarrow> bytes \<Rightarrow> HeaderField list \<Rightarrow> ServerConn \<Rightarrow> ServerConn \<times> (pushErr + sref \<times> responseWriter)" where
  "rwPush c s w promisePath promiseHeaders sc = rwPushWithScheme c s w promisePath (deriveScheme w) promiseHeaders sc"

definition rwPushWithPriority ::
  "codec \<Rightarrow> sref \<Rightarrow> responseWriter \<Rightarrow> bytes \<Rightarrow> HeaderField list \<Rightarrow> Priority option \<Rightarrow> ServerConn
     \<Rightarrow> ServerConn \<times> (pushErr + sref \<times> responseWriter)" where
  "rwPushWithPriority c s w promisePath promiseHeaders prio sc =
     (if rw_written w then (sc, Inl ErrPushAlreadySent)
      else case promiseFields w promisePath (deriveScheme w) promiseHeaders of
             Inl e \<Rightarrow> (sc, Inl e)
           | Inr fs \<Rightarrow>
               (case PushWithPriority c s fs prio sc of
                  (sc, Inl e) \<Rightarrow> (sc, Inl (PushFailed e))
                | (sc, Inr ps) \<Rightarrow> (sc, Inr (ps, newResponseWriter (rw_req w)))))"

section \<open>Finding a capability\<close>

text \<open>
  \<open>PusherOf\<close> and \<open>FlusherOf\<close> walk the chain of wrapped writers. A chain is given by what each writer
  unwraps to (\<open>None\<close>: it is not an unwrapper; \<open>Some None\<close>: it unwraps to nil).
\<close>

definition maxUnwrapDepth :: nat where "maxUnwrapDepth = 64"

fun find_capability :: "('w \<Rightarrow> bool) \<Rightarrow> ('w \<Rightarrow> 'w option option) \<Rightarrow> nat \<Rightarrow> 'w option \<Rightarrow> 'w option" where
  "find_capability has unwrap 0 w = None"
| "find_capability has unwrap (Suc n) None = None"
| "find_capability has unwrap (Suc n) (Some w) =
     (if has w then Some w
      else case unwrap w of
             None \<Rightarrow> None
           | Some next' \<Rightarrow> if next' = Some w then None else find_capability has unwrap n next')"

definition PusherOf :: "('w \<Rightarrow> bool) \<Rightarrow> ('w \<Rightarrow> 'w option option) \<Rightarrow> 'w option \<Rightarrow> 'w option" where
  "PusherOf isPusher unwrap w = find_capability isPusher unwrap maxUnwrapDepth w"

definition FlusherOf :: "('w \<Rightarrow> bool) \<Rightarrow> ('w \<Rightarrow> 'w option option) \<Rightarrow> 'w option \<Rightarrow> 'w option" where
  "FlusherOf isFlusher unwrap w = find_capability isFlusher unwrap maxUnwrapDepth w"

section \<open>What a writer sends\<close>

text \<open>The calls a handler can make on its writer; the last three go to the map \<open>Header()\<close> returns.\<close>

datatype wcall =
    CallWriteHeaders int "HeaderField list" | CallWriteData bytes | CallWriteTrailers "HeaderField list"
  | CallWriteHeader int | CallWrite bytes
  | CallHeaderSet bytes bytes | CallHeaderAdd bytes bytes | CallHeaderDel bytes

fun doCall ::
  "(bytes \<Rightarrow> bytes) \<Rightarrow> 's streamWriter \<Rightarrow> bytes \<Rightarrow> wcall \<Rightarrow> responseWriter \<times> 's \<Rightarrow> (responseWriter \<times> 's) \<times> wres" where
  "doCall uni sw date (CallWriteHeaders status hs) ws = WriteHeaders sw date status hs ws"
| "doCall uni sw date (CallWriteData p) ws = WriteData sw date p ws"
| "doCall uni sw date (CallWriteTrailers ts) ws = WriteTrailers sw ts ws"
| "doCall uni sw date (CallWriteHeader status) ws = WriteHeader uni sw date status ws"
| "doCall uni sw date (CallWrite p) ws = (case Write uni sw date p ws of (ws, n, e) \<Rightarrow> (ws, e))"
| "doCall uni sw date (CallHeaderSet k v) ws = ((fst ws\<lparr>rw_headers := hdrSet k v (rw_headers (fst ws))\<rparr>, snd ws), WOk)"
| "doCall uni sw date (CallHeaderAdd k v) ws = ((fst ws\<lparr>rw_headers := hdrAdd k v (rw_headers (fst ws))\<rparr>, snd ws), WOk)"
| "doCall uni sw date (CallHeaderDel k) ws = ((fst ws\<lparr>rw_headers := hdrDel k (rw_headers (fst ws))\<rparr>, snd ws), WOk)"

definition doCalls ::
  "(bytes \<Rightarrow> bytes) \<Rightarrow> 's streamWriter \<Rightarrow> bytes \<Rightarrow> wcall list \<Rightarrow> responseWriter \<times> 's \<Rightarrow> responseWriter \<times> 's" where
  "doCalls uni sw date calls ws = fold (\<lambda>call ws. fst (doCall uni sw date call ws)) calls ws"

text \<open>A stream writer that also keeps what it was asked to send, whatever became of it.\<close>

datatype sendOp = SHeaders "HeaderField list" bool | SData bytes bool

definition logged :: "'s streamWriter \<Rightarrow> ('s \<times> sendOp list) streamWriter" where
  "logged sw =
     \<lparr>sw_sendHeaders = (\<lambda>fs e (s, l). case sw_sendHeaders sw fs e s of (s, r) \<Rightarrow> ((s, l @ [SHeaders fs e]), r)),
      sw_sendData = (\<lambda>p e (s, l). case sw_sendData sw p e s of (s, r) \<Rightarrow> ((s, l @ [SData p e]), r))\<rparr>"

text \<open>
  The shape of a response: at most one header section, a final one, ahead of all content; no
  content for HEAD; END\_STREAM only on trailer sections.
\<close>

definition finalSection :: "HeaderField list \<Rightarrow> bool" where
  "finalSection fs \<longleftrightarrow> (\<exists>status. \<not> InterimStatus status \<and> fs \<noteq> [] \<and> hd fs = statusField status
     \<and> list_all (\<lambda>f. \<not> ProhibitedInResponse (Name f)) fs
     \<and> (dateRequired status \<longrightarrow> hasField fs sFieldDate))"

fun responseOk :: "bool \<Rightarrow> bool \<Rightarrow> sendOp list \<Rightarrow> bool" where
  "responseOk head started [] = True"
| "responseOk head started (SHeaders fs e # l) =
     (if e then responseOk head started l else \<not> started \<and> finalSection fs \<and> responseOk head True l)"
| "responseOk head started (SData p e # l) = (started \<and> \<not> head \<and> \<not> e \<and> responseOk head started l)"

fun started :: "sendOp list \<Rightarrow> bool" where
  "started [] = False"
| "started (SHeaders fs e # l) = (\<not> e \<or> started l)"
| "started (SData p e # l) = started l"

lemma responseOk_snoc:
  "responseOk h st (l @ [op]) \<longleftrightarrow> responseOk h st l \<and> responseOk h (st \<or> started l) [op]"
  by (induction h st l rule: responseOk.induct) auto

lemma started_snoc: "started (l @ [op]) \<longleftrightarrow> started l \<or> started [op]"
  by (induction l rule: started.induct) auto

lemma fold_date: "EqualFold sFieldDate sFieldDate" "\<not> ProhibitedInResponse sFieldDate" "\<not> ProhibitedInResponse '':status''"
  by code_simp+

lemma EqualFold_length:
  "EqualFold s t \<Longrightarrow> list_all (\<lambda>c. lower c \<noteq> CHR ''s'' \<and> lower c \<noteq> CHR ''k'') t \<Longrightarrow> length s = length t"
  by (induction s t rule: EqualFold.induct) (auto split: if_splits)

lemma fold_date_name:
  assumes "EqualFold n sFieldDate"
  shows "\<not> ProhibitedInResponse n"
proof -
  have "length n = 4" using EqualFold_length [OF assms] by (simp add: sFieldDate_def lower_def isUpperA_def)
  moreover have "map lower n = sFieldDate"
    using assms EqualFold_literal [of n sFieldDate] calculation by (simp add: sFieldDate_def lower_def isUpperA_def)
  then have "lower (n ! 0) = CHR ''d''" using calculation by (cases n) (auto simp: sFieldDate_def)
  then have "n ! 0 \<noteq> CHR '':''" by (auto simp: lower_def isUpperA_def)
  ultimately show ?thesis by (auto simp: ProhibitedInResponse_def)
qed

lemma finalSection_native:
  assumes "\<not> InterimStatus status"
  shows "finalSection ((if dateRequired status \<and> \<not> hasField headers sFieldDate then [statusField status] @ [dateField date] else [statusField status])
           @ filter (\<lambda>h. \<not> ProhibitedInResponse (Name h)) headers)"
proof -
  have "hasField (filter (\<lambda>h. \<not> ProhibitedInResponse (Name h)) headers) sFieldDate" if "hasField headers sFieldDate"
  proof -
    from that obtain h where h: "h \<in> set headers" "EqualFold (Name h) sFieldDate"
      by (auto simp: hasField_def list_ex_iff)
    then show ?thesis using fold_date_name [of "Name h"] by (auto simp: hasField_def list_ex_iff)
  qed
  then show ?thesis using assms fold_date unfolding finalSection_def
    by (intro exI [of _ status]) (auto simp: statusField_def dateField_def hasField_def list_all_iff)
qed

lemma set_stdFields:
  "f \<in> set (stdFields uni hdr) \<longleftrightarrow>
     (\<exists>k vv v. (k, vv) \<in> set hdr \<and> v \<in> set vv \<and> \<not> ProhibitedInResponse (ToLower uni k)
        \<and> f = \<lparr>Name = ToLower uni k, Value = Some v, Indexing = 0\<rparr>)"
  by (fastforce simp: stdFields_def split: if_splits)

lemma hasFieldI: "f \<in> set fs \<Longrightarrow> EqualFold (Name f) n \<Longrightarrow> hasField fs n"
  by (auto simp: hasField_def list_ex_iff)

lemma hasField_append [simp]: "hasField (a @ b) n \<longleftrightarrow> hasField a n \<or> hasField b n"
  by (simp add: hasField_def)

lemma finalSection_std:
  assumes "\<not> InterimStatus status"
  shows "finalSection ((if dateRequired status \<and> hdrGet hdr ''Date'' = [] then [statusField status] @ [dateField date] else [statusField status])
           @ stdFields uni hdr)"
proof -
  have "hasField (stdFields uni hdr) sFieldDate" if ne: "hdrGet hdr ''Date'' \<noteq> []"
  proof -
    have k: "CanonicalKey ''Date'' = ''Date''" "ToLower uni ''Date'' = sFieldDate" by code_simp+
    from ne obtain v vs where "map_of hdr ''Date'' = Some (v # vs)"
      by (auto simp: hdrGet_def hdrValues_def k split: option.splits list.splits)
    then have "(''Date'', v # vs) \<in> set hdr" by (rule map_of_SomeD)
    then have "\<lparr>Name = sFieldDate, Value = Some v, Indexing = 0\<rparr> \<in> set (stdFields uni hdr)"
      unfolding set_stdFields using fold_date k by (metis list.set_intros(1))
    then show ?thesis by (rule hasFieldI) (simp add: fold_date)
  qed
  moreover have "hasField [dateField date] sFieldDate" by (simp add: hasField_def dateField_def fold_date)
  moreover have "list_all (\<lambda>f. \<not> ProhibitedInResponse (Name f)) (stdFields uni hdr)"
    by (auto simp: list_all_iff set_stdFields)
  ultimately show ?thesis using assms fold_date unfolding finalSection_def
    by (intro exI [of _ status]) (auto simp: statusField_def dateField_def hasField_def)
qed

text \<open>The writer has started its response exactly when it says so, and what it sent has the shape.\<close>

definition writerInv :: "responseWriter \<times> ('s \<times> sendOp list) \<Rightarrow> bool" where
  "writerInv ws \<longleftrightarrow> responseOk (suppressContent (fst ws)) False (snd (snd ws)) \<and> rw_written (fst ws) = started (snd (snd ws))"

lemma logged_headers: "\<exists>s' r. sw_sendHeaders (logged sw) fs e (s, l) = ((s', l @ [SHeaders fs e]), r)"
  and logged_data: "\<exists>s' r. sw_sendData (logged sw) p e (s, l) = ((s', l @ [SData p e]), r)"
  by (simp_all add: logged_def split: prod.split)

lemma section_inv:
  assumes "writerInv (w, s, l)" and "\<not> rw_written w" and "finalSection fs"
  shows "writerInv (w\<lparr>rw_status := status, rw_written := True\<rparr>, s', l @ [SHeaders fs False])"
  using assms by (simp add: writerInv_def responseOk_snoc started_snoc suppressContent_def)

lemma data_inv:
  assumes "writerInv (w, s, l)" and "rw_written w" and "\<not> suppressContent w"
  shows "writerInv (w, s', l @ [SData p False])"
  using assms by (simp add: writerInv_def responseOk_snoc started_snoc)

lemma WriteHeaders_inv:
  assumes "writerInv (w, s, l)"
  obtains w' s' l' r where "WriteHeaders (logged sw) date status hs (w, s, l) = ((w', s', l'), r)" "writerInv (w', s', l')"
    "rw_req w' = rw_req w" "\<not> InterimStatus status \<Longrightarrow> rw_written w'"
proof (cases "rw_written w \<or> InterimStatus status")
  case True
  then show thesis using assms by (intro that [of w s l WOk]) (auto simp: WriteHeaders_def)
next
  case False
  define fs where "fs = (if dateRequired status \<and> \<not> hasField hs sFieldDate then [statusField status] @ [dateField date] else [statusField status])
           @ filter (\<lambda>h. \<not> ProhibitedInResponse (Name h)) hs"
  obtain s' r where s': "sw_sendHeaders (logged sw) fs False (s, l) = ((s', l @ [SHeaders fs False]), r)"
    using logged_headers by metis
  have "finalSection fs" unfolding fs_def by (rule finalSection_native) (use False in simp)
  then have "writerInv (w\<lparr>rw_status := status, rw_written := True\<rparr>, s', l @ [SHeaders fs False])"
    using False by (intro section_inv [OF assms]) simp_all
  then show thesis using False s'
    by (intro that [of "w\<lparr>rw_status := status, rw_written := True\<rparr>" s' "l @ [SHeaders fs False]" "r"])
       (simp_all add: WriteHeaders_def Let_def flip: fs_def append_assoc)
qed

lemma WriteHeader_inv:
  assumes "writerInv (w, s, l)"
  obtains w' s' l' r where "WriteHeader uni (logged sw) date status (w, s, l) = ((w', s', l'), r)" "writerInv (w', s', l')"
    "rw_req w' = rw_req w" "\<not> InterimStatus status \<Longrightarrow> rw_written w'"
proof (cases "rw_written w \<or> InterimStatus status")
  case True
  then show thesis using assms by (intro that [of w s l WOk]) (auto simp: WriteHeader_def)
next
  case False
  define fs where "fs = (if dateRequired status \<and> hdrGet (rw_headers w) ''Date'' = [] then [statusField status] @ [dateField date] else [statusField status])
           @ stdFields uni (rw_headers w)"
  obtain s' r where s': "sw_sendHeaders (logged sw) fs False (s, l) = ((s', l @ [SHeaders fs False]), r)"
    using logged_headers by metis
  have "finalSection fs" unfolding fs_def by (rule finalSection_std) (use False in simp)
  then have "writerInv (w\<lparr>rw_status := status, rw_written := True\<rparr>, s', l @ [SHeaders fs False])"
    using False by (intro section_inv [OF assms]) simp_all
  then show thesis using False s'
    by (intro that [of "w\<lparr>rw_status := status, rw_written := True\<rparr>" s' "l @ [SHeaders fs False]" "if r = WBlocked then WBlocked else WOk"])
       (simp_all add: WriteHeader_def Let_def flip: fs_def append_assoc)
qed

lemma call_inv:
  assumes "writerInv (w, s, l)"
  obtains w' s' l' r where "doCall uni (logged sw) date call (w, s, l) = ((w', s', l'), r)" "writerInv (w', s', l')"
    "rw_req w' = rw_req w"
proof (cases call)
  case (CallWriteHeaders status hs)
  then show thesis using WriteHeaders_inv [OF assms, of sw date status hs] that by (metis doCall.simps(1))
next
  case (CallWriteHeader status)
  then show thesis using WriteHeader_inv [OF assms, of uni sw date status] that by (metis doCall.simps(4))
next
  case (CallWriteData p)
  have ok: "\<not> InterimStatus 200" by (simp add: InterimStatus_def)
  obtain w1 s1 l1 r1 where 1: "(if \<not> rw_written w then WriteHeaders (logged sw) date 200 [] (w, s, l) else ((w, s, l), WOk))
      = ((w1, s1, l1), r1)" "writerInv (w1, s1, l1)" "rw_req w1 = rw_req w" "rw_written w1"
  proof (cases "rw_written w")
    case True
    then show thesis using assms by (intro that [of w s l WOk]) simp_all
  next
    case False
    then show thesis using ok that by (auto intro: WriteHeaders_inv [OF assms, of sw date 200 "[]"])
  qed
  obtain s2 r2 where 2: "sw_sendData (logged sw) p False (s1, l1) = ((s2, l1 @ [SData p False]), r2)"
    using logged_data by metis
  show thesis
  proof (cases "r1 = WOk \<and> \<not> suppressContent w1")
    case True
    then show ?thesis using that [of w1 s2 "l1 @ [SData p False]" r2] 1 2 CallWriteData data_inv [OF 1(2,4), of s2 p]
      by (simp add: WriteData_def)
  next
    case False
    then show ?thesis using that [of w1 s1 l1 "if r1 = WOk then WOk else r1"] 1 CallWriteData by (auto simp: WriteData_def)
  qed
next
  case (CallWrite p)
  have ok: "\<not> InterimStatus 200" by (simp add: InterimStatus_def)
  obtain w1 s1 l1 r1 where 1: "(if \<not> rw_written w then WriteHeader uni (logged sw) date 200 (w, s, l) else ((w, s, l), WOk))
      = ((w1, s1, l1), r1)" "writerInv (w1, s1, l1)" "rw_req w1 = rw_req w" "rw_written w1"
  proof (cases "rw_written w")
    case True
    then show thesis using assms by (intro that [of w s l WOk]) simp_all
  next
    case False
    then show thesis using ok that by (auto intro: WriteHeader_inv [OF assms, of uni sw date 200])
  qed
  obtain s2 r2 where 2: "sw_sendData (logged sw) p False (s1, l1) = ((s2, l1 @ [SData p False]), r2)"
    using logged_data by metis
  show thesis
  proof (cases "r1 = WOk \<and> \<not> suppressContent w1")
    case True
    then show ?thesis using that [of w1 s2 "l1 @ [SData p False]" r2] 1 2 CallWrite data_inv [OF 1(2,4), of s2 p]
      by (simp add: Write_def)
  next
    case False
    then show ?thesis using that [of w1 s1 l1 "if r1 = WOk then WOk else r1"] 1 CallWrite by (auto simp: Write_def)
  qed
next
  case (CallWriteTrailers ts)
  obtain s' r where "sw_sendHeaders (logged sw) ts True (s, l) = ((s', l @ [SHeaders ts True]), r)"
    using logged_headers by metis
  then show thesis using that [of w s' "l @ [SHeaders ts True]" r] assms CallWriteTrailers
    by (simp add: WriteTrailers_def writerInv_def responseOk_snoc started_snoc)
next
  case (CallHeaderSet k v)
  then show thesis using that [of "w\<lparr>rw_headers := hdrSet k v (rw_headers w)\<rparr>" s l WOk] assms
    by (simp add: writerInv_def suppressContent_def)
next
  case (CallHeaderAdd k v)
  then show thesis using that [of "w\<lparr>rw_headers := hdrAdd k v (rw_headers w)\<rparr>" s l WOk] assms
    by (simp add: writerInv_def suppressContent_def)
next
  case (CallHeaderDel k)
  then show thesis using that [of "w\<lparr>rw_headers := hdrDel k (rw_headers w)\<rparr>" s l WOk] assms
    by (simp add: writerInv_def suppressContent_def)
qed

lemma calls_inv:
  "writerInv (w, s, l) \<Longrightarrow> writerInv (doCalls uni (logged sw) date calls (w, s, l))
     \<and> rw_req (fst (doCalls uni (logged sw) date calls (w, s, l))) = rw_req w"
proof (induction calls arbitrary: w s l)
  case (Cons call calls)
  obtain w' s' l' r where "doCall uni (logged sw) date call (w, s, l) = ((w', s', l'), r)" "writerInv (w', s', l')" "rw_req w' = rw_req w"
    using call_inv [OF Cons.prems] by metis
  then show ?case using Cons.IH [of w' s' l'] by (simp add: doCalls_def)
qed (simp add: doCalls_def)

text \<open>
  C40. Whatever a handler does with its writer, in whatever mixture of the native and the net/http
  methods and over whatever stream, what reaches the stream has the shape of one response: at most
  one header section, ahead of all content, that begins with a final (never 1xx) status, has no
  pseudo-header but \<open>:status\<close> and no connection-specific field, and carries a Date when the status
  is 2xx, 3xx or 4xx; no content at all for HEAD; and only a trailer section ends the stream.
\<close>

theorem responses_have_shape:
  "responseOk (Method req = ''HEAD'') False
     (snd (snd (doCalls uni (logged sw) date calls (newResponseWriter (Some req), s, []))))"
proof -
  have "writerInv (newResponseWriter (Some req), s, [])" by (simp add: writerInv_def newResponseWriter_def)
  from calls_inv [OF this, of uni sw date calls] show ?thesis
    by (auto simp: writerInv_def suppressContent_def newResponseWriter_def)
qed

text \<open>
  A \<open>:status\<close> the handler passes among its fields is not one of the prohibited names, so it is sent
  a second time, after a regular field.
\<close>

lemma handler_status_duplicated:
  "snd (snd (fst (WriteHeaders (logged bufferStreamWriter) ''now'' 200 [\<lparr>Name = '':status'', Value = Some ''404'', Indexing = 0\<rparr>]
     (newResponseWriter None, \<lparr>b_headerFields = [], b_trailers = [], b_body = []\<rparr>, []))))
   = [SHeaders [statusField 200, dateField ''now'', \<lparr>Name = '':status'', Value = Some ''404'', Indexing = 0\<rparr>] False]"
  by code_simp

text \<open>The status table agrees with the ordinary conversion, and the date cache with formatting afresh.\<close>

lemma statusBytes_eq: "statusBytes code = FormatInt code"
proof -
  have "list_all (\<lambda>(k, b). b = FormatInt k) statusTable" by code_simp
  then show ?thesis by (auto simp: statusBytes_def list_all_iff dest: map_of_SomeD split: option.split)
qed

lemma httpDate_fresh:
  assumes "case cached of None \<Rightarrow> True | Some (s, val) \<Rightarrow> val = fmt s"
  shows "snd (httpDate fmt sec cached) = fmt sec
    \<and> (case fst (httpDate fmt sec cached) of None \<Rightarrow> True | Some (s, val) \<Rightarrow> val = fmt s)"
  using assms by (auto simp: httpDate_def split: option.splits)

text \<open>A promise the writer builds is a complete request (RFC 9113 section 8.4).\<close>

lemma scan_loop_regular_start: "list_all isRegular fs \<Longrightarrow> scan_loop ph False fs = (ph, True)"
  by (cases fs) (auto simp: isRegular_def hd_conv_nth scan_loop_regular)

lemma promiseFields_valid:
  assumes "promiseFields w path scheme hs = Inr fs" and "path \<noteq> []"
    and "list_all isRegular (filter (\<lambda>h. Name h \<noteq> '':authority'') hs)" and "hget '':authority'' fs = Some a" and "CHR ''@'' \<notin> set a"
  shows "ValidRequestPseudoHeaders fs"
proof -
  define extra where "extra = filter (\<lambda>h. \<not> (find (\<lambda>h. Name h = '':authority'') hs \<noteq> None \<and> Name h = '':authority'')) hs"
  obtain sch au where fs: "fs = [\<lparr>Name = '':method'', Value = Some ''GET'', Indexing = 0\<rparr>,
      \<lparr>Name = '':path'', Value = Some path, Indexing = 0\<rparr>, \<lparr>Name = '':scheme'', Value = Some sch, Indexing = 0\<rparr>,
      \<lparr>Name = '':authority'', Value = Some au, Indexing = 0\<rparr>] @ extra"
    using assms(1) by (auto simp: promiseFields_def extra_def Let_def split: option.splits if_splits)
  have "extra = filter (\<lambda>h. Name h \<noteq> '':authority'') hs"
  proof (cases "find (\<lambda>h. Name h = '':authority'') hs")
    case None
    then show ?thesis by (auto simp: extra_def find_None_iff intro!: filter_cong)
  qed (simp add: extra_def)
  then have reg: "list_all isRegular extra" using assms(3) by simp
  have "a = au" using assms(4) by (simp add: fs hget_def)
  then show ?thesis using assms(2,5) reg
    by (simp add: fs ValidRequestPseudoHeaders_def scanRequestPseudoHeaders_def noPseudo_def scan_loop_regular_start Let_def)
qed

section \<open>After the trailers\<close>

text \<open>
  What the response writer relies on in the stream below: after a field section that ended the
  stream went out, every further write is refused and has no effect.
\<close>

locale stream_writer =
  fixes sendH :: "HeaderField list \<Rightarrow> bool \<Rightarrow> 's \<Rightarrow> 's \<times> wres"
    and sendD :: "bytes \<Rightarrow> bool \<Rightarrow> 's \<Rightarrow> 's \<times> wres"
    and ended :: "'s \<Rightarrow> bool"
  assumes ends: "sendH fs True s = (s', WOk) \<Longrightarrow> ended s'"
    and refusesH: "ended s \<Longrightarrow> sendH fs e s = (s, WErr ErrStreamClosed)"
    and refusesD: "ended s \<Longrightarrow> sendD p e s = (s, WErr ErrStreamClosed)"
begin

lemma call_after_end:
  assumes "ended (snd ws)"
  shows "snd (fst (doCall uni \<lparr>sw_sendHeaders = sendH, sw_sendData = sendD\<rparr> date call ws)) = snd ws"
  using assms
  by (cases call)
     (simp_all add: WriteHeaders_def WriteData_def WriteTrailers_def WriteHeader_def Write_def Let_def case_prod_beta
       refusesH refusesD split: prod.split wres.split)

lemma calls_after_end:
  "ended (snd ws) \<Longrightarrow> snd (doCalls uni \<lparr>sw_sendHeaders = sendH, sw_sendData = sendD\<rparr> date calls ws) = snd ws"
  unfolding doCalls_def by (induction calls arbitrary: ws) (simp_all add: call_after_end)

lemma nothing_after_end:
  assumes "WriteTrailers \<lparr>sw_sendHeaders = sendH, sw_sendData = sendD\<rparr> ts ws = (ws', WOk)"
  shows "snd (doCalls uni \<lparr>sw_sendHeaders = sendH, sw_sendData = sendD\<rparr> date calls ws') = snd ws'"
proof (rule calls_after_end)
  have "sendH ts True (snd ws) = (snd ws', WOk)"
    using assms by (auto simp: WriteTrailers_def case_prod_beta intro: prod_eqI)
  then show "ended (snd ws')" by (rule ends)
qed

end

lemma endLocal_unwritable: "\<not> Writable (ss_st (strm (endLocal s sc) s))"
  by (auto simp: endLocal_def markLocalEnd_def Let_def case_prod_beta Writable_iff strm_upds)

interpretation csw: stream_writer "connSendHeaders c s" "connSendData c s" "\<lambda>(sc, fs). \<not> Writable (ss_st (strm sc s))" for c s
proof
  fix fs st st'
  assume "connSendHeaders c s fs True st = (st', WOk)"
  then show "case st' of (sc, fs) \<Rightarrow> \<not> Writable (ss_st (strm sc s))"
    by (auto simp: connSendHeaders_def SendHeaders_def SendHeadersWithPriority_def errRes_def Let_def endLocal_unwritable
        split: prod.splits if_splits option.splits)
next
  fix st :: "ServerConn \<times> schedule" and fs e p
  assume "case st of (sc, fs) \<Rightarrow> \<not> Writable (ss_st (strm sc s))"
  then show "connSendHeaders c s fs e st = (st, WErr ErrStreamClosed)" "connSendData c s p e st = (st, WErr ErrStreamClosed)"
    by (auto simp: connSendHeaders_def SendHeaders_def SendHeadersWithPriority_def connSendData_def errRes_def)
qed

text \<open>
  C34. A response is over with its trailers: once \<open>WriteTrailers\<close> has returned without error on a
  stream of a connection, no call of the handler, in whatever order and however often, has any
  further effect on the connection; in particular it puts nothing on the wire.
\<close>

theorem nothing_after_trailers:
  assumes "WriteTrailers (connStreamWriter c s) ts (w, sc, fs) = ((w', sc', fs'), WOk)"
  shows "snd (doCalls uni (connStreamWriter c s) date calls (w', sc', fs')) = (sc', fs')"
  using csw.nothing_after_end [of c s ts "(w, sc, fs)" "(w', sc', fs')" uni date calls] assms by (simp add: connStreamWriter_def)

theorem nothing_after_trailers_witness:
  "\<exists>w' sc' fs'. fst (WriteTrailers (connStreamWriter sampleCodec 0) [\<lparr>Name = ''grpc-status'', Value = Some ''0'', Indexing = 0\<rparr>]
       (newResponseWriter None, sampleArrival, [])) = (w', sc', fs')
     \<and> snd (doCalls id (connStreamWriter sampleCodec 0) ''now'' [CallWrite ''late'', CallWriteTrailers []] (w', sc', fs')) = (sc', fs')"
proof -
  let ?r = "WriteTrailers (connStreamWriter sampleCodec 0) [\<lparr>Name = ''grpc-status'', Value = Some ''0'', Indexing = 0\<rparr>]
       (newResponseWriter None, sampleArrival, [])"
  have "snd ?r = WOk" unfolding sampleArrival_def by code_simp
  moreover obtain w' sc' fs' where "fst ?r = (w', sc', fs')" by (metis prod_cases3)
  ultimately have "?r = ((w', sc', fs'), WOk)" by (metis prod.collapse)
  from nothing_after_trailers [OF this] show ?thesis using \<open>fst ?r = (w', sc', fs')\<close> by blast
qed

end
