(* ===== verification/ServeStream.thy ===== *)
theory ServeStream
  imports ResponseWriter
begin

text \<open>
  One request from its first event to the end of its stream: \<open>serveStream\<close>, the collection of a
  buffered body and the dispatch to the handler (server/server.go), and the reader behind a
  streaming body (server/stream\_body.go).

  Everything runs on the connection of theory ConnState and a schedule of what the other
  goroutines do while this one waits (theory Writers). A handler is a program that calls the
  response writer and reads the body, each time going on with what the call returned; it may also
  return an error or panic. \<open>Stuck\<close> is a goroutine that waits and is never woken.
\<close>

section \<open>Receiving\<close>

type_synonym srvState = "ServerConn \<times> schedule"

datatype received = Event StreamEvent | RecvFailed err | RecvStuck

text \<open>\<open>stream.Recv(stream.Context())\<close>\<close>

function recvWait :: "codec \<Rightarrow> sref \<Rightarrow> srvState \<Rightarrow> srvState \<times> received" where
  "recvWait c s (sc, fs) =
     (case Recv c (ctxErr sc s) s sc of
        (sc, RecvOk e) \<Rightarrow> ((sc, fs), Event e)
      | (sc, RecvErr e) \<Rightarrow> ((sc, fs), RecvFailed e)
      | (sc, RecvBlock) \<Rightarrow> (case fs of [] \<Rightarrow> ((sc, fs), RecvStuck) | f # fs \<Rightarrow> recvWait c s (f sc, fs)))"
  by pat_completeness auto
termination by (relation "measure (\<lambda>(c, s, sc, fs). length fs)") auto

declare recvWait.simps [simp del]

text \<open>An event that was received has left the queue, or a wakeup has been used up.\<close>

definition backlog :: "sref \<Rightarrow> srvState \<Rightarrow> nat \<times> nat" where
  "backlog s st = (length (snd st), length (ss_events (strm (fst st) s)))"

lemma creditConsumed_events [simp]: "ss_events (strm (creditConsumed c s e sc) x) = ss_events (strm sc x)"
  by (simp add: creditConsumed_def strm_upds Let_def case_prod_beta)

lemma recvWait_backlog:
  "recvWait c s st = (st', Event e) \<Longrightarrow> (backlog s st', backlog s st) \<in> less_than <*lex*> less_than"
proof (induction c s st rule: recvWait.induct)
  case (1 c s sc fs)
  show ?case
  proof (cases "snd (Recv c (ctxErr sc s) s sc)")
    case (RecvOk x)
    then show ?thesis using 1(2)
      by (auto simp: recvWait.simps [of c s sc fs] Recv_def backlog_def strm_upds split: list.splits if_splits option.splits)
  next
    case (RecvErr x)
    then show ?thesis using 1(2) by (auto simp: recvWait.simps [of c s sc fs] split: prod.splits)
  next
    case RecvBlock
    then have r: "Recv c (ctxErr sc s) s sc = (sc, RecvBlock)"
      by (auto simp: Recv_def split: list.splits if_splits option.splits)
    then obtain f fs' where fs: "fs = f # fs'" using 1(2) by (cases fs) (auto simp: recvWait.simps [of c s sc "[]"])
    have "recvWait c s (f sc, fs') = (st', Event e)" using 1(2) r fs by (simp add: recvWait.simps [of c s sc "f # fs'"])
    from 1(1) [OF r [symmetric] refl fs this] show ?thesis by (auto simp: backlog_def fs)
  qed
qed

section \<open>The streaming body\<close>

datatype readErr = ReadEOF | ReadUnexpectedEOF | ErrBodyTooLarge | ReadRecv err

record streamBody =
  sb_limit :: int
  sb_total :: int
  sb_buf :: bytes
  sb_done :: bool

definition newStreamBody :: "int \<Rightarrow> streamBody" where
  "newStreamBody limit = \<lparr>sb_limit = limit, sb_total = 0, sb_buf = [], sb_done = False\<rparr>"

text \<open>A read into a buffer of \<open>n\<close> octets gives the octets read or an error; \<open>None\<close> is a read that is stuck.\<close>

type_synonym readRes = "(bytes \<times> readErr option) option"

definition deliverData :: "nat \<Rightarrow> bytes \<Rightarrow> bool \<Rightarrow> streamBody \<Rightarrow> streamBody \<times> bytes \<times> readErr option" where
  "deliverData n data endStream sb =
     (let (sb, over) =
            (if sb_limit sb \<ge> 0
             then let sb = sb\<lparr>sb_total := int64 (sb_total sb + int (length data))\<rparr> in (sb, sb_total sb > sb_limit sb)
             else (sb, False))
      in if over then (sb\<lparr>sb_done := True\<rparr>, [], Some ErrBodyTooLarge)
         else let k = min n (length data);
                  sb = (if k < length data then sb\<lparr>sb_buf := sb_buf sb @ drop k data\<rparr> else sb)
              in if endStream then (sb\<lparr>sb_done := True\<rparr>, take k data, if k = 0 then Some ReadEOF else None)
                 else (sb, take k data, None))"

function readLoop :: "codec \<Rightarrow> sref \<Rightarrow> nat \<Rightarrow> streamBody \<Rightarrow> srvState \<Rightarrow> (streamBody \<times> srvState) \<times> readRes" where
  "readLoop c s n sb st =
     (case recvWait c s st of
        (st, RecvStuck) \<Rightarrow> ((sb, st), None)
      | (st, RecvFailed e) \<Rightarrow> ((sb\<lparr>sb_done := True\<rparr>, st), Some ([], Some (ReadRecv e)))
      | (st, Event ev) \<Rightarrow>
          (case evType ev of
             EventHeaders \<Rightarrow>
               if evEndStream ev then ((sb\<lparr>sb_done := True\<rparr>, st), Some ([], Some ReadEOF)) else readLoop c s n sb st
           | EventData \<Rightarrow>
               if length (evData ev) = 0 then
                 if evEndStream ev then ((sb\<lparr>sb_done := True\<rparr>, st), Some ([], Some ReadEOF)) else readLoop c s n sb st
               else (case deliverData n (evData ev) (evEndStream ev) sb of (sb, r) \<Rightarrow> ((sb, st), Some r))
           | EventTrailers \<Rightarrow> ((sb\<lparr>sb_done := True\<rparr>, st), Some ([], Some ReadEOF))
           | EventReset \<Rightarrow> ((sb\<lparr>sb_done := True\<rparr>, st), Some ([], Some ReadUnexpectedEOF))))"
  by pat_completeness auto
termination
  by (relation "inv_image (less_than <*lex*> less_than) (\<lambda>(c, s, n, sb, st). backlog s st)")
     (auto dest!: recvWait_backlog [OF sym] simp: wf_lex_prod)

declare readLoop.simps [simp del]

definition sbRead :: "codec \<Rightarrow> sref \<Rightarrow> nat \<Rightarrow> streamBody \<Rightarrow> srvState \<Rightarrow> (streamBody \<times> srvState) \<times> readRes" where
  "sbRead c s n sb st =
     (if length (sb_buf sb) > 0
      then let k = min n (length (sb_buf sb)) in ((sb\<lparr>sb_buf := drop k (sb_buf sb)\<rparr>, st), Some (take k (sb_buf sb), None))
      else if sb_done sb then ((sb, st), Some ([], Some ReadEOF))
      else readLoop c s n sb st)"

definition sbClose :: "streamBody \<Rightarrow> streamBody" where
  "sbClose sb = sb\<lparr>sb_done := True\<rparr>"

section \<open>The buffered body\<close>

datatype collected = Collected "bytes list" "HeaderField list" | TooLarge | GotReset | CollectFailed err | CollectStuck

text \<open>The receive loop of \<open>serveStreamBuffered\<close> until it decides.\<close>

function collectLoop ::
  "codec \<Rightarrow> sref \<Rightarrow> int \<Rightarrow> bytes list \<Rightarrow> HeaderField list \<Rightarrow> int \<Rightarrow> srvState \<Rightarrow> srvState \<times> collected" where
  "collectLoop c s maxBody bodyChunks trailers tot st =
     (case recvWait c s st of
        (st, RecvStuck) \<Rightarrow> (st, CollectStuck)
      | (st, RecvFailed e) \<Rightarrow> (st, CollectFailed e)
      | (st, Event ev) \<Rightarrow>
          (case evType ev of
             EventData \<Rightarrow>
               let tot' = (if evData ev \<noteq> [] then int64 (tot + int (length (evData ev))) else tot);
                   bodyChunks' = (if evData ev \<noteq> [] then bodyChunks @ [evData ev] else bodyChunks)
               in if evData ev \<noteq> [] \<and> maxBody \<ge> 0 \<and> tot' > maxBody then (st, TooLarge)
                  else if evEndStream ev then (st, Collected bodyChunks' trailers)
                  else collectLoop c s maxBody bodyChunks' trailers tot' st
           | EventTrailers \<Rightarrow>
               if evEndStream ev then (st, Collected bodyChunks (evHeaders ev))
               else collectLoop c s maxBody bodyChunks (evHeaders ev) tot st
           | EventReset \<Rightarrow> (st, GotReset)
           | EventHeaders \<Rightarrow> collectLoop c s maxBody bodyChunks trailers tot st))"
  by pat_completeness auto
termination
  by (relation "inv_image (less_than <*lex*> less_than) (\<lambda>(c, s, maxBody, bodyChunks, trailers, tot, st). backlog s st)")
     (auto dest!: recvWait_backlog [OF sym] simp: wf_lex_prod)

declare collectLoop.simps [simp del]

section \<open>Handlers\<close>

datatype hprog =
    HReturn bool
  | HPanic
  | HCall wcall "wres \<Rightarrow> hprog"
  | HRead nat "bytes \<times> readErr option \<Rightarrow> hprog"
  | HCloseBody hprog

datatype hres = HReturned bool | HPanicked | HStuck

text \<open>
  A run of a handler: response writer, body reader (if one is attached) and connection. A handler
  without a body reader that reads one gets its end.
\<close>

type_synonym hstate' = "responseWriter \<times> streamBody option \<times> srvState"

primrec runHandler ::
  "(bytes \<Rightarrow> bytes) \<Rightarrow> bytes \<Rightarrow> codec \<Rightarrow> sref \<Rightarrow> hprog \<Rightarrow> hstate' \<Rightarrow> hstate' \<times> hres" where
  "runHandler uni date c s (HReturn erred) = (\<lambda>hst. (hst, HReturned erred))"
| "runHandler uni date c s HPanic = (\<lambda>hst. (hst, HPanicked))"
| "runHandler uni date c s (HCall call k) = (\<lambda>(w, sb, st).
     case doCall uni (connStreamWriter c s) date call (w, st) of
       ((w, st), WBlocked) \<Rightarrow> ((w, sb, st), HStuck)
     | ((w, st), r) \<Rightarrow> runHandler uni date c s (k r) (w, sb, st))"
| "runHandler uni date c s (HRead n k) = (\<lambda>(w, sb, st).
     case sb of
       None \<Rightarrow> runHandler uni date c s (k ([], Some ReadEOF)) (w, sb, st)
     | Some b \<Rightarrow>
         (case sbRead c s n b st of
            ((b, st), None) \<Rightarrow> ((w, Some b, st), HStuck)
          | ((b, st), Some r) \<Rightarrow> runHandler uni date c s (k r) (w, Some b, st)))"
| "runHandler uni date c s (HCloseBody k) = (\<lambda>(w, sb, st). runHandler uni date c s k (w, map_option sbClose sb, st))"

section \<open>Serving a stream\<close>

datatype served = Served | ServeStuck

definition closeStream :: "codec \<Rightarrow> sref \<Rightarrow> srvState \<Rightarrow> srvState" where
  "closeStream c s = (\<lambda>(sc, fs). (fst (StreamClose c s sc), fs))"

definition rejectWith :: "bytes \<Rightarrow> codec \<Rightarrow> sref \<Rightarrow> int \<Rightarrow> responseWriter \<Rightarrow> srvState \<Rightarrow> srvState" where
  "rejectWith date c s status w st =
     (let sw = connStreamWriter c s;
          ws = fst (WriteHeaders sw date status [] (w, st));
          ws = fst (WriteTrailers sw [] ws)
      in closeStream c s (snd ws))"

definition rejectTooLarge :: "bytes \<Rightarrow> codec \<Rightarrow> sref \<Rightarrow> srvState \<Rightarrow> srvState" where
  "rejectTooLarge date c s st = rejectWith date c s 413 (newResponseWriter None) st"

definition dispatchAndClose ::
  "(bytes \<Rightarrow> bytes) \<Rightarrow> bytes \<Rightarrow> codec \<Rightarrow> (Request \<Rightarrow> hprog) \<Rightarrow> sref \<Rightarrow> Request \<Rightarrow> streamBody option \<Rightarrow> srvState \<Rightarrow> srvState \<times> served" where
  "dispatchAndClose uni date c handler s req sb st =
     (let sw = connStreamWriter c s in
      case runHandler uni date c s (handler req) (newResponseWriter (Some req), sb, st) of
        ((w, sb, st), HStuck) \<Rightarrow> (st, ServeStuck)
      | ((w, sb, st), HPanicked) \<Rightarrow>
          (if \<not> rw_written w then rejectWith date c s 500 w st else closeStream c s st, Served)
      | ((w, sb, st), HReturned erred) \<Rightarrow>
          (let ws = (if \<not> rw_written w then fst (WriteHeaders sw date (if erred then 500 else 200) [] (w, st)) else (w, st));
               ws = fst (WriteTrailers sw [] ws)
           in (closeStream c s (snd ws), Served)))"

definition serveStreamBuffered ::
  "(bytes \<Rightarrow> bytes) \<Rightarrow> bytes \<Rightarrow> codec \<Rightarrow> (Request \<Rightarrow> hprog) \<Rightarrow> int \<Rightarrow> sref \<Rightarrow> Request \<Rightarrow> srvState \<Rightarrow> srvState \<times> served" where
  "serveStreamBuffered uni date c handler maxBody s req st =
     (case collectLoop c s maxBody [] (Trailers req) 0 st of
        (st, Collected chunks trailers) \<Rightarrow>
          dispatchAndClose uni date c handler s (req\<lparr>Trailers := trailers, Body := joinChunks chunks\<rparr>) None st
      | (st, TooLarge) \<Rightarrow> (rejectTooLarge date c s st, Served)
      | (st, GotReset) \<Rightarrow> (closeStream c s st, Served)
      | (st, CollectFailed e) \<Rightarrow> (st, Served)
      | (st, CollectStuck) \<Rightarrow> (st, ServeStuck))"

definition serveStream ::
  "(bytes \<Rightarrow> bytes) \<Rightarrow> bytes \<Rightarrow> codec \<Rightarrow> (Request \<Rightarrow> hprog) \<Rightarrow> bool \<Rightarrow> int \<Rightarrow> (bytes \<Rightarrow> bool) option \<Rightarrow> sref \<Rightarrow> srvState \<Rightarrow> srvState \<times> served" where
  "serveStream uni date c handler streaming maxBody leaf s st =
     (case recvWait c s st of
        (st, RecvStuck) \<Rightarrow> (st, ServeStuck)
      | (st, RecvFailed e) \<Rightarrow> (st, Served)
      | (st, Event ev) \<Rightarrow>
          if evType ev \<noteq> EventHeaders then (closeStream c s st, Served)
          else let req = buildRequest (evHeaders ev) (ss_id (strm (fst st) s)) in
            if misdirectedRequest req leaf then (rejectWith date c s 421 (newResponseWriter (Some req)) st, Served)
            else if evEndStream ev then dispatchAndClose uni date c handler s req None st
            else let (st, e) = (if hasExpectContinue (evHeaders ev)
                                then connSendHeaders c s continue100Headers False st else (st, WOk))
                 in if e \<noteq> WOk then (closeStream c s st, Served)
                    else if streaming
                    then dispatchAndClose uni date c handler s (req\<lparr>BodyReader := True\<rparr>) (Some (newStreamBody maxBody)) st
                    else serveStreamBuffered uni date c handler maxBody s req st)"

section \<open>Buffered and streamed bodies\<close>

text \<open>The events a goroutine receives on a stream, one after the other.\<close>

inductive receives :: "codec \<Rightarrow> sref \<Rightarrow> srvState \<Rightarrow> StreamEvent list \<Rightarrow> srvState \<Rightarrow> bool" for c s where
  none: "receives c s st [] st"
| one: "recvWait c s st = (st1, Event ev) \<Longrightarrow> receives c s st1 evs st2 \<Longrightarrow> receives c s st (ev # evs) st2"

inductive_cases receives_NilE: "receives c s st [] st'"
inductive_cases receives_ConsE: "receives c s st (ev # evs) st'"

text \<open>
  What a sequence of body events amounts to: the octets before the event that decides, and the
  decision. The sequence is taken to end with the deciding event; after \<open>tot\<close> octets, a frame
  that exceeds the limit decides.
\<close>

fun bodyOutcome :: "int \<Rightarrow> int \<Rightarrow> StreamEvent list \<Rightarrow> (bytes \<times> readErr) option" where
  "bodyOutcome limit tot [] = None"
| "bodyOutcome limit tot (ev # evs) =
     (case evType ev of
        EventData \<Rightarrow>
          if evData ev \<noteq> [] \<and> limit \<ge> 0 \<and> tot + int (length (evData ev)) > limit
          then if evs = [] then Some ([], ErrBodyTooLarge) else None
          else if evEndStream ev then if evs = [] then Some (evData ev, ReadEOF) else None
          else map_option (\<lambda>(b, e). (evData ev @ b, e)) (bodyOutcome limit (tot + int (length (evData ev))) evs)
      | EventTrailers \<Rightarrow> if evEndStream ev \<and> evs = [] then Some ([], ReadEOF) else None
      | EventReset \<Rightarrow> if evs = [] then Some ([], ReadUnexpectedEOF) else None
      | EventHeaders \<Rightarrow> None)"

definition octets :: "StreamEvent list \<Rightarrow> nat" where
  "octets evs = sum_list (map (\<lambda>ev. length (evData ev)) evs)"

lemma octets_simps [simp]: "octets [] = 0" "octets (ev # evs) = length (evData ev) + octets evs"
  by (simp_all add: octets_def)

text \<open>How the buffered loop reports the same decision.\<close>

definition agrees :: "bytes \<times> readErr \<Rightarrow> collected \<Rightarrow> bool" where
  "agrees d r = (case d of
     (b, ReadEOF) \<Rightarrow> \<exists>chunks trailers. r = Collected chunks trailers \<and> concat chunks = b
   | (b, ErrBodyTooLarge) \<Rightarrow> r = TooLarge
   | (b, ReadUnexpectedEOF) \<Rightarrow> r = GotReset
   | (b, ReadRecv e) \<Rightarrow> r = CollectFailed e)"

lemma int64_small: "0 \<le> x \<Longrightarrow> x \<le> maxInt64 \<Longrightarrow> int64 x = x"
  unfolding int64_def by (rule signed_take_bit_int_eq_self) (simp_all add: maxInt64_def)

lemma collectLoop_outcome:
  assumes "receives c s st evs st'" and "bodyOutcome limit tot evs = Some (b, e)" and "0 \<le> tot"
    and "tot + int (octets evs) \<le> maxInt64"
  shows "\<exists>r. collectLoop c s limit chunks ts tot st = (st', r) \<and> agrees (concat chunks @ b, e) r"
  using assms
proof (induction evs arbitrary: st tot b chunks ts)
  case (Cons ev evs)
  from Cons.prems(1) obtain st1 where r: "recvWait c s st = (st1, Event ev)" "receives c s st1 evs st'"
    by (auto elim: receives_ConsE)
  have last: "evs = [] \<Longrightarrow> st' = st1" using r(2) by (auto elim: receives_NilE)
  let ?t = "tot + int (length (evData ev))"
  have t: "int64 ?t = ?t" using Cons.prems(3,4) by (intro int64_small) simp_all
  show ?case
  proof (cases "evType ev = EventData \<and> \<not> (evData ev \<noteq> [] \<and> limit \<ge> 0 \<and> ?t > limit) \<and> \<not> evEndStream ev")
    case True
    then obtain b' where b: "bodyOutcome limit ?t evs = Some (b', e)" "b = evData ev @ b'"
      using Cons.prems(2) by (auto split: if_splits)
    let ?chunks = "if evData ev \<noteq> [] then chunks @ [evData ev] else chunks"
    have "\<exists>r. collectLoop c s limit ?chunks ts ?t st1 = (st', r) \<and> agrees (concat ?chunks @ b', e) r"
      by (rule Cons.IH [OF r(2) b(1)]) (use Cons.prems(3,4) in simp_all)
    moreover have "collectLoop c s limit chunks ts tot st = collectLoop c s limit ?chunks ts ?t st1"
      using True r(1) t by (auto simp: collectLoop.simps [of c s limit chunks] Let_def)
    moreover have "concat ?chunks @ b' = concat chunks @ b" using b by simp
    ultimately show ?thesis by metis
  next
    case False
    then show ?thesis using Cons.prems(2) r(1) last t
      by (auto simp: collectLoop.simps [of c s limit chunks] agrees_def Let_def split: StreamEventType.splits if_splits)
  qed
qed simp

text \<open>Reading a streaming body to its end with a buffer of \<open>n\<close> octets, in at most \<open>k\<close> reads.\<close>

fun readAll :: "nat \<Rightarrow> nat \<Rightarrow> codec \<Rightarrow> sref \<Rightarrow> streamBody \<Rightarrow> srvState \<Rightarrow> (streamBody \<times> srvState) \<times> bytes \<times> readErr option" where
  "readAll 0 n c s sb st = ((sb, st), [], None)"
| "readAll (Suc k) n c s sb st =
     (case sbRead c s n sb st of
        (x, None) \<Rightarrow> (x, [], None)
      | (x, Some (b, Some e)) \<Rightarrow> (x, b, Some e)
      | ((sb, st), Some (b, None)) \<Rightarrow> (case readAll k n c s sb st of (x, b', e) \<Rightarrow> (x, b @ b', e)))"

lemma readAll_done:
  assumes "sb_done sb" and "length (sb_buf sb) < k" and "1 \<le> n"
  shows "\<exists>sb'. readAll k n c s sb st = ((sb', st), sb_buf sb, Some ReadEOF)"
  using assms(1,2)
proof (induction k arbitrary: sb)
  case (Suc k)
  show ?case
  proof (cases "sb_buf sb = []")
    case True
    then show ?thesis using Suc.prems by (simp add: sbRead_def)
  next
    case False
    let ?m = "min n (length (sb_buf sb))" let ?sb = "sb\<lparr>sb_buf := drop ?m (sb_buf sb)\<rparr>"
    have "1 \<le> ?m" using False assms(3) by (cases "sb_buf sb") auto
    then have "length (sb_buf ?sb) < k" using Suc.prems(2) by (auto simp: min_def)
    then have "\<exists>sb'. readAll k n c s ?sb st = ((sb', st), sb_buf ?sb, Some ReadEOF)"
      using Suc.prems(1) by (intro Suc.IH) simp_all
    then show ?thesis using False by (auto simp: sbRead_def Let_def)
  qed
qed simp

text \<open>The reader's account and limit are in step with the events still to come.\<close>

definition reading :: "int \<Rightarrow> int \<Rightarrow> streamBody \<Rightarrow> bool" where
  "reading limit tot sb \<longleftrightarrow> \<not> sb_done sb \<and> sb_limit sb = limit \<and> (0 \<le> limit \<longrightarrow> sb_total sb = tot)"

lemma deliverData_ok:
  assumes "reading limit tot sb" and "sb_buf sb = []" and "data \<noteq> []" and "1 \<le> n"
    and "\<not> (limit \<ge> 0 \<and> tot + int (length data) > limit)" and "int64 (tot + int (length data)) = tot + int (length data)"
  obtains sb' where "deliverData n data end sb = (sb', take n data, None)" "sb_buf sb' = drop n data"
    "end \<Longrightarrow> sb_done sb'" "\<not> end \<Longrightarrow> reading limit (tot + int (length data)) sb'"
proof -
  have m: "min n (length data) \<noteq> 0" using assms(3,4) by (cases data) auto
  have d: "drop (min n (length data)) data = drop n data" "take (min n (length data)) data = take n data" by (simp_all add: min_def)
  let ?r = "deliverData n data end sb"
  have "snd ?r = (take n data, None)" using assms by (auto simp: deliverData_def reading_def Let_def d m)
  moreover have "sb_buf (fst ?r) = drop n data" using assms by (auto simp: deliverData_def reading_def Let_def d m)
  moreover have "end \<Longrightarrow> sb_done (fst ?r)" using assms by (auto simp: deliverData_def reading_def Let_def d m)
  moreover have "\<not> end \<Longrightarrow> reading limit (tot + int (length data)) (fst ?r)"
    using assms by (auto simp: deliverData_def reading_def Let_def d m)
  ultimately show ?thesis using that [of "fst ?r"] by (metis prod.collapse)
qed

lemma readAll_outcome:
  assumes "1 \<le> n"
  shows "length (sb_buf sb) + length b < k \<Longrightarrow> receives c s st evs st' \<Longrightarrow> bodyOutcome limit tot evs = Some (b, e)
    \<Longrightarrow> reading limit tot sb \<Longrightarrow> 0 \<le> tot \<Longrightarrow> tot + int (octets evs) \<le> maxInt64
    \<Longrightarrow> \<exists>sb'. readAll k n c s sb st = ((sb', st'), sb_buf sb @ b, Some e)"
proof (induction k arbitrary: sb st evs tot b)
  case (Suc k)
  show ?case
  proof (cases "sb_buf sb = []")
    case False
    let ?m = "min n (length (sb_buf sb))" let ?sb = "sb\<lparr>sb_buf := drop ?m (sb_buf sb)\<rparr>"
    have "1 \<le> ?m" using False assms by (cases "sb_buf sb") auto
    then have "\<exists>sb'. readAll k n c s ?sb st = ((sb', st'), sb_buf ?sb @ b, Some e)"
      by (intro Suc.IH [OF _ Suc.prems(2,3) _ Suc.prems(5,6)]) (use Suc.prems(1,4) in \<open>auto simp: reading_def min_def\<close>)
    then show ?thesis using False by (auto simp: sbRead_def Let_def)
  next
    case empty: True
    show ?thesis using Suc.prems
    proof (induction evs arbitrary: st tot b)
      case (Cons ev evs)
      from Cons.prems(2) obtain st1 where r: "recvWait c s st = (st1, Event ev)" "receives c s st1 evs st'"
        by (auto elim: receives_ConsE)
      have last: "evs = [] \<Longrightarrow> st' = st1" using r(2) by (auto elim: receives_NilE)
      have R: "sbRead c s n sb st = readLoop c s n sb st" using empty Cons.prems(4) by (simp add: sbRead_def reading_def)
      let ?t = "tot + int (length (evData ev))"
      have t: "int64 ?t = ?t" using Cons.prems(5,6) by (intro int64_small) simp_all
      consider (skip) "evType ev = EventData" "evData ev = []" "\<not> evEndStream ev"
        | (data) "evType ev = EventData" "evData ev \<noteq> []" "\<not> (limit \<ge> 0 \<and> ?t > limit)"
        | (stop) "\<not> (evType ev = EventData \<and> evData ev = [] \<and> \<not> evEndStream ev)"
            "\<not> (evType ev = EventData \<and> evData ev \<noteq> [] \<and> \<not> (limit \<ge> 0 \<and> ?t > limit))" by blast
      then show ?case
      proof cases
        case skip
        have "bodyOutcome limit tot evs = Some (b, e)" using skip Cons.prems(3) by (auto split: if_splits)
        then have "\<exists>sb'. readAll (Suc k) n c s sb st1 = ((sb', st'), sb_buf sb @ b, Some e)"
          using Cons.IH [OF Cons.prems(1) r(2)] Cons.prems(4-6) skip by simp
        moreover have "sbRead c s n sb st1 = sbRead c s n sb st"
          using R r(1) skip empty Cons.prems(4) by (simp add: readLoop.simps [of c s n sb st] sbRead_def reading_def)
        ultimately show ?thesis by simp
      next
        case data
        obtain sb1 where d: "deliverData n (evData ev) (evEndStream ev) sb = (sb1, take n (evData ev), None)"
          "sb_buf sb1 = drop n (evData ev)" "evEndStream ev \<Longrightarrow> sb_done sb1" "\<not> evEndStream ev \<Longrightarrow> reading limit ?t sb1"
          using deliverData_ok [OF Cons.prems(4) empty data(2) assms data(3) t, of "evEndStream ev"] by blast
        have one: "sbRead c s n sb st = ((sb1, st1), Some (take n (evData ev), None))"
          unfolding R by (simp add: readLoop.simps [of c s n sb st] r(1) data d(1))
        have less: "length (drop n (evData ev)) < length (evData ev)" using data(2) assms by simp
        show ?thesis
        proof (cases "evEndStream ev")
          case True
          then have "b = evData ev" "e = ReadEOF" "st' = st1" using Cons.prems(3) data last by (auto split: if_splits)
          moreover have "\<exists>sb'. readAll k n c s sb1 st1 = ((sb', st1), sb_buf sb1, Some ReadEOF)"
            using d(2,3) True less Cons.prems(1) \<open>b = evData ev\<close> assms by (intro readAll_done) auto
          ultimately show ?thesis using one d(2) empty by auto
        next
          case False
          then obtain b' where b: "bodyOutcome limit ?t evs = Some (b', e)" "b = evData ev @ b'"
            using Cons.prems(3) data by (auto split: if_splits)
          have "\<exists>sb'. readAll k n c s sb1 st1 = ((sb', st'), sb_buf sb1 @ b', Some e)"
            using less Cons.prems(1,5,6) b(2) d(2) by (intro Suc.IH [OF _ r(2) b(1) d(4) [OF False]]) simp_all
          then show ?thesis using one d(2) empty b(2) by auto
        qed
      next
        case stop
        then show ?thesis using R r(1) last Cons.prems(3,4) t empty
          by (auto simp: readLoop.simps [of c s n sb st] deliverData_def reading_def Let_def split: StreamEventType.splits if_splits)
      qed
    qed simp
  qed
qed simp


text \<open>A body in one frame, waiting in the stream's queue.\<close>

definition uploadState :: srvState where
  "uploadState = (chanSend 0 \<lparr>evType = EventData, evHeaders = [], evData = ''hello'', evEndStream = True, evRSTCode = ErrCodeNoError\<rparr>
     (newConn sampleOptions), [])"

lemma recvWait_ok: "snd (Recv c (ctxErr (fst st) s) s (fst st)) = RecvOk e \<Longrightarrow> snd (recvWait c s st) = Event e"
  by (cases st) (simp add: recvWait.simps case_prod_beta)

lemma uploadState_receives:
  "receives sampleCodec 0 uploadState
     [\<lparr>evType = EventData, evHeaders = [], evData = ''hello'', evEndStream = True, evRSTCode = ErrCodeNoError\<rparr>]
     (fst (recvWait sampleCodec 0 uploadState))"
proof -
  have "snd (Recv sampleCodec (ctxErr (fst uploadState) 0) 0 (fst uploadState))
      = RecvOk \<lparr>evType = EventData, evHeaders = [], evData = ''hello'', evEndStream = True, evRSTCode = ErrCodeNoError\<rparr>"
    by (simp add: uploadState_def chanSend_def newConn_def newServerStream_def Recv_def strm_upds)
  from recvWait_ok [OF this] show ?thesis by (intro receives.one [OF _ receives.none] prod_eqI) simp_all
qed


section \<open>Every stream that is served ends\<close>

text \<open>The stream is over for its handler: it was reset, or its context or its events have ended.\<close>

definition over :: "sref \<Rightarrow> srvState \<Rightarrow> bool" where
  "over s st \<longleftrightarrow> WasReset (ss_st (strm (fst st) s)) \<or> ss_cancelled (strm (fst st) s) \<or> ss_evClosed (strm (fst st) s)"

lemma closeStream_over [simp]: "over s (closeStream c s st)"
proof -
  have "WasReset (ss_st (strm (fst (writeServerRSTStream c s code sc)) s))" for code sc
    by (simp add: writeServerRSTStream_def Let_def case_prod_beta strm_upds)
  then show ?thesis by (cases st) (simp add: over_def closeStream_def StreamClose_def Let_def strm_upds)
qed

lemma recvWait_failed: "recvWait c s st = (st', RecvFailed e) \<Longrightarrow> over s st'"
proof (induction c s st rule: recvWait.induct)
  case (1 c s sc fs)
  show ?case
  proof (cases "snd (Recv c (ctxErr sc s) s sc) = RecvBlock")
    case True
    then have r: "Recv c (ctxErr sc s) s sc = (sc, RecvBlock)"
      by (auto simp: Recv_def split: list.splits if_splits option.splits)
    then obtain f fs' where fs: "fs = f # fs'" using 1(2) by (cases fs) (auto simp: recvWait.simps [of c s sc "[]"])
    have "recvWait c s (f sc, fs') = (st', RecvFailed e)" using 1(2) r fs by (simp add: recvWait.simps [of c s sc "f # fs'"])
    then show ?thesis by (rule 1(1) [OF r [symmetric] refl fs])
  next
    case False
    then show ?thesis using 1(2)
      by (auto simp: recvWait.simps [of c s sc fs] Recv_def ctxErr_def over_def split: list.splits if_splits option.splits prod.splits)
  qed
qed

lemma collectLoop_failed: "collectLoop c s limit chunks ts tot st = (st', CollectFailed e) \<Longrightarrow> over s st'"
proof (induction c s limit chunks ts tot st rule: collectLoop.induct)
  case (1 c s limit chunks ts tot st)
  obtain st1 r where r: "recvWait c s st = (st1, r)" by (metis surj_pair)
  show ?case
  proof (cases r)
    case (Event ev)
    with r have r': "(st1, Event ev) = recvWait c s st" by simp
    show ?thesis
    proof (cases "evType ev")
      case EventHeaders
      then show ?thesis using 1(1) [OF r' refl] 1(4) r' [symmetric] by (simp add: collectLoop.simps [of c s limit chunks])
    next
      case EventData
      then show ?thesis using 1(2) [OF r' refl EventData refl refl] 1(4) r' [symmetric]
        by (simp add: collectLoop.simps [of c s limit chunks ts tot st] Let_def split: if_splits)
    next
      case EventTrailers
      then show ?thesis using 1(3) [OF r' refl] 1(4) r' [symmetric]
        by (simp add: collectLoop.simps [of c s limit chunks ts tot st] split: if_splits)
    next
      case EventReset
      then show ?thesis using 1(4) r' [symmetric] by (simp add: collectLoop.simps [of c s limit chunks])
    qed
  next
    case (RecvFailed e')
    then show ?thesis using 1(4) r recvWait_failed [of c s st st1 e'] by (simp add: collectLoop.simps [of c s limit chunks])
  next
    case RecvStuck
    then show ?thesis using 1(4) r by (simp add: collectLoop.simps [of c s limit chunks])
  qed
qed

lemma dispatch_over: "dispatchAndClose uni date c handler s req sb st = (st', Served) \<Longrightarrow> over s st'"
  by (auto simp: dispatchAndClose_def rejectWith_def Let_def split: prod.splits hres.splits if_splits)

text \<open>
  C32. Serving a request always ends its stream: whatever arrives on the stream, whatever the
  handler does (it returns, fails or panics, having written anything or nothing) and however the
  request is refused, when \<open>serveStream\<close> is through the stream has been reset or its context or
  events had ended before; nothing can be sent on a stream that was reset.
\<close>

theorem served_stream_is_over:
  assumes "serveStream uni date c handler streaming maxBody leaf s st = (st', Served)"
  shows "over s st'"
proof -
  obtain st1 r where r: "recvWait c s st = (st1, r)" by (metis surj_pair)
  have b: "serveStreamBuffered uni date c handler maxBody s req st2 = (st', Served) \<Longrightarrow> over s st'" for req st2
    using collectLoop_failed [of c s maxBody "[]" "Trailers req" 0 st2] dispatch_over
    by (auto simp: serveStreamBuffered_def rejectTooLarge_def rejectWith_def Let_def split: prod.splits collected.splits)
  show ?thesis
  proof (cases r)
    case (Event ev)
    then show ?thesis using assms r b dispatch_over
      by (auto simp: serveStream_def rejectWith_def Let_def split: prod.splits if_splits)
  next
    case (RecvFailed e)
    then show ?thesis using assms r recvWait_failed [of c s st st1 e] by (simp add: serveStream_def)
  next
    case RecvStuck
    then show ?thesis using assms r by (simp add: serveStream_def)
  qed
qed

text \<open>A request without content, and a handler that panics at once.\<close>

definition arrivedState :: srvState where
  "arrivedState = (chanSend 0 (headersEvent False sampleFields True) (newConn sampleOptions), [])"

theorem served_stream_is_over_witness:
  "over 0 (fst (serveStream id ''now'' sampleCodec (\<lambda>_. HPanic) False 10 None 0 arrivedState))"
proof -
  let ?r = "serveStream id ''now'' sampleCodec (\<lambda>_. HPanic) False 10 None 0 arrivedState"
  have "snd (Recv sampleCodec (ctxErr (fst arrivedState) 0) 0 (fst arrivedState)) = RecvOk (headersEvent False sampleFields True)"
    by (simp add: arrivedState_def chanSend_def newConn_def newServerStream_def Recv_def strm_upds)
  from recvWait_ok [OF this] have "snd ?r = Served"
    by (simp add: serveStream_def case_prod_beta headersEvent_def misdirectedRequest_def dispatchAndClose_def Let_def)
  then have "?r = (fst ?r, Served)" by (simp add: prod_eq_iff)
  then show ?thesis by (rule served_stream_is_over)
qed

section \<open>Corners of the streaming body\<close>

text \<open>
  A closed body still hands out the octets left over from the last frame, and a read with an empty
  buffer reports the end of a body of which everything is still to be read.
\<close>

lemma closed_body_still_read:
  "sbRead c s 10 (sbClose ((newStreamBody 100)\<lparr>sb_buf := ''left''\<rparr>)) st
   = ((\<lparr>sb_limit = 100, sb_total = 0, sb_buf = [], sb_done = True\<rparr>, st), Some (''left'', None))"
  by (simp add: sbRead_def sbClose_def newStreamBody_def Let_def)

lemma empty_read_reports_end:
  "deliverData 0 ''body'' True (newStreamBody 100)
   = (\<lparr>sb_limit = 100, sb_total = 4, sb_buf = ''body'', sb_done = True\<rparr>, [], Some ReadEOF)"
  by (simp add: deliverData_def newStreamBody_def int64_small [unfolded maxInt64_def] Let_def)

end
