(* ===== verification/GrpcFraming.thy ===== *)
theory GrpcFraming
  imports GoLib
begin

text \<open>
  The wire format of package grpcserver: length-prefixed messages (grpcserver/framing.go and the
  two receivers of grpcserver/service.go), the percent-encoding of status messages
  (grpcserver/percent.go), status codes, trailers and the decimal and timeout fields
  (grpcserver/status.go, grpcserver/service.go).

  An \<open>io.Reader\<close> is the octets it still has to deliver and the error it ends with. A slice the
  sources compare with nil is an option. Errors are values of \<open>gerr\<close>; the errors a method
  implementation may return are \<open>GStatus\<close> (an \<open>RPCStatus\<close>, possibly wrapped), the context errors,
  and \<open>GOther\<close> with its text.
\<close>

section \<open>Status codes and errors\<close>

type_synonym Code = uint32

definition OK :: Code where "OK = 0"
definition Canceled :: Code where "Canceled = 1"
definition Unknown :: Code where "Unknown = 2"
definition InvalidArgument :: Code where "InvalidArgument = 3"
definition DeadlineExceeded :: Code where "DeadlineExceeded = 4"
definition NotFound :: Code where "NotFound = 5"
definition ResourceExhausted :: Code where "ResourceExhausted = 8"
definition Unimplemented :: Code where "Unimplemented = 12"
definition Internal :: Code where "Internal = 13"

record RPCStatus =
  st_Code :: Code
  st_Message :: string

definition StatusOK :: RPCStatus where
  "StatusOK = \<lparr>st_Code = OK, st_Message = ''''\<rparr>"

datatype gerr =
    GStatus RPCStatus | GEOF | GUnexpectedEOF | GMessageTooLarge | GInvalidHeader
  | GDeadlineExceeded | GCanceled | GOther string

text \<open>\<open>err.Error()\<close> for the errors that reach the default branch of \<open>errToStatus\<close>.\<close>

fun errText :: "gerr \<Rightarrow> string" where
  "errText GEOF = ''EOF''"
| "errText GUnexpectedEOF = ''unexpected EOF''"
| "errText GInvalidHeader = ''grpcserver: invalid message header''"
| "errText GMessageTooLarge = ''grpcserver: message too large''"
| "errText GDeadlineExceeded = ''context deadline exceeded''"
| "errText GCanceled = ''context canceled''"
| "errText (GStatus st) = st_Message st"
| "errText (GOther m) = m"

fun errToStatus :: "gerr \<Rightarrow> RPCStatus" where
  "errToStatus (GStatus st) = st"
| "errToStatus GDeadlineExceeded = \<lparr>st_Code = DeadlineExceeded, st_Message = ''deadline exceeded''\<rparr>"
| "errToStatus GCanceled = \<lparr>st_Code = Canceled, st_Message = ''context canceled''\<rparr>"
| "errToStatus GMessageTooLarge = \<lparr>st_Code = ResourceExhausted, st_Message = ''received message larger than max''\<rparr>"
| "errToStatus e = \<lparr>st_Code = Internal, st_Message = errText e\<rparr>"

section \<open>Length-prefixed messages\<close>

definition grpcMessageHeader :: nat where "grpcMessageHeader = 5"
definition maxRecvMessageSize :: nat where "maxRecvMessageSize = 4 * 1024 * 1024"
definition FlagNone :: char where "FlagNone = CHR 0x00"
definition FlagCompressed :: char where "FlagCompressed = CHR 0x01"

record LPMessage =
  Flag :: char
  Payload :: "bytes option"

definition EncodeLP :: "bytes \<Rightarrow> LPMessage \<Rightarrow> bytes" where
  "EncodeLP dst msg =
     (let n = length (bval (Payload msg));
          buf = [Flag msg, byte (n div 2 ^ 24), byte (n div 2 ^ 16), byte (n div 2 ^ 8), byte n]
      in dst @ (buf @ bval (Payload msg)))"

text \<open>binary.BigEndian.Uint32 of four octets.\<close>

definition bigEndian :: "bytes \<Rightarrow> nat" where
  "bigEndian b = foldl (\<lambda>n c. n * 256 + ord c) 0 b"

record reader =
  rd_bytes :: bytes
  rd_err :: gerr

text \<open>
  io.ReadFull of \<open>n\<close> octets: all of them, or the reader's error, which becomes an unexpected EOF
  when some octets had been read before the end of file.
\<close>

definition ReadFull :: "nat \<Rightarrow> reader \<Rightarrow> reader \<times> (gerr + bytes)" where
  "ReadFull n r =
     (if n \<le> length (rd_bytes r)
      then (r\<lparr>rd_bytes := drop n (rd_bytes r)\<rparr>, Inr (take n (rd_bytes r)))
      else (r\<lparr>rd_bytes := []\<rparr>,
            Inl (if rd_err r = GEOF \<and> rd_bytes r \<noteq> [] then GUnexpectedEOF else rd_err r)))"

definition DecodeLPWithLimit :: "nat \<Rightarrow> reader \<Rightarrow> reader \<times> (gerr + LPMessage)" where
  "DecodeLPWithLimit maxSize r =
     (case ReadFull grpcMessageHeader r of
        (r, Inl e) \<Rightarrow> (r, Inl e)
      | (r, Inr hdr) \<Rightarrow>
          let flag = hdr ! 0; len = bigEndian (take 4 (drop 1 hdr)) in
          if len > maxSize then (r, Inl GMessageTooLarge)
          else if len = 0 then (r, Inr \<lparr>Flag = flag, Payload = None\<rparr>)
          else case ReadFull len r of
                 (r, Inl e) \<Rightarrow> (r, Inl e)
               | (r, Inr payload) \<Rightarrow> (r, Inr \<lparr>Flag = flag, Payload = Some payload\<rparr>))"

definition DecodeLP :: "reader \<Rightarrow> reader \<times> (gerr + LPMessage)" where
  "DecodeLP r = DecodeLPWithLimit maxRecvMessageSize r"

definition DecodeLPFromBytes :: "bytes \<Rightarrow> gerr + (LPMessage \<times> nat)" where
  "DecodeLPFromBytes data =
     (if length data < grpcMessageHeader then Inl GInvalidHeader
      else let flag = data ! 0; len = bigEndian (take 4 (drop 1 data)) in
        if len > maxRecvMessageSize then Inl GMessageTooLarge
        else if length data < grpcMessageHeader + len then Inl GInvalidHeader
        else Inr (\<lparr>Flag = flag,
                   Payload = (if len > 0 then Some (take len (drop grpcMessageHeader data)) else None)\<rparr>,
                  grpcMessageHeader + len))"

section \<open>Receiving messages\<close>

text \<open>The refusal of a compressed message by the two receive functions.\<close>

definition compressedStatus :: RPCStatus where
  "compressedStatus = \<lparr>st_Code = Unimplemented, st_Message = ''message compression not supported''\<rparr>"

definition readStreamingLP :: "reader \<Rightarrow> reader \<times> (gerr + bytes option)" where
  "readStreamingLP r =
     (case ReadFull grpcMessageHeader r of
        (r, Inl e) \<Rightarrow> (r, Inl e)
      | (r, Inr hdr) \<Rightarrow>
          if hdr ! 0 = FlagCompressed then (r, Inl (GStatus compressedStatus))
          else let len = bigEndian (take 4 (drop 1 hdr)) in
            if len > maxRecvMessageSize then (r, Inl GMessageTooLarge)
            else if len = 0 then (r, Inr None)
            else case ReadFull len r of
                   (r, Inl e) \<Rightarrow> (r, Inl e)
                 | (r, Inr payload) \<Rightarrow> (r, Inr (Some payload)))"

text \<open>
  \<open>streamReceiver\<close>: where the receive function it builds takes its messages from, and one call of
  that function.
\<close>

datatype receiver = RecvBuffered bytes | RecvStreaming reader | RecvNothing

definition streamReceiver :: "bytes option \<Rightarrow> reader option \<Rightarrow> receiver" where
  "streamReceiver body bodyReader =
     (if length (bval body) > 0 then RecvBuffered (bval body)
      else case bodyReader of Some r \<Rightarrow> RecvStreaming r | None \<Rightarrow> RecvNothing)"

fun recvMsg :: "receiver \<Rightarrow> receiver \<times> (gerr + bytes option)" where
  "recvMsg (RecvBuffered remaining) =
     (if length remaining = 0 then (RecvBuffered remaining, Inl GEOF)
      else case DecodeLPFromBytes remaining of
             Inl e \<Rightarrow> (RecvBuffered remaining, Inl e)
           | Inr (msg, n) \<Rightarrow>
               if Flag msg = FlagCompressed then (RecvBuffered remaining, Inl (GStatus compressedStatus))
               else (RecvBuffered (drop n remaining), Inr (Payload msg)))"
| "recvMsg (RecvStreaming r) = (case readStreamingLP r of (r, res) \<Rightarrow> (RecvStreaming r, res))"
| "recvMsg RecvNothing = (RecvNothing, Inl GEOF)"

text \<open>What \<open>n\<close> calls return, until one fails.\<close>

fun recvAll :: "nat \<Rightarrow> receiver \<Rightarrow> bytes option list \<times> gerr option" where
  "recvAll 0 rc = ([], None)"
| "recvAll (Suc n) rc =
     (case recvMsg rc of
        (rc, Inl e) \<Rightarrow> ([], Some e)
      | (rc, Inr m) \<Rightarrow> (case recvAll n rc of (ms, e) \<Rightarrow> (m # ms, e)))"

section \<open>Percent-encoding of the status message\<close>

definition upperHex :: string where "upperHex = ''0123456789ABCDEF''"

definition mustEncode :: "char \<Rightarrow> bool" where
  "mustEncode c \<longleftrightarrow> ord c < 0x20 \<or> c = CHR ''%'' \<or> ord c > 0x7E"

fun encode_loop :: "string \<Rightarrow> bytes" where
  "encode_loop [] = []"
| "encode_loop (c # s) =
     (if mustEncode c then [CHR ''%'', upperHex ! (ord c div 16), upperHex ! (ord c mod 16)] @ encode_loop s
      else c # encode_loop s)"

definition percentEncodeMessage :: "string \<Rightarrow> bytes option" where
  "percentEncodeMessage s =
     (if s = '''' then None
      else let extra = sum_list (map (\<lambda>c. if mustEncode c then 2 else 0) s) in
        if extra = (0 :: nat) then Some s else Some (encode_loop s))"

section \<open>Decimal fields\<close>

definition digits :: string where "digits = ''0123456789''"

text \<open>The table the package's \<open>init\<close> fills.\<close>

definition twoDigitStrings :: "string list" where
  "twoDigitStrings =
     map (\<lambda>i. if i < 10 then take 1 (drop i digits)
              else [byte (ord CHR ''0'' + i div 10), byte (ord CHR ''0'' + i mod 10)]) [0..<100]"

function digits_loop :: "nat \<Rightarrow> bytes \<Rightarrow> bytes" where
  "digits_loop v buf = (if v > 0 then digits_loop (v div 10) (buf @ [byte (ord CHR ''0'' + v mod 10)]) else buf)"
  by pat_completeness auto
termination by (relation "measure fst") auto

declare digits_loop.simps [simp del]

definition uint32ToString :: "uint32 \<Rightarrow> string" where
  "uint32ToString w =
     (let v = unat w in
      if v < 10 then take 1 (drop v digits)
      else if v < length twoDigitStrings then twoDigitStrings ! v
      else rev (digits_loop v []))"

definition codeToString :: "Code \<Rightarrow> string" where
  "codeToString c = uint32ToString c"

section \<open>Trailers\<close>

definition HeaderGRPCStatus :: string where "HeaderGRPCStatus = ''grpc-status''"
definition HeaderGRPCMessage :: string where "HeaderGRPCMessage = ''grpc-message''"
definition HeaderGRPCTimeout :: string where "HeaderGRPCTimeout = ''grpc-timeout''"
definition HeaderContentType :: string where "HeaderContentType = ''content-type''"
definition ContentTypeGRPC :: string where "ContentTypeGRPC = ''application/grpc''"

definition field :: "bytes \<Rightarrow> bytes \<Rightarrow> HeaderField" where
  "field n v = \<lparr>Name = n, Value = Some v, Indexing = 0\<rparr>"

definition StatusToTrailers :: "RPCStatus \<Rightarrow> (string \<times> string) list" where
  "StatusToTrailers s = [(HeaderGRPCStatus, FormatInt (uint (st_Code s))), (HeaderGRPCMessage, st_Message s)]"

fun trailers_loop :: "RPCStatus \<Rightarrow> (string \<times> string) list \<Rightarrow> RPCStatus" where
  "trailers_loop st [] = st"
| "trailers_loop st ((k, v) # kvs) =
     (if k = HeaderGRPCStatus then
        case ParseInt 32 v of
          None \<Rightarrow> \<lparr>st_Code = Internal, st_Message = ''invalid grpc-status: '' @ v\<rparr>
        | Some code \<Rightarrow> trailers_loop (st\<lparr>st_Code := of_int code\<rparr>) kvs
      else if k = HeaderGRPCMessage then trailers_loop (st\<lparr>st_Message := v\<rparr>) kvs
      else trailers_loop st kvs)"

definition TrailersToStatus :: "(string \<times> string) list \<Rightarrow> RPCStatus" where
  "TrailersToStatus trailers = trailers_loop \<lparr>st_Code = Internal, st_Message = ''missing grpc-status''\<rparr> trailers"

definition statusToHPack :: "RPCStatus \<Rightarrow> HeaderField list" where
  "statusToHPack st =
     (let msg = percentEncodeMessage (st_Message st) in
      if length (bval msg) = 0 then [field HeaderGRPCStatus (uint32ToString (st_Code st))]
      else [field HeaderGRPCStatus (uint32ToString (st_Code st)), \<lparr>Name = HeaderGRPCMessage, Value = msg, Indexing = 0\<rparr>])"

section \<open>Request fields\<close>

fun isGRPCContentType :: "HeaderField list \<Rightarrow> bool" where
  "isGRPCContentType [] = False"
| "isGRPCContentType (h # hs) =
     (if Name h = HeaderContentType
      then bval (Value h) = ContentTypeGRPC \<or> bval (Value h) = ContentTypeGRPC @ ''+proto''
      else isGRPCContentType hs)"

text \<open>Durations are nanoseconds.\<close>

definition timeoutUnit :: "char \<Rightarrow> int option" where
  "timeoutUnit c =
     (if c = CHR ''H'' then Some (3600 * 1000000000)
      else if c = CHR ''M'' then Some (60 * 1000000000)
      else if c = CHR ''S'' then Some 1000000000
      else if c = CHR ''m'' then Some 1000000
      else if c = CHR ''u'' then Some 1000
      else if c = CHR ''n'' then Some 1
      else None)"

fun parseGRPCTimeout :: "HeaderField list \<Rightarrow> int option" where
  "parseGRPCTimeout [] = None"
| "parseGRPCTimeout (h # hs) =
     (if Name h \<noteq> HeaderGRPCTimeout then parseGRPCTimeout hs
      else let v = bval (Value h) in
        if length v < 2 then None
        else case ParseInt 64 (butlast v) of
               None \<Rightarrow> None
             | Some n \<Rightarrow>
                 if n \<le> 0 then None
                 else case timeoutUnit (last v) of
                        None \<Rightarrow> None
                      | Some unit \<Rightarrow>
                          if n > maxInt64 div unit then Some maxInt64
                          else Some (int64 (n * unit)))"

section \<open>The two receivers\<close>

lemma bigEndian_bytes:
  assumes "n < 2 ^ 32"
  shows "bigEndian [byte (n div 2 ^ 24), byte (n div 2 ^ 16), byte (n div 2 ^ 8), byte n] = n"
proof -
  have "n div 2 ^ 24 mod 256 = n div 2 ^ 24" using assms by simp
  moreover have "n div 2 ^ 16 = n div 2 ^ 24 * 256 + n div 2 ^ 16 mod 256"
    using div_mult_mod_eq [of "n div 2 ^ 16" 256] by (simp add: div_mult2_eq [symmetric])
  moreover have "n div 2 ^ 8 = n div 2 ^ 16 * 256 + n div 2 ^ 8 mod 256"
    using div_mult_mod_eq [of "n div 2 ^ 8" 256] by (simp add: div_mult2_eq [symmetric])
  moreover have "n = n div 2 ^ 8 * 256 + n mod 256" by simp
  ultimately show ?thesis by (simp add: bigEndian_def)
qed

text \<open>One message at the head of a byte string, in both readings.\<close>

definition lpHead :: "bytes \<Rightarrow> nat" where
  "lpHead d = bigEndian (take 4 (drop 1 d))"

lemma lpHead_take: "bigEndian (drop (Suc 0) (take 5 d)) = lpHead d"
  by (simp add: lpHead_def drop_take)

lemma recv_buffered:
  "recvMsg (RecvBuffered d) =
     (if d = [] then (RecvBuffered d, Inl GEOF)
      else if length d < 5 then (RecvBuffered d, Inl GInvalidHeader)
      else if lpHead d > maxRecvMessageSize then (RecvBuffered d, Inl GMessageTooLarge)
      else if length d < 5 + lpHead d then (RecvBuffered d, Inl GInvalidHeader)
      else if d ! 0 = FlagCompressed then (RecvBuffered d, Inl (GStatus compressedStatus))
      else (RecvBuffered (drop (5 + lpHead d) d),
            Inr (if lpHead d > 0 then Some (take (lpHead d) (drop 5 d)) else None)))"
  by (auto simp: DecodeLPFromBytes_def grpcMessageHeader_def lpHead_def Let_def)

lemma recv_streaming:
  "recvMsg (RecvStreaming \<lparr>rd_bytes = d, rd_err = e\<rparr>) =
     (if length d < 5 then (RecvStreaming \<lparr>rd_bytes = [], rd_err = e\<rparr>, Inl (if e = GEOF \<and> d \<noteq> [] then GUnexpectedEOF else e))
      else if d ! 0 = FlagCompressed then (RecvStreaming \<lparr>rd_bytes = drop 5 d, rd_err = e\<rparr>, Inl (GStatus compressedStatus))
      else if lpHead d > maxRecvMessageSize then (RecvStreaming \<lparr>rd_bytes = drop 5 d, rd_err = e\<rparr>, Inl GMessageTooLarge)
      else if length d < 5 + lpHead d
        then (RecvStreaming \<lparr>rd_bytes = [], rd_err = e\<rparr>, Inl (if e = GEOF \<and> drop 5 d \<noteq> [] then GUnexpectedEOF else e))
      else (RecvStreaming \<lparr>rd_bytes = drop (5 + lpHead d) d, rd_err = e\<rparr>,
            Inr (if lpHead d > 0 then Some (take (lpHead d) (drop 5 d)) else None)))"
proof (cases "length d < 5")
  case True
  then show ?thesis by (simp add: readStreamingLP_def ReadFull_def grpcMessageHeader_def)
next
  case False
  then have "ReadFull grpcMessageHeader \<lparr>rd_bytes = d, rd_err = e\<rparr> = (\<lparr>rd_bytes = drop 5 d, rd_err = e\<rparr>, Inr (take 5 d))"
    by (simp add: ReadFull_def grpcMessageHeader_def)
  moreover have "ReadFull (lpHead d) \<lparr>rd_bytes = drop 5 d, rd_err = e\<rparr> =
      (if length d < 5 + lpHead d then (\<lparr>rd_bytes = [], rd_err = e\<rparr>, Inl (if e = GEOF \<and> drop 5 d \<noteq> [] then GUnexpectedEOF else e))
       else (\<lparr>rd_bytes = drop (5 + lpHead d) d, rd_err = e\<rparr>, Inr (take (lpHead d) (drop 5 d))))"
    using False by (simp add: ReadFull_def add.commute le_diff_conv2 not_less)
  ultimately show ?thesis using False by (simp add: readStreamingLP_def lpHead_take Let_def)
qed

text \<open>
  Two receivers hand out the same messages before they fail, and fail at the same call.
\<close>

definition sameMessages :: "nat \<Rightarrow> receiver \<Rightarrow> receiver \<Rightarrow> bool" where
  "sameMessages n a b \<longleftrightarrow>
     fst (recvAll n a) = fst (recvAll n b) \<and> (snd (recvAll n a) = None \<longleftrightarrow> snd (recvAll n b) = None)"

lemma recv_same:
  "(\<exists>m d'. recvMsg (RecvBuffered d) = (RecvBuffered d', Inr m)
        \<and> recvMsg (RecvStreaming \<lparr>rd_bytes = d, rd_err = GEOF\<rparr>) = (RecvStreaming \<lparr>rd_bytes = d', rd_err = GEOF\<rparr>, Inr m))
   \<or> (\<exists>a b e e'. recvMsg (RecvBuffered d) = (a, Inl e) \<and> recvMsg (RecvStreaming \<lparr>rd_bytes = d, rd_err = GEOF\<rparr>) = (b, Inl e'))"
  unfolding recv_buffered recv_streaming by simp

lemma recvAll_same: "sameMessages n (RecvBuffered d) (RecvStreaming \<lparr>rd_bytes = d, rd_err = GEOF\<rparr>)"
proof (induction n arbitrary: d)
  case (Suc n)
  show ?case using recv_same [of d] Suc.IH
    by (auto simp: sameMessages_def simp del: recvMsg.simps split: prod.splits) (metis fst_conv snd_conv)+
qed (simp add: sameMessages_def)

text \<open>The octets of a sequence of uncompressed messages, and the payload a receiver reports for each.\<close>

definition wireMessages :: "bytes list \<Rightarrow> bytes" where
  "wireMessages ms = foldl (\<lambda>dst m. EncodeLP dst \<lparr>Flag = FlagNone, Payload = Some m\<rparr>) [] ms"

definition received :: "bytes \<Rightarrow> bytes option" where
  "received m = (if m = [] then None else Some m)"

lemma EncodeLP_append: "EncodeLP dst m = dst @ EncodeLP [] m"
  by (simp add: EncodeLP_def Let_def)

lemma foldl_EncodeLP: "foldl (\<lambda>dst m. EncodeLP dst (f m)) dst ms = dst @ foldl (\<lambda>dst m. EncodeLP dst (f m)) [] ms"
proof (induction ms arbitrary: dst)
  case (Cons m ms)
  show ?case using Cons [of "EncodeLP dst (f m)"] Cons [of "EncodeLP [] (f m)"] EncodeLP_append [of dst "f m"] by simp
qed simp

lemma wireMessages_simps [simp]:
  "wireMessages [] = []"
  "wireMessages (m # ms) = EncodeLP [] \<lparr>Flag = FlagNone, Payload = Some m\<rparr> @ wireMessages ms"
  by (simp_all add: wireMessages_def foldl_EncodeLP [of _ "EncodeLP [] _"])

lemma recv_encoded:
  assumes "length m \<le> maxRecvMessageSize"
  shows "recvMsg (RecvBuffered (EncodeLP [] \<lparr>Flag = FlagNone, Payload = Some m\<rparr> @ rest)) = (RecvBuffered rest, Inr (received m))"
proof -
  let ?d = "EncodeLP [] \<lparr>Flag = FlagNone, Payload = Some m\<rparr> @ rest"
  have "lpHead ?d = length m"
    using bigEndian_bytes [of "length m"] assms by (simp add: lpHead_def EncodeLP_def Let_def maxRecvMessageSize_def)
  moreover have "length ?d = 5 + length m + length rest" "?d ! 0 = FlagNone" "drop 5 ?d = m @ rest" "?d \<noteq> []"
    by (simp_all add: EncodeLP_def Let_def)
  moreover have "drop (5 + length m) ?d = drop (length m) (drop 5 ?d)" by (simp only: drop_drop add.commute)
  ultimately show ?thesis using assms unfolding recv_buffered
    by (simp add: received_def FlagNone_def FlagCompressed_def)
qed

lemma recvAll_encoded:
  "list_all (\<lambda>m. length m \<le> maxRecvMessageSize) ms \<Longrightarrow>
   recvAll (Suc (length ms)) (RecvBuffered (wireMessages ms)) = (map received ms, Some GEOF)"
  by (induction ms) (simp_all add: recv_encoded del: recvMsg.simps(1), simp)

lemma recv_encoded_streaming:
  assumes "length m \<le> maxRecvMessageSize"
  shows "recvMsg (RecvStreaming \<lparr>rd_bytes = EncodeLP [] \<lparr>Flag = FlagNone, Payload = Some m\<rparr> @ rest, rd_err = GEOF\<rparr>)
    = (RecvStreaming \<lparr>rd_bytes = rest, rd_err = GEOF\<rparr>, Inr (received m))"
  using recv_same [of "EncodeLP [] \<lparr>Flag = FlagNone, Payload = Some m\<rparr> @ rest"] recv_encoded [OF assms, of rest]
  by (simp del: recvMsg.simps)

lemma recvAll_encoded_streaming:
  "list_all (\<lambda>m. length m \<le> maxRecvMessageSize) ms \<Longrightarrow>
   recvAll (Suc (length ms)) (RecvStreaming \<lparr>rd_bytes = wireMessages ms, rd_err = GEOF\<rparr>) = (map received ms, Some GEOF)"
  by (induction ms)
     (simp_all add: recv_encoded_streaming del: recvMsg.simps(2), simp add: readStreamingLP_def ReadFull_def grpcMessageHeader_def)

text \<open>
  C37. Messages survive the wire: whatever sequence of messages within the receive limit is encoded
  back to back, both receive functions, over the collected body and over the body stream, return
  exactly these messages in this order and then the end of the stream. On every other byte string
  the two functions return the same messages before failing at the same call.
\<close>

theorem lp_messages_roundtrip:
  "(list_all (\<lambda>m. length m \<le> maxRecvMessageSize) ms \<longrightarrow>
      recvAll (Suc (length ms)) (RecvBuffered (wireMessages ms)) = (map received ms, Some GEOF)
      \<and> recvAll (Suc (length ms)) (RecvStreaming \<lparr>rd_bytes = wireMessages ms, rd_err = GEOF\<rparr>) = (map received ms, Some GEOF))
   \<and> sameMessages n (RecvBuffered d) (RecvStreaming \<lparr>rd_bytes = d, rd_err = GEOF\<rparr>)"
  using recvAll_encoded [of ms] recvAll_encoded_streaming [of ms] recvAll_same [of n d] by blast

theorem lp_messages_roundtrip_witness:
  "recvAll (Suc (length [''hi'', '''', ''x'']))
       (RecvStreaming \<lparr>rd_bytes = wireMessages [''hi'', '''', ''x''], rd_err = GEOF\<rparr>)
     = (map received [''hi'', '''', ''x''], Some GEOF)
   \<and> sameMessages 2 (RecvBuffered [CHR 0x00, CHR 0x00]) (RecvStreaming \<lparr>rd_bytes = [CHR 0x00, CHR 0x00], rd_err = GEOF\<rparr>)"
proof -
  have "list_all (\<lambda>m. length m \<le> maxRecvMessageSize) [''hi'', '''', ''x'']" by (simp add: maxRecvMessageSize_def)
  then show ?thesis using lp_messages_roundtrip [of "[''hi'', '''', ''x'']" 2 "[CHR 0x00, CHR 0x00]"] by blast
qed

text \<open>
  The stream receiver reports the end of the stream, not a truncated message, when the peer
  stops right after a header that announces a payload: \<open>io.ReadFull\<close> answers EOF when it reads
  nothing. The receiver over the collected body refuses the same octets.
\<close>

lemma truncated_payload_is_eof:
  "recvMsg (RecvStreaming \<lparr>rd_bytes = [CHR 0x00, CHR 0x00, CHR 0x00, CHR 0x00, CHR 0x07], rd_err = GEOF\<rparr>)
     = (RecvStreaming \<lparr>rd_bytes = [], rd_err = GEOF\<rparr>, Inl GEOF)
   \<and> snd (recvMsg (RecvBuffered [CHR 0x00, CHR 0x00, CHR 0x00, CHR 0x00, CHR 0x07])) = Inl GInvalidHeader"
  by (simp add: recv_streaming recv_buffered lpHead_def bigEndian_def maxRecvMessageSize_def FlagCompressed_def del: recvMsg.simps)

section \<open>Percent-encoding\<close>

text \<open>A decoder for the grammar of the gRPC protocol: a percent sign and two digits stand for an octet.\<close>

definition hexVal :: "char \<Rightarrow> nat" where
  "hexVal c = (if isDigit c then ord c - 48 else ord c - 55)"

fun percentDecode :: "bytes \<Rightarrow> string" where
  "percentDecode (c # a # b # s) =
     (if c = CHR ''%'' then byte (hexVal a * 16 + hexVal b) # percentDecode s else c # percentDecode (a # b # s))"
| "percentDecode (c # s) = c # percentDecode s"
| "percentDecode [] = []"

lemma percentDecode_plain: "c \<noteq> CHR ''%'' \<Longrightarrow> percentDecode (c # s) = c # percentDecode s"
  by (cases s rule: percentDecode.cases) auto

lemma upperHex_digit:
  assumes "i < 16"
  shows "hexVal (upperHex ! i) = i \<and> 0x20 \<le> ord (upperHex ! i) \<and> ord (upperHex ! i) \<le> 0x7E"
proof -
  have "\<forall>i \<in> set [0..<16]. hexVal (upperHex ! i) = i \<and> 0x20 \<le> ord (upperHex ! i) \<and> ord (upperHex ! i) \<le> 0x7E"
    by code_simp
  with assms show ?thesis by simp
qed

lemma percentDecode_encode: "percentDecode (encode_loop s) = s"
proof (induction s)
  case (Cons c s)
  have "hexVal (upperHex ! (ord c div 16)) * 16 + hexVal (upperHex ! (ord c mod 16)) = ord c"
    using upperHex_digit [of "ord c div 16"] upperHex_digit [of "ord c mod 16"] by (simp add: less_mult_imp_div_less)
  with Cons show ?case by (auto simp: mustEncode_def percentDecode_plain)
qed simp

lemma encode_loop_plain: "list_all (\<lambda>c. 0x20 \<le> ord c \<and> ord c \<le> 0x7E) (encode_loop s)"
proof (induction s)
  case (Cons c s)
  show ?case using Cons upperHex_digit [of "ord c div 16"] upperHex_digit [of "ord c mod 16"]
    by (auto simp: mustEncode_def less_mult_imp_div_less)
qed simp

lemma encode_loop_id: "sum_list (map (\<lambda>c. if mustEncode c then 2 else 0) s) = (0 :: nat) \<Longrightarrow> encode_loop s = s"
  by (induction s) (auto split: if_splits)

lemma percentEncodeMessage_eq: "percentEncodeMessage s = (if s = [] then None else Some (encode_loop s))"
  using encode_loop_id [of s] by (auto simp: percentEncodeMessage_def Let_def)

text \<open>
  C38. A status message cannot inject anything into the trailers: whatever the message, text of a
  peer included, the \<open>grpc-message\<close> value consists of printable ASCII only (so no CR, LF or NUL),
  a reader of the grammar recovers the message octet for octet, and the field is left out exactly
  when the message is empty.
\<close>

theorem percent_encoding_lossless:
  "list_all (\<lambda>c. 0x20 \<le> ord c \<and> ord c \<le> 0x7E) (bval (percentEncodeMessage s))
   \<and> percentDecode (bval (percentEncodeMessage s)) = s
   \<and> length (statusToHPack \<lparr>st_Code = code, st_Message = s\<rparr>) = (if s = [] then 1 else 2)"
proof -
  have "encode_loop s = [] \<longleftrightarrow> s = []" by (cases s) auto
  then show ?thesis
    using percentDecode_encode [of s] encode_loop_plain [of s] by (simp add: percentEncodeMessage_eq statusToHPack_def Let_def)
qed

text \<open>
  The grammar admits a space anywhere, RFC 9113 section 8.2.1 does not admit it at either end of a
  field value: a message that ends in one yields a trailer this library's own receiver refuses.
\<close>

lemma message_edge_space_prohibited:
  "Prohibited HeaderGRPCMessage (bval (percentEncodeMessage ''no such user '')) True"
  by code_simp

section \<open>Decimal numbers\<close>

lemma digit_string:
  assumes "v < 10"
  shows "take 1 (drop v digits) = FormatNat v"
proof -
  have "\<forall>v \<in> set [0..<10]. take 1 (drop v digits) = [byte (48 + v)]" by code_simp
  moreover from assms have "v \<in> set [0..<10]" by (simp only: set_upt) simp
  ultimately have "take 1 (drop v digits) = [byte (48 + v)]" by (rule bspec)
  then show ?thesis using assms by (simp add: FormatNat.simps)
qed

lemma twoDigit_length [simp]: "length twoDigitStrings = 100"
  by (simp add: twoDigitStrings_def del: upt_rec_numeral)

lemma twoDigit_string: "10 \<le> v \<Longrightarrow> v < 100 \<Longrightarrow> twoDigitStrings ! v = FormatNat v"
  by (simp add: twoDigitStrings_def FormatNat.simps [of v] FormatNat.simps [of "v div 10"] del: upt_rec_numeral)

lemma digits_loop_FormatNat: "digits_loop v buf = buf @ (if v = 0 then [] else rev (FormatNat v))"
proof (induction v buf rule: digits_loop.induct)
  case (1 v buf)
  show ?case using 1 by (cases "v < 10") (auto simp: digits_loop.simps [of v] digits_loop.simps [of 0] FormatNat.simps [of v])
qed

text \<open>
  The table-driven conversion of codes to decimal is the ordinary one, and a status survives
  its trailers: for every 32-bit value \<open>uint32ToString\<close> gives what \<open>strconv.FormatInt\<close> gives, and
  decoding the trailer pairs of a status gives the status back, for every message and every code
  below 2^31, which all codes of the gRPC registry are.
\<close>

lemma status_trailers_roundtrip:
  "uint32ToString w = FormatInt (uint w)
   \<and> (unat (st_Code st) < 2 ^ 31 \<longrightarrow> TrailersToStatus (StatusToTrailers st) = st)"
proof
  show "uint32ToString w = FormatInt (uint w)"
    using digit_string [of "unat w"] twoDigit_string [of "unat w"] digits_loop_FormatNat [of "unat w" "[]"]
    by (simp add: uint32ToString_def FormatInt_def Let_def)
  show "unat (st_Code st) < 2 ^ 31 \<longrightarrow> TrailersToStatus (StatusToTrailers st) = st"
  proof
    assume "unat (st_Code st) < 2 ^ 31"
    then have "int (unat (st_Code st)) < int (2 ^ 31)" unfolding of_nat_less_iff .
    then have "ParseInt 32 (FormatInt (uint (st_Code st))) = Some (uint (st_Code st))"
      using ParseInt_FormatNat [of "unat (st_Code st)" 32] by (simp add: FormatInt_def)
    then show "TrailersToStatus (StatusToTrailers st) = st"
      by (simp add: TrailersToStatus_def StatusToTrailers_def HeaderGRPCStatus_def HeaderGRPCMessage_def)
  qed
qed

theorem status_trailers_roundtrip_witness:
  "TrailersToStatus (StatusToTrailers \<lparr>st_Code = Unimplemented, st_Message = ''unknown method''\<rparr>)
     = \<lparr>st_Code = Unimplemented, st_Message = ''unknown method''\<rparr>"
  using status_trailers_roundtrip [of 0 "\<lparr>st_Code = Unimplemented, st_Message = ''unknown method''\<rparr>"]
  by (simp add: Unimplemented_def)

section \<open>Timeouts\<close>

text \<open>
  The deadline of a \<open>grpc-timeout\<close> field is the product of its number and its unit, cut at the
  longest representable duration: never zero, negative or wrapped.
\<close>

lemma parseGRPCTimeout_bounds:
  assumes "parseGRPCTimeout hs = Some d"
  shows "0 < d \<and> d \<le> maxInt64
    \<and> (\<exists>h \<in> set hs. \<exists>n unit. Name h = HeaderGRPCTimeout \<and> ParseInt 64 (butlast (bval (Value h))) = Some n
          \<and> timeoutUnit (last (bval (Value h))) = Some unit \<and> 0 < n \<and> d = min (n * unit) maxInt64)"
  using assms
proof (induction hs)
  case (Cons h hs)
  show ?case
  proof (cases "Name h = HeaderGRPCTimeout")
    case True
    with Cons.prems obtain n unit where p: "ParseInt 64 (butlast (bval (Value h))) = Some n" "0 < n"
        "timeoutUnit (last (bval (Value h))) = Some unit"
        "d = (if n > maxInt64 div unit then maxInt64 else int64 (n * unit))"
      by (auto simp: Let_def split: if_splits option.splits)
    have u: "0 < unit" using p(3) by (auto simp: timeoutUnit_def split: if_splits)
    have "d = min (n * unit) maxInt64"
    proof (cases "n > maxInt64 div unit")
      case True
      then have "maxInt64 < n * unit" using le_div_int [OF u, of n maxInt64] by simp
      then show ?thesis using True p(4) by simp
    next
      case False
      then have le: "n * unit \<le> maxInt64" using le_div_int [OF u, of n maxInt64] by simp
      moreover have "- (2 ^ 63) \<le> n * unit" by (rule order.trans [OF _ less_imp_le [OF mult_pos_pos [OF p(2) u]]]) simp
      ultimately have "int64 (n * unit) = n * unit" by (intro int64_id)
      then show ?thesis using False le p(4) by simp
    qed
    moreover have "0 < n * unit" using p(2) u by simp
    ultimately show ?thesis using True p by (auto simp: maxInt64_def)
  next
    case False
    then show ?thesis using Cons by auto
  qed
qed simp

end
