(* ===== verification/ProtoWire.thy ===== *)
theory ProtoWire
  imports GrpcFraming
begin

text \<open>
  The hand-written protobuf codec of grpcserver/reflection.go and the messages of
  grpcserver/health.go: varints, tags and length-delimited fields, the field extractors, the
  decoder of reflection requests and the encoders of the responses.

  Offsets are Go \<open>int\<close>s: 64-bit additions wrap (\<open>int64\<close>) and a slice expression out of range is
  \<open>Panics\<close>. A slice may be re-sliced up to its capacity, so the extractor also takes the octets
  between the length and the capacity of its argument. The extractor's loop need not end
  (\<open>None\<close>); the decoder of requests always does.
\<close>

section \<open>Varints\<close>

function appendVarint :: "bytes \<Rightarrow> 64 word \<Rightarrow> bytes" where
  "appendVarint buf v =
     (if v \<ge> 0x80 then appendVarint (buf @ [byte (unat v OR 0x80)]) (drop_bit 7 v) else buf @ [byte (unat v)])"
  by pat_completeness auto
termination
proof (relation "measure (\<lambda>(buf, v). unat v)")
  fix v :: "64 word" assume "0x80 \<le> v"
  then have "128 \<le> unat v" by (simp add: word_le_nat_alt)
  then have "unat v div 128 < unat v" by simp
  then show "((buf', drop_bit 7 v), buf, v) \<in> measure (\<lambda>(buf, v). unat v)" for buf' buf :: bytes
    by (simp add: drop_bit_eq_div unat_div)
qed simp

declare appendVarint.simps [simp del]

fun varint_loop :: "nat \<Rightarrow> 64 word \<Rightarrow> nat \<Rightarrow> bytes \<Rightarrow> 64 word \<times> nat" where
  "varint_loop i result shift [] = (0, 0)"
| "varint_loop i result shift (b # data) =
     (if i \<ge> 10 then (0, 0)
      else let result = result OR push_bit shift (of_nat (ord b AND 0x7F)) in
        if ord b AND 0x80 = 0 then (result, i + 1)
        else varint_loop (i + 1) result (shift + 7) data)"

definition decodeVarint :: "bytes \<Rightarrow> 64 word \<times> nat" where
  "decodeVarint data = varint_loop 0 0 0 data"

section \<open>Fields\<close>

definition appendTag :: "bytes \<Rightarrow> nat \<Rightarrow> nat \<Rightarrow> bytes" where
  "appendTag buf fieldNum wireType = appendVarint buf (push_bit 3 (of_nat fieldNum) OR of_nat wireType)"

definition appendStringField :: "bytes \<Rightarrow> nat \<Rightarrow> string \<Rightarrow> bytes" where
  "appendStringField buf fieldNum s = appendVarint (appendTag buf fieldNum 2) (of_nat (length s)) @ s"

definition appendBytesField :: "bytes \<Rightarrow> nat \<Rightarrow> bytes \<Rightarrow> bytes" where
  "appendBytesField buf fieldNum b = appendVarint (appendTag buf fieldNum 2) (of_nat (length b)) @ b"

definition appendMessageField :: "bytes \<Rightarrow> nat \<Rightarrow> bytes \<Rightarrow> bytes" where
  "appendMessageField buf fieldNum msg = appendVarint (appendTag buf fieldNum 2) (of_nat (length msg)) @ msg"

definition appendVarintField :: "bytes \<Rightarrow> nat \<Rightarrow> 64 word \<Rightarrow> bytes" where
  "appendVarintField buf fieldNum v = appendVarint (appendTag buf fieldNum 0) v"

text \<open>\<open>skipField\<close> on an offset within the data.\<close>

fun skip_loop :: "int \<Rightarrow> bytes \<Rightarrow> int" where
  "skip_loop pos [] = - 1"
| "skip_loop pos (b # bs) = (if ord b AND 0x80 = 0 then pos + 1 else skip_loop (pos + 1) bs)"

definition skipField :: "bytes \<Rightarrow> nat \<Rightarrow> nat \<Rightarrow> int" where
  "skipField data pos wireType =
     (if wireType = 0 then skip_loop (int pos) (drop pos data)
      else if wireType = 2 then
        (case decodeVarint (drop pos data) of (len, n) \<Rightarrow>
           if n = 0 then - 1
           else let pos' = int64 (int pos + int64 (int n + sint len)) in
                if pos' > int (length data) then - 1 else pos')
      else if wireType = 1 then int pos + 8
      else if wireType = 5 then int pos + 4
      else - 1)"

text \<open>The field number and the wire type of a tag.\<close>

definition tagField :: "64 word \<Rightarrow> nat" where "tagField tag = unat (drop_bit 3 tag)"
definition tagType :: "64 word \<Rightarrow> nat" where "tagType tag = unat (tag AND 7)"

partial_function (option) extract_loop :: "bytes \<Rightarrow> bytes \<Rightarrow> nat \<Rightarrow> int \<Rightarrow> string outcome option" where
  "extract_loop data tail fieldNum pos =
     (if pos \<ge> int (length data) then Some (Returns '''')
      else if pos < 0 then Some Panics
      else case decodeVarint (drop (nat pos) data) of (tag, n) \<Rightarrow>
        if n = 0 then Some (Returns '''')
        else let pos = nat pos + n in
          if tagType tag = 2 then
            (case decodeVarint (drop pos data) of (len, n) \<Rightarrow>
               if n = 0 then Some (Returns '''')
               else let pos = pos + n; e = int64 (int pos + sint len) in
                 if tagField tag = fieldNum then
                   if int pos \<le> e \<and> e \<le> int (length (data @ tail))
                   then Some (Returns (take (nat e - pos) (drop pos (data @ tail))))
                   else Some Panics
                 else extract_loop data tail fieldNum e)
          else let pos = skipField data pos (tagType tag) in
            if pos < 0 then Some (Returns '''') else extract_loop data tail fieldNum pos)"

definition extractStringField :: "bytes \<Rightarrow> bytes \<Rightarrow> nat \<Rightarrow> string outcome option" where
  "extractStringField data tail fieldNum = extract_loop data tail fieldNum 0"

section \<open>Health messages\<close>

text \<open>The request payload is freshly allocated at its exact length, so its capacity adds nothing.\<close>

definition decodeHealthCheckRequest :: "bytes \<Rightarrow> string outcome option" where
  "decodeHealthCheckRequest data = extractStringField data [] 1"

definition encodeHealthCheckRequest :: "string \<Rightarrow> bytes" where
  "encodeHealthCheckRequest service = appendStringField [] 1 service"

datatype ServingStatus =
  ServingStatusUnknown | ServingStatusServing | ServingStatusNotServing | ServingStatusServiceUnknown

fun statusNumber :: "ServingStatus \<Rightarrow> nat" where
  "statusNumber ServingStatusUnknown = 0"
| "statusNumber ServingStatusServing = 1"
| "statusNumber ServingStatusNotServing = 2"
| "statusNumber ServingStatusServiceUnknown = 3"

definition encodeHealthCheckResponse :: "ServingStatus \<Rightarrow> bytes" where
  "encodeHealthCheckResponse status = [CHR 0x08, byte (statusNumber status)]"

section \<open>File descriptors\<close>

text \<open>
  A slice and the octets of its backing array beyond it. \<open>extractFileProtos\<close> cuts the files of a
  descriptor set; each file's capacity reaches to the end of the set.
\<close>

type_synonym gslice = "bytes \<times> bytes"

partial_function (option) files_loop :: "bytes \<Rightarrow> bytes \<Rightarrow> int \<Rightarrow> gslice list \<Rightarrow> gslice list outcome option" where
  "files_loop fds tail pos files =
     (if pos \<ge> int (length fds) then Some (Returns files)
      else if pos < 0 then Some Panics
      else case decodeVarint (drop (nat pos) fds) of (tag, n) \<Rightarrow>
        if n = 0 then Some (Returns files)
        else let pos = nat pos + n in
          if tagField tag = 1 \<and> tagType tag = 2 then
            (case decodeVarint (drop pos fds) of (len, n) \<Rightarrow>
               if n = 0 then Some (Returns files)
               else let pos = pos + n; e = int64 (int pos + sint len) in
                 if e > int (length fds) then Some (Returns files)
                 else if e < int pos then Some Panics
                 else files_loop fds tail e
                        (files @ [(take (nat e - pos) (drop pos fds), drop (nat e) fds @ tail)]))
          else let pos = skipField fds pos (tagType tag) in
            if pos < 0 then Some (Returns files) else files_loop fds tail pos files)"

definition extractFileProtos :: "gslice \<Rightarrow> gslice list outcome option" where
  "extractFileProtos fds = files_loop (fst fds) (snd fds) 0 []"

partial_function (option) services_loop ::
  "bytes \<Rightarrow> bytes \<Rightarrow> string \<Rightarrow> int \<Rightarrow> string list \<Rightarrow> string list outcome option" where
  "services_loop fdp tail pkg pos names =
     (if pos \<ge> int (length fdp) then Some (Returns names)
      else if pos < 0 then Some Panics
      else case decodeVarint (drop (nat pos) fdp) of (tag, n) \<Rightarrow>
        if n = 0 then Some (Returns names)
        else let pos = nat pos + n in
          if tagType tag \<noteq> 2 then
            let pos = skipField fdp pos (tagType tag) in
            if pos < 0 then Some (Returns names) else services_loop fdp tail pkg pos names
          else
            (case decodeVarint (drop pos fdp) of (len, n) \<Rightarrow>
               if n = 0 then Some (Returns names)
               else let pos = pos + n; e = int64 (int pos + sint len) in
                 if tagField tag = 6 \<and> e \<le> int (length fdp) then
                   if e < int pos then Some Panics
                   else (case extractStringField (take (nat e - pos) (drop pos fdp)) (drop (nat e) fdp @ tail) 1 of
                           None \<Rightarrow> None
                         | Some Panics \<Rightarrow> Some Panics
                         | Some (Returns svcName) \<Rightarrow>
                             services_loop fdp tail pkg e
                               (if svcName = '''' then names
                                else if pkg \<noteq> '''' then names @ [pkg @ ''.'' @ svcName]
                                else names @ [svcName]))
                 else services_loop fdp tail pkg e names))"

definition extractServiceNames :: "gslice \<Rightarrow> string list outcome option" where
  "extractServiceNames fdp =
     (case extractStringField (fst fdp) (snd fdp) 2 of
        None \<Rightarrow> None
      | Some Panics \<Rightarrow> Some Panics
      | Some (Returns pkg) \<Rightarrow> services_loop (fst fdp) (snd fdp) pkg 0 [])"

section \<open>Reflection requests\<close>

record reflectionRequest =
  host :: string
  listAll :: bool
  listServices :: string
  fileByFilename :: string
  fileContainingSymbol :: string
  allExtensionNumbers :: string

datatype protoError = errInvalidVarint | errTruncated | errUnknownWireType

fun protoErrorText :: "protoError \<Rightarrow> string" where
  "protoErrorText errInvalidVarint = ''invalid varint encoding''"
| "protoErrorText errTruncated = ''truncated message''"
| "protoErrorText errUnknownWireType = ''unknown wire type''"

definition emptyRequest :: reflectionRequest where
  "emptyRequest = \<lparr>host = '''', listAll = False, listServices = '''', fileByFilename = '''',
     fileContainingSymbol = '''', allExtensionNumbers = ''''\<rparr>"

definition setRequestField :: "nat \<Rightarrow> bytes \<Rightarrow> reflectionRequest \<Rightarrow> reflectionRequest" where
  "setRequestField fieldNum val req =
     (if fieldNum = 1 then req\<lparr>host := val\<rparr>
      else if fieldNum = 3 then req\<lparr>fileByFilename := val\<rparr>
      else if fieldNum = 4 then req\<lparr>fileContainingSymbol := val\<rparr>
      else if fieldNum = 7 then req\<lparr>listServices := val, listAll := True\<rparr>
      else req)"

lemma varint_loop_consumes: "varint_loop i r s data = (v, n) \<Longrightarrow> n \<le> i + length data"
  by (induction i r s data rule: varint_loop.induct) (auto simp: Let_def split: if_splits)

lemma decodeVarint_consumes: "decodeVarint data = (v, n) \<Longrightarrow> n \<le> length data"
  using varint_loop_consumes [of 0 0 0 data v n] by (simp add: decodeVarint_def)

function request_loop :: "bytes \<Rightarrow> nat \<Rightarrow> reflectionRequest \<Rightarrow> protoError + reflectionRequest" where
  "request_loop data pos req =
     (if pos \<ge> length data then Inr req
      else case decodeVarint (drop pos data) of (tag, n) \<Rightarrow>
        if n = 0 then Inl errInvalidVarint
        else let pos = pos + n in
          if tagType tag = 2 then
            if pos \<ge> length data then Inl errTruncated
            else (case decodeVarint (drop pos data) of (len, n) \<Rightarrow>
                    if n = 0 then Inl errInvalidVarint
                    else let pos = pos + n; e = int64 (int pos + sint len) in
                      if e > int (length data) \<or> e < int pos then Inl errTruncated
                      else request_loop data (nat e) (setRequestField (tagField tag) (take (nat e - pos) (drop pos data)) req))
          else if tagType tag = 0 then
            (case decodeVarint (drop pos data) of (v, n) \<Rightarrow>
               if n = 0 then Inl errInvalidVarint else request_loop data (pos + n) req)
          else Inl errUnknownWireType)"
  by pat_completeness auto
termination by (relation "measure (\<lambda>(data, pos, req). length data - pos)") auto

declare request_loop.simps [simp del]

definition decodeReflectionRequest :: "bytes \<Rightarrow> protoError + reflectionRequest" where
  "decodeReflectionRequest data = request_loop data 0 emptyRequest"

section \<open>Reflection responses\<close>

definition encodeListServiceResponse :: "string list \<Rightarrow> bytes" where
  "encodeListServiceResponse serviceNames =
     (let services = foldl (\<lambda>services name. appendMessageField services 1 (appendStringField [] 1 name)) [] serviceNames
      in appendMessageField [] 6 services)"

definition encodeFileDescriptorResponse :: "bytes list \<Rightarrow> bytes" where
  "encodeFileDescriptorResponse files =
     (let fdr = foldl (\<lambda>fdr f. appendBytesField fdr 1 f) [] files in appendMessageField [] 4 fdr)"

definition encodeErrorResponse :: "Code \<Rightarrow> string \<Rightarrow> bytes" where
  "encodeErrorResponse code message =
     (let errResp = appendVarintField [] 1 (ucast code);
          errResp = appendStringField errResp 2 message
      in appendMessageField [] 7 errResp)"

definition encodeExtensionNumberResponse :: "string \<Rightarrow> 32 word list \<Rightarrow> bytes" where
  "encodeExtensionNumberResponse typeName numbers =
     (let enr = appendStringField [] 1 typeName;
          enr = foldl (\<lambda>enr n. appendVarintField enr 2 (scast n)) enr numbers
      in appendMessageField [] 5 enr)"

definition encodeReflectionResponse :: "string \<Rightarrow> bytes \<Rightarrow> bytes \<Rightarrow> bytes" where
  "encodeReflectionResponse host' originalRequest messageResponse =
     (let buf = (if host' \<noteq> '''' then appendStringField [] 1 host' else []);
          buf = (if length originalRequest > 0 then appendMessageField buf 2 originalRequest else buf)
      in buf @ messageResponse)"

section \<open>Varints round trip\<close>

lemma unat_of_nat64: "n < 2 ^ 64 \<Longrightarrow> unat (of_nat n :: 64 word) = n"
  by (simp add: unsigned_of_nat take_bit_nat_eq_self)

lemma and_7F: "(x :: nat) AND 0x7F = x mod 128"
  using take_bit_eq_mask [of 7 x] by (simp add: mask_eq_exp_minus_1 take_bit_eq_mod)

lemma and_80:
  assumes "x < 256"
  shows "(x :: nat) AND 0x80 = 0 \<longleftrightarrow> x < 128"
proof -
  have "x AND 2 ^ 7 = 0 \<longleftrightarrow> \<not> bit x 7" by (simp only: and_exp_eq_0_iff_not_bit)
  moreover have "bit x 7 \<longleftrightarrow> 128 \<le> x"
  proof -
    have "x div 128 = 0 \<or> x div 128 = 1" using assms by (simp add: div_less_iff_less_mult flip: less_2_cases_iff)
    moreover have "x div 128 = 0 \<longleftrightarrow> x < 128" by (simp add: div_eq_0_iff)
    ultimately show ?thesis by (auto simp: bit_iff_odd not_less)
  qed
  ultimately show ?thesis by (simp add: not_le)
qed

lemma or_exp: "(x OR 2 ^ k) mod 2 ^ Suc k = x mod 2 ^ k + (2 :: nat) ^ k"
proof -
  have "take_bit (Suc k) (x OR 2 ^ k) = take_bit k x OR 2 ^ k"
    by (rule bit_eqI) (auto simp: bit_take_bit_iff bit_or_iff bit_exp_iff less_Suc_eq)
  moreover have "take_bit k x + 2 ^ k = take_bit k x OR 2 ^ k"
    by (rule disjunctive_add) (auto simp: bit_take_bit_iff bit_exp_iff)
  ultimately show ?thesis by (simp only: take_bit_eq_mod)
qed

lemma or_80: "byte (x OR 0x80) = byte (x mod 128 + 128)"
proof -
  have "ord (byte (x OR 0x80)) = ord (byte (x mod 128 + 128))" using or_exp [of x 7] by simp
  then show ?thesis by (metis byte_ord)
qed

text \<open>The base-128 digits of a number, least significant first.\<close>

function varintBytes :: "nat \<Rightarrow> bytes" where
  "varintBytes n = (if n \<ge> 128 then byte (n mod 128 + 128) # varintBytes (n div 128) else [byte n])"
  by pat_completeness auto
termination by (relation "measure id") auto

declare varintBytes.simps [simp del]

lemma appendVarint_eq: "appendVarint buf v = buf @ varintBytes (unat v)"
proof (induction buf v rule: appendVarint.induct)
  case (1 buf v)
  have "0x80 \<le> v \<longleftrightarrow> 128 \<le> unat v" by (simp add: word_le_nat_alt)
  moreover have "unat (drop_bit 7 v) = unat v div 128" by (simp add: drop_bit_eq_div unat_div)
  ultimately show ?case using 1
    by (cases "0x80 \<le> v") (simp_all add: appendVarint.simps [of buf] varintBytes.simps [of "unat v"] or_80)
qed

lemma or_push_bit:
  assumes "unat (r :: 64 word) < 2 ^ s"
  shows "r OR push_bit s (of_nat n) = of_nat (unat r + n * 2 ^ s)"
proof -
  have "\<not> bit r k" if "s \<le> k" for k
  proof -
    have "unat r div 2 ^ k = 0" using assms that by (meson div_less less_le_trans one_le_numeral power_increasing)
    then have "\<not> bit (unat r) k" by (simp add: bit_iff_odd)
    then show ?thesis by (auto simp: bit_unsigned_iff dest: bit_imp_le_length)
  qed
  then have "r + push_bit s (of_nat n) = r OR push_bit s (of_nat n)"
    by (intro disjunctive_add) (auto simp: bit_push_bit_iff not_le)
  then show ?thesis by (simp add: push_bit_eq_mult)
qed

lemma varint_last: "i \<le> 9 \<Longrightarrow> n < 128 \<Longrightarrow> varint_loop i r s (byte n # data) = (r OR push_bit s (of_nat n), i + 1)"
  using and_80 [of n] by (simp add: and_7F)

lemma varint_more:
  "i \<le> 9 \<Longrightarrow> m < 128 \<Longrightarrow> varint_loop i r s (byte (m + 128) # data) = varint_loop (i + 1) (r OR push_bit s (of_nat m)) (s + 7) data"
  using and_80 [of "m + 128"] by (simp add: and_7F)

lemma varint_loop_bytes:
  assumes "i \<le> 9" and "n < 2 ^ (64 - 7 * i)" and "unat r < 2 ^ (7 * i)"
  shows "varint_loop i r (7 * i) (varintBytes n @ rest) = (of_nat (unat r + n * 2 ^ (7 * i)), i + length (varintBytes n))"
  using assms
proof (induction n arbitrary: i r rule: varintBytes.induct)
  case (1 n)
  show ?case
  proof (cases "n < 128")
    case True
    then have "varintBytes n = [byte n]" by (subst varintBytes.simps) simp
    then show ?thesis using varint_last [OF 1(2) True] or_push_bit [OF 1(4), of n] by (simp del: varint_loop.simps)
  next
    case False
    let ?m = "n mod 128" and ?r = "r OR push_bit (7 * i) (of_nat (n mod 128))"
    have i: "i \<le> 8"
    proof (rule ccontr)
      assume "\<not> i \<le> 8"
      then have "i = 9" using 1(2) by simp
      then show False using 1(3) False by simp
    qed
    have pow: "(2 :: nat) ^ (7 * Suc i) = 128 * 2 ^ (7 * i)" by (simp add: power_add)
    have bound: "unat r + ?m * 2 ^ (7 * i) < 2 ^ (7 * Suc i)"
    proof -
      have "?m * 2 ^ (7 * i) \<le> 127 * 2 ^ (7 * i)" by (rule mult_right_mono) auto
      then show ?thesis using 1(4) unfolding pow by linarith
    qed
    have le64: "(2 :: nat) ^ (7 * Suc i) \<le> 2 ^ 64" by (rule power_increasing) (use i in auto)
    have r: "?r = of_nat (unat r + ?m * 2 ^ (7 * i))" by (rule or_push_bit [OF 1(4)])
    have ur: "unat ?r = unat r + ?m * 2 ^ (7 * i)"
      unfolding r by (rule unat_of_nat64) (use bound le64 in simp)
    have d: "n div 128 < 2 ^ (64 - 7 * Suc i)"
    proof -
      have "64 - 7 * i = (64 - 7 * Suc i) + 7" using i by simp
      then have "n < 2 ^ ((64 - 7 * Suc i) + 7)" using 1(3) by metis
      then have "n < 2 ^ (64 - 7 * Suc i) * 128" unfolding power_add by simp
      then show ?thesis by (simp add: div_less_iff_less_mult)
    qed
    have IH: "varint_loop (Suc i) ?r (7 * Suc i) (varintBytes (n div 128) @ rest)
        = (of_nat (unat ?r + n div 128 * 2 ^ (7 * Suc i)), Suc i + length (varintBytes (n div 128)))"
      using False i d bound ur by (intro 1(1)) simp_all
    have eq: "unat ?r + n div 128 * 2 ^ (7 * Suc i) = unat r + n * 2 ^ (7 * i)"
    proof -
      have "n * 2 ^ (7 * i) = (?m + n div 128 * 128) * 2 ^ (7 * i)" by (simp only: mod_div_mult_eq)
      then show ?thesis unfolding ur pow by (simp only: distrib_right mult.assoc add.assoc)
    qed
    have "varint_loop i r (7 * i) (byte (?m + 128) # varintBytes (n div 128) @ rest)
        = varint_loop (Suc i) ?r (7 * Suc i) (varintBytes (n div 128) @ rest)"
      using i varint_more [of i ?m r "7 * i"] by (simp del: varint_loop.simps add: add.commute [of "7 * i"])
    moreover have "varintBytes n = byte (?m + 128) # varintBytes (n div 128)" using False by (subst varintBytes.simps) simp
    ultimately show ?thesis by (simp only: append_Cons IH eq) simp
  qed
qed

lemma decodeVarint_bytes:
  "n < 2 ^ 64 \<Longrightarrow> decodeVarint (varintBytes n @ rest) = (of_nat n, length (varintBytes n))"
  using varint_loop_bytes [of 0 n 0 rest] by (simp add: decodeVarint_def)

lemma varint_loop_ten: "i \<le> 10 \<Longrightarrow> varint_loop i r s data = (v, n) \<Longrightarrow> n \<le> 10"
  by (induction i r s data rule: varint_loop.induct) (auto simp: Let_def split: if_splits)

lemma varintBytes_ten: "n < 2 ^ 64 \<Longrightarrow> length (varintBytes n) \<le> 10"
  using varint_loop_ten [of 0 0 0 "varintBytes n"] decodeVarint_bytes [of n "[]"] by (simp add: decodeVarint_def)

lemma varintBytes_length: "0 < length (varintBytes n)"
  by (subst varintBytes.simps) simp

section \<open>Fields round trip\<close>

text \<open>The octets of a length-delimited field.\<close>

definition fieldBytes :: "nat \<Rightarrow> bytes \<Rightarrow> bytes" where
  "fieldBytes f s = varintBytes (f * 8 + 2) @ varintBytes (length s) @ s"

lemma tag_word:
  assumes "w < 8"
  shows "push_bit 3 (of_nat f) OR of_nat w = (of_nat (f * 8 + w) :: 64 word)"
proof -
  have "unat (of_nat w :: 64 word) = w" by (rule unat_of_nat64) (use assms in simp)
  then show ?thesis using or_push_bit [of "of_nat w" 3 f] assms by (simp add: or.commute add.commute)
qed

lemma tag_parts:
  assumes "f < 2 ^ 61" and "w < 8"
  shows "tagField (of_nat (f * 8 + w)) = f" and "tagType (of_nat (f * 8 + w)) = w"
proof -
  have u: "unat (of_nat (f * 8 + w) :: 64 word) = f * 8 + w" by (rule unat_of_nat64) (use assms in simp)
  show "tagField (of_nat (f * 8 + w)) = f"
    unfolding tagField_def unat_drop_bit_eq u using assms by (simp add: drop_bit_eq_div)
  have "unat ((of_nat (f * 8 + w) :: 64 word) AND mask 3) = (f * 8 + w) mod 8"
    unfolding take_bit_eq_mask [symmetric] unsigned_take_bit_eq u by (simp add: take_bit_eq_mod)
  then show "tagType (of_nat (f * 8 + w)) = w" using assms by (simp add: tagType_def mask_eq_exp_minus_1)
qed

lemma append_field:
  assumes "f < 2 ^ 60" and "length s < 2 ^ 63"
  shows "appendStringField buf f s = buf @ fieldBytes f s"
proof -
  have "unat (of_nat (f * 8 + 2) :: 64 word) = f * 8 + 2" by (rule unat_of_nat64) (use assms in simp)
  moreover have "unat (of_nat (length s) :: 64 word) = length s" by (rule unat_of_nat64) (use assms in simp)
  ultimately show ?thesis using tag_word [of 2 f]
    by (simp add: appendStringField_def appendTag_def appendVarint_eq fieldBytes_def)
qed

lemma append_message_eq: "appendMessageField = appendStringField" and append_bytes_eq: "appendBytesField = appendStringField"
  by (simp_all add: fun_eq_iff appendMessageField_def appendStringField_def appendBytesField_def)

text \<open>Reading one field at the front of the data, as both decoders do.\<close>

lemma field_reads:
  assumes "f < 2 ^ 60" and "length s < 2 ^ 62" and "d = fieldBytes f s @ rest"
  obtains tag n len m where "decodeVarint d = (tag, n)" "0 < n" "tagType tag = 2" "tagField tag = f"
    "decodeVarint (drop n d) = (len, m)" "0 < m" "sint len = int (length s)" "n + m + length s \<le> length d"
    "take (length s) (drop (n + m) d) = s" "drop (n + m + length s) d = rest" "n < length d"
proof -
  let ?t = "varintBytes (f * 8 + 2)" and ?l = "varintBytes (length s)"
  have d: "d = ?t @ ?l @ s @ rest" using assms(3) by (simp add: fieldBytes_def)
  have "decodeVarint d = (of_nat (f * 8 + 2), length ?t)"
    unfolding d by (rule decodeVarint_bytes) (use assms(1) in simp)
  moreover have "decodeVarint (drop (length ?t) d) = (of_nat (length s), length ?l)"
    using decodeVarint_bytes [of "length s" "s @ rest"] assms(2) by (simp add: d)
  moreover have "sint (of_nat (length s) :: 64 word) = int (length s)"
  proof -
    have "int (length s) < 2 ^ 62" using assms(2) by (simp flip: of_nat_power of_nat_less_iff)
    then show ?thesis
      by (simp add: signed_of_nat signed_take_bit_int_eq_self)
  qed
  moreover have "length ?t < length d" using varintBytes_length [of "length s"] by (simp add: d)
  ultimately show thesis
    using tag_parts [of f 2] assms(1) varintBytes_length [of "f * 8 + 2"] varintBytes_length [of "length s"]
    by (intro that [of "of_nat (f * 8 + 2)" "length ?t" "of_nat (length s)" "length ?l"]) (simp_all add: d)
qed

lemma int64_offset: "n < 2 ^ 62 \<Longrightarrow> int64 (int n) = int n"
proof (rule int64_id)
  assume "n < 2 ^ 62"
  then have "int n < 2 ^ 62" by (simp flip: of_nat_power of_nat_less_iff)
  then show "int n \<le> maxInt64" by (simp add: maxInt64_def)
qed simp

lemma extract_field:
  assumes "f < 2 ^ 60" and "length d < 2 ^ 62" and "d = fieldBytes f s @ rest"
  shows "extractStringField d tail f = Some (Returns s)"
proof -
  have "length s < 2 ^ 62" using assms(2,3) by (simp add: fieldBytes_def)
  from field_reads [OF assms(1) this assms(3)] obtain tag n len m where
    r: "decodeVarint d = (tag, n)" "0 < n" "tagType tag = 2" "tagField tag = f"
      "decodeVarint (drop n d) = (len, m)" "0 < m" "sint len = int (length s)"
      "n + m + length s \<le> length d" "take (length s) (drop (n + m) d) = s" "n < length d" .
  have e: "int64 (int (n + m) + int (length s)) = int (n + m + length s)"
    using int64_offset [of "n + m + length s"] r(8) assms(2) by simp
  have "take (length s) (drop (n + m) (d @ tail)) = s" using r(8,9) by simp
  then show ?thesis unfolding extractStringField_def
    using r(1-7) r(8,10) e by (subst extract_loop.simps) (auto simp: Let_def simp del: of_nat_add)
qed

text \<open>The octets of a message made of length-delimited fields.\<close>

definition fieldsBytes :: "(nat \<times> bytes) list \<Rightarrow> bytes" where
  "fieldsBytes fs = foldl (\<lambda>buf (f, s). appendStringField buf f s) [] fs"

lemma fieldsBytes_fold:
  "list_all (\<lambda>(f, s). f < 2 ^ 60 \<and> length s < 2 ^ 62) fs \<Longrightarrow>
   foldl (\<lambda>buf (f, s). appendStringField buf f s) buf fs = buf @ concat (map (\<lambda>(f, s). fieldBytes f s) fs)"
  by (induction fs arbitrary: buf) (auto simp: append_field)

lemma request_fields:
  assumes "list_all (\<lambda>(f, s). f < 2 ^ 60) fs" and "length data < 2 ^ 62"
    and "data = pre @ concat (map (\<lambda>(f, s). fieldBytes f s) fs)"
  shows "request_loop data (length pre) req = Inr (fold (\<lambda>(f, s). setRequestField f s) fs req)"
  using assms
proof (induction fs arbitrary: pre req)
  case Nil
  then show ?case by (simp add: request_loop.simps)
next
  case (Cons fs0 fs)
  obtain f s where fs: "fs0 = (f, s)" by (cases fs0)
  let ?rest = "concat (map (\<lambda>(f, s). fieldBytes f s) fs)" and ?d = "drop (length pre) data"
  have d: "?d = fieldBytes f s @ ?rest" using Cons.prems(3) by (simp add: fs)
  have "length s < 2 ^ 62" "f < 2 ^ 60" using Cons.prems by (simp_all add: fs fieldBytes_def)
  from field_reads [OF this(2,1) d] obtain tag n len m where
    r: "decodeVarint ?d = (tag, n)" "0 < n" "tagType tag = 2" "tagField tag = f"
      "decodeVarint (drop n ?d) = (len, m)" "0 < m" "sint len = int (length s)"
      "n + m + length s \<le> length ?d" "take (length s) (drop (n + m) ?d) = s" "drop (n + m + length s) ?d = ?rest" "n < length ?d" .
  let ?e = "length pre + n + m + length s"
  have le: "length pre \<le> length data" "?e \<le> length data" using Cons.prems(3) r(8) by simp_all
  have e: "int64 (int (length pre + n + m) + int (length s)) = int ?e"
    using int64_offset [of ?e] le Cons.prems(2) by simp
  have t: "take (length s) (drop (length pre + n + m) data) = s" using r(9) by (simp add: add.assoc add.commute [of "length pre"])
  have dr: "drop (length pre + n) data = drop n ?d" by (simp add: add.commute)
  have step: "request_loop data (length pre) req = request_loop data ?e (setRequestField f s req)"
    using r(1-7) r(11) le e t by (subst request_loop.simps) (simp add: Let_def dr del: of_nat_add drop_drop)
  have "drop ?e data = ?rest" using r(10) by (simp add: add.assoc add.commute add.left_commute)
  then have "data = take ?e data @ ?rest" using append_take_drop_id [of ?e data] by simp
  moreover have "length (take ?e data) = ?e" using le by simp
  ultimately show ?case using Cons.IH [of "take ?e data"] Cons.prems(1,2) step by (simp add: fs)
qed

lemma health_request_roundtrip:
  assumes "length service < 2 ^ 32"
  shows "decodeHealthCheckRequest (encodeHealthCheckRequest service) = Some (Returns service)"
proof -
  have "length (fieldBytes 1 service) \<le> 20 + length service"
    using varintBytes_ten [of 10] varintBytes_ten [of "length service"] assms by (simp add: fieldBytes_def)
  then have "length (fieldBytes 1 service) < 2 ^ 62" using assms by simp
  then show ?thesis
    using extract_field [of 1 "fieldBytes 1 service" service "[]" "[]"] append_field [of 1 service "[]"] assms
    by (simp add: decodeHealthCheckRequest_def encodeHealthCheckRequest_def)
qed



section \<open>Hostile health checks\<close>

text \<open>
  The extractor trusts the lengths it reads. A length that sign-extends to a negative offset sends
  it back to the start of the message, and a health check of eleven octets keeps it there for
  ever; a length beyond the message panics.
\<close>

definition endlessHealthCheck :: bytes where
  "endlessHealthCheck = CHR 0x12 # CHR 0xF5 # replicate 8 CHR 0xFF @ [CHR 0x01]"

lemma endless_reads:
  "decodeVarint endlessHealthCheck = (0x12, 1)" "decodeVarint (drop 1 endlessHealthCheck) = (- 11, 10)"
  "tagType 0x12 = 2" "tagField 0x12 = 2" "int64 (int 11 + sint (- 11 :: 64 word)) = 0" "length endlessHealthCheck = 11"
  by code_simp+

lemma health_check_never_returns: "decodeHealthCheckRequest endlessHealthCheck = None"
proof -
  have "data = endlessHealthCheck \<longrightarrow> f = 1 \<longrightarrow> pos \<noteq> 0" if "extract_loop data tail f pos = Some y" for data tail f pos y
    by (rule extract_loop.raw_induct [OF _ that, where P = "\<lambda>data tail f pos y. data = endlessHealthCheck \<longrightarrow> f = 1 \<longrightarrow> pos \<noteq> 0"])
       (use endless_reads in \<open>auto simp: Let_def\<close>, blast)
  then show ?thesis unfolding decodeHealthCheckRequest_def extractStringField_def
    by (cases "extract_loop endlessHealthCheck [] 1 0") blast+
qed

lemma health_check_panics: "decodeHealthCheckRequest [CHR 0x0A, CHR 0x05] = Some Panics"
  unfolding decodeHealthCheckRequest_def extractStringField_def by (subst extract_loop.simps) code_simp

end
