(* ===== verification/GrpcService.thy ===== *)
theory GrpcService
  imports ProtoWire ResponseWriter
begin

text \<open>
  The gRPC service layer (grpcserver/service.go, grpcserver/reflection.go): the registrar, the
  server handler that routes a request to a method and answers it, and the reflection service.

  A streaming method is a program over the two functions it is given: it sends messages, receives
  messages, and ends with a result or a panic. The request body is what the receiver of theory
  GrpcFraming delivers. A response goes to a response writer over any stream writer; \<open>etext\<close> is the
  text of a transport error.
\<close>

section \<open>Methods and services\<close>

datatype 'r gprog =
    GReturn 'r
  | GPanic
  | GSend "bytes option" "gerr option \<Rightarrow> 'r gprog"
  | GRecv "gerr + bytes option \<Rightarrow> 'r gprog"

text \<open>The deadline a context carries, as the duration of its timeout.\<close>

type_synonym deadline = "int option"

type_synonym UnaryHandler = "deadline \<Rightarrow> bytes option \<Rightarrow> (gerr + bytes option) outcome"
type_synonym ServerStreamHandler = "deadline \<Rightarrow> bytes option \<Rightarrow> (gerr option) gprog"
type_synonym ClientStreamHandler = "deadline \<Rightarrow> (gerr + bytes option) gprog"
type_synonym BidiStreamHandler = "deadline \<Rightarrow> (gerr option) gprog"

text \<open>
  A bidirectional method is the user's, or the reflection method of the registrar it is registered
  with, which sees the registrar as it is when a call arrives (limited to \<open>n\<close> requests).
\<close>

datatype bidiMethod = UserBidi BidiStreamHandler | ReflectionMethod nat

record MethodDesc =
  md_Name :: string
  md_UnaryHandler :: "UnaryHandler option"
  md_ServerStreamH :: "ServerStreamHandler option"
  md_ClientStreamH :: "ClientStreamHandler option"
  md_BidiStreamH :: "bidiMethod option"

record ServiceDesc =
  sd_Name :: string
  sd_Methods :: "MethodDesc list"

text \<open>A registered method has exactly one handler.\<close>

datatype methodHandler =
    Unary UnaryHandler | ServerS ServerStreamHandler | ClientS ClientStreamHandler | Bidi bidiMethod

record reflectionRegistry =
  descriptors :: "(string \<times> gslice) list"
  filesByName :: "(string \<times> gslice) list"
  allFiles :: "gslice list"

record ServiceRegistrar =
  sr_methods :: "(string \<times> methodHandler) list"
  sr_services :: "string list"
  sr_reflection :: "reflectionRegistry option"

definition NewServiceRegistrar :: ServiceRegistrar where
  "NewServiceRegistrar = \<lparr>sr_methods = [], sr_services = [], sr_reflection = None\<rparr>"

definition methodOf :: "MethodDesc \<Rightarrow> methodHandler option" where
  "methodOf md =
     (case md_UnaryHandler md of Some f \<Rightarrow> Some (Unary f)
      | None \<Rightarrow> (case md_ServerStreamH md of Some f \<Rightarrow> Some (ServerS f)
      | None \<Rightarrow> (case md_ClientStreamH md of Some f \<Rightarrow> Some (ClientS f)
      | None \<Rightarrow> map_option Bidi (md_BidiStreamH md))))"

definition fullPath :: "string \<Rightarrow> string \<Rightarrow> string" where
  "fullPath service name = ''/'' @ service @ ''/'' @ name"

text \<open>The loop over the methods; a method without a handler panics, with what was registered before it kept.\<close>

fun register_loop :: "string \<Rightarrow> MethodDesc list \<Rightarrow> ServiceRegistrar \<Rightarrow> ServiceRegistrar \<times> bool" where
  "register_loop service [] r = (r, False)"
| "register_loop service (md # mds) r =
     (case methodOf md of
        None \<Rightarrow> (r, True)
      | Some h \<Rightarrow> register_loop service mds (r\<lparr>sr_methods := aput (fullPath service (md_Name md)) h (sr_methods r)\<rparr>))"

text \<open>The registrar afterwards, and whether the call panicked.\<close>

definition RegisterService :: "ServiceDesc \<Rightarrow> ServiceRegistrar \<Rightarrow> ServiceRegistrar \<times> bool" where
  "RegisterService desc r =
     (if sd_Name desc \<in> set (sr_services r) then (r, True)
      else register_loop (sd_Name desc) (sd_Methods desc) (r\<lparr>sr_services := sr_services r @ [sd_Name desc]\<rparr>))"

definition lookupMethod :: "ServiceRegistrar \<Rightarrow> string \<Rightarrow> methodHandler option" where
  "lookupMethod r path = map_of (sr_methods r) path"

section \<open>Reflection\<close>

definition reflectionServiceV1Alpha :: string where "reflectionServiceV1Alpha = ''grpc.reflection.v1alpha.ServerReflection''"
definition reflectionServiceV1 :: string where "reflectionServiceV1 = ''grpc.reflection.v1.ServerReflection''"
definition reflectionMethod :: string where "reflectionMethod = ''ServerReflectionInfo''"

definition newReflectionRegistry :: reflectionRegistry where
  "newReflectionRegistry = \<lparr>descriptors = [], filesByName = [], allFiles = []\<rparr>"

definition bytesEqual :: "bytes \<Rightarrow> bytes \<Rightarrow> bool" where
  "bytesEqual a b = (if length a \<noteq> length b then False else list_all2 (=) a b)"

definition appendIfUnique :: "gslice list \<Rightarrow> gslice \<Rightarrow> gslice list" where
  "appendIfUnique slices b = (if list_ex (\<lambda>e. bytesEqual (fst e) (fst b)) slices then slices else slices @ [b])"

definition theReflection :: "ServiceRegistrar \<Rightarrow> reflectionRegistry" where
  "theReflection r = (case sr_reflection r of None \<Rightarrow> newReflectionRegistry | Some rr \<Rightarrow> rr)"

definition RegisterFileDescriptor :: "string list \<Rightarrow> gslice \<Rightarrow> ServiceRegistrar \<Rightarrow> ServiceRegistrar" where
  "RegisterFileDescriptor services fdb r =
     (let rr = theReflection r;
          rr = rr\<lparr>descriptors := fold (\<lambda>svc ds. aput svc fdb ds) services (descriptors rr)\<rparr>;
          rr = rr\<lparr>allFiles := appendIfUnique (allFiles rr) fdb\<rparr>
      in r\<lparr>sr_reflection := Some rr\<rparr>)"

text \<open>One file of a descriptor set; the extraction functions may panic or not return (theory ProtoWire).\<close>

definition indexFile :: "gslice \<Rightarrow> reflectionRegistry \<Rightarrow> reflectionRegistry outcome option" where
  "indexFile fdb rr =
     (case extractStringField (fst fdb) (snd fdb) 1 of
        None \<Rightarrow> None
      | Some Panics \<Rightarrow> Some Panics
      | Some (Returns name) \<Rightarrow>
          let rr = (if name \<noteq> [] then rr\<lparr>filesByName := aput name fdb (filesByName rr)\<rparr> else rr) in
          (case extractServiceNames fdb of
             None \<Rightarrow> None
           | Some Panics \<Rightarrow> Some Panics
           | Some (Returns svcs) \<Rightarrow>
               let rr = rr\<lparr>descriptors := fold (\<lambda>svc ds. aput svc fdb ds) svcs (descriptors rr)\<rparr>
               in Some (Returns (rr\<lparr>allFiles := appendIfUnique (allFiles rr) fdb\<rparr>))))"

fun indexFiles :: "gslice list \<Rightarrow> reflectionRegistry \<Rightarrow> reflectionRegistry outcome option" where
  "indexFiles [] rr = Some (Returns rr)"
| "indexFiles (fdb # fdbs) rr =
     (case indexFile fdb rr of
        None \<Rightarrow> None | Some Panics \<Rightarrow> Some Panics | Some (Returns rr) \<Rightarrow> indexFiles fdbs rr)"

definition RegisterFileDescriptorSet :: "gslice \<Rightarrow> ServiceRegistrar \<Rightarrow> ServiceRegistrar outcome option" where
  "RegisterFileDescriptorSet fds r =
     (case extractFileProtos fds of
        None \<Rightarrow> None
      | Some Panics \<Rightarrow> Some Panics
      | Some (Returns files) \<Rightarrow>
          (case indexFiles files (theReflection r) of
             None \<Rightarrow> None
           | Some Panics \<Rightarrow> Some Panics
           | Some (Returns rr) \<Rightarrow> Some (Returns (r\<lparr>sr_reflection := Some rr\<rparr>))))"

text \<open>The naive search for a needle at every offset.\<close>

definition bytesContains :: "bytes \<Rightarrow> bytes \<Rightarrow> bool" where
  "bytesContains haystack needle =
     (if length needle = 0 then True
      else if length haystack < length needle then False
      else list_ex (\<lambda>i. list_all (\<lambda>j. haystack ! (i + j) = needle ! j) [0..<length needle]) [0..<Suc (length haystack - length needle)])"

definition protoContainsService :: "bytes \<Rightarrow> string \<Rightarrow> bool" where
  "protoContainsService fdb serviceName = bytesContains fdb (byte (length serviceName) # serviceName)"

definition lookupSymbol :: "ServiceRegistrar \<Rightarrow> string \<Rightarrow> gslice option" where
  "lookupSymbol r symbol =
     (case sr_reflection r of
        None \<Rightarrow> None
      | Some rr \<Rightarrow>
          (case map_of (descriptors rr) symbol of
             Some data \<Rightarrow> Some data
           | None \<Rightarrow>
               (case find (\<lambda>i. symbol ! i = CHR ''/'' \<and> map_of (descriptors rr) (take i symbol) \<noteq> None) [0..<length symbol] of
                  Some i \<Rightarrow> map_of (descriptors rr) (take i symbol)
                | None \<Rightarrow> find (\<lambda>data. protoContainsService (fst data) symbol) (allFiles rr))))"

definition lookupFile :: "ServiceRegistrar \<Rightarrow> string \<Rightarrow> gslice option" where
  "lookupFile r filename = (case sr_reflection r of None \<Rightarrow> None | Some rr \<Rightarrow> map_of (filesByName rr) filename)"

text \<open>The iteration order of the service map is that of the list.\<close>

definition processReflectionRequest :: "ServiceRegistrar \<Rightarrow> reflectionRequest \<Rightarrow> bytes" where
  "processReflectionRequest r req =
     (if listServices req \<noteq> [] \<or> listAll req
      then encodeListServiceResponse (filter (\<lambda>svc. svc \<noteq> reflectionServiceV1Alpha \<and> svc \<noteq> reflectionServiceV1) (sr_services r))
      else if fileContainingSymbol req \<noteq> [] then
        (case lookupSymbol r (fileContainingSymbol req) of
           None \<Rightarrow> encodeErrorResponse NotFound (''symbol not found: '' @ fileContainingSymbol req)
         | Some data \<Rightarrow> encodeFileDescriptorResponse [fst data])
      else if fileByFilename req \<noteq> [] then
        (case lookupFile r (fileByFilename req) of
           None \<Rightarrow> encodeErrorResponse NotFound (''file not found: '' @ fileByFilename req)
         | Some data \<Rightarrow> encodeFileDescriptorResponse [fst data])
      else if allExtensionNumbers req \<noteq> [] then encodeExtensionNumberResponse (allExtensionNumbers req) []
      else encodeErrorResponse InvalidArgument ''empty request'')"

definition reflectionAnswer :: "ServiceRegistrar \<Rightarrow> bytes \<Rightarrow> bytes" where
  "reflectionAnswer r reqBytes =
     (case decodeReflectionRequest reqBytes of
        Inl perr \<Rightarrow> encodeReflectionResponse [] reqBytes (encodeErrorResponse InvalidArgument (protoErrorText perr))
      | Inr req \<Rightarrow> encodeReflectionResponse (host req) reqBytes (processReflectionRequest r req))"

text \<open>
  The loop of \<open>reflectionHandler\<close>, as a method of at most \<open>n\<close> requests (a call carries finitely
  many); after that it would go on receiving.
\<close>

fun reflectionHandler :: "ServiceRegistrar \<Rightarrow> nat \<Rightarrow> (gerr option) gprog" where
  "reflectionHandler r 0 = GRecv (\<lambda>m. GReturn (case m of Inl e \<Rightarrow> if e = GEOF then None else Some e | Inr _ \<Rightarrow> None))"
| "reflectionHandler r (Suc n) =
     GRecv (\<lambda>m. case m of
       Inl e \<Rightarrow> GReturn (if e = GEOF then None else Some e)
     | Inr reqBytes \<Rightarrow> GSend (Some (reflectionAnswer r (bval reqBytes)))
         (\<lambda>serr. if serr \<noteq> None then GReturn serr else reflectionHandler r n))"

fun bidiProg :: "ServiceRegistrar \<Rightarrow> bidiMethod \<Rightarrow> deadline \<Rightarrow> (gerr option) gprog" where
  "bidiProg r (UserBidi f) ctx = f ctx"
| "bidiProg r (ReflectionMethod n) ctx = reflectionHandler r n"

definition RegisterReflection :: "nat \<Rightarrow> ServiceRegistrar \<Rightarrow> ServiceRegistrar \<times> bool" where
  "RegisterReflection n r =
     (let desc = (\<lambda>name. \<lparr>sd_Name = name, sd_Methods = [\<lparr>md_Name = reflectionMethod, md_UnaryHandler = None, md_ServerStreamH = None,
            md_ClientStreamH = None, md_BidiStreamH = Some (ReflectionMethod n)\<rparr>]\<rparr>)
      in case RegisterService (desc reflectionServiceV1Alpha) r of
           (r, True) \<Rightarrow> (r, True)
         | (r, False) \<Rightarrow> RegisterService (desc reflectionServiceV1) r)"

section \<open>Answering a call\<close>

definition grpcResponseHeaders :: "HeaderField list" where
  "grpcResponseHeaders = [field HeaderContentType ContentTypeGRPC]"

datatype called = CReturned wres | CPanicked

definition writeGRPCError :: "'s streamWriter \<Rightarrow> bytes \<Rightarrow> RPCStatus \<Rightarrow> responseWriter \<times> 's \<Rightarrow> (responseWriter \<times> 's) \<times> wres" where
  "writeGRPCError sw date st ws =
     (case WriteHeaders sw date 200 grpcResponseHeaders ws of
        (ws, WOk) \<Rightarrow> WriteTrailers sw (statusToHPack st) ws
      | (ws, e) \<Rightarrow> (ws, e))"

definition encodeMsg :: "bytes option \<Rightarrow> bytes" where
  "encodeMsg msg = EncodeLP [] \<lparr>Flag = FlagNone, Payload = msg\<rparr>"

definition gerrOf :: "(err \<Rightarrow> string) \<Rightarrow> wres \<Rightarrow> gerr option" where
  "gerrOf etext r =
     (case r of
        WErr e \<Rightarrow> Some (if e = CtxCanceled then GCanceled else if e = CtxDeadlineExceeded then GDeadlineExceeded else GOther (etext e))
      | _ \<Rightarrow> None)"

text \<open>A run of a streaming method: receiver and writer afterwards, and its result.\<close>

datatype 'r ran = RReturned 'r | RPanicked | RStuck

primrec runProg ::
  "(err \<Rightarrow> string) \<Rightarrow> 's streamWriter \<Rightarrow> bytes \<Rightarrow> 'r gprog \<Rightarrow> receiver \<times> responseWriter \<times> 's \<Rightarrow> (responseWriter \<times> 's) \<times> 'r ran" where
  "runProg etext sw date (GReturn r) = (\<lambda>(rc, ws). (ws, RReturned r))"
| "runProg etext sw date GPanic = (\<lambda>(rc, ws). (ws, RPanicked))"
| "runProg etext sw date (GSend msg k) = (\<lambda>(rc, ws).
     case WriteData sw date (encodeMsg msg) ws of
       (ws, WBlocked) \<Rightarrow> (ws, RStuck)
     | (ws, e) \<Rightarrow> runProg etext sw date (k (gerrOf etext e)) (rc, ws))"
| "runProg etext sw date (GRecv k) = (\<lambda>(rc, ws). case recvMsg rc of (rc, r) \<Rightarrow> runProg etext sw date (k r) (rc, ws))"

text \<open>The final step shared by the dispatch helpers: the response message, if there is one, and the OK status.\<close>

definition finishOK :: "'s streamWriter \<Rightarrow> bytes \<Rightarrow> bytes option \<Rightarrow> responseWriter \<times> 's \<Rightarrow> (responseWriter \<times> 's) \<times> wres" where
  "finishOK sw date resp ws =
     (case (if resp \<noteq> None then WriteData sw date (encodeMsg resp) ws else (ws, WOk)) of
        (ws, WOk) \<Rightarrow> WriteTrailers sw (statusToHPack StatusOK) ws
      | (ws, e) \<Rightarrow> (ws, e))"

definition handleUnary :: "'s streamWriter \<Rightarrow> bytes \<Rightarrow> (gerr + bytes option) outcome \<Rightarrow> responseWriter \<times> 's \<Rightarrow> (responseWriter \<times> 's) \<times> called" where
  "handleUnary sw date result ws =
     (case result of
        Panics \<Rightarrow> (ws, CPanicked)
      | Returns (Inl e) \<Rightarrow> (case writeGRPCError sw date (errToStatus e) ws of (ws, e) \<Rightarrow> (ws, CReturned e))
      | Returns (Inr resp) \<Rightarrow>
          (case WriteHeaders sw date 200 grpcResponseHeaders ws of
             (ws, WOk) \<Rightarrow> (case finishOK sw date resp ws of (ws, e) \<Rightarrow> (ws, CReturned e))
           | (ws, e) \<Rightarrow> (ws, CReturned e)))"

definition handleStream ::
  "(err \<Rightarrow> string) \<Rightarrow> 's streamWriter \<Rightarrow> bytes \<Rightarrow> (gerr + bytes option) gprog \<Rightarrow> receiver \<Rightarrow> responseWriter \<times> 's \<Rightarrow> (responseWriter \<times> 's) \<times> called" where
  "handleStream etext sw date prog rc ws =
     (case WriteHeaders sw date 200 grpcResponseHeaders ws of
        (ws, WOk) \<Rightarrow>
          (case runProg etext sw date prog (rc, ws) of
             (ws, RPanicked) \<Rightarrow> (ws, CPanicked)
           | (ws, RStuck) \<Rightarrow> (ws, CReturned WBlocked)
           | (ws, RReturned (Inl e)) \<Rightarrow> (case writeGRPCError sw date (errToStatus e) ws of (ws, e) \<Rightarrow> (ws, CReturned e))
           | (ws, RReturned (Inr resp)) \<Rightarrow> (case finishOK sw date resp ws of (ws, e) \<Rightarrow> (ws, CReturned e)))
      | (ws, e) \<Rightarrow> (ws, CReturned e))"

text \<open>A method that ends with an error or nothing.\<close>

definition noResponse :: "(gerr option) gprog \<Rightarrow> (gerr + bytes option) gprog" where
  "noResponse prog = map_gprog (\<lambda>e. case e of None \<Rightarrow> Inr None | Some e \<Rightarrow> Inl e) prog"

definition handleServerStream where
  "handleServerStream etext sw date prog ws = handleStream etext sw date (noResponse prog) RecvNothing ws"

definition handleClientStream where
  "handleClientStream etext sw date prog body rd ws = handleStream etext sw date prog (streamReceiver body rd) ws"

definition handleBidiStream where
  "handleBidiStream etext sw date prog body rd ws = handleStream etext sw date (noResponse prog) (streamReceiver body rd) ws"

text \<open>The request message of a unary or server-streaming call, or the status it is refused with.\<close>

definition requestPayload :: "bytes option \<Rightarrow> reader option \<Rightarrow> RPCStatus + bytes option" where
  "requestPayload body bodyReader =
     (case bodyReader of
        Some r \<Rightarrow>
          (case snd (readStreamingLP r) of
             Inl e \<Rightarrow> if e \<noteq> GEOF then Inl (errToStatus e) else Inr None
           | Inr payload \<Rightarrow> Inr payload)
      | None \<Rightarrow>
          if length (bval body) > 0 then
            case DecodeLPFromBytes (bval body) of
              Inl e \<Rightarrow> Inl (errToStatus e)
            | Inr (msg, n) \<Rightarrow>
                if Flag msg = FlagCompressed
                then Inl \<lparr>st_Code = Unimplemented, st_Message = ''message compression not supported (no grpc-encoding negotiated)''\<rparr>
                else Inr (Payload msg)
          else Inr None)"

definition Handler ::
  "(err \<Rightarrow> string) \<Rightarrow> 's streamWriter \<Rightarrow> bytes \<Rightarrow> ServiceRegistrar \<Rightarrow> Request \<Rightarrow> reader option \<Rightarrow> responseWriter \<times> 's \<Rightarrow> (responseWriter \<times> 's) \<times> called" where
  "Handler etext sw date r req bodyReader ws =
     (let refuse = (\<lambda>st. case writeGRPCError sw date st ws of (ws, e) \<Rightarrow> (ws, CReturned e)) in
      if \<not> isGRPCContentType (Headers req)
      then refuse \<lparr>st_Code = Unimplemented, st_Message = ''invalid content-type''\<rparr>
      else let ctx = parseGRPCTimeout (Headers req) in
        case lookupMethod r (Path req) of
          None \<Rightarrow> refuse \<lparr>st_Code = Unimplemented, st_Message = ''unknown method '' @ Path req\<rparr>
        | Some (Bidi f) \<Rightarrow> handleBidiStream etext sw date (bidiProg r f ctx) (Body req) bodyReader ws
        | Some (ClientS f) \<Rightarrow> handleClientStream etext sw date (f ctx) (Body req) bodyReader ws
        | Some (Unary f) \<Rightarrow>
            (case requestPayload (Body req) bodyReader of
               Inl st \<Rightarrow> refuse st
             | Inr payload \<Rightarrow> handleUnary sw date (f ctx payload) ws)
        | Some (ServerS f) \<Rightarrow>
            (case requestPayload (Body req) bodyReader of
               Inl st \<Rightarrow> refuse st
             | Inr payload \<Rightarrow> handleServerStream etext sw date (f ctx payload) ws))"

section \<open>What a call amounts to\<close>

text \<open>
  The specification of a call: the messages it answers with and its status, or a panic. Nothing
  is said here about frames, field sections or encodings.
\<close>

datatype callOutcome = Answered "bytes option list" RPCStatus | CallPanicked "bytes option list"

fun afterMsg :: "bytes option \<Rightarrow> callOutcome \<Rightarrow> callOutcome" where
  "afterMsg m (Answered ms st) = Answered (m # ms) st"
| "afterMsg m (CallPanicked ms) = CallPanicked (m # ms)"

fun returned :: "gerr + bytes option \<Rightarrow> callOutcome" where
  "returned (Inl e) = Answered [] (errToStatus e)"
| "returned (Inr None) = Answered [] StatusOK"
| "returned (Inr (Some resp)) = Answered [Some resp] StatusOK"

primrec progOutcome :: "(gerr + bytes option) gprog \<Rightarrow> receiver \<Rightarrow> callOutcome" where
  "progOutcome (GReturn r) = (\<lambda>rc. returned r)"
| "progOutcome GPanic = (\<lambda>rc. CallPanicked [])"
| "progOutcome (GSend msg k) = (\<lambda>rc. afterMsg msg (progOutcome (k None) rc))"
| "progOutcome (GRecv k) = (\<lambda>rc. case recvMsg rc of (rc, r) \<Rightarrow> progOutcome (k r) rc)"

definition grpcCall :: "ServiceRegistrar \<Rightarrow> Request \<Rightarrow> reader option \<Rightarrow> callOutcome" where
  "grpcCall r req bodyReader =
     (if \<not> isGRPCContentType (Headers req) then Answered [] \<lparr>st_Code = Unimplemented, st_Message = ''invalid content-type''\<rparr>
      else let ctx = parseGRPCTimeout (Headers req) in
        case lookupMethod r (Path req) of
          None \<Rightarrow> Answered [] \<lparr>st_Code = Unimplemented, st_Message = ''unknown method '' @ Path req\<rparr>
        | Some (Bidi f) \<Rightarrow> progOutcome (noResponse (bidiProg r f ctx)) (streamReceiver (Body req) bodyReader)
        | Some (ClientS f) \<Rightarrow> progOutcome (f ctx) (streamReceiver (Body req) bodyReader)
        | Some (Unary f) \<Rightarrow>
            (case requestPayload (Body req) bodyReader of
               Inl st \<Rightarrow> Answered [] st
             | Inr payload \<Rightarrow> (case f ctx payload of Panics \<Rightarrow> CallPanicked [] | Returns res \<Rightarrow> returned res))
        | Some (ServerS f) \<Rightarrow>
            (case requestPayload (Body req) bodyReader of
               Inl st \<Rightarrow> Answered [] st
             | Inr payload \<Rightarrow> progOutcome (noResponse (f ctx payload)) RecvNothing))"

text \<open>The operations on the stream that carry an answer: one header section, a DATA write per message, the status.\<close>

definition answerHeaders :: "bytes \<Rightarrow> HeaderField list" where
  "answerHeaders date = [statusField 200, dateField date, field HeaderContentType ContentTypeGRPC]"

definition answerOps :: "bytes \<Rightarrow> bytes option list \<Rightarrow> RPCStatus \<Rightarrow> sendOp list" where
  "answerOps date msgs st =
     SHeaders (answerHeaders date) False # map (\<lambda>m. SData (encodeMsg m) False) msgs @ [SHeaders (statusToHPack st) True]"

definition reliable :: "'s streamWriter \<Rightarrow> bool" where
  "reliable sw \<longleftrightarrow> (\<forall>fs e s. snd (sw_sendHeaders sw fs e s) = WOk) \<and> (\<forall>p e s. snd (sw_sendData sw p e s) = WOk)"

lemma logged_reliable_headers:
  assumes "reliable sw"
  shows "sw_sendHeaders (logged sw) fs e (s, l) = ((fst (sw_sendHeaders sw fs e s), l @ [SHeaders fs e]), WOk)"
  using assms by (simp add: logged_def reliable_def case_prod_beta)

lemma logged_data:
  assumes "reliable sw"
  shows "sw_sendData (logged sw) p e (s, l) = ((fst (sw_sendData sw p e s), l @ [SData p e]), WOk)"
  using assms by (simp add: logged_def reliable_def case_prod_beta)

lemma grpcHeaders_kept: "\<not> ProhibitedInResponse HeaderContentType" "\<not> EqualFold HeaderContentType sFieldDate"
  by code_simp+

lemma answer_headers:
  assumes "reliable sw" and "\<not> rw_written w"
  obtains s' where "WriteHeaders (logged sw) date 200 grpcResponseHeaders (w, s, l)
    = ((w\<lparr>rw_status := 200, rw_written := True\<rparr>, s', l @ [SHeaders (answerHeaders date) False]), WOk)"
  using assms grpcHeaders_kept
  by (simp add: WriteHeaders_def InterimStatus_def dateRequired_def hasField_def grpcResponseHeaders_def field_def answerHeaders_def
      logged_reliable_headers Let_def)

lemma answer_again: "rw_written w \<Longrightarrow> WriteHeaders (logged sw) date 200 hs (w, s, l) = ((w, s, l), WOk)"
  by (simp add: WriteHeaders_def)

lemma answer_data:
  assumes "reliable sw" and "rw_written w" and "\<not> suppressContent w"
  obtains s' where "WriteData (logged sw) date p (w, s, l) = ((w, s', l @ [SData p False]), WOk)"
  using assms by (simp add: WriteData_def logged_data Let_def)

lemma answer_trailers:
  assumes "reliable sw"
  obtains s' where "WriteTrailers (logged sw) ts (w, s, l) = ((w, s', l @ [SHeaders ts True]), WOk)"
  using assms by (simp add: WriteTrailers_def logged_reliable_headers)

text \<open>A program whose writes succeed sends its messages and ends as specified.\<close>

definition sentMsgs :: "bytes option list \<Rightarrow> sendOp list" where
  "sentMsgs ms = map (\<lambda>m. SData (encodeMsg m) False) ms"

lemma sentMsgs_simps [simp]: "sentMsgs [] = []" "sentMsgs (m # ms) = SData (encodeMsg m) False # sentMsgs ms"
  "sentMsgs (ms @ ns) = sentMsgs ms @ sentMsgs ns"
  by (simp_all add: sentMsgs_def)

lemma afterMsg_fold: "foldr afterMsg ms (Answered ns st) = Answered (ms @ ns) st" "foldr afterMsg ms (CallPanicked ns) = CallPanicked (ms @ ns)"
  by (induction ms) simp_all

lemma runProg_outcome:
  assumes "reliable sw" and "rw_written w" and "\<not> suppressContent w"
  shows "\<exists>s' ms r. runProg etext (logged sw) date prog (rc, w, s, l) = ((w, s', l @ sentMsgs ms), r)
    \<and> (case r of RReturned v \<Rightarrow> progOutcome prog rc = foldr afterMsg ms (returned v)
       | RPanicked \<Rightarrow> progOutcome prog rc = CallPanicked ms | RStuck \<Rightarrow> False)"
proof (induction prog arbitrary: rc s l)
  case (GReturn v)
  show ?case by (intro exI [of _ s] exI [of _ "[]"] exI [of _ "RReturned v"]) simp
next
  case GPanic
  show ?case by (intro exI [of _ s] exI [of _ "[]"] exI [of _ RPanicked]) simp
next
  case (GSend msg k)
  obtain s1 where d: "WriteData (logged sw) date (encodeMsg msg) (w, s, l) = ((w, s1, l @ [SData (encodeMsg msg) False]), WOk)"
    by (rule answer_data [OF assms])
  from GSend [OF rangeI, of None rc s1 "l @ [SData (encodeMsg msg) False]"] obtain s' ms r where
    "runProg etext (logged sw) date (k None) (rc, w, s1, l @ [SData (encodeMsg msg) False]) = ((w, s', l @ sentMsgs (msg # ms)), r)"
    "case r of RReturned v \<Rightarrow> progOutcome (k None) rc = foldr afterMsg ms (returned v)
       | RPanicked \<Rightarrow> progOutcome (k None) rc = CallPanicked ms | RStuck \<Rightarrow> False" by auto
  then show ?case using d
    by (intro exI [of _ s'] exI [of _ "msg # ms"] exI [of _ r]) (auto simp: gerrOf_def split: ran.splits)
next
  case (GRecv k)
  obtain rc' m where r: "recvMsg rc = (rc', m)" by (metis surj_pair)
  have "progOutcome (GRecv k) rc = progOutcome (k m) rc'"
    "runProg etext (logged sw) date (GRecv k) (rc, w, s, l) = runProg etext (logged sw) date (k m) (rc', w, s, l)" using r by simp_all
  then show ?case using GRecv [OF rangeI, of m rc' s l] by metis
qed

lemma finishOK_outcome:
  assumes "reliable sw" and "rw_written w" and "\<not> suppressContent w"
  obtains s' where "finishOK (logged sw) date resp (w, s, l)
    = ((w, s', l @ sentMsgs (case resp of None \<Rightarrow> [] | Some p \<Rightarrow> [Some p]) @ [SHeaders (statusToHPack StatusOK) True]), WOk)"
proof (cases resp)
  case None
  obtain s' where "WriteTrailers (logged sw) (statusToHPack StatusOK) (w, s, l) = ((w, s', l @ [SHeaders (statusToHPack StatusOK) True]), WOk)"
    by (rule answer_trailers [OF assms(1)])
  then show ?thesis using that None by (simp add: finishOK_def)
next
  case (Some p)
  obtain s1 where d: "WriteData (logged sw) date (encodeMsg (Some p)) (w, s, l) = ((w, s1, l @ [SData (encodeMsg (Some p)) False]), WOk)"
    by (rule answer_data [OF assms])
  obtain s' where "WriteTrailers (logged sw) (statusToHPack StatusOK) (w, s1, l @ [SData (encodeMsg (Some p)) False])
      = ((w, s', (l @ [SData (encodeMsg (Some p)) False]) @ [SHeaders (statusToHPack StatusOK) True]), WOk)"
    by (rule answer_trailers [OF assms(1)])
  then show ?thesis using that Some d by (simp add: finishOK_def)
qed

lemma writeGRPCError_outcome:
  assumes "reliable sw"
  obtains w' s' where "writeGRPCError (logged sw) date st (w, s, l)
    = ((w', s', l @ (if rw_written w then [] else [SHeaders (answerHeaders date) False]) @ [SHeaders (statusToHPack st) True]), WOk)"
proof (cases "rw_written w")
  case True
  then show ?thesis using answer_trailers [OF assms, of "statusToHPack st" w s l] that by (auto simp: writeGRPCError_def answer_again)
next
  case False
  obtain s1 where h: "WriteHeaders (logged sw) date 200 grpcResponseHeaders (w, s, l)
      = ((w\<lparr>rw_status := 200, rw_written := True\<rparr>, s1, l @ [SHeaders (answerHeaders date) False]), WOk)"
    by (rule answer_headers [OF assms False])
  show ?thesis
    by (rule answer_trailers [OF assms, of "statusToHPack st" "w\<lparr>rw_status := 200, rw_written := True\<rparr>" s1
          "l @ [SHeaders (answerHeaders date) False]"])
       (use that h False in \<open>simp add: writeGRPCError_def\<close>)
qed

lemma handleStream_outcome:
  assumes "reliable sw" and "\<not> rw_written w" and "\<not> suppressContent w"
  shows "case progOutcome prog rc of
      Answered ms st \<Rightarrow> \<exists>w' s'. handleStream etext (logged sw) date prog rc (w, s, []) = ((w', s', answerOps date ms st), CReturned WOk)
    | CallPanicked ms \<Rightarrow> \<exists>w' s'. handleStream etext (logged sw) date prog rc (w, s, [])
        = ((w', s', SHeaders (answerHeaders date) False # sentMsgs ms), CPanicked)"
proof -
  let ?w = "w\<lparr>rw_status := 200, rw_written := True\<rparr>"
  obtain s1 where h: "WriteHeaders (logged sw) date 200 grpcResponseHeaders (w, s, []) = ((?w, s1, [] @ [SHeaders (answerHeaders date) False]), WOk)"
    by (rule answer_headers [OF assms(1,2)])
  have w: "rw_written ?w" "\<not> suppressContent ?w" using assms(3) by (simp_all add: suppressContent_def)
  from runProg_outcome [OF assms(1) w, of etext date prog rc s1 "[SHeaders (answerHeaders date) False]"]
  obtain s2 ms r where run: "runProg etext (logged sw) date prog (rc, ?w, s1, [SHeaders (answerHeaders date) False])
      = ((?w, s2, [SHeaders (answerHeaders date) False] @ sentMsgs ms), r)"
    and o: "case r of RReturned v \<Rightarrow> progOutcome prog rc = foldr afterMsg ms (returned v)
       | RPanicked \<Rightarrow> progOutcome prog rc = CallPanicked ms | RStuck \<Rightarrow> False" by blast
  show ?thesis
  proof (cases r)
    case (RReturned v)
    show ?thesis
    proof (cases v)
      case (Inl e)
      obtain w3 s3 where "writeGRPCError (logged sw) date (errToStatus e) (?w, s2, [SHeaders (answerHeaders date) False] @ sentMsgs ms)
        = ((w3, s3, ([SHeaders (answerHeaders date) False] @ sentMsgs ms) @ (if rw_written ?w then [] else [SHeaders (answerHeaders date) False])
            @ [SHeaders (statusToHPack (errToStatus e)) True]), WOk)"
        by (rule writeGRPCError_outcome [OF assms(1)])
      then show ?thesis using h run o RReturned Inl
        by (simp add: handleStream_def afterMsg_fold answerOps_def sentMsgs_def)
    next
      case (Inr resp)
      obtain s3 where "finishOK (logged sw) date resp (?w, s2, [SHeaders (answerHeaders date) False] @ sentMsgs ms)
        = ((?w, s3, ([SHeaders (answerHeaders date) False] @ sentMsgs ms) @ sentMsgs (case resp of None \<Rightarrow> [] | Some p \<Rightarrow> [Some p])
            @ [SHeaders (statusToHPack StatusOK) True]), WOk)"
        by (rule finishOK_outcome [OF assms(1) w])
      then show ?thesis using h run o RReturned Inr
        by (cases resp) (simp_all add: handleStream_def afterMsg_fold answerOps_def sentMsgs_def)
    qed
  next
    case RPanicked
    then show ?thesis using h run o by (simp add: handleStream_def)
  next
    case RStuck
    then show ?thesis using o by simp
  qed
qed

lemma handleUnary_outcome:
  assumes "reliable sw" and "\<not> rw_written w" and "\<not> suppressContent w"
  shows "case result of
      Returns v \<Rightarrow> (case returned v of Answered ms st \<Rightarrow>
          \<exists>w' s'. handleUnary (logged sw) date result (w, s, []) = ((w', s', answerOps date ms st), CReturned WOk) | _ \<Rightarrow> True)
    | Panics \<Rightarrow> handleUnary (logged sw) date result (w, s, []) = ((w, s, []), CPanicked)"
proof (cases result)
  case (Returns v)
  let ?w = "w\<lparr>rw_status := 200, rw_written := True\<rparr>"
  have w: "rw_written ?w" "\<not> suppressContent ?w" using assms(3) by (simp_all add: suppressContent_def)
  obtain s1 where h: "WriteHeaders (logged sw) date 200 grpcResponseHeaders (w, s, []) = ((?w, s1, [] @ [SHeaders (answerHeaders date) False]), WOk)"
    by (rule answer_headers [OF assms(1,2)])
  show ?thesis
  proof (cases v)
    case (Inl e)
    obtain w3 s3 where "writeGRPCError (logged sw) date (errToStatus e) (w, s, [])
        = ((w3, s3, [] @ (if rw_written w then [] else [SHeaders (answerHeaders date) False])
            @ [SHeaders (statusToHPack (errToStatus e)) True]), WOk)"
      by (rule writeGRPCError_outcome [OF assms(1)])
    then show ?thesis using Returns Inl assms(2) by (simp add: handleUnary_def answerOps_def)
  next
    case (Inr resp)
    obtain s3 where "finishOK (logged sw) date resp (?w, s1, [SHeaders (answerHeaders date) False])
        = ((?w, s3, [SHeaders (answerHeaders date) False] @ sentMsgs (case resp of None \<Rightarrow> [] | Some p \<Rightarrow> [Some p])
            @ [SHeaders (statusToHPack StatusOK) True]), WOk)"
      by (rule finishOK_outcome [OF assms(1) w])
    then show ?thesis using Returns Inr h by (cases resp) (simp_all add: handleUnary_def answerOps_def)
  qed
qed (simp add: handleUnary_def)

text \<open>The stream operations of a handler's run and its end are those of an outcome.\<close>

definition answersAs :: "bytes \<Rightarrow> callOutcome \<Rightarrow> (responseWriter \<times> 's \<times> sendOp list) \<times> called \<Rightarrow> bool" where
  "answersAs date oc res =
     (let l = snd (snd (fst res)) in
      case oc of
        Answered msgs st \<Rightarrow> snd res = CReturned WOk \<and> l = answerOps date msgs st
      | CallPanicked msgs \<Rightarrow> snd res = CPanicked \<and> (l = [] \<or> l = SHeaders (answerHeaders date) False # sentMsgs msgs))"

lemma answersAs_refuse:
  assumes "reliable sw" and "\<not> rw_written w"
  shows "answersAs date (Answered [] st) (case writeGRPCError (logged sw) date st (w, s, []) of (ws, e) \<Rightarrow> (ws, CReturned e))"
proof -
  obtain w' s' where "writeGRPCError (logged sw) date st (w, s, []) = ((w', s', [] @ (if rw_written w then []
      else [SHeaders (answerHeaders date) False]) @ [SHeaders (statusToHPack st) True]), WOk)"
    by (rule writeGRPCError_outcome [OF assms(1)])
  then show ?thesis using assms(2) by (simp add: answersAs_def answerOps_def)
qed

lemma answersAs_stream:
  assumes "reliable sw" and "\<not> rw_written w" and "\<not> suppressContent w"
  shows "answersAs date (progOutcome prog rc) (handleStream etext (logged sw) date prog rc (w, s, []))"
  using handleStream_outcome [OF assms, where prog = prog and rc = rc and etext = etext and date = date and s = s]
  by (cases "progOutcome prog rc") (auto simp: answersAs_def)

lemma answersAs_unary:
  assumes "reliable sw" and "\<not> rw_written w" and "\<not> suppressContent w"
  shows "answersAs date (case result of Panics \<Rightarrow> CallPanicked [] | Returns v \<Rightarrow> returned v) (handleUnary (logged sw) date result (w, s, []))"
proof (cases result)
  case (Returns v)
  have "\<exists>ms st. returned v = Answered ms st" by (cases v rule: returned.cases) auto
  then show ?thesis using Returns handleUnary_outcome [OF assms, where result = result and date = date and s = s] by (auto simp: answersAs_def)
next
  case Panics
  then show ?thesis using handleUnary_outcome [OF assms, where result = result and date = date and s = s] by (simp add: answersAs_def)
qed


text \<open>An echo service, called without a request message.\<close>

definition echoService :: ServiceDesc where
  "echoService = \<lparr>sd_Name = ''echo.Echo'', sd_Methods = [\<lparr>md_Name = ''Say'',
     md_UnaryHandler = Some (\<lambda>ctx p. Returns (Inr (case p of None \<Rightarrow> Some ''hi'' | Some p \<Rightarrow> Some p))),
     md_ServerStreamH = None, md_ClientStreamH = None, md_BidiStreamH = None\<rparr>]\<rparr>"

definition echoRequest :: Request where
  "echoRequest = emptyReq\<lparr>Method := ''POST'', Path := ''/echo.Echo/Say'', Headers := [field HeaderContentType ContentTypeGRPC]\<rparr>"

lemma echo_outcome:
  "grpcCall (fst (RegisterService echoService NewServiceRegistrar)) echoRequest None = Answered [Some ''hi''] StatusOK"
  by code_simp

lemma buffer_reliable: "reliable bufferStreamWriter"
  by (simp add: reliable_def bufferStreamWriter_def bufferSendHeaders_def bufferSendData_def)


section \<open>The reflection method\<close>

text \<open>Every request of a reflection call gets one answer, in order, and the call then succeeds.\<close>

lemma reflection_answers_each:
  "recvAll n rc = (ms, Some GEOF) \<Longrightarrow>
   progOutcome (noResponse (reflectionHandler r n)) rc = Answered (map (\<lambda>m. Some (reflectionAnswer r (bval m))) ms) StatusOK"
proof (induction n arbitrary: rc ms)
  case (Suc n)
  obtain rc' m where m: "recvMsg rc = (rc', m)" by (metis surj_pair)
  show ?case
  proof (cases m)
    case (Inl e)
    then show ?thesis using Suc.prems m by (simp add: noResponse_def)
  next
    case (Inr b)
    obtain ms' where "recvAll n rc' = (ms', Some GEOF)" "ms = b # ms'" using Suc.prems m Inr by (auto split: prod.splits)
    then show ?thesis using Suc.IH [of rc' ms'] m Inr by (simp add: noResponse_def)
  qed
qed simp

text \<open>The branch for extension numbers is never taken: no decoded request asks for them.\<close>

lemma setRequestField_extensions [simp]: "allExtensionNumbers (setRequestField n v req) = allExtensionNumbers req"
  by (simp add: setRequestField_def)

lemma request_loop_extensions:
  "request_loop data pos req = Inr req' \<Longrightarrow> allExtensionNumbers req' = allExtensionNumbers req"
proof (induction "length data - pos" arbitrary: pos req rule: less_induct)
  case less
  have IH: "request_loop data q r = Inr req' \<Longrightarrow> pos < length data \<Longrightarrow> pos < q \<Longrightarrow> allExtensionNumbers req' = allExtensionNumbers r" for q r
    by (rule less.hyps) simp_all
  show ?case using less.prems
    by (subst (asm) request_loop.simps)
       (auto simp: Let_def split: prod.splits if_splits dest!: IH)
qed

lemma extension_numbers_never_asked: "decodeReflectionRequest data = Inr req \<Longrightarrow> allExtensionNumbers req = []"
  by (auto simp: decodeReflectionRequest_def emptyRequest_def dest: request_loop_extensions)

end
