(* ===== verification/Health.thy ===== *)
theory Health
  imports ProtoWire "HOL-Library.Sublist"
begin

text \<open>
  The health service (grpcserver/health.go): the status of each service, the channels of the
  watchers, and the operations on both. Channels are references into a store; a send on a closed
  channel or a second close, which panic in Go, set a flag. Every operation runs under the
  server's lock, so an execution is a sequence of operations, in any order.
\<close>

record channel =
  ch_buf :: "ServingStatus list"
  ch_closed :: bool

record HealthServer =
  hs_status :: "(string \<times> ServingStatus) list"
  hs_watchers :: "(string \<times> nat list) list"
  hs_chans :: "nat \<Rightarrow> channel"
  hs_next :: nat
  hs_panicked :: bool

definition watchBuffer :: nat where "watchBuffer = 4"

definition NewHealthServer :: HealthServer where
  "NewHealthServer = \<lparr>hs_status = [], hs_watchers = [], hs_chans = (\<lambda>_. \<lparr>ch_buf = [], ch_closed = False\<rparr>),
     hs_next = 0, hs_panicked = False\<rparr>"

definition watchersOf :: "HealthServer \<Rightarrow> string \<Rightarrow> nat list" where
  "watchersOf h service = (case map_of (hs_watchers h) service of None \<Rightarrow> [] | Some chs \<Rightarrow> chs)"

text \<open>The send that does not wait.\<close>

definition trySend :: "ServingStatus \<Rightarrow> nat \<Rightarrow> HealthServer \<Rightarrow> HealthServer" where
  "trySend status ch h =
     (if ch_closed (hs_chans h ch) then h\<lparr>hs_panicked := True\<rparr>
      else if length (ch_buf (hs_chans h ch)) < watchBuffer
      then h\<lparr>hs_chans := (hs_chans h)(ch := (hs_chans h ch)\<lparr>ch_buf := ch_buf (hs_chans h ch) @ [status]\<rparr>)\<rparr>
      else h)"

definition SetServingStatus :: "string \<Rightarrow> ServingStatus \<Rightarrow> HealthServer \<Rightarrow> HealthServer" where
  "SetServingStatus service status h =
     (let h = h\<lparr>hs_status := aput service status (hs_status h)\<rparr> in fold (trySend status) (watchersOf h service) h)"

definition Status :: "HealthServer \<Rightarrow> string \<Rightarrow> ServingStatus" where
  "Status h service = (case map_of (hs_status h) service of Some s \<Rightarrow> s | None \<Rightarrow> ServingStatusServiceUnknown)"

definition HealthShutdown :: "HealthServer \<Rightarrow> HealthServer" where
  "HealthShutdown h = fold (\<lambda>svc. SetServingStatus svc ServingStatusNotServing) (map fst (hs_status h)) h"

definition subscribe :: "string \<Rightarrow> HealthServer \<Rightarrow> HealthServer \<times> nat" where
  "subscribe service h =
     (let ch = hs_next h;
          h = h\<lparr>hs_next := ch + 1, hs_chans := (hs_chans h)(ch := \<lparr>ch_buf = [], ch_closed = False\<rparr>)\<rparr>
      in (h\<lparr>hs_watchers := aput service (watchersOf h service @ [ch]) (hs_watchers h)\<rparr>, ch))"

definition closeChan :: "nat \<Rightarrow> HealthServer \<Rightarrow> HealthServer" where
  "closeChan ch h =
     (if ch_closed (hs_chans h ch) then h\<lparr>hs_panicked := True\<rparr>
      else h\<lparr>hs_chans := (hs_chans h)(ch := (hs_chans h ch)\<lparr>ch_closed := True\<rparr>)\<rparr>)"

definition unsubscribe :: "string \<Rightarrow> nat \<Rightarrow> HealthServer \<Rightarrow> HealthServer" where
  "unsubscribe service ch h =
     (if ch \<in> set (watchersOf h service)
      then closeChan ch (h\<lparr>hs_watchers := aput service (remove1 ch (watchersOf h service)) (hs_watchers h)\<rparr>)
      else h)"

text \<open>The receive of a Watch loop: the next status, the end of a closed channel, or a wait.\<close>

datatype watched = GotStatus ServingStatus | ChanClosed | WouldWait

definition takeStatus :: "nat \<Rightarrow> HealthServer \<Rightarrow> HealthServer \<times> watched" where
  "takeStatus ch h =
     (case ch_buf (hs_chans h ch) of
        s # rest \<Rightarrow> (h\<lparr>hs_chans := (hs_chans h)(ch := (hs_chans h ch)\<lparr>ch_buf := rest\<rparr>)\<rparr>, GotStatus s)
      | [] \<Rightarrow> (h, if ch_closed (hs_chans h ch) then ChanClosed else WouldWait))"

text \<open>The unary Check method, on the status map of the moment.\<close>

definition healthCheck :: "HealthServer \<Rightarrow> bytes \<Rightarrow> bytes outcome option" where
  "healthCheck h reqPayload =
     (case decodeHealthCheckRequest reqPayload of
        None \<Rightarrow> None
      | Some Panics \<Rightarrow> Some Panics
      | Some (Returns serviceName) \<Rightarrow> Some (Returns (encodeHealthCheckResponse (Status h serviceName))))"

lemma healthCheck_answers:
  "length service < 2 ^ 32 \<Longrightarrow>
   healthCheck h (encodeHealthCheckRequest service) = Some (Returns [CHR 0x08, byte (statusNumber (Status h service))])"
  by (simp add: healthCheck_def health_request_roundtrip encodeHealthCheckResponse_def)

section \<open>Executions\<close>

datatype healthOp =
    OpSet string ServingStatus | OpShutdown | OpSubscribe string | OpUnsubscribe string nat | OpTake nat

text \<open>
  Beside the server, an execution keeps what was published to each channel while it was
  subscribed, and what its watcher has taken from it.
\<close>

type_synonym watchLog = "(nat \<Rightarrow> ServingStatus list) \<times> (nat \<Rightarrow> ServingStatus list)"

definition publish :: "string \<Rightarrow> ServingStatus \<Rightarrow> HealthServer \<times> watchLog \<Rightarrow> HealthServer \<times> watchLog" where
  "publish service status = (\<lambda>(h, pub, got).
     (SetServingStatus service status h, (\<lambda>ch. if ch \<in> set (watchersOf h service) then pub ch @ [status] else pub ch), got))"

fun healthStep :: "healthOp \<Rightarrow> HealthServer \<times> watchLog \<Rightarrow> HealthServer \<times> watchLog" where
  "healthStep (OpSet service status) hl = publish service status hl"
| "healthStep OpShutdown hl = fold (\<lambda>svc. publish svc ServingStatusNotServing) (map fst (hs_status (fst hl))) hl"
| "healthStep (OpSubscribe service) (h, l) = (fst (subscribe service h), l)"
| "healthStep (OpUnsubscribe service ch) (h, l) = (unsubscribe service ch h, l)"
| "healthStep (OpTake ch) (h, pub, got) =
     (case takeStatus ch h of
        (h, GotStatus s) \<Rightarrow> (h, pub, got(ch := got ch @ [s]))
      | (h, _) \<Rightarrow> (h, pub, got))"

definition healthRun :: "healthOp list \<Rightarrow> HealthServer \<times> watchLog" where
  "healthRun ops = fold healthStep ops (NewHealthServer, (\<lambda>_. []), (\<lambda>_. []))"

lemma OpShutdown_fst: "fst (healthStep OpShutdown hl) = HealthShutdown (fst hl)"
proof -
  have "fst (fold (\<lambda>svc. publish svc ServingStatusNotServing) svcs hl) = fold (\<lambda>svc. SetServingStatus svc ServingStatusNotServing) svcs (fst hl)" for svcs hl
    by (induction svcs arbitrary: hl) (simp_all add: publish_def case_prod_beta)
  then show ?thesis by (simp add: HealthShutdown_def)
qed

section \<open>No watcher is sent to after it has gone\<close>

definition afterSend :: "ServingStatus \<Rightarrow> channel \<Rightarrow> channel" where
  "afterSend status c = (if length (ch_buf c) < watchBuffer then c\<lparr>ch_buf := ch_buf c @ [status]\<rparr> else c)"

lemma trySend_fold:
  assumes "distinct chs" and "\<forall>ch \<in> set chs. \<not> ch_closed (hs_chans h ch)"
  shows "fold (trySend status) chs h = h\<lparr>hs_chans := (\<lambda>ch. if ch \<in> set chs then afterSend status (hs_chans h ch) else hs_chans h ch)\<rparr>"
  using assms
proof (induction chs arbitrary: h)
  case (Cons ch chs)
  let ?h = "trySend status ch h"
  have h: "?h = h\<lparr>hs_chans := (hs_chans h)(ch := afterSend status (hs_chans h ch))\<rparr>"
    using Cons.prems by (simp add: trySend_def afterSend_def)
  have "\<forall>x \<in> set chs. \<not> ch_closed (hs_chans ?h x)" using Cons.prems by (auto simp: h)
  from Cons.IH [OF _ this] Cons.prems(1)
  have "fold (trySend status) chs ?h = ?h\<lparr>hs_chans := (\<lambda>x. if x \<in> set chs then afterSend status (hs_chans ?h x) else hs_chans ?h x)\<rparr>" by simp
  then show ?case using Cons.prems(1) by (auto simp: h fun_eq_iff)
qed simp

text \<open>A channel holds at most its buffer; what was taken and what waits in it was published, in order, and is all of it as long as the buffer sufficed.\<close>

definition chanOk :: "ServingStatus list \<Rightarrow> ServingStatus list \<Rightarrow> channel \<Rightarrow> bool" where
  "chanOk pub got c \<longleftrightarrow> length (ch_buf c) \<le> watchBuffer \<and> subseq (got @ ch_buf c) pub
     \<and> (length pub \<le> watchBuffer \<longrightarrow> got @ ch_buf c = pub)"

lemma chanOk_send:
  assumes "chanOk pub got c"
  shows "chanOk (pub @ [status]) got (afterSend status c)"
proof -
  have "subseq (got @ ch_buf c @ [status]) (pub @ [status])"
    using assms list_emb_append_mono [of "(=)" "got @ ch_buf c" pub "[status]" "[status]"] by (simp add: chanOk_def)
  moreover have "subseq (got @ ch_buf c) (pub @ [status])"
    using assms subseq_order.order_trans [of "got @ ch_buf c" pub "pub @ [status]"] prefix_imp_subseq [of pub "pub @ [status]"]
    by (simp add: chanOk_def)
  moreover have "length (ch_buf c) < watchBuffer" if "length (pub @ [status]) \<le> watchBuffer"
  proof -
    have "got @ ch_buf c = pub" using assms that by (simp add: chanOk_def)
    then have "length (ch_buf c) \<le> length pub" by (metis le_add2 length_append)
    then show ?thesis using that by simp
  qed
  ultimately show ?thesis using assms by (auto simp: chanOk_def afterSend_def)
qed

lemma chanOk_take: "chanOk pub got c \<Longrightarrow> ch_buf c = s # rest \<Longrightarrow> chanOk pub (got @ [s]) (c\<lparr>ch_buf := rest\<rparr>)"
  by (simp add: chanOk_def)

lemma chanOk_fresh: "chanOk [] [] \<lparr>ch_buf = [], ch_closed = b\<rparr>"
  by (simp add: chanOk_def)

text \<open>Subscribed channels are open, and each is subscribed once.\<close>

definition watchersOk :: "(string \<Rightarrow> nat list) \<Rightarrow> nat \<Rightarrow> (nat \<Rightarrow> channel) \<Rightarrow> bool" where
  "watchersOk ws next chans \<longleftrightarrow> (\<forall>svc. distinct (ws svc) \<and> (\<forall>ch \<in> set (ws svc). ch < next \<and> \<not> ch_closed (chans ch)))
     \<and> (\<forall>svc svc' ch. ch \<in> set (ws svc) \<longrightarrow> ch \<in> set (ws svc') \<longrightarrow> svc = svc')"

lemma watchersOk_add:
  "watchersOk ws next chans \<Longrightarrow>
   watchersOk (ws(svc := ws svc @ [next])) (Suc next) (chans(next := \<lparr>ch_buf = [], ch_closed = False\<rparr>))"
  by (auto simp: watchersOk_def less_Suc_eq)

lemma watchersOk_remove:
  assumes "watchersOk ws next chans" and "ch \<in> set (ws svc)"
  shows "watchersOk (ws(svc := remove1 ch (ws svc))) next (chans(ch := c))"
proof -
  have d: "distinct (ws svc)" using assms(1) by (simp add: watchersOk_def)
  then have r: "set (remove1 ch (ws svc)) = set (ws svc) - {ch}" by simp
  have "ch \<notin> set (ws svc')" if "svc' \<noteq> svc" for svc' using assms that unfolding watchersOk_def by blast
  then show ?thesis using assms(1) r d unfolding watchersOk_def by (auto simp: distinct_remove1)
qed

lemma watchersOk_chans:
  "watchersOk ws next chans \<Longrightarrow> (\<And>ch. ch_closed (chans' ch) = ch_closed (chans ch)) \<Longrightarrow> watchersOk ws next chans'"
  by (simp add: watchersOk_def)

definition healthInv :: "HealthServer \<times> watchLog \<Rightarrow> bool" where
  "healthInv = (\<lambda>(h, pub, got). \<not> hs_panicked h \<and> watchersOk (watchersOf h) (hs_next h) (hs_chans h)
     \<and> (\<forall>ch. chanOk (pub ch) (got ch) (hs_chans h ch)) \<and> (\<forall>ch \<ge> hs_next h. pub ch = [] \<and> got ch = []))"

lemma watchersOf_put [simp]: "watchersOf (h\<lparr>hs_watchers := aput svc chs (hs_watchers h)\<rparr>) = (watchersOf h)(svc := chs)"
  by (simp add: watchersOf_def fun_eq_iff)

lemma watchersOf_other [simp]:
  "watchersOf (h\<lparr>hs_status := st\<rparr>) = watchersOf h" "watchersOf (h\<lparr>hs_chans := cs\<rparr>) = watchersOf h"
  "watchersOf (h\<lparr>hs_next := n\<rparr>) = watchersOf h" "watchersOf (h\<lparr>hs_panicked := b\<rparr>) = watchersOf h"
  by (simp_all add: watchersOf_def fun_eq_iff)

lemma healthInv_publish:
  assumes "healthInv (h, pub, got)"
  shows "healthInv (publish svc status (h, pub, got))"
proof -
  have I: "\<not> hs_panicked h" "watchersOk (watchersOf h) (hs_next h) (hs_chans h)" "\<And>ch. chanOk (pub ch) (got ch) (hs_chans h ch)"
    "\<And>ch. hs_next h \<le> ch \<Longrightarrow> pub ch = [] \<and> got ch = []" using assms by (auto simp: healthInv_def)
  let ?chs = "watchersOf h svc" let ?h = "h\<lparr>hs_status := aput svc status (hs_status h)\<rparr>"
  let ?cs = "\<lambda>ch. if ch \<in> set ?chs then afterSend status (hs_chans h ch) else hs_chans h ch"
  have W: "distinct ?chs" "\<forall>ch \<in> set ?chs. \<not> ch_closed (hs_chans ?h ch)" "\<And>ch. ch \<in> set ?chs \<Longrightarrow> ch < hs_next h"
    using I(2) by (auto simp: watchersOk_def)
  have set: "SetServingStatus svc status h = ?h\<lparr>hs_chans := ?cs\<rparr>"
    using trySend_fold [OF W(1,2)] by (simp add: SetServingStatus_def Let_def cong: if_cong)
  have "watchersOk (watchersOf h) (hs_next h) ?cs" by (rule watchersOk_chans [OF I(2)]) (simp add: afterSend_def)
  moreover have "ch \<notin> set ?chs" if "hs_next h \<le> ch" for ch using W(3) that by (meson leD)
  ultimately show ?thesis using I chanOk_send by (simp add: healthInv_def publish_def set)
qed

lemma healthInv_unsubscribe:
  assumes "healthInv (h, l)"
  shows "healthInv (unsubscribe svc ch h, l)"
proof (cases "ch \<in> set (watchersOf h svc)")
  case True
  have w: "watchersOk (watchersOf h) (hs_next h) (hs_chans h)" using assms by (cases l) (simp add: healthInv_def)
  then have "\<not> ch_closed (hs_chans h ch)" using True by (auto simp: watchersOk_def)
  then have u: "unsubscribe svc ch h = h\<lparr>hs_watchers := aput svc (remove1 ch (watchersOf h svc)) (hs_watchers h),
      hs_chans := (hs_chans h)(ch := (hs_chans h ch)\<lparr>ch_closed := True\<rparr>)\<rparr>"
    using True by (simp add: unsubscribe_def closeChan_def)
  show ?thesis using assms watchersOk_remove [OF w True] by (cases l) (auto simp: healthInv_def u chanOk_def)
qed (use assms in \<open>simp add: unsubscribe_def\<close>)

lemma healthInv_step: "healthInv hl \<Longrightarrow> healthInv (healthStep op hl)"
proof -
  assume I: "healthInv hl"
  obtain h pub got where hl: "hl = (h, pub, got)" by (cases hl)
  show ?thesis
  proof (cases op)
    case (OpSet svc st)
    then show ?thesis using I hl by (simp add: healthInv_publish)
  next
    case OpShutdown
    have "healthInv x \<Longrightarrow> healthInv (fold (\<lambda>svc. publish svc ServingStatusNotServing) svcs x)" for svcs x
    proof (induction svcs arbitrary: x)
      case (Cons svc svcs)
      have "healthInv (publish svc ServingStatusNotServing x)" using Cons.prems by (cases x) (simp add: healthInv_publish)
      then show ?case using Cons.IH by simp
    qed simp
    then show ?thesis using I OpShutdown by simp
  next
    case (OpSubscribe svc)
    have "watchersOf (fst (subscribe svc h)) = (watchersOf h)(svc := watchersOf h svc @ [hs_next h])"
      by (simp add: watchersOf_def subscribe_def fun_eq_iff Let_def)
    then show ?thesis using OpSubscribe I hl watchersOk_add [of "watchersOf h" "hs_next h" "hs_chans h" svc] chanOk_fresh
      by (auto simp: healthInv_def subscribe_def Let_def)
  next
    case (OpUnsubscribe svc ch)
    then show ?thesis using I hl healthInv_unsubscribe by simp
  next
    case (OpTake ch)
    have "healthInv (h\<lparr>hs_chans := (hs_chans h)(ch := (hs_chans h ch)\<lparr>ch_buf := rest\<rparr>)\<rparr>, pub, got(ch := got ch @ [s]))"
      if b: "ch_buf (hs_chans h ch) = s # rest" for s rest
    proof -
      have "chanOk (pub ch) (got ch) (hs_chans h ch)" using I hl by (simp add: healthInv_def)
      moreover from this have "pub ch \<noteq> []" using b by (auto simp: chanOk_def)
      ultimately show ?thesis using I hl b watchersOk_chans [of "watchersOf h" "hs_next h" "hs_chans h"]
        by (auto simp: healthInv_def chanOk_take)
    qed
    then show ?thesis using I OpTake hl by (simp add: takeStatus_def split: list.split)
  qed
qed

text \<open>
  C35. The health service never panics and never misleads a watcher: in every order of status
  changes, shutdowns, subscriptions, cancellations and reads, nothing is sent on a closed channel
  and none is closed twice; a channel never holds more than four statuses; and what a watcher has
  taken and has still waiting is what was published to it, in order, without duplicates or
  inventions, and complete as long as no more than four statuses were published.
\<close>

theorem health_watch_safe:
  "case healthRun ops of (h, pub, got) \<Rightarrow> \<not> hs_panicked h
     \<and> length (ch_buf (hs_chans h ch)) \<le> 4 \<and> subseq (got ch @ ch_buf (hs_chans h ch)) (pub ch)
     \<and> (length (pub ch) \<le> 4 \<longrightarrow> got ch @ ch_buf (hs_chans h ch) = pub ch)"
proof -
  have "healthInv (fold healthStep ops hl)" if "healthInv hl" for hl
    using that by (induction ops arbitrary: hl) (simp_all add: healthInv_step)
  moreover have "healthInv (NewHealthServer, (\<lambda>_. []), (\<lambda>_. []))"
    by (simp add: healthInv_def NewHealthServer_def watchersOk_def watchersOf_def chanOk_fresh)
  ultimately have "healthInv (healthRun ops)" by (simp add: healthRun_def)
  then show ?thesis by (auto simp: healthInv_def chanOk_def watchBuffer_def)
qed

definition watchRun :: "healthOp list" where
  "watchRun = [OpSet ''s'' ServingStatusServing, OpSubscribe ''s'', OpSet ''s'' ServingStatusNotServing, OpTake 0,
     OpShutdown, OpUnsubscribe ''s'' 0]"

theorem health_watch_safe_witness:
  "case healthRun watchRun of (h, pub, got) \<Rightarrow> pub 0 = [ServingStatusNotServing, ServingStatusNotServing]
     \<and> got 0 @ ch_buf (hs_chans h 0) = pub 0 \<and> \<not> hs_panicked h"
proof -
  obtain h pub got where r: "healthRun watchRun = (h, pub, got)" by (cases "healthRun watchRun")
  have "fst (snd (healthRun watchRun)) 0 = [ServingStatusNotServing, ServingStatusNotServing]" by code_simp
  then show ?thesis using health_watch_safe [where ops = watchRun and ch = 0] r by simp
qed

text \<open>When the buffer is full it is the newest status that is lost: a watcher that then catches up ends on an outdated one.\<close>

lemma newest_status_lost:
  "let (h, pub, got) = healthRun ([OpSet ''s'' ServingStatusServing, OpSubscribe ''s'']
      @ replicate 4 (OpSet ''s'' ServingStatusServing) @ [OpSet ''s'' ServingStatusNotServing] @ replicate 4 (OpTake 0))
   in Status h ''s'' = ServingStatusNotServing \<and> got 0 = replicate 4 ServingStatusServing \<and> ch_buf (hs_chans h 0) = []"
  by code_simp

end
