(* ===== verification/Float64.thy ===== *)
theory Float64
  imports Complex_Main "HOL-Library.Log_Nat"
begin

text \<open>
  Go's \<open>float64\<close>, as far as the sources compute with it: a finite value is the rational number it
  denotes, and every arithmetic operation is the exact one followed by \<open>fl64\<close>, the rounding of
  IEEE 754 binary64 to nearest, ties to even, with gradual underflow. There is no overflow here:
  the sources compare a large result with a bound, and infinity compares as a large number does.
  A product and a following sum are rounded separately, as on amd64 (a compiler may fuse them).
\<close>

definition pow2 :: "int \<Rightarrow> rat" where
  "pow2 e = (if e \<ge> 0 then 2 ^ nat e else 1 / 2 ^ nat (- e))"

text \<open>The exponent of a positive number: \<open>2 ^ k \<le> x < 2 ^ (k + 1)\<close>.\<close>

definition flog2 :: "rat \<Rightarrow> int" where
  "flog2 x = (case quotient_of x of (n, d) \<Rightarrow>
     let k = int (floorlog 2 (nat n)) - int (floorlog 2 (nat d)) in if pow2 k \<le> x then k else k - 1)"

definition roundEven :: "rat \<Rightarrow> int" where
  "roundEven y =
     (let f = \<lfloor>y\<rfloor>; r = y - of_int f in
      if r < 1 / 2 then f else if r > 1 / 2 then f + 1 else if even f then f else f + 1)"

definition ulpExp :: "rat \<Rightarrow> int" where
  "ulpExp x = max (flog2 \<bar>x\<bar> - 52) (- 1074)"

definition fl64 :: "rat \<Rightarrow> rat" where
  "fl64 x = (if x = 0 then 0 else of_int (roundEven (x / pow2 (ulpExp x))) * pow2 (ulpExp x))"

section \<open>Rounding is sign-preserving and accurate\<close>

lemma pow2_pos [simp]: "0 < pow2 e"
  by (simp add: pow2_def)

lemma pow2_nonneg [simp]: "0 \<le> pow2 e"
  by (simp add: less_imp_le)

lemma pow2_add: "pow2 (a + b) = pow2 a * pow2 b"
proof -
  have p: "pow2 e = 2 powi e" for e
    by (simp add: pow2_def power_int_def field_simps)
  show ?thesis by (simp add: p power_int_add)
qed

lemma pow2_mono: "a \<le> b \<Longrightarrow> pow2 a \<le> pow2 b"
proof -
  assume "a \<le> b"
  then have "pow2 b = pow2 a * 2 ^ nat (b - a)" using pow2_add [of a "b - a"] by (simp add: pow2_def)
  moreover have "(1 :: rat) \<le> 2 ^ nat (b - a)" by simp
  ultimately show ?thesis using pow2_pos [of a] by (metis mult.right_neutral mult_le_cancel_left_pos)
qed

lemma roundEven_near: "\<bar>of_int (roundEven y) - y\<bar> \<le> 1 / 2"
proof -
  have "0 \<le> y - of_int \<lfloor>y\<rfloor>" "y - of_int \<lfloor>y\<rfloor> < 1" by linarith+
  then show ?thesis unfolding roundEven_def Let_def by (auto simp: abs_le_iff)
qed

lemma roundEven_nonneg: "0 \<le> y \<Longrightarrow> 0 \<le> roundEven y"
  by (auto simp: roundEven_def Let_def)

lemma fl64_nonneg [simp]: "0 \<le> x \<Longrightarrow> 0 \<le> fl64 x"
  by (simp add: fl64_def roundEven_nonneg order.strict_implies_order)

lemma floorlog_nat:
  assumes "0 < n"
  shows "(2 :: rat) ^ (floorlog 2 n - 1) \<le> of_nat n" and "(of_nat n :: rat) < 2 ^ floorlog 2 n"
proof -
  have b: "2 ^ (floorlog 2 n - 1) \<le> n \<and> n < 2 ^ floorlog 2 n" using floorlog_bounds [of n 2] assms by simp
  then have "of_nat (2 ^ (floorlog 2 n - 1)) \<le> (of_nat n :: rat)" by (simp only: of_nat_le_iff)
  then show "(2 :: rat) ^ (floorlog 2 n - 1) \<le> of_nat n" by simp
  from b have "(of_nat n :: rat) < of_nat (2 ^ floorlog 2 n)" by (simp only: of_nat_less_iff)
  then show "(of_nat n :: rat) < 2 ^ floorlog 2 n" by simp
qed

lemma flog2_le:
  assumes "0 < x"
  shows "pow2 (flog2 x) \<le> x"
proof -
  obtain n d where q: "quotient_of x = (n, d)" by (cases "quotient_of x")
  have x: "x = of_int n / of_int d" and d: "0 < d" using quotient_of_div [OF q] quotient_of_denom_pos [OF q] by auto
  have n: "0 < n" using assms x d by (simp add: zero_less_divide_iff)
  let ?a = "floorlog 2 (nat n)" and ?b = "floorlog 2 (nat d)"
  have a: "1 \<le> ?a" using n by (simp add: floorlog_def)
  have "pow2 (int ?a - int ?b - 1) = 2 ^ (?a - 1) / 2 ^ ?b"
  proof -
    have "pow2 (int ?a - int ?b - 1) * 2 ^ ?b = pow2 (int ?a - int ?b - 1) * pow2 (int ?b)" by (simp add: pow2_def)
    also have "\<dots> = pow2 (int ?a - 1)" by (simp flip: pow2_add)
    also have "\<dots> = 2 ^ (?a - 1)" using a by (simp add: pow2_def nat_diff_distrib)
    finally show ?thesis by (simp add: field_simps)
  qed
  also have "\<dots> \<le> of_nat (nat n) / of_nat (nat d)"
    using floorlog_nat(1) [of "nat n"] floorlog_nat(2) [of "nat d"] n d by (intro frac_le) auto
  also have "\<dots> = x" using n d by (simp add: x)
  finally show ?thesis using q by (simp add: flog2_def Let_def)
qed

text \<open>The rounding error: half an ulp, relative to the number or (near zero) absolute.\<close>

lemma fl64_error: "\<bar>fl64 x - x\<bar> \<le> \<bar>x\<bar> * pow2 (- 53) + pow2 (- 1075)"
proof (cases "x = 0")
  case False
  let ?e = "ulpExp x" let ?u = "pow2 ?e"
  have "\<bar>fl64 x - x\<bar> = \<bar>of_int (roundEven (x / ?u)) - x / ?u\<bar> * ?u"
  proof -
    have u: "0 < ?u" by simp
    have "fl64 x - x = (of_int (roundEven (x / ?u)) - x / ?u) * ?u"
      using False u less_imp_neq [OF u] by (simp add: fl64_def left_diff_distrib)
    then show ?thesis using u by (simp only: abs_mult abs_of_pos)
  qed
  also have "\<dots> \<le> 1 / 2 * ?u" by (rule mult_right_mono [OF roundEven_near]) (simp add: order.strict_implies_order)
  also have "?u \<le> \<bar>x\<bar> * pow2 (- 52) + pow2 (- 1074)"
  proof -
    have "pow2 (flog2 \<bar>x\<bar> - 52) = pow2 (flog2 \<bar>x\<bar>) * pow2 (- 52)" by (simp flip: pow2_add)
    also have "\<dots> \<le> \<bar>x\<bar> * pow2 (- 52)" using flog2_le [of "\<bar>x\<bar>"] False by (intro mult_right_mono) (auto simp: order.strict_implies_order)
    finally have "pow2 (flog2 \<bar>x\<bar> - 52) \<le> \<bar>x\<bar> * pow2 (- 52)" .
    moreover have "0 \<le> \<bar>x\<bar> * pow2 (- 52)" by (simp add: order.strict_implies_order)
    moreover have "0 < pow2 (- 1074)" by simp
    moreover have "?u = pow2 (- 1074) \<or> ?u = pow2 (flog2 \<bar>x\<bar> - 52)" by (auto simp: ulpExp_def max_def)
    ultimately show ?thesis by linarith
  qed
  finally show ?thesis using pow2_add [of "- 53" 1] pow2_add [of "- 1075" 1] by (simp add: pow2_def field_simps)
qed (simp add: fl64_def order.strict_implies_order)

lemma fl64_upper: "0 \<le> x \<Longrightarrow> fl64 x \<le> x + x * pow2 (- 53) + pow2 (- 1075)"
  using fl64_error [of x] by (simp add: abs_le_iff)

text \<open>Integers of up to 53 bits are represented exactly.\<close>

lemma fl64_int:
  assumes "\<bar>n\<bar> < 2 ^ 53"
  shows "fl64 (of_int n) = of_int n"
proof (cases "n = 0")
  case False
  let ?x = "of_int n :: rat"
  have "flog2 \<bar>?x\<bar> \<le> 52"
  proof (rule ccontr)
    assume "\<not> flog2 \<bar>?x\<bar> \<le> 52"
    then have "pow2 53 \<le> pow2 (flog2 \<bar>?x\<bar>)" by (intro pow2_mono) simp
    also have "\<dots> \<le> \<bar>?x\<bar>" using False by (intro flog2_le) simp
    finally have "(of_int (2 ^ 53) :: rat) \<le> of_int \<bar>n\<bar>" by (simp add: pow2_def)
    then show False using assms by (simp only: of_int_le_iff)
  qed
  then have e: "ulpExp ?x \<le> 0" by (simp add: ulpExp_def)
  then have "?x / pow2 (ulpExp ?x) = of_int (n * 2 ^ nat (- ulpExp ?x))" by (cases "ulpExp ?x = 0") (auto simp: pow2_def)
  then have "of_int (roundEven (?x / pow2 (ulpExp ?x))) = ?x / pow2 (ulpExp ?x)"
    by (simp only: roundEven_def floor_of_int Let_def) simp
  then show ?thesis using False less_imp_neq [OF pow2_pos [of "ulpExp ?x"]] by (simp add: fl64_def)
qed (simp add: fl64_def)

end
