(* ===== verification/TokenBucket.thy ===== *)
theory TokenBucket
  imports Float64 GoLib
begin

text \<open>
  The token bucket of the rate limiter (middleware/ratelimit.go, \<open>tokenBucket\<close>): a lazy refill in
  floating-point arithmetic, and how many requests it admits.

  A time is a number of nanoseconds, a duration an \<open>int64\<close>. The clock is read anew at every call of
  \<open>now\<close>; its readings are arguments. A rate is a finite \<open>float64\<close> (theory Float64). The last three
  fields of a bucket belong to the list of theory RateLimit.
\<close>

section \<open>The token bucket\<close>

type_synonym tref = nat

record tokenBucket =
  tb_rate :: rat
  tb_burst :: rat
  tb_lastSeen :: int
  tb_tokens :: rat
  tb_last :: int
  tb_key :: bytes
  tb_prev :: "tref option"
  tb_next :: "tref option"
  tb_inList :: bool

definition second :: int where "second = 1000000000"

text \<open>\<open>Time.Sub\<close> saturates; \<open>Duration.Seconds\<close> adds whole seconds and the fraction.\<close>

definition timeSub :: "int \<Rightarrow> int \<Rightarrow> int" where
  "timeSub t u = max (- (2 ^ 63)) (min maxInt64 (t - u))"

definition durSeconds :: "int \<Rightarrow> rat" where
  "durSeconds d = fl64 (fl64 (of_int (d div second)) + fl64 (fl64 (of_int (d mod second)) / fl64 (of_int second)))"

definition newTokenBucket :: "rat \<Rightarrow> int \<Rightarrow> int \<Rightarrow> tokenBucket" where
  "newTokenBucket rate burst now =
     \<lparr>tb_rate = rate, tb_burst = fl64 (of_int burst), tb_lastSeen = int64 now, tb_tokens = fl64 (of_int burst), tb_last = now,
      tb_key = [], tb_prev = None, tb_next = None, tb_inList = False\<rparr>"

definition refill :: "int \<Rightarrow> tokenBucket \<Rightarrow> tokenBucket" where
  "refill now b =
     (let elapsed = timeSub now (tb_last b) in
      if elapsed > 0
      then let tokens = fl64 (tb_tokens b + fl64 (durSeconds elapsed * tb_rate b));
               tokens = (if tokens > tb_burst b then tb_burst b else tokens)
           in b\<lparr>tb_tokens := tokens, tb_last := now\<rparr>
      else b)"

definition tbAllow :: "int \<Rightarrow> tokenBucket \<Rightarrow> tokenBucket \<times> bool" where
  "tbAllow now b =
     (let b = refill now (b\<lparr>tb_lastSeen := int64 now\<rparr>) in
      if tb_tokens b \<ge> 1 then (b\<lparr>tb_tokens := fl64 (tb_tokens b - 1)\<rparr>, True) else (b, False))"

text \<open>A sequence of calls on one bucket: the bucket afterwards and the number of requests admitted.\<close>

fun tbRun :: "int list \<Rightarrow> tokenBucket \<Rightarrow> tokenBucket \<times> nat" where
  "tbRun [] b = (b, 0)"
| "tbRun (t # ts) b =
     (let (b, ok) = tbAllow t b; (b, n) = tbRun ts b in (b, if ok then Suc n else n))"

subsection \<open>How many requests a bucket admits\<close>

definition bucketOk :: "tokenBucket \<Rightarrow> bool" where
  "bucketOk b \<longleftrightarrow> 0 \<le> tb_tokens b \<and> tb_tokens b \<le> tb_burst b \<and> tb_burst b \<le> 2 ^ 50 \<and> 0 < tb_rate b"

abbreviation eps :: rat where "eps \<equiv> pow2 (- 53)"
abbreviation eta :: rat where "eta \<equiv> pow2 (- 1075)"

lemma eps_eq: "eps = 1 / 9007199254740992"
  by (simp add: pow2_def)

lemma eta_small: "eta \<le> eps / 2 ^ 100"
proof -
  have "eta \<le> pow2 (- 153)" by (rule pow2_mono) simp
  also have "\<dots> = eps / 2 ^ 100" using pow2_add [of "- 53" "- 100"] by (simp add: pow2_def)
  finally show ?thesis .
qed

lemma dur_arith:
  fixes q r h f D :: rat
  assumes "0 \<le> q" "0 \<le> r" "0 \<le> h" "f \<le> r + r * eps + h" "D \<le> (q + f) + (q + f) * eps + h"
  shows "D \<le> (q + r) * (1 + 3 * eps) + 3 * h"
  using assms unfolding eps_eq by (simp add: field_simps)

lemma durSeconds_le:
  assumes "0 < d" and "d \<le> maxInt64"
  shows "0 \<le> durSeconds d" and "durSeconds d \<le> of_int d / 10 ^ 9 * (1 + 4 * eps)"
proof -
  define q r :: rat where "q = of_int (d div second)" and "r = of_int (d mod second) / 10 ^ 9"
  have d: "of_int d / 10 ^ 9 = q + r"
  proof -
    have "of_int d = (of_int (d div second * second + d mod second) :: rat)" by simp
    then show ?thesis unfolding q_def r_def second_def of_int_add of_int_mult by (simp add: field_simps)
  qed
  have pos: "0 \<le> q" "0 \<le> r" using assms by (simp_all add: q_def r_def second_def pos_imp_zdiv_nonneg_iff)
  have "d div second < 2 ^ 53" "d mod second < 2 ^ 53" "0 \<le> d div second" "0 \<le> d mod second"
    using assms by (simp_all add: second_def maxInt64_def pos_imp_zdiv_nonneg_iff less_trans [OF pos_mod_bound]) 
  then have dur: "durSeconds d = fl64 (q + fl64 r)"
    using fl64_int [of "10 ^ 9"] by (simp add: durSeconds_def fl64_int q_def r_def second_def)
  show "0 \<le> durSeconds d" using pos by (simp add: dur)
  have "1 / 10 ^ 9 \<le> q + r" using assms(1) by (simp flip: d add: field_simps)
  then have small: "3 * eta \<le> (q + r) * eps" using eta_small by (simp add: eps_eq)
  have "durSeconds d \<le> (q + r) * (1 + 3 * eps) + 3 * eta"
    using pos unfolding dur by (intro dur_arith [of q r eta "fl64 r"] fl64_upper) (simp_all add: less_imp_le)
  then show "durSeconds d \<le> of_int d / 10 ^ 9 * (1 + 4 * eps)" using small unfolding d by (simp add: algebra_simps)
qed

lemma refill_amount:
  assumes "0 < d" and "d \<le> maxInt64" and "0 < rate"
  shows "0 \<le> fl64 (durSeconds d * rate)" and "fl64 (durSeconds d * rate) \<le> rate * (of_int d / 10 ^ 9) * (1 + 8 * eps) + eta"
proof -
  note d = durSeconds_le [OF assms(1,2)]
  show "0 \<le> fl64 (durSeconds d * rate)" using d(1) assms(3) by simp
  define s :: rat where "s = of_int d / 10 ^ 9"
  have s: "0 \<le> rate * s" using assms by (simp add: s_def)
  have p: "0 \<le> durSeconds d * rate" using d(1) assms(3) by simp
  have "durSeconds d * rate \<le> s * (1 + 4 * eps) * rate"
    using d(2) assms(3) unfolding s_def by (intro mult_right_mono) simp_all
  then have m: "durSeconds d * rate \<le> rate * s * (1 + 4 * eps)" by (simp only: mult_ac)
  have "fl64 (durSeconds d * rate) \<le> durSeconds d * rate + durSeconds d * rate * eps + eta" by (rule fl64_upper [OF p])
  also have "\<dots> = durSeconds d * rate * (1 + eps) + eta" by (simp only: distrib_left mult_1_right)
  also have "\<dots> \<le> rate * s * (1 + 4 * eps) * (1 + eps) + eta"
    using mult_right_mono [OF m, of "1 + eps"] by (simp add: eps_eq)
  also have "\<dots> \<le> rate * s * (1 + 8 * eps) + eta"
  proof -
    have "(1 + 4 * eps) * (1 + eps) \<le> 1 + 8 * eps" unfolding eps_eq by (simp add: field_simps)
    then show ?thesis using mult_left_mono [OF _ s] by (simp only: mult.assoc add_le_cancel_right)
  qed
  finally show "fl64 (durSeconds d * rate) \<le> rate * (of_int d / 10 ^ 9) * (1 + 8 * eps) + eta" by (simp only: s_def)
qed

lemma refill_step:
  assumes "bucketOk b"
  shows "bucketOk (refill t b)" and "tb_last b \<le> tb_last (refill t b)" and "tb_last (refill t b) \<le> max (tb_last b) t"
    and "tb_tokens (refill t b) \<le> tb_tokens b + tb_rate b * (of_int (tb_last (refill t b) - tb_last b) / 10 ^ 9) * (1 + 8 * eps)
           + tb_burst b * eps + 2 * eta"
    and "tb_rate (refill t b) = tb_rate b" and "tb_burst (refill t b) = tb_burst b"
proof -
  let ?e = "timeSub t (tb_last b)"
  let ?inc = "fl64 (durSeconds ?e * tb_rate b)" let ?u = "tb_tokens b + ?inc"
  have ok: "0 \<le> tb_tokens b" "tb_tokens b \<le> tb_burst b" "tb_burst b \<le> 2 ^ 50" "0 < tb_rate b" using assms by (auto simp: bucketOk_def)
  have e: "?e \<le> maxInt64" "0 < ?e \<Longrightarrow> ?e \<le> t - tb_last b" by (auto simp: timeSub_def maxInt64_def)
  have inc: "0 < ?e \<Longrightarrow> 0 \<le> ?inc" by (rule refill_amount(1) [OF _ e(1) ok(4)])
  show "tb_rate (refill t b) = tb_rate b" "tb_burst (refill t b) = tb_burst b" by (simp_all add: refill_def Let_def)
  show "tb_last b \<le> tb_last (refill t b)" "tb_last (refill t b) \<le> max (tb_last b) t" using e(2) by (auto simp: refill_def Let_def)
  show "bucketOk (refill t b)" using ok inc by (auto simp: bucketOk_def refill_def Let_def)
  show "tb_tokens (refill t b) \<le> tb_tokens b + tb_rate b * (of_int (tb_last (refill t b) - tb_last b) / 10 ^ 9) * (1 + 8 * eps)
           + tb_burst b * eps + 2 * eta"
  proof (cases "0 < ?e")
    case True
    have "?inc \<le> tb_rate b * (of_int ?e / 10 ^ 9) * (1 + 8 * eps) + eta" by (rule refill_amount(2) [OF True e(1) ok(4)])
    also have "\<dots> \<le> tb_rate b * (of_int (t - tb_last b) / 10 ^ 9) * (1 + 8 * eps) + eta"
      using e(2) [OF True] ok(4) by (intro add_right_mono mult_right_mono mult_left_mono divide_right_mono) (simp_all add: eps_eq del: of_int_diff)
    finally have i: "?inc \<le> tb_rate b * (of_int (t - tb_last b) / 10 ^ 9) * (1 + 8 * eps) + eta" .
    have f: "fl64 ?u \<le> ?u + ?u * eps + eta" using inc [OF True] ok(1) by (intro fl64_upper) simp
    have new: "tb_tokens (refill t b) = (if fl64 ?u > tb_burst b then tb_burst b else fl64 ?u)" "tb_last (refill t b) = t"
      using True by (simp_all add: refill_def Let_def)
    have b: "tb_tokens (refill t b) \<le> ?u + tb_burst b * eps + eta"
    proof (cases "?u \<le> tb_burst b")
      case True
      then have "?u * eps \<le> tb_burst b * eps" by (intro mult_right_mono) (simp_all add: less_imp_le)
      moreover have "tb_tokens (refill t b) \<le> fl64 ?u" unfolding new by auto
      ultimately show ?thesis using f by linarith
    next
      case False
      moreover have "0 \<le> tb_burst b * eps" "0 < eta" using ok by (simp_all add: less_imp_le)
      moreover have "tb_tokens (refill t b) \<le> tb_burst b" unfolding new by auto
      ultimately show ?thesis by linarith
    qed
    show ?thesis using b i unfolding new(2) by linarith
  next
    case False
    then have r: "refill t b = b" by (simp add: refill_def Let_def)
    have "0 \<le> tb_burst b * eps" "0 < eta" using ok by (simp_all add: less_imp_le)
    then have "0 \<le> tb_burst b * eps + 2 * eta" by linarith
    then show ?thesis by (simp add: r)
  qed
qed

text \<open>What one call adds to the tokens and takes from them, errors of rounding included.\<close>

definition slack :: "rat \<Rightarrow> rat" where
  "slack burst = (burst + 1) / 2 ^ 51"

lemma slack_bounds:
  assumes "bucketOk b"
  shows "tb_burst b * eps + eta \<le> 1" and "2 * (tb_burst b * eps) + 3 * eta \<le> slack (tb_burst b)"
    and "0 \<le> tb_burst b * eps" and "0 \<le> slack (tb_burst b)"
proof -
  have b: "0 \<le> tb_burst b" "tb_burst b \<le> 2 ^ 50" using assms by (auto simp: bucketOk_def)
  then show "tb_burst b * eps + eta \<le> 1" "2 * (tb_burst b * eps) + 3 * eta \<le> slack (tb_burst b)"
    using eta_small by (simp_all add: slack_def eps_eq field_simps)
  show "0 \<le> tb_burst b * eps" "0 \<le> slack (tb_burst b)" using b by (simp_all add: slack_def)
qed

lemma take_token:
  assumes "bucketOk b" and "1 \<le> tb_tokens b"
  shows "fl64 (tb_tokens b - 1) + 1 \<le> tb_tokens b + tb_burst b * eps + eta"
    and "fl64 (tb_tokens b - 1) + 1 \<le> tb_tokens b + slack (tb_burst b)"
proof -
  have "fl64 (tb_tokens b - 1) \<le> (tb_tokens b - 1) + (tb_tokens b - 1) * eps + eta" using assms(2) by (intro fl64_upper) simp
  moreover have "(tb_tokens b - 1) * eps \<le> tb_burst b * eps" using assms by (intro mult_right_mono) (auto simp: bucketOk_def)
  ultimately show t: "fl64 (tb_tokens b - 1) + 1 \<le> tb_tokens b + tb_burst b * eps + eta" by linarith
  have "0 < eta" by simp
  then show "fl64 (tb_tokens b - 1) + 1 \<le> tb_tokens b + slack (tb_burst b)"
    using t slack_bounds [OF assms(1)] by linarith
qed

lemma tbAllow_step:
  assumes "bucketOk b" and "tbAllow t b = (b', ok)"
  shows "bucketOk b'" and "tb_last b \<le> tb_last b'" and "tb_last b' \<le> max (tb_last b) t"
    and "tb_tokens b' + (if ok then 1 else 0)
         \<le> tb_tokens b + tb_rate b * (of_int (tb_last b' - tb_last b) / 10 ^ 9) * (1 + 1 / 2 ^ 50) + slack (tb_burst b)"
    and "tb_rate b' = tb_rate b" and "tb_burst b' = tb_burst b"
proof -
  let ?b = "b\<lparr>tb_lastSeen := int64 t\<rparr>" let ?r = "refill t ?b"
  have b: "bucketOk ?b" using assms(1) by (simp add: bucketOk_def)
  note R = refill_step [OF b, of t, simplified]
  have ok: "0 \<le> tb_tokens ?r" "tb_tokens ?r \<le> tb_burst b" "tb_burst b \<le> 2 ^ 50" "0 < tb_rate b"
    using R(1,5,6) by (auto simp: bucketOk_def)
  have b': "b' = (if ok then ?r\<lparr>tb_tokens := fl64 (tb_tokens ?r - 1)\<rparr> else ?r)" and adm: "ok \<longleftrightarrow> 1 \<le> tb_tokens ?r"
    using assms(2) by (auto simp: tbAllow_def Let_def split: if_splits)
  show "tb_rate b' = tb_rate b" "tb_burst b' = tb_burst b" "tb_last b \<le> tb_last b'" "tb_last b' \<le> max (tb_last b) t"
    using R(2,3,5,6) by (auto simp: b')
  have take: "ok \<Longrightarrow> fl64 (tb_tokens ?r - 1) \<le> tb_tokens ?r - 1 + tb_burst b * eps + eta"
    using take_token(1) [OF R(1)] adm R(6) by simp
  note err = slack_bounds [OF assms(1)]
  show "bucketOk b'"
  proof (cases ok)
    case True
    then have "0 \<le> fl64 (tb_tokens ?r - 1)" using adm by simp
    moreover have "fl64 (tb_tokens ?r - 1) \<le> tb_burst b" using take [OF True] ok(2) err(1) by linarith
    ultimately show ?thesis using True ok R(5,6) by (simp add: b' bucketOk_def)
  qed (use R(1) b' in simp)
  have "tb_tokens b' + (if ok then 1 else 0) \<le> tb_tokens ?r + tb_burst b * eps + eta"
  proof -
    have "tb_tokens b' = (if ok then fl64 (tb_tokens ?r - 1) else tb_tokens ?r)" by (simp add: b')
    moreover have "(if ok then fl64 (tb_tokens ?r - 1) else tb_tokens ?r) + (if ok then 1 else 0) \<le> tb_tokens ?r + tb_burst b * eps + eta"
      using take err(3) by (cases ok) (auto intro: add_nonneg_nonneg)
    ultimately show ?thesis by (simp only:)
  qed
  moreover have "tb_tokens ?r \<le> tb_tokens b + tb_rate b * (of_int (tb_last b' - tb_last b) / 10 ^ 9) * (1 + 1 / 2 ^ 50)
      + tb_burst b * eps + 2 * eta"
  proof -
    have e: "1 + 8 * eps = 1 + 1 / 2 ^ 50" by (simp add: eps_eq)
    have "tb_last b' = tb_last ?r" by (simp add: b')
    then show ?thesis using refill_step(4) [OF b, of t, unfolded e] by simp
  qed
  ultimately show "tb_tokens b' + (if ok then 1 else 0)
      \<le> tb_tokens b + tb_rate b * (of_int (tb_last b' - tb_last b) / 10 ^ 9) * (1 + 1 / 2 ^ 50) + slack (tb_burst b)"
    using err(2) by linarith
qed

lemma tbRun_config: "tb_rate (fst (tbRun ts b)) = tb_rate b \<and> tb_burst (fst (tbRun ts b)) = tb_burst b"
proof (induction ts arbitrary: b)
  case (Cons t ts)
  have "tb_rate (fst (tbAllow t b)) = tb_rate b \<and> tb_burst (fst (tbAllow t b)) = tb_burst b"
    by (simp add: tbAllow_def refill_def Let_def)
  then show ?case using Cons [of "fst (tbAllow t b)"] by (simp add: Let_def case_prod_beta)
qed simp

lemma tbRun_bound:
  assumes "bucketOk b" and "tbRun ts b = (b', n)"
  shows "bucketOk b' \<and> tb_last b \<le> tb_last b' \<and> tb_last b' \<le> foldr max ts (tb_last b)
    \<and> tb_tokens b' + of_nat n \<le> tb_tokens b + tb_rate b * (of_int (tb_last b' - tb_last b) / 10 ^ 9) * (1 + 1 / 2 ^ 50)
        + of_nat (length ts) * slack (tb_burst b)"
  using assms
proof (induction ts arbitrary: b n)
  case (Cons t ts)
  obtain b1 ok where a: "tbAllow t b = (b1, ok)" by (metis surj_pair)
  obtain n1 where r: "tbRun ts b1 = (b', n1)" and n: "n = (if ok then Suc n1 else n1)"
    using Cons.prems(2) a by (auto simp: Let_def split: prod.splits)
  note S = tbAllow_step [OF Cons.prems(1) a]
  note I = Cons.IH [OF S(1) r, unfolded S(5,6)]
  let ?c = "1 + 1 / 2 ^ 50 :: rat"
  have sp: "tb_rate b * (of_int (tb_last b' - tb_last b) / 10 ^ 9) * ?c =
      tb_rate b * (of_int (tb_last b1 - tb_last b) / 10 ^ 9) * ?c + tb_rate b * (of_int (tb_last b' - tb_last b1) / 10 ^ 9) * ?c"
    by (simp add: algebra_simps diff_divide_distrib)
  have ln: "of_nat (length (t # ts)) * slack (tb_burst b) = slack (tb_burst b) + of_nat (length ts) * slack (tb_burst b)"
    by (simp add: algebra_simps)
  have mx: "foldr max ts (max x t) = max t (foldr max ts x)" for x :: int by (induction ts) (auto simp: max.left_commute max.commute)
  have mono: "x \<le> y \<Longrightarrow> foldr max ts x \<le> foldr max ts y" for x y :: int by (induction ts) auto
  have "tb_last b' \<le> foldr max ts (max (tb_last b) t)" using I mono [OF S(3)] by linarith
  moreover have "of_nat n = of_nat n1 + (if ok then 1 else 0 :: rat)" by (simp add: n)
  ultimately show ?case using I S(2,4) unfolding sp ln mx by auto
qed simp

lemma tbAllow_full:
  assumes "bucketOk b" and "tbAllow t b = (b', ok)"
  shows "tb_tokens b' + (if ok then 1 else 0) \<le> tb_burst b + slack (tb_burst b)" and "t \<le> tb_last b'"
proof -
  let ?r = "refill t (b\<lparr>tb_lastSeen := int64 t\<rparr>)"
  have r: "bucketOk ?r" "tb_burst ?r = tb_burst b"
    using refill_step(1,6) [of "b\<lparr>tb_lastSeen := int64 t\<rparr>" t] assms(1) by (simp_all add: bucketOk_def)
  have b': "b' = (if ok then ?r\<lparr>tb_tokens := fl64 (tb_tokens ?r - 1)\<rparr> else ?r)" and adm: "ok \<longleftrightarrow> 1 \<le> tb_tokens ?r"
    using assms(2) by (auto simp: tbAllow_def Let_def split: if_splits)
  have "timeSub t x \<le> 0 \<Longrightarrow> t \<le> x" for x by (simp add: timeSub_def maxInt64_def)
  then have "t \<le> tb_last ?r" by (simp add: refill_def Let_def not_less)
  then show "t \<le> tb_last b'" by (simp add: b')
  have "tb_tokens b' + (if ok then 1 else 0) \<le> tb_tokens ?r + slack (tb_burst b)"
    using take_token [OF r(1)] adm slack_bounds [OF r(1)] by (auto simp: b' r(2))
  then show "tb_tokens b' + (if ok then 1 else 0) \<le> tb_burst b + slack (tb_burst b)" using r by (simp add: bucketOk_def)
qed

lemma bucketOk_new:
  assumes "0 < rate" and "1 \<le> burst" and "burst \<le> 2 ^ 50"
  shows "bucketOk (newTokenBucket rate burst t)" and "tb_burst (newTokenBucket rate burst t) = of_int burst"
proof -
  have "fl64 (of_int burst) = of_int burst" using assms by (intro fl64_int) simp
  moreover have "(of_int burst :: rat) \<le> of_int (2 ^ 50)" using assms(3) by (simp only: of_int_le_iff)
  ultimately show "bucketOk (newTokenBucket rate burst t)" "tb_burst (newTokenBucket rate burst t) = of_int burst"
    using assms by (simp_all add: bucketOk_def newTokenBucket_def)
qed

lemma foldr_max_le: "(\<forall>t \<in> set ts. t \<le> stop) \<Longrightarrow> foldr max ts x \<le> max stop (x :: int)"
  by (induction ts) auto

text \<open>
  C25. The rate limit holds in every window of time: whatever a bucket was used for before, of the
  requests that ask it from time \<open>t1\<close> to time \<open>stop\<close> it admits at most its burst plus what its rate
  allows in that time, exact up to the rounding of the floating-point arithmetic (one part in 2 to
  the 50 of the time's allowance, and \<open>slack\<close> per request asked). The clock need not be monotone.
\<close>

theorem admissions_within_rate:
  assumes "0 < rate" and "1 \<le> burst" and "burst \<le> 2 ^ 50"
    and "tbRun ts0 (newTokenBucket rate burst t0) = (b, n0)" and "\<forall>t \<in> set (t1 # ts). t \<le> stop"
  shows "of_nat (snd (tbRun (t1 # ts) b))
    \<le> of_int burst + rate * (of_int (stop - t1) / 10 ^ 9) * (1 + 1 / 2 ^ 50) + of_nat (length (t1 # ts)) * slack (of_int burst)"
proof -
  note new = bucketOk_new [OF assms(1-3), of t0]
  have b: "bucketOk b" "tb_burst b = of_int burst" "tb_rate b = rate"
    using tbRun_bound [OF new(1) assms(4)] tbRun_config [of ts0 "newTokenBucket rate burst t0"] assms(4) new(2)
    by (simp_all add: newTokenBucket_def)
  obtain b1 ok where a: "tbAllow t1 b = (b1, ok)" by (metis surj_pair)
  obtain b2 n where r: "tbRun ts b1 = (b2, n)" by (metis surj_pair)
  note S = tbAllow_step [OF b(1) a] and F = tbAllow_full [OF b(1) a]
  have R: "tb_last b2 \<le> foldr max ts (tb_last b1)" "tb_tokens b2 + of_nat n \<le> tb_tokens b1
      + rate * (of_int (tb_last b2 - tb_last b1) / 10 ^ 9) * (1 + 1 / 2 ^ 50) + of_nat (length ts) * slack (of_int burst)"
    "0 \<le> tb_tokens b2"
    using tbRun_bound [OF S(1) r] S(5,6) b by (auto simp: bucketOk_def)
  have "tb_last b2 - tb_last b1 \<le> stop - t1" using R(1) foldr_max_le [of ts stop "tb_last b1"] F(2) assms(5) by auto
  then have "rate * (of_int (tb_last b2 - tb_last b1) / 10 ^ 9) * (1 + 1 / 2 ^ 50) \<le> rate * (of_int (stop - t1) / 10 ^ 9) * (1 + 1 / 2 ^ 50)"
    using assms(1) by (intro mult_right_mono mult_left_mono divide_right_mono) (simp_all del: of_int_diff)
  moreover have "of_nat (length (t1 # ts)) * slack (of_int burst) = slack (of_int burst) + of_nat (length ts) * slack (of_int burst)"
    by (simp add: algebra_simps)
  moreover have "of_nat (snd (tbRun (t1 # ts) b)) = of_nat n + (if ok then 1 else 0 :: rat)" using a r by simp
  ultimately show ?thesis using R(2,3) F(1) [unfolded b(2)] by linarith
qed

theorem admissions_within_rate_witness:
  "snd (tbRun [0, 0, 0, 0] (newTokenBucket 2 3 0)) = 3
   \<and> (of_nat (snd (tbRun (0 # [0, 0, 0]) (newTokenBucket 2 3 0))) :: rat) \<le> 3 + 2 * (of_int (0 - 0) / 10 ^ 9) * (1 + 1 / 2 ^ 50) + 4 * slack 3"
  using admissions_within_rate [of 2 3 "[]" 0 "newTokenBucket 2 3 0" 0 0 "[0, 0, 0]" 0] fl64_int [of 3] fl64_int [of 2] fl64_int [of 1] fl64_int [of 0]
  by (simp add: newTokenBucket_def tbAllow_def refill_def timeSub_def maxInt64_def)

end
