(* ===== verification/RealIP.thy ===== *)
theory RealIP
  imports GoLib
begin

text \<open>
  The client address behind trusted proxies (middleware/realip.go).

  Addresses and networks are those of package net: \<open>netLib\<close> is how a text is read as an address
  or a network and an address written as text. The theorems hold for every such library, whatever
  texts it accepts.
\<close>

record 'ip netLib =
  parseIP :: "bytes \<Rightarrow> 'ip option"
  ipString :: "'ip \<Rightarrow> bytes"
  parseCIDR :: "bytes \<Rightarrow> ('ip \<Rightarrow> bool) option"
  hostNet :: "'ip \<Rightarrow> 'ip \<Rightarrow> bool"

definition hdrXForwardedFor :: bytes where "hdrXForwardedFor = ''x-forwarded-for''"
definition hdrXRealIP :: bytes where "hdrXRealIP = ''x-real-ip''"

fun forwardHeader :: "HeaderField list \<Rightarrow> bytes \<Rightarrow> bytes" where
  "forwardHeader [] want = []"
| "forwardHeader (h # hs) want = (if Name h = want then bval (Value h) else forwardHeader hs want)"

definition normalizeIP :: "'ip netLib \<Rightarrow> bytes \<Rightarrow> bytes" where
  "normalizeIP lib s = (case parseIP lib (TrimSpace s) of None \<Rightarrow> [] | Some ip \<Rightarrow> ipString lib ip)"

definition hostOnly :: "bytes \<Rightarrow> bytes" where
  "hostOnly addr =
     (if addr = [] then []
      else case SplitHostPort addr of
             Some (host, port) \<Rightarrow> host
           | None \<Rightarrow>
               let addr = (if take 1 addr = ''['' then drop 1 addr else addr)
               in if addr \<noteq> [] \<and> last addr = CHR '']'' then butlast addr else addr)"

definition ipInAny :: "'ip netLib \<Rightarrow> bytes \<Rightarrow> ('ip \<Rightarrow> bool) list \<Rightarrow> bool" where
  "ipInAny lib ip nets = (case parseIP lib ip of None \<Rightarrow> False | Some parsed \<Rightarrow> list_ex (\<lambda>n. n parsed) nets)"

fun parseCIDRs :: "'ip netLib \<Rightarrow> bytes list \<Rightarrow> ('ip \<Rightarrow> bool) list" where
  "parseCIDRs lib [] = []"
| "parseCIDRs lib (e # es) =
     (let e = TrimSpace e in
      if e = [] then parseCIDRs lib es
      else if CHR ''/'' \<notin> set e then
        (case parseIP lib e of None \<Rightarrow> parseCIDRs lib es | Some ip \<Rightarrow> hostNet lib ip # parseCIDRs lib es)
      else (case parseCIDR lib e of None \<Rightarrow> parseCIDRs lib es | Some n \<Rightarrow> n # parseCIDRs lib es))"

text \<open>The walk from right to left, over the parts in reverse.\<close>

fun xff_loop :: "'ip netLib \<Rightarrow> ('ip \<Rightarrow> bool) list \<Rightarrow> bytes list \<Rightarrow> bytes \<Rightarrow> bytes" where
  "xff_loop lib trusted [] leftmost = leftmost"
| "xff_loop lib trusted (part # parts) leftmost =
     (let ip = normalizeIP lib (TrimSpace part) in
      if ip = [] then xff_loop lib trusted parts leftmost
      else if \<not> ipInAny lib ip trusted then ip
      else xff_loop lib trusted parts ip)"

definition clientFromXFF :: "'ip netLib \<Rightarrow> bytes \<Rightarrow> ('ip \<Rightarrow> bool) list \<Rightarrow> bytes" where
  "clientFromXFF lib xff trusted = xff_loop lib trusted (rev (Split CHR '','' xff)) []"

definition resolveClientIP :: "'ip netLib \<Rightarrow> bytes \<Rightarrow> HeaderField list \<Rightarrow> ('ip \<Rightarrow> bool) list \<Rightarrow> bytes" where
  "resolveClientIP lib peer headers trusted =
     (let peerIP = hostOnly peer in
      if \<not> ipInAny lib peerIP trusted then peerIP
      else let xff = forwardHeader headers hdrXForwardedFor;
               ip = (if xff \<noteq> [] then clientFromXFF lib xff trusted else [])
           in if ip \<noteq> [] then ip
              else let xr = forwardHeader headers hdrXRealIP;
                       ip = (if xr \<noteq> [] then normalizeIP lib xr else [])
                   in if ip \<noteq> [] then ip else peerIP)"

text \<open>
  The middleware: the peer address of the request's context (\<open>server.PeerAddr\<close>) and the client
  address it adds to the context, which \<open>ClientIP\<close> and \<open>KeyByClientIP\<close> read back.
\<close>

record reqContext =
  ctx_peerAddr :: bytes
  ctx_clientIP :: "bytes option"

definition WithPeerAddr :: "reqContext \<Rightarrow> bytes \<Rightarrow> reqContext" where
  "WithPeerAddr ctx addr = ctx\<lparr>ctx_peerAddr := addr\<rparr>"

definition RealIP :: "'ip netLib \<Rightarrow> bytes list \<Rightarrow> HeaderField list \<Rightarrow> reqContext \<Rightarrow> reqContext" where
  "RealIP lib trustedProxies headers ctx =
     (let clientIP = resolveClientIP lib (ctx_peerAddr ctx) headers (parseCIDRs lib trustedProxies)
      in if clientIP \<noteq> [] then ctx\<lparr>ctx_clientIP := Some clientIP\<rparr> else ctx)"

definition ClientIP :: "reqContext \<Rightarrow> bytes" where
  "ClientIP ctx = (case ctx_clientIP ctx of Some v \<Rightarrow> v | None \<Rightarrow> [])"

section \<open>Who decides the client address\<close>

lemma xff_loop_append:
  "xff_loop lib trusted (ps @ qs) l =
     (if list_ex (\<lambda>p. normalizeIP lib (TrimSpace p) \<noteq> [] \<and> \<not> ipInAny lib (normalizeIP lib (TrimSpace p)) trusted) ps
      then xff_loop lib trusted ps l else xff_loop lib trusted qs (xff_loop lib trusted ps l))"
  by (induction ps arbitrary: l) (auto simp: Let_def)

lemma xff_loop_found:
  assumes "list_ex (\<lambda>p. normalizeIP lib (TrimSpace p) \<noteq> [] \<and> \<not> ipInAny lib (normalizeIP lib (TrimSpace p)) trusted) ps"
  shows "xff_loop lib trusted ps l = xff_loop lib trusted ps l' \<and> xff_loop lib trusted ps l \<noteq> []
    \<and> \<not> ipInAny lib (xff_loop lib trusted ps l) trusted"
  using assms by (induction ps arbitrary: l l') (auto simp: Let_def)

lemma Split_nonempty: "Split c s \<noteq> []"
  by (induction c s rule: Split.induct) (auto split: list.splits)

lemma Split_append: "Split c (s @ c # t) = Split c s @ Split c t"
  by (induction c s rule: Split.induct) (auto simp: Split_nonempty split: list.splits)

text \<open>Some address among those a chain of proxies appended is not a trusted proxy's own.\<close>

definition namesClient :: "'ip netLib \<Rightarrow> ('ip \<Rightarrow> bool) list \<Rightarrow> bytes \<Rightarrow> bool" where
  "namesClient lib trusted appended =
     list_ex (\<lambda>p. normalizeIP lib (TrimSpace p) \<noteq> [] \<and> \<not> ipInAny lib (normalizeIP lib (TrimSpace p)) trusted) (Split CHR '','' appended)"

lemma list_ex_rev: "list_ex P (rev xs) = list_ex P xs"
  by (auto simp: list_ex_iff)

lemma xff_prefix_ignored:
  assumes "namesClient lib trusted appended"
  shows "clientFromXFF lib (forged @ '','' @ appended) trusted = clientFromXFF lib appended trusted"
    and "clientFromXFF lib appended trusted \<noteq> []" and "\<not> ipInAny lib (clientFromXFF lib appended trusted) trusted"
  using assms xff_loop_found [of lib trusted "rev (Split CHR '','' appended)" "[]"]
  by (simp_all add: clientFromXFF_def namesClient_def Split_append xff_loop_append list_ex_rev)

lemma resolve_trusted:
  assumes "ipInAny lib (hostOnly peer) trusted" and "namesClient lib trusted appended"
    and "forwardHeader headers hdrXForwardedFor = forged @ '','' @ appended"
  shows "resolveClientIP lib peer headers trusted = clientFromXFF lib appended trusted"
  unfolding resolveClientIP_def Let_def assms(3) using assms(1) xff_prefix_ignored(1,2) [OF assms(2)] by simp


text \<open>A library that knows dotted numbers only.\<close>

definition dottedLib :: "bytes netLib" where
  "dottedLib = \<lparr>parseIP = (\<lambda>s. if s \<noteq> [] \<and> list_all (\<lambda>c. isDigit c \<or> c = CHR ''.'') s then Some s else None),
     ipString = id, parseCIDR = (\<lambda>_. None), hostNet = (=)\<rparr>"

definition xffField :: "bytes \<Rightarrow> HeaderField" where
  "xffField v = \<lparr>Name = hdrXForwardedFor, Value = Some v, Indexing = 0\<rparr>"


text \<open>
  The proxies must append to one field: of several X-Forwarded-For fields only the first is read,
  and that is the one the client sent.
\<close>

lemma second_forwarded_field_ignored:
  "resolveClientIP dottedLib ''10.0.0.1:80'' [xffField ''6.6.6.6'', xffField ''9.9.9.9''] (parseCIDRs dottedLib [''10.0.0.1'']) = ''6.6.6.6''"
  by code_simp

text \<open>With no trusted proxy configured the client address is the peer's.\<close>

lemma RealIP_default: "ClientIP (RealIP lib [] headers (WithPeerAddr \<lparr>ctx_peerAddr = [], ctx_clientIP = None\<rparr> peer)) = hostOnly peer"
  by (auto simp: RealIP_def ClientIP_def WithPeerAddr_def resolveClientIP_def ipInAny_def Let_def split: option.split)

end
