(* ===== verification/RateLimit.thy ===== *)
theory RateLimit
  imports TokenBucket FcWaiters RealIP ServeStream
begin

text \<open>
  The keyed rate limiter (middleware/ratelimit.go, \<open>keyedLimiter\<close> and \<open>RateLimit\<close>): the map of
  buckets and the intrusive first-in first-out list, linked as the code links it, the idle sweep,
  the eviction at the cap, and the middleware.

  Sections under the limiter's lock and sections under a bucket's lock are separate definitions,
  so that they can be interleaved; \<open>limiterAllow\<close> is one goroutine running both.
\<close>

section \<open>The keyed limiter\<close>

record keyedLimiter =
  kl_rate :: rat
  kl_burst :: int
  kl_maxBuckets :: int      \<comment> \<open>0: unbounded\<close>
  kl_ttl :: int             \<comment> \<open>0: idle sweeping disabled\<close>
  kl_sweepEvery :: "64 word"
  kl_buckets :: "(bytes \<times> tref) list"
  kl_insertCt :: "64 word"
  kl_head :: "tref option"
  kl_tail :: "tref option"
  kl_heap :: "tref \<Rightarrow> tokenBucket"
  kl_fresh :: tref

definition tupd :: "tref \<Rightarrow> (tokenBucket \<Rightarrow> tokenBucket) \<Rightarrow> keyedLimiter \<Rightarrow> keyedLimiter" where
  "tupd x f l = l\<lparr>kl_heap := (kl_heap l)(x := f (kl_heap l x))\<rparr>"

definition pushFrontLocked :: "tref \<Rightarrow> keyedLimiter \<Rightarrow> keyedLimiter" where
  "pushFrontLocked x l =
     (let hd = kl_head l;
          l = tupd x (\<lambda>b. b\<lparr>tb_prev := None, tb_next := hd\<rparr>) l;
          l = (case hd of None \<Rightarrow> l | Some h \<Rightarrow> tupd h (tb_prev_update (\<lambda>_. Some x)) l);
          l = l\<lparr>kl_head := Some x\<rparr>;
          l = (if kl_tail l = None then l\<lparr>kl_tail := Some x\<rparr> else l)
      in tupd x (tb_inList_update (\<lambda>_. True)) l)"

definition unlinkLocked :: "tref \<Rightarrow> keyedLimiter \<Rightarrow> keyedLimiter" where
  "unlinkLocked x l =
     (if \<not> tb_inList (kl_heap l x) then l
      else let prv = tb_prev (kl_heap l x); nxt = tb_next (kl_heap l x);
               l = (case prv of Some p \<Rightarrow> tupd p (tb_next_update (\<lambda>_. nxt)) l | None \<Rightarrow> l\<lparr>kl_head := nxt\<rparr>);
               l = (case nxt of Some n \<Rightarrow> tupd n (tb_prev_update (\<lambda>_. prv)) l | None \<Rightarrow> l\<lparr>kl_tail := prv\<rparr>)
           in tupd x (\<lambda>b. b\<lparr>tb_prev := None, tb_next := None, tb_inList := False\<rparr>) l)"

definition dropBucket :: "tref \<Rightarrow> keyedLimiter \<Rightarrow> keyedLimiter" where
  "dropBucket x l = (let l = unlinkLocked x l in l\<lparr>kl_buckets := adel (tb_key (kl_heap l x)) (kl_buckets l)\<rparr>)"

definition evictOldestLocked :: "keyedLimiter \<Rightarrow> keyedLimiter \<times> bool" where
  "evictOldestLocked l = (case kl_tail l of None \<Rightarrow> (l, False) | Some v \<Rightarrow> (dropBucket v l, True))"

definition stale :: "int \<Rightarrow> keyedLimiter \<Rightarrow> tref \<Rightarrow> bool" where
  "stale now l x \<longleftrightarrow> tb_lastSeen (kl_heap l x) < int64 (now - kl_ttl l)"

definition sweepLocked :: "int \<Rightarrow> keyedLimiter \<Rightarrow> keyedLimiter" where
  "sweepLocked now l = fold (\<lambda>(k, x) l. if stale now l x then dropBucket x l else l) (kl_buckets l) l"

partial_function (option) evict_loop :: "keyedLimiter \<Rightarrow> keyedLimiter option" where
  "evict_loop l =
     (if int (length (kl_buckets l)) \<ge> kl_maxBuckets l
      then (let (l, more) = evictOldestLocked l in if more then evict_loop l else Some l)
      else Some l)"

text \<open>
  \<open>allow\<close> up to the release of the limiter's lock: the bucket of the key, found or created. The
  clock readings are those of the two sweeps and of \<open>newTokenBucket\<close>.
\<close>

definition makeRoom :: "(nat \<Rightarrow> int) \<Rightarrow> keyedLimiter \<Rightarrow> keyedLimiter option" where
  "makeRoom clk l0 =
     (let l = l0\<lparr>kl_insertCt := kl_insertCt l0 + 1\<rparr>;
          l = (if kl_ttl l > 0 \<and> kl_sweepEvery l > 0 \<and> kl_insertCt l mod kl_sweepEvery l = 0 then sweepLocked (clk 0) l else l)
      in if kl_maxBuckets l > 0 \<and> int (length (kl_buckets l)) \<ge> kl_maxBuckets l
         then evict_loop (if kl_ttl l > 0 then sweepLocked (clk 1) l else l)
         else Some l)"

definition insertBucket :: "bytes \<Rightarrow> int \<Rightarrow> keyedLimiter \<Rightarrow> keyedLimiter \<times> tref" where
  "insertBucket key now l =
     (let x = kl_fresh l;
          l = l\<lparr>kl_heap := (kl_heap l)(x := (newTokenBucket (kl_rate l) (kl_burst l) now)\<lparr>tb_key := key\<rparr>), kl_fresh := Suc x\<rparr>;
          l = l\<lparr>kl_buckets := aput key x (kl_buckets l)\<rparr>
      in (pushFrontLocked x l, x))"

definition limiterBucket :: "bytes \<Rightarrow> (nat \<Rightarrow> int) \<Rightarrow> keyedLimiter \<Rightarrow> (keyedLimiter \<times> tref) option" where
  "limiterBucket key clk l =
     (case map_of (kl_buckets l) key of
        Some x \<Rightarrow> Some (l, x)
      | None \<Rightarrow> map_option (insertBucket key (clk 2)) (makeRoom clk l))"

definition bucketAllow :: "tref \<Rightarrow> int \<Rightarrow> keyedLimiter \<Rightarrow> keyedLimiter \<times> bool" where
  "bucketAllow x now l = (let (b, ok) = tbAllow now (kl_heap l x) in (tupd x (\<lambda>_. b) l, ok))"

definition limiterAllow :: "bytes \<Rightarrow> (nat \<Rightarrow> int) \<Rightarrow> keyedLimiter \<Rightarrow> (keyedLimiter \<times> bool) option" where
  "limiterAllow key clk l = map_option (\<lambda>(l, x). bucketAllow x (clk 3) l) (limiterBucket key clk l)"

definition bucketCount :: "keyedLimiter \<Rightarrow> nat" where
  "bucketCount l = length (kl_buckets l)"

section \<open>The middleware\<close>

definition defaultRateLimit :: rat where "defaultRateLimit = 100"
definition DefaultMaxBuckets :: int where "DefaultMaxBuckets = 2 ^ 16"
definition DefaultBucketIdleTTL :: int where "DefaultBucketIdleTTL = 10 * 60 * second"
definition defaultSweepEvery :: "64 word" where "defaultSweepEvery = 256"

record RateLimitConfig =
  rc_Rate :: rat
  rc_Burst :: int
  rc_Key :: "(reqContext \<Rightarrow> Request \<Rightarrow> bytes) option"
  rc_MaxBuckets :: int
  rc_BucketIdleTTL :: int

definition resolveMaxBuckets :: "int \<Rightarrow> int" where
  "resolveMaxBuckets cfg = (if cfg = 0 then DefaultMaxBuckets else if cfg < 0 then 0 else cfg)"

text \<open>The conversion \<open>time.Duration(x)\<close> of a float truncates; out of range its value depends on the machine.\<close>

definition truncTo64 :: "(rat \<Rightarrow> int) \<Rightarrow> rat \<Rightarrow> int" where
  "truncTo64 oor x = (let n = (if x < 0 then \<lceil>x\<rceil> else \<lfloor>x\<rfloor>) in if - (2 ^ 63) \<le> n \<and> n \<le> maxInt64 then n else oor x)"

definition resolveIdleTTL :: "(rat \<Rightarrow> int) \<Rightarrow> int \<Rightarrow> rat \<Rightarrow> int \<Rightarrow> int" where
  "resolveIdleTTL oor cfg rate burst =
     (if cfg < 0 then 0
      else let floor' = (if cfg > 0 then cfg else DefaultBucketIdleTTL);
               maxTTL = 24 * 60 * 60 * second;
               d = truncTo64 oor (fl64 (fl64 (fl64 (of_int burst) / rate) * fl64 (of_int second)));
               refillToFull = (if d > 0 \<and> d < maxTTL then d else maxTTL)
           in if refillToFull > floor' then refillToFull else floor')"

definition newLimiter :: "(rat \<Rightarrow> int) \<Rightarrow> RateLimitConfig \<Rightarrow> keyedLimiter" where
  "newLimiter oor cfg =
     (let rate = (if rc_Rate cfg \<le> 0 then defaultRateLimit else rc_Rate cfg);
          burst = (if rc_Burst cfg \<le> 0 then truncTo64 oor (max 1 rate) else rc_Burst cfg)
      in \<lparr>kl_rate = rate, kl_burst = burst, kl_maxBuckets = resolveMaxBuckets (rc_MaxBuckets cfg),
          kl_ttl = resolveIdleTTL oor (rc_BucketIdleTTL cfg) rate burst, kl_sweepEvery = defaultSweepEvery,
          kl_buckets = [], kl_insertCt = 0, kl_head = None, kl_tail = None,
          kl_heap = (\<lambda>_. newTokenBucket rate burst 0), kl_fresh = 0\<rparr>)"

definition KeyByClientIP :: "reqContext \<Rightarrow> Request \<Rightarrow> bytes" where
  "KeyByClientIP ctx req = ClientIP ctx"

text \<open>
  A request through the middleware: the limiter afterwards and the handler that then runs, which
  is the next one or one that answers 429.
\<close>

definition tooManyRequests :: hprog where
  "tooManyRequests = HCall (CallWriteHeaders 429 []) (\<lambda>r. HReturn (r \<noteq> WOk))"

definition RateLimit ::
  "RateLimitConfig \<Rightarrow> (nat \<Rightarrow> int) \<Rightarrow> (reqContext \<Rightarrow> Request \<Rightarrow> hprog) \<Rightarrow> reqContext \<Rightarrow> Request \<Rightarrow> keyedLimiter \<Rightarrow> (keyedLimiter \<times> hprog) option" where
  "RateLimit cfg clk next' ctx req kl =
     (let key = (case rc_Key cfg of None \<Rightarrow> [] | Some keyFn \<Rightarrow> keyFn ctx req) in
      map_option (\<lambda>(kl, ok). (kl, if ok then next' ctx req else tooManyRequests)) (limiterAllow key clk kl))"

section \<open>The list and the map agree\<close>

definition last_opt :: "'a list \<Rightarrow> 'a option" where
  "last_opt xs = (if xs = [] then None else Some (last xs))"

abbreviation nxtOf :: "keyedLimiter \<Rightarrow> tref \<Rightarrow> tref option" where "nxtOf l x \<equiv> tb_next (kl_heap l x)"
abbreviation prvOf :: "keyedLimiter \<Rightarrow> tref \<Rightarrow> tref option" where "prvOf l x \<equiv> tb_prev (kl_heap l x)"
abbreviation keyOf :: "keyedLimiter \<Rightarrow> tref \<Rightarrow> bytes" where "keyOf l x \<equiv> tb_key (kl_heap l x)"

definition kl_list :: "keyedLimiter \<Rightarrow> tref list \<Rightarrow> bool" where
  "kl_list l xs \<longleftrightarrow> linked (nxtOf l) (prvOf l) None xs \<and> distinct xs \<and> kl_head l = hd_opt xs \<and> kl_tail l = last_opt xs
     \<and> (\<forall>x. tb_inList (kl_heap l x) \<longleftrightarrow> x \<in> set xs)"

definition kl_rep :: "keyedLimiter \<Rightarrow> tref list \<Rightarrow> bool" where
  "kl_rep l xs \<longleftrightarrow> kl_list l xs \<and> (\<forall>x \<in> set xs. x < kl_fresh l) \<and> distinct (akeys (kl_buckets l))
     \<and> (\<forall>k x. (k, x) \<in> set (kl_buckets l) \<longleftrightarrow> x \<in> set xs \<and> keyOf l x = k)"

lemma tupd_simps [simp]:
  "kl_heap (tupd x f l) = (kl_heap l)(x := f (kl_heap l x))" "kl_head (tupd x f l) = kl_head l" "kl_tail (tupd x f l) = kl_tail l"
  "kl_buckets (tupd x f l) = kl_buckets l" "kl_fresh (tupd x f l) = kl_fresh l" "kl_maxBuckets (tupd x f l) = kl_maxBuckets l"
  "kl_ttl (tupd x f l) = kl_ttl l" "kl_rate (tupd x f l) = kl_rate l" "kl_burst (tupd x f l) = kl_burst l"
  "kl_sweepEvery (tupd x f l) = kl_sweepEvery l" "kl_insertCt (tupd x f l) = kl_insertCt l"
  by (simp_all add: tupd_def)

text \<open>What the list operations leave alone.\<close>

definition listFrame :: "keyedLimiter \<Rightarrow> keyedLimiter \<Rightarrow> bool" where
  "listFrame l l' \<longleftrightarrow> kl_rate l' = kl_rate l \<and> kl_burst l' = kl_burst l \<and> kl_maxBuckets l' = kl_maxBuckets l \<and> kl_ttl l' = kl_ttl l
     \<and> kl_sweepEvery l' = kl_sweepEvery l \<and> kl_insertCt l' = kl_insertCt l \<and> kl_fresh l' = kl_fresh l
     \<and> (\<forall>y. keyOf l' y = keyOf l y \<and> tb_lastSeen (kl_heap l' y) = tb_lastSeen (kl_heap l y)
          \<and> tb_tokens (kl_heap l' y) = tb_tokens (kl_heap l y) \<and> tb_last (kl_heap l' y) = tb_last (kl_heap l y)
          \<and> tb_rate (kl_heap l' y) = tb_rate (kl_heap l y) \<and> tb_burst (kl_heap l' y) = tb_burst (kl_heap l y))"

lemma listFrame_trans: "listFrame l1 l2 \<Longrightarrow> listFrame l2 l3 \<Longrightarrow> listFrame l1 l3"
  by (simp add: listFrame_def)

lemma pushFront_frame: "listFrame l (pushFrontLocked x l)" "kl_buckets (pushFrontLocked x l) = kl_buckets l"
  by (auto simp: listFrame_def pushFrontLocked_def Let_def split: option.split)

lemma unlink_frame: "listFrame l (unlinkLocked x l)" "kl_buckets (unlinkLocked x l) = kl_buckets l"
  by (auto simp: listFrame_def unlinkLocked_def Let_def split: option.split)

lemma pushFront_list:
  assumes "kl_list l xs" and "x \<notin> set xs"
  shows "kl_list (pushFrontLocked x l) (x # xs)"
proof -
  let ?l = "pushFrontLocked x l"
  have L: "linked (nxtOf l) (prvOf l) None xs" "distinct xs" "kl_head l = hd_opt xs" "kl_tail l = last_opt xs"
    "\<And>y. tb_inList (kl_heap l y) \<longleftrightarrow> y \<in> set xs" using assms(1) by (auto simp: kl_list_def)
  have hd: "hd_opt xs \<noteq> Some x" using assms(2) by (cases xs) auto
  have links: "nxtOf ?l y = (if y = x then hd_opt xs else nxtOf l y)"
    "prvOf ?l y = (if y = x then None else if hd_opt xs = Some y then Some x else prvOf l y)"
    "tb_inList (kl_heap ?l y) \<longleftrightarrow> y = x \<or> tb_inList (kl_heap l y)" for y
    using hd by (auto simp: pushFrontLocked_def Let_def L(3) split: option.split)
  have "linked (nxtOf ?l) (prvOf ?l) None (x # xs)" by (rule linked_push [OF L(1) assms(2) L(2)]) (simp_all add: links)
  moreover have "kl_head ?l = Some x" "kl_tail ?l = last_opt (x # xs)"
    by (auto simp: pushFrontLocked_def Let_def L(4) last_opt_def split: option.split)
  ultimately show ?thesis using L(2,5) assms(2) links(3) by (auto simp: kl_list_def)
qed

lemma unlink_list:
  assumes "kl_list l xs"
  shows "kl_list (unlinkLocked x l) (remove1 x xs)"
proof (cases "x \<in> set xs")
  case True
  let ?l = "unlinkLocked x l"
  obtain as bs where xs: "xs = as @ x # bs" using True by (meson split_list)
  have L: "linked (nxtOf l) (prvOf l) None (as @ x # bs)" "distinct (as @ x # bs)" "kl_head l = hd_opt (as @ x # bs)"
    "kl_tail l = last_opt (as @ x # bs)" "\<And>y. tb_inList (kl_heap l y) \<longleftrightarrow> y \<in> set (as @ x # bs)"
    using assms by (auto simp: kl_list_def xs)
  note M = linked_mid [OF L(1)]
  have q: "tb_inList (kl_heap l x)" using L(5) by simp
  have ne: "prvOf l x \<noteq> Some x" "nxtOf l x \<noteq> Some x" using M L(2) by (auto simp: hd_opt_def split: list.splits)
  have links: "y \<noteq> x \<Longrightarrow> nxtOf ?l y = (if prvOf l x = Some y then nxtOf l x else nxtOf l y)"
    "y \<noteq> x \<Longrightarrow> prvOf ?l y = (if nxtOf l x = Some y then prvOf l x else prvOf l y)"
    "tb_inList (kl_heap ?l y) \<longleftrightarrow> y \<noteq> x \<and> tb_inList (kl_heap l y)" for y
    using q ne by (auto simp: unlinkLocked_def Let_def split: option.split)
  have rm: "remove1 x xs = as @ bs" using L(2) by (simp add: xs remove1_append)
  have "linked (nxtOf ?l) (prvOf ?l) None (as @ bs)"
  proof (rule linked_remove [OF L(1,2)])
    have "y \<in> set (as @ bs) \<Longrightarrow> y \<noteq> x" for y using L(2) by auto
    then show "\<forall>y \<in> set (as @ bs). nxtOf ?l y = (if prvOf l x = Some y then nxtOf l x else nxtOf l y)"
      "\<forall>y \<in> set (as @ bs). prvOf ?l y = (if nxtOf l x = Some y then prvOf l x else prvOf l y)" by (simp_all add: links del: set_append)
  qed
  moreover have "kl_head ?l = hd_opt (as @ bs)"
    using linked_head [OF L(1)] q L(3) by (auto simp: unlinkLocked_def Let_def split: option.split)
  moreover have "kl_tail ?l = last_opt (as @ bs)"
    using M q L(4) by (cases bs) (auto simp: unlinkLocked_def Let_def last_opt_def split: option.split)
  ultimately show ?thesis using L(2,5) links(3) by (auto simp: kl_list_def rm)
next
  case False
  then have "unlinkLocked x l = l" using assms by (simp add: unlinkLocked_def kl_list_def)
  then show ?thesis using assms False by (simp add: remove1_idem)
qed

lemma kl_repD:
  assumes "kl_rep l xs"
  shows "distinct (map (keyOf l) xs)" and "length (kl_buckets l) = length xs"
    and "map_of (kl_buckets l) k = Some x \<longleftrightarrow> x \<in> set xs \<and> keyOf l x = k"
proof -
  have R: "distinct xs" "distinct (akeys (kl_buckets l))" "\<And>k x. (k, x) \<in> set (kl_buckets l) \<longleftrightarrow> x \<in> set xs \<and> keyOf l x = k"
    using assms by (auto simp: kl_rep_def kl_list_def)
  show m: "map_of (kl_buckets l) k = Some x \<longleftrightarrow> x \<in> set xs \<and> keyOf l x = k" for k x
    using map_of_eq_Some_iff [OF R(2)] R(3) by simp
  have "x = y" if "x \<in> set xs" "y \<in> set xs" "keyOf l x = keyOf l y" for x y
    using m [of "keyOf l x" x] m [of "keyOf l x" y] that by simp
  then have "inj_on (keyOf l) (set xs)" by (auto simp: inj_on_def)
  then show "distinct (map (keyOf l) xs)" using R(1) by (simp add: distinct_map)
  have "set (kl_buckets l) = (\<lambda>x. (keyOf l x, x)) ` set xs" using R(3) by auto
  moreover have "distinct (kl_buckets l)" using R(2) by (simp add: distinct_map)
  ultimately have "length (kl_buckets l) = card ((\<lambda>x. (keyOf l x, x)) ` set xs)" using distinct_card [of "kl_buckets l"] by simp
  also have "\<dots> = length xs" using R(1) by (simp add: card_image inj_on_def distinct_card)
  finally show "length (kl_buckets l) = length xs" .
qed

lemma dropBucket_rep:
  assumes "kl_rep l xs" and "x \<in> set xs"
  shows "kl_rep (dropBucket x l) (remove1 x xs)" and "listFrame l (dropBucket x l)"
proof -
  have F: "listFrame l (unlinkLocked x l)" "kl_buckets (unlinkLocked x l) = kl_buckets l" by (rule unlink_frame)+
  then show "listFrame l (dropBucket x l)" by (simp add: dropBucket_def Let_def listFrame_def)
  have R: "kl_list l xs" "\<forall>y \<in> set xs. y < kl_fresh l" "distinct (akeys (kl_buckets l))" "distinct xs"
    "\<And>k y. (k, y) \<in> set (kl_buckets l) \<longleftrightarrow> y \<in> set xs \<and> keyOf l y = k"
    using assms(1) by (auto simp: kl_rep_def kl_list_def)
  have inj: "y \<in> set xs \<Longrightarrow> keyOf l y = keyOf l x \<longleftrightarrow> y = x" for y
    using kl_repD(1) [OF assms(1)] assms(2) by (auto simp: distinct_map inj_on_def)
  have "kl_list (dropBucket x l) (remove1 x xs)"
    using unlink_list [OF R(1), of x] by (simp add: dropBucket_def Let_def kl_list_def)
  moreover have "\<And>k y. (k, y) \<in> set (adel (keyOf l x) (kl_buckets l)) \<longleftrightarrow> y \<in> set (remove1 x xs) \<and> keyOf l y = k"
    using R(4,5) inj by (auto simp: set_adel)
  ultimately show "kl_rep (dropBucket x l) (remove1 x xs)"
    using R(2,3,4) F by (simp add: kl_rep_def dropBucket_def Let_def listFrame_def)
qed

lemma stale_frame: "listFrame l l' \<Longrightarrow> stale now l' x = stale now l x"
  by (simp add: listFrame_def stale_def)

lemma filter_remove1:
  assumes "distinct ys" and "P x"
  shows "filter (\<lambda>y. \<not> (y \<in> S \<and> P y)) (remove1 x ys) = filter (\<lambda>y. \<not> (y \<in> insert x S \<and> P y)) ys"
proof -
  have "remove1 x ys = filter (\<lambda>y. x \<noteq> y) ys" using assms(1) by (simp add: distinct_remove1_removeAll removeAll_filter_not_eq)
  then show ?thesis using assms(2) by (simp only: filter_filter) (rule filter_cong, auto)
qed

lemma sweep_fold:
  "kl_rep l' ys \<Longrightarrow> listFrame l l' \<Longrightarrow> snd ` set m \<subseteq> set ys \<Longrightarrow> distinct (map snd m) \<Longrightarrow>
   kl_rep (fold (\<lambda>(k, x) l. if stale now l x then dropBucket x l else l) m l') (filter (\<lambda>x. \<not> (x \<in> snd ` set m \<and> stale now l x)) ys)
   \<and> listFrame l (fold (\<lambda>(k, x) l. if stale now l x then dropBucket x l else l) m l')"
proof (induction m arbitrary: l' ys)
  case (Cons kx m)
  obtain k x where kx: "kx = (k, x)" by (cases kx)
  have st: "stale now l' x = stale now l x" by (rule stale_frame [OF Cons.prems(2)])
  have d: "distinct ys" using Cons.prems(1) by (simp add: kl_rep_def kl_list_def)
  have x: "x \<in> set ys" "x \<notin> snd ` set m" "snd ` set m \<subseteq> set ys" "distinct (map snd m)" using Cons.prems(3,4) kx by auto
  have im: "snd ` set (kx # m) = insert x (snd ` set m)" by (simp add: kx)
  show ?case
  proof (cases "stale now l x")
    case True
    note D = dropBucket_rep [OF Cons.prems(1) x(1)]
    have sub: "snd ` set m \<subseteq> set (remove1 x ys)" using x d by auto
    have f: "fold (\<lambda>(k, x) l. if stale now l x then dropBucket x l else l) (kx # m) l'
        = fold (\<lambda>(k, x) l. if stale now l x then dropBucket x l else l) m (dropBucket x l')" using True st kx by simp
    show ?thesis unfolding f im filter_remove1 [OF d, of "stale now l" x "snd ` set m", OF True, symmetric]
      by (rule Cons.IH [OF D(1) listFrame_trans [OF Cons.prems(2) D(2)] sub x(4)])
  next
    case False
    have f: "fold (\<lambda>(k, x) l. if stale now l x then dropBucket x l else l) (kx # m) l'
        = fold (\<lambda>(k, x) l. if stale now l x then dropBucket x l else l) m l'" using False st kx by simp
    have "filter (\<lambda>y. \<not> (y \<in> insert x (snd ` set m) \<and> stale now l y)) ys = filter (\<lambda>y. \<not> (y \<in> snd ` set m \<and> stale now l y)) ys"
      using False by (intro filter_cong) auto
    then show ?thesis unfolding f im using Cons.IH [OF Cons.prems(1,2) x(3,4)] by simp
  qed
qed simp

lemma sweep_rep:
  assumes "kl_rep l xs"
  shows "kl_rep (sweepLocked now l) (filter (\<lambda>x. \<not> stale now l x) xs)" and "listFrame l (sweepLocked now l)"
proof -
  have R: "distinct (akeys (kl_buckets l))" "\<And>k x. (k, x) \<in> set (kl_buckets l) \<longleftrightarrow> x \<in> set xs \<and> keyOf l x = k"
    using assms by (auto simp: kl_rep_def)
  have b: "set (kl_buckets l) = (\<lambda>x. (keyOf l x, x)) ` set xs" using R(2) by auto
  then have s: "snd ` set (kl_buckets l) = set xs" by (simp add: image_image)
  have "inj_on snd (set (kl_buckets l))" unfolding b by (auto simp: inj_on_def)
  moreover have "distinct (kl_buckets l)" using R(1) by (simp add: distinct_map)
  ultimately have d: "distinct (map snd (kl_buckets l))" by (simp add: distinct_map)
  have "filter (\<lambda>x. \<not> (x \<in> set xs \<and> stale now l x)) xs = filter (\<lambda>x. \<not> stale now l x) xs" by (rule filter_cong) auto
  then show "kl_rep (sweepLocked now l) (filter (\<lambda>x. \<not> stale now l x) xs)" "listFrame l (sweepLocked now l)"
    using sweep_fold [OF assms _ _ d, of l now] by (simp_all add: sweepLocked_def s listFrame_def)
qed

lemma evict_rep:
  assumes "kl_rep l xs" and "0 < kl_maxBuckets l"
  shows "\<exists>l'. evict_loop l = Some l' \<and> kl_rep l' (take (nat (kl_maxBuckets l) - 1) xs) \<and> listFrame l l'"
  using assms
proof (induction xs arbitrary: l rule: rev_induct)
  case Nil
  then have "evict_loop l = Some l" using kl_repD(2) [OF Nil(1)] by (simp add: evict_loop.simps [of l])
  then show ?case using Nil(1) by (auto simp: listFrame_def)
next
  case (snoc x xs)
  have n: "length (kl_buckets l) = Suc (length xs)" using kl_repD(2) [OF snoc.prems(1)] by simp
  show ?case
  proof (cases "int (Suc (length xs)) \<ge> kl_maxBuckets l")
    case True
    have L: "kl_tail l = Some x" "x \<notin> set xs" using snoc.prems(1) by (auto simp: kl_rep_def kl_list_def last_opt_def)
    note D = dropBucket_rep [OF snoc.prems(1), of x]
    have r: "kl_rep (dropBucket x l) xs" using D(1) L(2) by (simp add: remove1_append)
    have m: "kl_maxBuckets (dropBucket x l) = kl_maxBuckets l" using D(2) by (simp add: listFrame_def)
    obtain l' where l': "evict_loop (dropBucket x l) = Some l'" "kl_rep l' (take (nat (kl_maxBuckets l) - 1) xs)" "listFrame (dropBucket x l) l'"
      using snoc.IH [OF r] snoc.prems(2) m by auto
    have "evict_loop l = Some l'" using True L n l'(1) by (simp add: evict_loop.simps [of l] evictOldestLocked_def)
    moreover have "take (nat (kl_maxBuckets l) - 1) (xs @ [x]) = take (nat (kl_maxBuckets l) - 1) xs" using True snoc.prems(2) by auto
    ultimately show ?thesis using l'(2) listFrame_trans [OF D(2) l'(3)] by simp
  next
    case False
    then have "evict_loop l = Some l" using n by (simp add: evict_loop.simps [of l])
    moreover have "take (nat (kl_maxBuckets l) - 1) (xs @ [x]) = xs @ [x]" using False by simp
    ultimately show ?thesis using snoc.prems(1) by (auto simp: listFrame_def)
  qed
qed

text \<open>The specification of what is kept when a key is added: what the sweeps leave, cut to the cap, newest first.\<close>

definition survivors :: "(nat \<Rightarrow> int) \<Rightarrow> keyedLimiter \<Rightarrow> tref list \<Rightarrow> tref list" where
  "survivors clk l xs =
     (let xs = (if kl_ttl l > 0 \<and> kl_sweepEvery l > 0 \<and> (kl_insertCt l + 1) mod kl_sweepEvery l = 0
                then filter (\<lambda>x. \<not> stale (clk 0) l x) xs else xs)
      in if kl_maxBuckets l > 0 \<and> int (length xs) \<ge> kl_maxBuckets l
         then take (nat (kl_maxBuckets l) - 1) (if kl_ttl l > 0 then filter (\<lambda>x. \<not> stale (clk 1) l x) xs else xs)
         else xs)"

lemma makeRoom_rep:
  assumes "kl_rep l xs"
  shows "\<exists>l'. makeRoom clk l = Some l' \<and> kl_rep l' (survivors clk l xs) \<and> listFrame (l\<lparr>kl_insertCt := kl_insertCt l + 1\<rparr>) l'"
proof -
  define l0 where "l0 = l\<lparr>kl_insertCt := kl_insertCt l + 1\<rparr>"
  define due where "due \<longleftrightarrow> kl_ttl l > 0 \<and> kl_sweepEvery l > 0 \<and> (kl_insertCt l + 1) mod kl_sweepEvery l = 0"
  define l1 where "l1 = (if due then sweepLocked (clk 0) l0 else l0)"
  define x1 where "x1 = (if due then filter (\<lambda>x. \<not> stale (clk 0) l x) xs else xs)"
  define l2 where "l2 = (if kl_ttl l > 0 then sweepLocked (clk 1) l1 else l1)"
  define x2 where "x2 = (if kl_ttl l > 0 then filter (\<lambda>x. \<not> stale (clk 1) l x) x1 else x1)"
  have st: "listFrame l0 l' \<Longrightarrow> stale now l' x = stale now l x" for l' now x by (simp add: listFrame_def stale_def l0_def)
  have r0: "kl_rep l0 xs" "listFrame l0 l0" using assms by (simp_all add: kl_rep_def kl_list_def l0_def listFrame_def)
  have r1: "kl_rep l1 x1" "listFrame l0 l1" using sweep_rep [OF r0(1), of "clk 0"] r0 st [OF r0(2)] by (simp_all add: l1_def x1_def)
  have r2: "kl_rep l2 x2" "listFrame l0 l2"
    using sweep_rep [OF r1(1), of "clk 1"] r1 st [OF r1(2)] listFrame_trans [OF r1(2)] by (simp_all add: l2_def x2_def)
  have f: "kl_ttl l1 = kl_ttl l" "kl_maxBuckets l1 = kl_maxBuckets l" "kl_maxBuckets l2 = kl_maxBuckets l"
    using r1(2) r2(2) by (simp_all add: listFrame_def l0_def)
  have mk: "makeRoom clk l = (if kl_maxBuckets l > 0 \<and> int (length x1) \<ge> kl_maxBuckets l then evict_loop l2 else Some l1)"
  proof -
    have l1: "l1 = (let l = l0 in if kl_ttl l > 0 \<and> kl_sweepEvery l > 0 \<and> kl_insertCt l mod kl_sweepEvery l = 0 then sweepLocked (clk 0) l else l)"
      by (simp add: l1_def due_def l0_def Let_def)
    show ?thesis unfolding makeRoom_def l0_def [symmetric] Let_def l1 [unfolded Let_def, symmetric]
      using f kl_repD(2) [OF r1(1)] by (simp add: l2_def)
  qed
  have sv: "survivors clk l xs = (if kl_maxBuckets l > 0 \<and> int (length x1) \<ge> kl_maxBuckets l then take (nat (kl_maxBuckets l) - 1) x2 else x1)"
    unfolding survivors_def Let_def due_def [symmetric] x1_def [symmetric] x2_def [symmetric] by (rule refl)
  show ?thesis
  proof (cases "kl_maxBuckets l > 0 \<and> int (length x1) \<ge> kl_maxBuckets l")
    case True
    then obtain l' where "evict_loop l2 = Some l'" "kl_rep l' (take (nat (kl_maxBuckets l) - 1) x2)" "listFrame l2 l'"
      using evict_rep [OF r2(1)] f by auto
    then show ?thesis using True mk sv listFrame_trans [OF r2(2)] by (simp add: l0_def)
  next
    case False
    then show ?thesis using mk sv r1 by (auto simp: l0_def)
  qed
qed

lemma insertBucket_rep:
  assumes "kl_rep l xs" and "map_of (kl_buckets l) key = None"
  shows "kl_rep (fst (insertBucket key now l)) (snd (insertBucket key now l) # xs)"
    and "map_of (kl_buckets (fst (insertBucket key now l))) key = Some (snd (insertBucket key now l))"
proof -
  let ?x = "kl_fresh l"
  define l1 where "l1 = l\<lparr>kl_heap := (kl_heap l)(?x := (newTokenBucket (kl_rate l) (kl_burst l) now)\<lparr>tb_key := key\<rparr>), kl_fresh := Suc ?x,
      kl_buckets := aput key ?x (kl_buckets l)\<rparr>"
  have ins: "insertBucket key now l = (pushFrontLocked ?x l1, ?x)" by (simp add: insertBucket_def Let_def l1_def)
  have R: "kl_list l xs" "\<forall>x \<in> set xs. x < ?x" "distinct (akeys (kl_buckets l))"
    "\<And>k x. (k, x) \<in> set (kl_buckets l) \<longleftrightarrow> x \<in> set xs \<and> keyOf l x = k" using assms(1) by (auto simp: kl_rep_def)
  have x: "?x \<notin> set xs" using R(2) by auto
  have key: "x \<in> set xs \<Longrightarrow> keyOf l x \<noteq> key" for x using assms(2) kl_repD(3) [OF assms(1), of key x] by auto
  have "linked (nxtOf l1) (prvOf l1) None xs = linked (nxtOf l) (prvOf l) None xs"
    using x by (intro linked_cong) (auto simp: l1_def)
  then have "kl_list l1 xs" using R(1) x by (auto simp: kl_list_def l1_def newTokenBucket_def)
  then have L: "kl_list (pushFrontLocked ?x l1) (?x # xs)" by (rule pushFront_list [OF _ x])
  have F: "kl_buckets (pushFrontLocked ?x l1) = aput key ?x (kl_buckets l)" "kl_fresh (pushFrontLocked ?x l1) = Suc ?x"
    "keyOf (pushFrontLocked ?x l1) y = (if y = ?x then key else keyOf l y)" for y
  proof -
    have "kl_buckets (pushFrontLocked ?x l1) = kl_buckets l1" "kl_fresh (pushFrontLocked ?x l1) = kl_fresh l1"
      "keyOf (pushFrontLocked ?x l1) y = keyOf l1 y"
      using pushFront_frame [where l = l1 and x = ?x] by (simp_all add: listFrame_def)
    then show "kl_buckets (pushFrontLocked ?x l1) = aput key ?x (kl_buckets l)" "kl_fresh (pushFrontLocked ?x l1) = Suc ?x"
      "keyOf (pushFrontLocked ?x l1) y = (if y = ?x then key else keyOf l y)" by (simp_all add: l1_def)
  qed
  have "(k, y) \<in> set (aput key ?x (kl_buckets l)) \<longleftrightarrow> y \<in> set (?x # xs) \<and> (if y = ?x then key else keyOf l y) = k" for k y
    using R(4) [of k y] key [of y] x by (auto simp: aput_def set_adel)
  then show "kl_rep (fst (insertBucket key now l)) (snd (insertBucket key now l) # xs)"
    using L R(2,3) F by (simp add: kl_rep_def ins less_SucI)
  show "map_of (kl_buckets (fst (insertBucket key now l))) key = Some (snd (insertBucket key now l))" by (simp add: ins F)
qed

lemma survivors_subset: "set (survivors clk l xs) \<subseteq> set xs"
  by (auto simp: survivors_def Let_def dest: in_set_takeD split: if_splits)

lemma survivors_bound: "0 < kl_maxBuckets l \<Longrightarrow> int (length (survivors clk l xs)) < kl_maxBuckets l"
  by (auto simp: survivors_def Let_def min_def)

text \<open>One lookup: it returns, and the new state is what the specification says.\<close>

lemma limiterBucket_rep:
  assumes "kl_rep l xs"
  shows "\<exists>l' x. limiterBucket key clk l = Some (l', x) \<and> map_of (kl_buckets l') key = Some x
    \<and> kl_rep l' (if key \<in> fst ` set (kl_buckets l) then xs else x # survivors clk l xs) \<and> kl_maxBuckets l' = kl_maxBuckets l"
proof (cases "map_of (kl_buckets l) key")
  case None
  obtain l1 where l1: "makeRoom clk l = Some l1" "kl_rep l1 (survivors clk l xs)" "listFrame (l\<lparr>kl_insertCt := kl_insertCt l + 1\<rparr>) l1"
    using makeRoom_rep [OF assms] by blast
  have "map_of (kl_buckets l1) key = None"
  proof (rule ccontr)
    assume "map_of (kl_buckets l1) key \<noteq> None"
    then obtain x where "x \<in> set (survivors clk l xs)" "keyOf l1 x = key" using kl_repD(3) [OF l1(2)] by blast
    then have "x \<in> set xs \<and> keyOf l x = key" using survivors_subset l1(3) by (auto simp: listFrame_def)
    then show False using kl_repD(3) [OF assms, of key x] None by simp
  qed
  note I = insertBucket_rep [OF l1(2) this, of "clk 2"]
  have "kl_maxBuckets (fst (insertBucket key (clk 2) l1)) = kl_maxBuckets l"
    using l1(3) pushFront_frame(1) by (auto simp: insertBucket_def Let_def listFrame_def)
  moreover have "key \<notin> fst ` set (kl_buckets l)" using None by (simp add: map_of_eq_None_iff)
  ultimately show ?thesis using None l1(1) I by (cases "insertBucket key (clk 2) l1") (auto simp: limiterBucket_def)
next
  case (Some x)
  then have "key \<in> fst ` set (kl_buckets l)" by (force dest: map_of_SomeD)
  then show ?thesis using Some assms by (auto simp: limiterBucket_def)
qed

section \<open>Every history of the limiter\<close>

text \<open>Goroutines look buckets up and spend on buckets they hold (evicted or not), in any order.\<close>

datatype limiterOp = LookUp bytes "nat \<Rightarrow> int" | Spend tref int

fun limiterStep :: "limiterOp \<Rightarrow> keyedLimiter \<Rightarrow> keyedLimiter option" where
  "limiterStep (LookUp key clk) l = map_option fst (limiterBucket key clk l)"
| "limiterStep (Spend x now) l = Some (fst (bucketAllow x now l))"

fun limiterRun :: "limiterOp list \<Rightarrow> keyedLimiter \<Rightarrow> keyedLimiter option" where
  "limiterRun [] l = Some l"
| "limiterRun (op # ops) l = Option.bind (limiterStep op l) (limiterRun ops)"

definition withinCap :: "keyedLimiter \<Rightarrow> bool" where
  "withinCap l \<longleftrightarrow> kl_maxBuckets l = 0 \<or> int (bucketCount l) \<le> kl_maxBuckets l"

lemma tbAllow_links:
  "tb_prev (fst (tbAllow t b)) = tb_prev b" "tb_next (fst (tbAllow t b)) = tb_next b"
  "tb_inList (fst (tbAllow t b)) = tb_inList b" "tb_key (fst (tbAllow t b)) = tb_key b"
  by (simp_all add: tbAllow_def refill_def Let_def)

lemma bucketAllow_rep:
  assumes "kl_rep l xs"
  shows "kl_rep (fst (bucketAllow x now l)) xs"
proof -
  let ?l = "fst (bucketAllow x now l)"
  have l: "?l = tupd x (\<lambda>_. fst (tbAllow now (kl_heap l x))) l" by (simp add: bucketAllow_def Let_def case_prod_beta)
  have same: "nxtOf ?l y = nxtOf l y" "prvOf ?l y = prvOf l y" "tb_inList (kl_heap ?l y) = tb_inList (kl_heap l y)" "keyOf ?l y = keyOf l y" for y
    by (simp_all add: l tbAllow_links)
  have "linked (nxtOf ?l) (prvOf ?l) None xs = linked (nxtOf l) (prvOf l) None xs" by (rule linked_cong) (simp add: same)
  then show ?thesis using assms by (simp add: kl_rep_def kl_list_def same) (simp add: l)
qed

lemma limiterStep_rep:
  assumes "kl_rep l xs" and "withinCap l" and "0 \<le> kl_maxBuckets l"
  shows "\<exists>l' ys. limiterStep op l = Some l' \<and> kl_rep l' ys \<and> withinCap l' \<and> kl_maxBuckets l' = kl_maxBuckets l"
proof (cases op)
  case (LookUp key clk)
  obtain l' x where L: "limiterBucket key clk l = Some (l', x)"
    "kl_rep l' (if key \<in> fst ` set (kl_buckets l) then xs else x # survivors clk l xs)" "kl_maxBuckets l' = kl_maxBuckets l"
    using limiterBucket_rep [OF assms(1)] by blast
  have "withinCap l'"
  proof (cases "key \<in> fst ` set (kl_buckets l)")
    case True
    then show ?thesis using kl_repD(2) [OF L(2)] kl_repD(2) [OF assms(1)] assms(2) L(3) by (simp add: withinCap_def bucketCount_def)
  next
    case False
    then show ?thesis using kl_repD(2) [OF L(2)] survivors_bound [of l clk xs] assms(3) L(3) by (auto simp: withinCap_def bucketCount_def)
  qed
  then show ?thesis using LookUp L by auto
next
  case (Spend x now)
  have "kl_buckets (fst (bucketAllow x now l)) = kl_buckets l" "kl_maxBuckets (fst (bucketAllow x now l)) = kl_maxBuckets l"
    by (simp_all add: bucketAllow_def Let_def case_prod_beta)
  then show ?thesis using Spend bucketAllow_rep [OF assms(1)] assms(2) by (auto simp: withinCap_def bucketCount_def)
qed

text \<open>
  C24. The limiter's memory is bounded and its bookkeeping exact. After any history of lookups and
  spending, in any interleaving and for any clock: the map and the intrusive list hold the same
  buckets, each once and under its own key; with a cap configured there are never more buckets than
  the cap; and the next lookup returns (its eviction loop ends) with the bucket of the key, having
  kept of the others exactly what the sweeps leave, the oldest insertions dropped first.
\<close>

theorem limiter_is_bounded_fifo:
  "\<exists>l xs. limiterRun ops (newLimiter oor cfg) = Some l \<and> kl_rep l xs \<and> withinCap l
     \<and> (\<exists>l' x. limiterBucket key clk l = Some (l', x) \<and> map_of (kl_buckets l') key = Some x
          \<and> kl_rep l' (if key \<in> fst ` set (kl_buckets l) then xs else x # survivors clk l xs))"
proof -
  have run: "kl_rep l xs \<Longrightarrow> withinCap l \<Longrightarrow> 0 \<le> kl_maxBuckets l \<Longrightarrow> \<exists>l' ys. limiterRun ops l = Some l' \<and> kl_rep l' ys \<and> withinCap l'" for ops l xs
  proof (induction ops arbitrary: l xs)
    case (Cons op ops)
    obtain l' ys where "limiterStep op l = Some l'" "kl_rep l' ys" "withinCap l'" "kl_maxBuckets l' = kl_maxBuckets l"
      using limiterStep_rep [OF Cons.prems] by blast
    then show ?case using Cons.IH [of l' ys] Cons.prems(3) by simp
  qed auto
  have "kl_rep (newLimiter oor cfg) []"
    by (simp add: kl_rep_def kl_list_def newLimiter_def Let_def newTokenBucket_def last_opt_def)
  moreover have "withinCap (newLimiter oor cfg)" "0 \<le> kl_maxBuckets (newLimiter oor cfg)"
    by (simp_all add: withinCap_def bucketCount_def newLimiter_def Let_def resolveMaxBuckets_def DefaultMaxBuckets_def)
  ultimately obtain l xs where l: "limiterRun ops (newLimiter oor cfg) = Some l" "kl_rep l xs" "withinCap l" using run by blast
  then show ?thesis using limiterBucket_rep [OF l(2), of key clk] by blast
qed

text \<open>With a slow rate the clamp makes the idle time shorter than the time a bucket needs to refill.\<close>

lemma idle_ttl_below_refill:
  "resolveIdleTTL oor 0 (1 / 1024) 1024 = 24 * 60 * 60 * second
   \<and> of_int (resolveIdleTTL oor 0 (1 / 1024) 1024) / of_int second * (1 / 1024 :: rat) < 1024"
  using fl64_int [of 1024] fl64_int [of 1048576] fl64_int [of "10 ^ 9"] fl64_int [of "1048576 * 10 ^ 9"]
  by (simp add: resolveIdleTTL_def truncTo64_def maxInt64_def second_def DefaultBucketIdleTTL_def Let_def)

lemma refused_request_answers_429:
  "limiterAllow key clk l = Some (l', ok) \<Longrightarrow> rc_Key cfg = Some (\<lambda>_ _. key) \<Longrightarrow>
   RateLimit cfg clk h ctx req l = Some (l', if ok then h ctx req else tooManyRequests)"
  by (simp add: RateLimit_def)

end
