(* ===== verification/ServerLife.thy ===== *)
theory ServerLife
  imports ConnSafety Requests
begin

text \<open>
  The life of a server (server/server.go): options, the sets of listeners and connections, the
  counters folded in from closed connections, the streams in flight, \<open>acceptLoop\<close>, \<open>Close\<close> and
  \<open>Shutdown\<close>. Connection objects are pointers into a store of \<open>ServerConn\<close>s (theory ConnState), each
  with the two byte counters of its transport.

  Each section under the server's lock is one definition; \<open>life\<close> interleaves them with each other
  and with anything the connections do. Closing a closed channel panics in Go, and so does a
  negative \<open>WaitGroup\<close>; both set \<open>srv_panicked\<close>. Logging and the handlers are left out.
\<close>

section \<open>Options\<close>

record Options =
  op_Handler :: bool          \<comment> \<open>\<open>Handler != nil\<close>\<close>
  op_HTTPHandler :: bool
  op_ConnOpts :: ServerConnOptions
  op_MaxConcurrentConnections :: int
  op_GracefulShutdownTimeout :: int
  op_IdleTimeout :: int
  op_MaxRequestBodyBytes :: int

definition defaultMaxRequestBodyBytes :: int where "defaultMaxRequestBodyBytes = 10 * 2 ^ 20"
definition defaultIdleTimeout :: int where "defaultIdleTimeout = 120 * 10 ^ 9"

definition resolveMaxBodyBytes :: "Options \<Rightarrow> int" where
  "resolveMaxBodyBytes opts =
     (if op_MaxRequestBodyBytes opts = 0 then defaultMaxRequestBodyBytes
      else if op_MaxRequestBodyBytes opts < 0 then - 1 else op_MaxRequestBodyBytes opts)"

definition validateOptions :: "Options \<Rightarrow> bool" where
  "validateOptions opts \<longleftrightarrow> op_Handler opts \<or> op_HTTPHandler opts"

section \<open>The server\<close>

record ConnStats =
  BytesSent :: int
  BytesReceived :: int
  FramesSent :: int
  FramesReceived :: int
  StreamsAccepted :: int
  RapidResets :: int
  GoAways :: int

record connObj =
  co_conn :: ServerConn
  co_bytesSent :: int
  co_bytesReceived :: int

record Server =
  srv_opts :: Options
  srv_maxBodyBytes :: int
  srv_closed :: bool
  srv_shutdown :: bool
  srv_listeners :: "nat list"
  srv_conns :: "nat list"
  srv_closedStats :: ConnStats
  srv_inFlight :: int
  srv_closeCh :: bool             \<comment> \<open>closed\<close>
  srv_panicked :: bool
  srv_store :: "nat \<Rightarrow> connObj"

definition zeroStats :: ConnStats where
  "zeroStats = \<lparr>BytesSent = 0, BytesReceived = 0, FramesSent = 0, FramesReceived = 0, StreamsAccepted = 0, RapidResets = 0, GoAways = 0\<rparr>"

definition addStats :: "ConnStats \<Rightarrow> ConnStats \<Rightarrow> ConnStats" where
  "addStats a b = \<lparr>BytesSent = BytesSent a + BytesSent b, BytesReceived = BytesReceived a + BytesReceived b,
     FramesSent = FramesSent a + FramesSent b, FramesReceived = FramesReceived a + FramesReceived b,
     StreamsAccepted = StreamsAccepted a + StreamsAccepted b, RapidResets = RapidResets a + RapidResets b, GoAways = GoAways a + GoAways b\<rparr>"

text \<open>\<open>ServerConn.Stats\<close>, with the GOAWAY flag as the number it is counted as.\<close>

definition Stats :: "connObj \<Rightarrow> ConnStats" where
  "Stats co = (let sc = co_conn co in
     \<lparr>BytesSent = co_bytesSent co, BytesReceived = co_bytesReceived co, FramesSent = int (sc_framesSent sc),
      FramesReceived = int (sc_framesReceived sc), StreamsAccepted = uint (sc_streamsAccepted sc),
      RapidResets = uint (sc_rapidResetCount sc), GoAways = (if sc_goAwayRequested sc then 1 else 0)\<rparr>)"

definition NewServer :: "(nat \<Rightarrow> connObj) \<Rightarrow> Options \<Rightarrow> Server option" where
  "NewServer store0 opts0 =
     (if \<not> validateOptions opts0 then None
      else let opts = (if op_GracefulShutdownTimeout opts0 \<le> 0 then opts0\<lparr>op_GracefulShutdownTimeout := 30 * 10 ^ 9\<rparr> else opts0);
               opts = (if op_IdleTimeout opts = 0 then opts\<lparr>op_IdleTimeout := defaultIdleTimeout\<rparr> else opts)
           in Some \<lparr>srv_opts = opts, srv_maxBodyBytes = resolveMaxBodyBytes opts, srv_closed = False, srv_shutdown = False,
                    srv_listeners = [], srv_conns = [], srv_closedStats = zeroStats, srv_inFlight = 0, srv_closeCh = False,
                    srv_panicked = False, srv_store = store0\<rparr>)"

definition idleTimeout :: "Server \<Rightarrow> int" where
  "idleTimeout s = (if op_IdleTimeout (srv_opts s) < 0 then 0 else op_IdleTimeout (srv_opts s))"

definition updc :: "nat \<Rightarrow> (ServerConn \<Rightarrow> ServerConn) \<Rightarrow> Server \<Rightarrow> Server" where
  "updc i f s = s\<lparr>srv_store := (srv_store s)(i := (srv_store s i)\<lparr>co_conn := f (co_conn (srv_store s i))\<rparr>)\<rparr>"

definition forgetConn :: "nat \<Rightarrow> Server \<Rightarrow> Server" where
  "forgetConn i s =
     (if i \<notin> set (srv_conns s) then s
      else s\<lparr>srv_closedStats := addStats (srv_closedStats s) (Stats (srv_store s i)), srv_conns := removeAll i (srv_conns s)\<rparr>)"

definition trackConn :: "nat \<Rightarrow> bool \<Rightarrow> Server \<Rightarrow> Server" where
  "trackConn i add s = (if add then s\<lparr>srv_conns := List.insert i (srv_conns s)\<rparr> else forgetConn i s)"

definition ConnCount :: "Server \<Rightarrow> int" where
  "ConnCount s = int (length (srv_conns s))"

definition TransportStats :: "Server \<Rightarrow> ConnStats" where
  "TransportStats s = fold (\<lambda>i ts. addStats ts (Stats (srv_store s i))) (srv_conns s) (srv_closedStats s)"

definition closeCloseCh :: "Server \<Rightarrow> Server" where
  "closeCloseCh s = (if srv_closeCh s then s\<lparr>srv_panicked := True\<rparr> else s\<lparr>srv_closeCh := True\<rparr>)"

definition closeAndForget :: "codec \<Rightarrow> nat \<Rightarrow> Server \<Rightarrow> Server" where
  "closeAndForget c i s = forgetConn i (updc i (ConnClose c) s)"

definition ServerClose :: "codec \<Rightarrow> Server \<Rightarrow> Server" where
  "ServerClose c s =
     (if srv_closed s then s
      else let s = closeCloseCh (s\<lparr>srv_closed := True\<rparr>);
               s = s\<lparr>srv_listeners := []\<rparr>
           in fold (closeAndForget c) (srv_conns s) s)"

text \<open>
  \<open>Shutdown\<close> in its sections: the start with the snapshot of the connections (\<open>None\<close> if the server
  is closed already), the GOAWAY to each of them, and the end, which both outcomes of the wait have
  in common.
\<close>

definition ShutdownStart :: "Server \<Rightarrow> Server \<times> nat list option" where
  "ShutdownStart s =
     (if srv_closed s then (s, None)
      else let s = s\<lparr>srv_shutdown := True, srv_closed := True, srv_listeners := []\<rparr>
           in (closeCloseCh s, Some (srv_conns s)))"

definition ShutdownGoAway :: "codec \<Rightarrow> nat \<Rightarrow> Server \<Rightarrow> Server" where
  "ShutdownGoAway c i s = updc i (\<lambda>sc. fst (GoAwayGraceful c sc)) s"

definition ShutdownEnd :: "codec \<Rightarrow> nat list \<Rightarrow> Server \<Rightarrow> Server" where
  "ShutdownEnd c conns s = fold (closeAndForget c) conns s"

definition spawnStream :: "codec \<Rightarrow> nat \<Rightarrow> sref \<Rightarrow> Server \<Rightarrow> Server \<times> bool" where
  "spawnStream c i stream s =
     (if srv_shutdown s \<or> srv_closed s then (updc i (\<lambda>sc. fst (StreamClose c stream sc)) s, False)
      else (s\<lparr>srv_inFlight := srv_inFlight s + 1\<rparr>, True))"

text \<open>\<open>inFlight.Done()\<close>\<close>

definition streamDone :: "Server \<Rightarrow> Server" where
  "streamDone s = (if srv_inFlight s \<le> 0 then s\<lparr>srv_panicked := True\<rparr> else s\<lparr>srv_inFlight := srv_inFlight s - 1\<rparr>)"

text \<open>The two lock sections of \<open>serve\<close>, and its test of an accepted connection.\<close>

definition serveStart :: "nat \<Rightarrow> Server \<Rightarrow> Server \<times> bool" where
  "serveStart ln s = (if srv_closed s then (s, False) else (s\<lparr>srv_listeners := List.insert ln (srv_listeners s)\<rparr>, True))"

definition serveEnd :: "nat \<Rightarrow> Server \<Rightarrow> Server" where
  "serveEnd ln s = s\<lparr>srv_listeners := removeAll ln (srv_listeners s)\<rparr>"

definition admitsConn :: "Server \<Rightarrow> bool" where
  "admitsConn s \<longleftrightarrow> \<not> (op_MaxConcurrentConnections (srv_opts s) > 0 \<and> ConnCount s \<ge> op_MaxConcurrentConnections (srv_opts s))"

text \<open>\<open>serveConn\<close> up to the accept loop: the connection, and whether it is to be served.\<close>

datatype served' = NotServed "ServerConn option" | ServeIt ServerConn | Handshaking

definition serveConn :: "codec \<Rightarrow> Server \<Rightarrow> (bytes \<times> int) option \<Rightarrow> bytes \<Rightarrow> inFrame list \<Rightarrow> served'" where
  "serveConn c s nc preface frs =
     (let opts = op_ConnOpts (srv_opts s);
          opts = (if StreamEventBuffer opts \<le> 0 then opts\<lparr>StreamEventBuffer := 8\<rparr> else opts)
      in case NewServerConn c opts preface frs of
           StartErr e so \<Rightarrow> NotServed so
         | StartWait hs \<Rightarrow> Handshaking
         | StartOk (h, sc) rest \<Rightarrow>
             if \<not> tlsAdmissible nc then NotServed (Some (ConnClose c (fst (GoAway c ErrCodeInadequateSecurity sc))))
             else ServeIt sc)"

section \<open>The accept loop\<close>

definition closeIfFinished :: "codec \<Rightarrow> err \<Rightarrow> ServerConn \<Rightarrow> ServerConn" where
  "closeIfFinished c e sc =
     (if e = ErrConnClosed then ConnClose c sc
      else if e = CtxDeadlineExceeded \<and> ActiveStreams sc = 0 then ConnClose c sc
      else sc)"

datatype acceptNext = NextStream sref | StopAccepting | KeepAccepting | AcceptWaits

definition acceptIter :: "codec \<Rightarrow> int \<Rightarrow> err option \<Rightarrow> ServerConn \<Rightarrow> ServerConn \<times> acceptNext" where
  "acceptIter c idle ctxErr sc =
     (case AcceptStream ctxErr sc of
        (sc, Accepted stream) \<Rightarrow> (sc, NextStream stream)
      | (sc, AcceptBlock) \<Rightarrow> (sc, AcceptWaits)
      | (sc, AcceptErr e) \<Rightarrow>
          if idle > 0 \<and> e = CtxDeadlineExceeded \<and> ActiveStreams sc > 0 then (sc, KeepAccepting)
          else (closeIfFinished c e sc, StopAccepting))"

text \<open>
  An idle timeout never cuts a connection that is in use: as long as streams are live and neither
  side has ended the connection, no round of the accept loop closes it.
\<close>

lemma idle_timeout_spares_busy:
  assumes "\<not> sc_closed sc" and "\<not> sc_readerDone sc" and "ActiveStreams sc > 0" and "ctxErr \<noteq> Some ErrConnClosed"
  shows "\<not> sc_closed (fst (acceptIter c idle ctxErr sc))"
  using assms by (auto simp: acceptIter_def AcceptStream_def closeIfFinished_def ActiveStreams_def split: prod.split option.split)

section \<open>Executions\<close>

text \<open>
  Beside the server, an execution keeps the connections that were ever tracked, what each counted
  when it was forgotten, the streams being served, and how far a \<open>Shutdown\<close> has come.
\<close>

record lifeLog =
  lg_tracked :: "nat set"
  lg_final :: "nat \<Rightarrow> ConnStats"
  lg_serving :: nat
  lg_snapshot :: "nat list option"
  lg_drained :: bool
  lg_ended :: bool

type_synonym lifeState = "Server \<times> lifeLog"

definition forgetL :: "nat \<Rightarrow> lifeState \<Rightarrow> lifeState" where
  "forgetL i = (\<lambda>(s, lg). (forgetConn i s,
     if i \<in> set (srv_conns s) then lg\<lparr>lg_final := (lg_final lg)(i := Stats (srv_store s i))\<rparr> else lg))"

definition closeL :: "codec \<Rightarrow> nat \<Rightarrow> lifeState \<Rightarrow> lifeState" where
  "closeL c i = (\<lambda>(s, lg). forgetL i (updc i (ConnClose c) s, lg))"

lemma fst_closeL: "fst (fold (closeL c) is sl) = fold (closeAndForget c) is (fst sl)"
  by (induction "is" arbitrary: sl) (simp_all add: closeL_def forgetL_def closeAndForget_def case_prod_beta)

definition ServerCloseL :: "codec \<Rightarrow> lifeState \<Rightarrow> lifeState" where
  "ServerCloseL c = (\<lambda>(s, lg).
     if srv_closed s then (s, lg)
     else let s = (closeCloseCh (s\<lparr>srv_closed := True\<rparr>))\<lparr>srv_listeners := []\<rparr> in fold (closeL c) (srv_conns s) (s, lg))"

lemma fst_ServerCloseL: "fst (ServerCloseL c sl) = ServerClose c (fst sl)"
  by (simp add: ServerCloseL_def ServerClose_def Let_def case_prod_beta fst_closeL)

definition ShutdownEndL :: "codec \<Rightarrow> nat list \<Rightarrow> lifeState \<Rightarrow> lifeState" where
  "ShutdownEndL c conns = (\<lambda>(s, lg). fold (closeL c) conns (s, lg\<lparr>lg_ended := True\<rparr>))"

lemma fst_ShutdownEndL: "fst (ShutdownEndL c conns sl) = ShutdownEnd c conns (fst sl)"
  by (simp add: ShutdownEndL_def ShutdownEnd_def case_prod_beta fst_closeL)

definition log0 :: lifeLog where
  "log0 = \<lparr>lg_tracked = {}, lg_final = (\<lambda>_. zeroStats), lg_serving = 0, lg_snapshot = None, lg_drained = False, lg_ended = False\<rparr>"

text \<open>
  Any connection may do anything its own sections allow, at any time. A connection is tracked once,
  by the goroutine that serves it, possibly after the server was closed.
\<close>

inductive life :: "codec \<Rightarrow> Options \<Rightarrow> lifeState \<Rightarrow> bool" for c opts where
  start: "NewServer store0 opts = Some s \<Longrightarrow> life c opts (s, log0)"
| conn: "life c opts (s, lg) \<Longrightarrow> atomics c (co_conn (srv_store s i)) (co_conn co) \<Longrightarrow>
    life c opts (s\<lparr>srv_store := (srv_store s)(i := co)\<rparr>, lg)"
| dial: "life c opts (s, lg) \<Longrightarrow> i \<notin> lg_tracked lg \<Longrightarrow> life c opts (s\<lparr>srv_store := (srv_store s)(i := co)\<rparr>, lg)"
| track: "life c opts (s, lg) \<Longrightarrow> i \<notin> lg_tracked lg \<Longrightarrow>
    life c opts (trackConn i True s, lg\<lparr>lg_tracked := insert i (lg_tracked lg)\<rparr>)"
| untrack: "life c opts sl \<Longrightarrow> life c opts (forgetL i sl)"
| spawn: "life c opts (s, lg) \<Longrightarrow> spawnStream c i st s = (s', ok) \<Longrightarrow>
    life c opts (s', if ok then lg\<lparr>lg_serving := Suc (lg_serving lg)\<rparr> else lg)"
| finish: "life c opts (s, lg) \<Longrightarrow> 0 < lg_serving lg \<Longrightarrow> life c opts (streamDone s, lg\<lparr>lg_serving := lg_serving lg - 1\<rparr>)"
| listen: "life c opts (s, lg) \<Longrightarrow> life c opts (fst (serveStart ln s), lg)"
| unlisten: "life c opts (s, lg) \<Longrightarrow> life c opts (serveEnd ln s, lg)"
| close: "life c opts sl \<Longrightarrow> life c opts (ServerCloseL c sl)"
| shutdown: "life c opts (s, lg) \<Longrightarrow> ShutdownStart s = (s', Some snap) \<Longrightarrow> life c opts (s', lg\<lparr>lg_snapshot := Some snap\<rparr>)"
| goaway: "life c opts (s, lg) \<Longrightarrow> lg_snapshot lg = Some snap \<Longrightarrow> i \<in> set snap \<Longrightarrow> life c opts (ShutdownGoAway c i s, lg)"
| drained: "life c opts (s, lg) \<Longrightarrow> lg_snapshot lg = Some snap \<Longrightarrow> srv_inFlight s = 0 \<Longrightarrow> life c opts (s, lg\<lparr>lg_drained := True\<rparr>)"
| ended: "life c opts (s, lg) \<Longrightarrow> lg_snapshot lg = Some snap \<Longrightarrow> life c opts (ShutdownEndL c snap (s, lg))"

section \<open>Nothing is lost, counted twice or closed twice\<close>

definition counters :: "(ConnStats \<Rightarrow> int) list" where
  "counters = [BytesSent, BytesReceived, FramesSent, FramesReceived, StreamsAccepted, RapidResets, GoAways]"

text \<open>What a connection contributes: its counters now while it is tracked, what they were when it was forgotten afterwards.\<close>

definition contribution :: "lifeState \<Rightarrow> nat \<Rightarrow> ConnStats" where
  "contribution = (\<lambda>(s, lg) i. if i \<in> set (srv_conns s) then Stats (srv_store s i) else lg_final lg i)"

definition flagsInv :: "lifeState \<Rightarrow> bool" where
  "flagsInv = (\<lambda>(s, lg). \<not> srv_panicked s \<and> srv_closeCh s = srv_closed s \<and> (srv_shutdown s \<longrightarrow> srv_closed s)
     \<and> srv_inFlight s = int (lg_serving lg) \<and> (lg_drained lg \<longrightarrow> lg_serving lg = 0 \<and> lg_snapshot lg \<noteq> None)
     \<and> (lg_snapshot lg \<noteq> None \<longrightarrow> srv_closed s))"

definition countInv :: "lifeState \<Rightarrow> bool" where
  "countInv = (\<lambda>(s, lg). distinct (srv_conns s) \<and> set (srv_conns s) \<subseteq> lg_tracked lg \<and> finite (lg_tracked lg)
     \<and> (\<forall>g \<in> set counters. g (srv_closedStats s) = (\<Sum>i \<in> lg_tracked lg - set (srv_conns s). g (lg_final lg i))))"

lemma counters_add: "g \<in> set counters \<Longrightarrow> g (addStats a b) = g a + g b" "g \<in> set counters \<Longrightarrow> g zeroStats = 0"
  by (auto simp: counters_def addStats_def zeroStats_def)

lemma flags_closeL: "flagsInv sl \<Longrightarrow> flagsInv (closeL c i sl)"
  by (cases sl) (simp add: flagsInv_def closeL_def forgetL_def forgetConn_def updc_def)

lemma flags_fold: "flagsInv sl \<Longrightarrow> flagsInv (fold (closeL c) is sl)"
  by (induction "is" arbitrary: sl) (simp_all add: flags_closeL)

lemma life_flags: "life c opts sl \<Longrightarrow> flagsInv sl"
proof (induction rule: life.induct)
  case (close sl)
  obtain s lg where sl: "sl = (s, lg)" by (cases sl)
  show ?case
  proof (cases "srv_closed s")
    case False
    let ?s = "(closeCloseCh (s\<lparr>srv_closed := True\<rparr>))\<lparr>srv_listeners := []\<rparr>"
    have "flagsInv (?s, lg)" using close.IH False by (auto simp: flagsInv_def sl closeCloseCh_def)
    then show ?thesis using False by (simp add: sl ServerCloseL_def Let_def flags_fold)
  qed (use close.IH sl in \<open>simp add: ServerCloseL_def\<close>)
next
  case (ended s lg snap)
  then have "flagsInv (s, lg\<lparr>lg_ended := True\<rparr>)" by (simp add: flagsInv_def)
  then show ?case by (simp add: ShutdownEndL_def flags_fold)
qed (auto simp: flagsInv_def log0_def NewServer_def Let_def trackConn_def forgetL_def forgetConn_def spawnStream_def updc_def streamDone_def
      serveStart_def serveEnd_def ShutdownStart_def closeCloseCh_def ShutdownGoAway_def split: if_splits prod.splits)

lemma count_change:
  assumes "countInv (s, lg)" and "srv_conns s' = srv_conns s" and "srv_closedStats s' = srv_closedStats s"
    and "lg_tracked lg' = lg_tracked lg" and "lg_final lg' = lg_final lg"
  shows "countInv (s', lg')"
  using assms by (simp add: countInv_def)

lemma count_forgetL:
  assumes "countInv sl"
  shows "countInv (forgetL i sl)"
proof -
  obtain s lg where sl: "sl = (s, lg)" by (cases sl)
  have I: "distinct (srv_conns s)" "set (srv_conns s) \<subseteq> lg_tracked lg" "finite (lg_tracked lg)"
    "\<And>g. g \<in> set counters \<Longrightarrow> g (srv_closedStats s) = (\<Sum>j \<in> lg_tracked lg - set (srv_conns s). g (lg_final lg j))"
    using assms by (auto simp: countInv_def sl)
  show ?thesis
  proof (cases "i \<in> set (srv_conns s)")
    case True
    have T: "lg_tracked lg - (set (srv_conns s) - {i}) = insert i (lg_tracked lg - set (srv_conns s))" using True I(2) by auto
    let ?fin = "(lg_final lg)(i := Stats (srv_store s i))"
    have "(\<Sum>j \<in> lg_tracked lg - (set (srv_conns s) - {i}). g (?fin j)) = g (Stats (srv_store s i)) + (\<Sum>j \<in> lg_tracked lg - set (srv_conns s). g (lg_final lg j))"
      for g :: "ConnStats \<Rightarrow> int"
    proof -
      have "(\<Sum>j \<in> insert i (lg_tracked lg - set (srv_conns s)). g (?fin j)) = g (?fin i) + (\<Sum>j \<in> lg_tracked lg - set (srv_conns s). g (?fin j))"
        using I(3) True by (intro sum.insert) auto
      moreover have "(\<Sum>j \<in> lg_tracked lg - set (srv_conns s). g (?fin j)) = (\<Sum>j \<in> lg_tracked lg - set (srv_conns s). g (lg_final lg j))"
        using True by (intro sum.cong) auto
      ultimately show ?thesis unfolding T by simp
    qed
    then show ?thesis using True I by (auto simp: sl countInv_def forgetL_def forgetConn_def counters_add distinct_removeAll)
  qed (use assms sl in \<open>simp add: forgetL_def forgetConn_def\<close>)
qed

lemma count_fold: "countInv sl \<Longrightarrow> countInv (fold (closeL c) is sl)"
proof (induction "is" arbitrary: sl)
  case (Cons i "is")
  have "countInv (updc i (ConnClose c) (fst sl), snd sl)" using Cons.prems by (cases sl) (auto simp: updc_def intro: count_change)
  then show ?case using Cons.IH count_forgetL by (simp add: closeL_def case_prod_beta)
qed simp

lemma life_count: "life c opts sl \<Longrightarrow> countInv sl"
proof (induction rule: life.induct)
  case (start store0 s)
  then show ?case by (auto simp: countInv_def log0_def NewServer_def Let_def counters_add split: if_splits)
next
  case (track s lg i)
  have "lg_tracked lg - set (srv_conns s) = insert i (lg_tracked lg) - set (List.insert i (srv_conns s))" using track(2) by auto
  then show ?case using track by (auto simp: countInv_def trackConn_def)
next
  case (untrack sl i)
  then show ?case by (simp add: count_forgetL)
next
  case (close sl)
  obtain s lg where sl: "sl = (s, lg)" by (cases sl)
  have "countInv ((closeCloseCh (s\<lparr>srv_closed := True\<rparr>))\<lparr>srv_listeners := []\<rparr>, lg)"
    by (rule count_change [OF close.IH [unfolded sl]]) (simp_all add: closeCloseCh_def)
  then show ?case using close.IH by (simp add: ServerCloseL_def sl Let_def count_fold)
next
  case (ended s lg snap)
  have "countInv (s, lg\<lparr>lg_ended := True\<rparr>)" by (rule count_change [OF ended.IH]) simp_all
  then show ?case by (simp add: ShutdownEndL_def count_fold)
qed (auto simp: spawnStream_def updc_def streamDone_def serveStart_def serveEnd_def ShutdownStart_def closeCloseCh_def ShutdownGoAway_def Let_def
      elim!: count_change split: if_splits)

lemma fold_stats:
  "g \<in> set counters \<Longrightarrow> distinct is \<Longrightarrow>
   g (fold (\<lambda>i ts. addStats ts (Stats (st i))) is a) = g a + (\<Sum>i \<in> set is. g (Stats (st i)))"
  by (induction "is" arbitrary: a) (simp_all add: counters_add)

lemma TransportStats_sum:
  assumes "countInv (s, lg)" and "g \<in> set counters"
  shows "g (TransportStats s) = (\<Sum>i \<in> lg_tracked lg. g (contribution (s, lg) i))"
proof -
  have I: "distinct (srv_conns s)" "set (srv_conns s) \<subseteq> lg_tracked lg" "finite (lg_tracked lg)"
    "g (srv_closedStats s) = (\<Sum>j \<in> lg_tracked lg - set (srv_conns s). g (lg_final lg j))"
    using assms by (auto simp: countInv_def)
  have "(\<Sum>i \<in> lg_tracked lg. g (contribution (s, lg) i)) = (\<Sum>i \<in> lg_tracked lg - set (srv_conns s). g (contribution (s, lg) i))
      + (\<Sum>i \<in> set (srv_conns s). g (contribution (s, lg) i))" by (rule sum.subset_diff [OF I(2,3)])
  also have "\<dots> = g (srv_closedStats s) + (\<Sum>i \<in> set (srv_conns s). g (Stats (srv_store s i)))"
    by (auto simp: I(4) contribution_def intro!: arg_cong2 [where f = "(+)"] sum.cong)
  finally show ?thesis using fold_stats [OF assms(2) I(1)] by (simp add: TransportStats_def)
qed

text \<open>\<open>Shutdown\<close> leaves the connections of its snapshot closed.\<close>

lemma ConnClose_closed: "sc_closed (ConnClose c sc)"
  by (simp add: ConnClose_def Let_def case_prod_beta split: option.split)

definition closedAt :: "Server \<Rightarrow> nat \<Rightarrow> bool" where
  "closedAt s i \<longleftrightarrow> sc_closed (co_conn (srv_store s i))"

definition endedInv :: "lifeState \<Rightarrow> bool" where
  "endedInv = (\<lambda>(s, lg). (\<forall>snap. lg_snapshot lg = Some snap \<longrightarrow> set snap \<subseteq> lg_tracked lg \<and> (lg_ended lg \<longrightarrow> (\<forall>i \<in> set snap. closedAt s i)))
     \<and> (lg_ended lg \<longrightarrow> lg_snapshot lg \<noteq> None))"

lemma fold_closes:
  "closedAt (fst (fold (closeL c) is sl)) j \<longleftrightarrow> j \<in> set is \<or> closedAt (fst sl) j"
proof (induction "is" arbitrary: sl)
  case (Cons i "is")
  have "closedAt (fst (closeL c i sl)) j \<longleftrightarrow> j = i \<or> closedAt (fst sl) j"
    by (cases sl) (simp add: closeL_def forgetL_def forgetConn_def updc_def closedAt_def ConnClose_closed)
  then show ?case using Cons by auto
qed simp

lemma fold_log:
  "lg_snapshot (snd (fold (closeL c) is sl)) = lg_snapshot (snd sl)" "lg_ended (snd (fold (closeL c) is sl)) = lg_ended (snd sl)"
  "lg_tracked (snd (fold (closeL c) is sl)) = lg_tracked (snd sl)"
  by (induction "is" arbitrary: sl) (simp_all add: closeL_def forgetL_def case_prod_beta)

lemma closed_kept: "atomics c sc sc' \<Longrightarrow> sc_closed sc \<Longrightarrow> sc_closed sc'"
  by (induction rule: rtranclp_induct) (blast intro: closed_atomic)+

lemma ended_change:
  assumes "endedInv (s, lg)" and "\<And>i. i \<in> lg_tracked lg \<Longrightarrow> closedAt s i \<Longrightarrow> closedAt s' i"
    and "lg_tracked lg \<subseteq> lg_tracked lg'" and "lg_snapshot lg' = lg_snapshot lg" and "lg_ended lg' = lg_ended lg"
  shows "endedInv (s', lg')"
  using assms unfolding endedInv_def prod.case by (metis (no_types, lifting) subset_eq)

lemma life_ended: "life c opts sl \<Longrightarrow> endedInv sl"
proof (induction rule: life.induct)
  case (start store0 s)
  then show ?case by (simp add: endedInv_def log0_def)
next
  case (conn s lg i co)
  show ?case
    by (rule ended_change [OF conn.IH]) (use closed_kept [OF conn.hyps(2)] in \<open>auto simp: closedAt_def\<close>)
next
  case (untrack sl i)
  then show ?case by (cases sl) (auto simp: forgetL_def forgetConn_def closedAt_def elim!: ended_change)
next
  case (close sl)
  obtain s lg where sl: "sl = (s, lg)" by (cases sl)
  let ?s = "(closeCloseCh (s\<lparr>srv_closed := True\<rparr>))\<lparr>srv_listeners := []\<rparr>"
  let ?r = "fold (closeL c) (srv_conns ?s) (?s, lg)"
  have "endedInv (fst ?r, snd ?r)"
  proof (rule ended_change [OF close.IH [unfolded sl]])
    show "closedAt (fst ?r) i" if "closedAt s i" for i
      unfolding fold_closes using that by (simp add: closedAt_def closeCloseCh_def)
  qed (simp_all add: fold_log)
  then show ?case using close.IH by (simp add: ServerCloseL_def sl Let_def)
next
  case (shutdown s lg s' snap)
  have "set (srv_conns s) \<subseteq> lg_tracked lg" using life_count [OF shutdown.hyps(1)] by (simp add: countInv_def)
  moreover have "\<not> lg_ended lg" using shutdown life_flags [OF shutdown.hyps(1)]
    by (auto simp: endedInv_def flagsInv_def ShutdownStart_def split: if_splits)
  ultimately show ?case using shutdown.hyps(2) by (auto simp: endedInv_def ShutdownStart_def closeCloseCh_def Let_def split: if_splits)
next
  case (ended s lg snap)
  let ?r = "fold (closeL c) snap (s, lg\<lparr>lg_ended := True\<rparr>)"
  have "endedInv (fst ?r, snd ?r)" unfolding endedInv_def prod.case fold_log fold_closes using ended by (simp add: endedInv_def)
  then show ?case by (simp add: ShutdownEndL_def)
qed (auto simp: spawnStream_def updc_def streamDone_def serveStart_def serveEnd_def ShutdownGoAway_def Let_def closedAt_def trackConn_def
      elim!: ended_change split: if_splits)

text \<open>
  C23. A server's life is orderly, in every interleaving of its own sections with each other and with
  whatever its connections do: no channel is closed twice and the count of streams in flight never
  goes wrong; it is the number of handlers running, and once \<open>Shutdown\<close> has waited for it to reach
  zero it stays zero; the transport totals count every connection ever tracked exactly once, with
  its present counters while it is tracked and its final ones after; and when \<open>Shutdown\<close> has
  returned, every connection that was tracked when it began is closed.
\<close>

theorem server_life_orderly:
  assumes "life c opts (s, lg)"
  shows "\<not> srv_panicked s \<and> srv_inFlight s = int (lg_serving lg) \<and> (lg_drained lg \<longrightarrow> srv_inFlight s = 0)
    \<and> (\<forall>g \<in> set counters. g (TransportStats s) = (\<Sum>i \<in> lg_tracked lg. g (contribution (s, lg) i)))
    \<and> (\<forall>snap. lg_ended lg \<longrightarrow> lg_snapshot lg = Some snap \<longrightarrow> (\<forall>i \<in> set snap. sc_closed (co_conn (srv_store s i))))"
  using life_flags [OF assms] life_count [OF assms] life_ended [OF assms] TransportStats_sum [OF life_count [OF assms]]
  by (auto simp: flagsInv_def endedInv_def closedAt_def)

definition sampleSrvOptions :: Options where
  "sampleSrvOptions = \<lparr>op_Handler = True, op_HTTPHandler = False, op_ConnOpts = sampleOptions, op_MaxConcurrentConnections = 0,
     op_GracefulShutdownTimeout = 0, op_IdleTimeout = 0, op_MaxRequestBodyBytes = 0\<rparr>"

definition sampleServer :: Server where
  "sampleServer = the (NewServer (\<lambda>_. \<lparr>co_conn = newConn sampleOptions, co_bytesSent = 0, co_bytesReceived = 24\<rparr>) sampleSrvOptions)"

definition sampleLife :: lifeState where
  "sampleLife = ShutdownEndL sampleCodec [0]
     (fst (ShutdownStart (trackConn 0 True sampleServer)), log0\<lparr>lg_tracked := {0}, lg_snapshot := Some [0]\<rparr>)"

lemma sampleLife_life: "life sampleCodec sampleSrvOptions sampleLife"
proof -
  have "NewServer (\<lambda>_. \<lparr>co_conn = newConn sampleOptions, co_bytesSent = 0, co_bytesReceived = 24\<rparr>) sampleSrvOptions = Some sampleServer"
    by (simp add: sampleServer_def NewServer_def validateOptions_def sampleSrvOptions_def Let_def)
  then have "life sampleCodec sampleSrvOptions (sampleServer, log0)" by (rule life.start)
  from life.track [OF this, of 0] have t: "life sampleCodec sampleSrvOptions (trackConn 0 True sampleServer, log0\<lparr>lg_tracked := {0}\<rparr>)"
    by (simp add: log0_def)
  have "ShutdownStart (trackConn 0 True sampleServer) = (fst (ShutdownStart (trackConn 0 True sampleServer)), Some [0])"
    by (simp add: ShutdownStart_def trackConn_def sampleServer_def NewServer_def validateOptions_def sampleSrvOptions_def Let_def closeCloseCh_def)
  from life.shutdown [OF t this] have "life sampleCodec sampleSrvOptions
      (fst (ShutdownStart (trackConn 0 True sampleServer)), log0\<lparr>lg_tracked := {0}, lg_snapshot := Some [0]\<rparr>)" by simp
  from life.ended [OF this] show ?thesis by (simp add: sampleLife_def)
qed

theorem server_life_orderly_witness:
  "lg_ended (snd sampleLife) \<and> lg_snapshot (snd sampleLife) = Some [0] \<and> sc_closed (co_conn (srv_store (fst sampleLife) 0))
   \<and> BytesReceived (TransportStats (fst sampleLife)) = BytesReceived (contribution sampleLife 0)"
proof -
  have "life sampleCodec sampleSrvOptions (fst sampleLife, snd sampleLife)" using sampleLife_life by simp
  note L = server_life_orderly [OF this]
  have "lg_ended (snd sampleLife)" "lg_snapshot (snd sampleLife) = Some [0]" "lg_tracked (snd sampleLife) = {0}"
    by (simp_all add: sampleLife_def ShutdownEndL_def fold_log del: fold.simps)
  then show ?thesis using L by (simp add: counters_def)
qed

text \<open>
  A connection whose handshake ends only after the server was closed: it is tracked, its first
  stream is refused, the accept loop stops and forgets it, and nobody is left to close it.
\<close>

lemma late_connection_left_open:
  assumes "srv_closed s" and "i \<notin> set (srv_conns s)" and "\<not> closedAt s i"
  shows "case spawnStream c i st (trackConn i True s) of (s', ok) \<Rightarrow>
    \<not> ok \<and> i \<notin> set (srv_conns (trackConn i False s')) \<and> \<not> closedAt (trackConn i False s') i"
  using assms by (simp add: spawnStream_def trackConn_def updc_def forgetConn_def closedAt_def)

end
