(* ===== verification/H2c.thy ===== *)
theory H2c
  imports ResponseWriter ServerLife
begin

text \<open>
  HTTP/2 over cleartext TCP (server/h2c.go): the probe that tells a prior-knowledge client from an
  HTTP/1.1 upgrade, the conditions of an upgrade, and the request it carries onto stream 1.

  The octets the client sends are one list; the probe sees at most \<open>maxProbeHeadBytes\<close> of it.
  \<open>http.ReadRequest\<close> is a parameter: it gives the request and the octets after its head, or fails.
  Deadlines, the staged close and the logger are left out.
\<close>

section \<open>base64url without padding\<close>

text \<open>encoding/base64, \<open>RawURLEncoding\<close>: line breaks are skipped, spare bits of the last digit ignored.\<close>

definition b64digit :: "char \<Rightarrow> nat option" where
  "b64digit ch =
     (let n = ord ch in
      if 65 \<le> n \<and> n \<le> 90 then Some (n - 65)
      else if 97 \<le> n \<and> n \<le> 122 then Some (n - 97 + 26)
      else if 48 \<le> n \<and> n \<le> 57 then Some (n - 48 + 52)
      else if n = 45 then Some 62 else if n = 95 then Some 63 else None)"

fun b64digits :: "bytes \<Rightarrow> nat list option" where
  "b64digits [] = Some []"
| "b64digits (ch # s) =
     (if ch = CHR 0x0A \<or> ch = CHR 0x0D then b64digits s
      else case b64digit ch of None \<Rightarrow> None | Some d \<Rightarrow> map_option ((#) d) (b64digits s))"

fun b64quanta :: "nat list \<Rightarrow> bytes option" where
  "b64quanta [] = Some []"
| "b64quanta [a] = None"
| "b64quanta [a, b] = Some [byte (a * 4 + b div 16)]"
| "b64quanta [a, b, d] = Some [byte (a * 4 + b div 16), byte (b mod 16 * 16 + d div 4)]"
| "b64quanta (a # b # d # e # ds) =
     map_option (\<lambda>r. byte (a * 4 + b div 16) # byte (b mod 16 * 16 + d div 4) # byte (d mod 4 * 64 + e) # r) (b64quanta ds)"

definition b64decode :: "bytes \<Rightarrow> bytes option" where
  "b64decode s = Option.bind (b64digits s) b64quanta"

definition validHTTP2SettingsPayload :: "bytes \<Rightarrow> bool" where
  "validHTTP2SettingsPayload v = (case b64decode v of None \<Rightarrow> False | Some raw \<Rightarrow> length raw mod 6 = 0)"

section \<open>The upgrade request\<close>

definition h2cPreface :: bytes where "h2cPreface = ''PRI * HTTP/2.0''"
definition maxProbeHeadBytes :: nat where "maxProbeHeadBytes = 64 * 2 ^ 10"

definition hasListToken :: "bytes list \<Rightarrow> bytes \<Rightarrow> bool" where
  "hasListToken values want = list_ex (\<lambda>v. list_ex (\<lambda>tok. EqualFold (TrimSpace tok) want) (Split CHR '','' v)) values"

definition hasUpgradeToken :: "bytes list \<Rightarrow> bool" where
  "hasUpgradeToken values = hasListToken values ''h2c''"

definition tokenChar :: "char \<Rightarrow> bool" where
  "tokenChar ch \<longleftrightarrow> 97 \<le> ord ch \<and> ord ch \<le> 122 \<or> 65 \<le> ord ch \<and> ord ch \<le> 90 \<or> 48 \<le> ord ch \<and> ord ch \<le> 57
     \<or> ch \<in> {CHR ''!'', CHR ''#'', CHR ''$'', CHR ''%'', CHR ''&'', CHR 0x27, CHR ''*'', CHR ''+'', CHR ''-'', CHR ''.'', CHR ''^'',
             CHR ''_'', CHR ''`'', CHR ''|'', CHR ''~''}"

definition validFieldName :: "bytes \<Rightarrow> bool" where
  "validFieldName name = (if name = [] then False else list_all tokenChar name)"

definition connectionSpecificFields :: "bytes list" where
  "connectionSpecificFields =
     [''connection'', ''upgrade'', ''http2-settings'', ''keep-alive'', ''proxy-connection'', ''transfer-encoding'', ''host'']"

record http1Request =
  h1_Method :: bytes
  h1_RequestURI :: bytes
  h1_ProtoMajor :: int
  h1_ProtoMinor :: int
  h1_Host :: bytes
  h1_Header :: Header
  h1_ContentLength :: int
  h1_TransferEncoding :: "bytes list"

definition h1field :: "bytes \<Rightarrow> bytes \<Rightarrow> HeaderField" where
  "h1field name value = \<lparr>Name = name, Value = Some value, Indexing = 0\<rparr>"

definition upgradeRequestFields :: "(bytes \<Rightarrow> bytes) \<Rightarrow> http1Request \<Rightarrow> HeaderField list" where
  "upgradeRequestFields uni req =
     [h1field '':method'' (h1_Method req), h1field '':scheme'' ''http'', h1field '':authority'' (h1_Host req),
      h1field '':path'' (h1_RequestURI req)]
     @ concat (map (\<lambda>(name, values).
         let lower' = ToLower uni name in
         if lower' \<in> set connectionSpecificFields then [] else map (h1field lower') values) (h1_Header req))"

text \<open>Why an upgrade is refused (the text of the 400 answer), or the fields it carries over.\<close>

definition handleHTTP1Upgrade :: "(bytes \<Rightarrow> bytes) \<Rightarrow> http1Request option \<Rightarrow> bytes + HeaderField list" where
  "handleHTTP1Upgrade uni r =
     (case r of
        None \<Rightarrow> Inl ''Malformed request''
      | Some req \<Rightarrow>
          if list_ex (\<lambda>(name, values). \<not> validFieldName name) (h1_Header req) then Inl ''Malformed field name''
          else if h1_ProtoMajor req \<noteq> 1 \<or> h1_ProtoMinor req < 1 then Inl ''Only h2c supported''
          else if h1_Host req = [] then Inl ''Missing Host header field''
          else if \<not> hasUpgradeToken (hdrValues (h1_Header req) ''Upgrade'') then Inl ''Only h2c supported''
          else if hasListToken (hdrValues (h1_Header req) ''Connection'') ''close''
          then Inl ''Upgrade request must not request connection close''
          else let settings = hdrValues (h1_Header req) ''HTTP2-Settings'' in
            if length settings \<noteq> 1 \<or> \<not> validHTTP2SettingsPayload (settings ! 0)
            then Inl ''Upgrade requires exactly one valid HTTP2-Settings header field''
            else if h1_ContentLength req \<noteq> 0 \<or> length (h1_TransferEncoding req) > 0
            then Inl ''Upgrade request must not carry content''
            else Inr (upgradeRequestFields uni req))"

definition crlf :: bytes where "crlf = [CHR 0x0D, CHR 0x0A]"

definition badRequestText :: "bytes \<Rightarrow> bytes" where
  "badRequestText reason =
     (let body = reason @ [CHR 0x0A] in
      ''HTTP/1.1 400 Bad Request'' @ crlf @ ''Content-Type: text/plain'' @ crlf @ ''Connection: close'' @ crlf
      @ ''Content-Length: '' @ FormatNat (length body) @ crlf @ crlf @ body)"

definition switchingText :: bytes where
  "switchingText = ''HTTP/1.1 101 Switching Protocols'' @ crlf @ ''Connection: Upgrade'' @ crlf @ ''Upgrade: h2c'' @ crlf @ crlf"

text \<open>
  What becomes of a connection: it is closed without an answer, answered and closed, or served as
  HTTP/2, with the answer sent before, the upgraded request and the octets the HTTP/2 side reads.
\<close>

datatype h2cOutcome = ProbeClosed | Answered400 bytes | ServeH2 bytes "UpgradedRequest option" bytes

definition detectAndServe :: "(bytes \<Rightarrow> bytes) \<Rightarrow> (bytes \<Rightarrow> (http1Request \<times> bytes) option) \<Rightarrow> bytes \<Rightarrow> h2cOutcome" where
  "detectAndServe uni readRequest inp =
     (let probe = take maxProbeHeadBytes inp in
      if length probe < length h2cPreface then ProbeClosed
      else if take (length h2cPreface) probe = h2cPreface then ServeH2 [] None inp
      else let r = readRequest probe in
        case handleHTTP1Upgrade uni (map_option fst r) of
          Inl reason \<Rightarrow> Answered400 (badRequestText reason)
        | Inr fs \<Rightarrow>
            ServeH2 switchingText (Some \<lparr>upHeaders = fs\<rparr>) (snd (the r) @ drop maxProbeHeadBytes inp))"

section \<open>The settings payload\<close>

text \<open>The encoding of RFC 4648 section 5 without padding.\<close>

definition b64char :: "nat \<Rightarrow> char" where
  "b64char d = (if d < 26 then char_of (d + 65) else if d < 52 then char_of (d - 26 + 97) else if d < 62 then char_of (d - 52 + 48)
     else if d = 62 then CHR ''-'' else CHR ''_'')"

fun b64groups :: "nat list \<Rightarrow> nat list" where
  "b64groups [] = []"
| "b64groups [x] = [x div 4, x mod 4 * 16]"
| "b64groups [x, y] = [x div 4, x mod 4 * 16 + y div 16, y mod 16 * 4]"
| "b64groups (x # y # z # r) = x div 4 # (x mod 4 * 16 + y div 16) # (y mod 16 * 4 + z div 64) # z mod 64 # b64groups r"

definition b64encode :: "bytes \<Rightarrow> bytes" where
  "b64encode raw = map b64char (b64groups (map ord raw))"

lemma b64digit_char:
  assumes "d < 64"
  shows "b64digit (b64char d) = Some d \<and> b64char d \<noteq> CHR 0x0A \<and> b64char d \<noteq> CHR 0x0D"
proof -
  have o: "ord (b64char d) = (if d < 26 then d + 65 else if d < 52 then d - 26 + 97 else if d < 62 then d - 52 + 48 else if d = 62 then 45 else 95)"
    using assms by (simp add: b64char_def)
  have "ord (b64char d) \<noteq> 10" "ord (b64char d) \<noteq> 13" using assms by (auto simp: o)
  then have "b64char d \<noteq> CHR 0x0A" "b64char d \<noteq> CHR 0x0D" by auto
  moreover have "b64digit (b64char d) = Some d" using assms by (auto simp: b64digit_def Let_def o)
  ultimately show ?thesis by simp
qed

lemma b64digits_map: "list_all (\<lambda>d. d < 64) ds \<Longrightarrow> b64digits (map b64char ds) = Some ds"
  by (induction ds) (simp_all add: b64digit_char)

lemma b64groups_small: "list_all (\<lambda>x. x < 256) xs \<Longrightarrow> list_all (\<lambda>d. d < 64) (b64groups xs)"
  by (induction xs rule: b64groups.induct) (auto simp: less_mult_imp_div_less)

lemma b64quanta_groups: "list_all (\<lambda>x. x < 256) xs \<Longrightarrow> b64quanta (b64groups xs) = Some (map byte xs)"
proof (induction xs rule: b64groups.induct)
  case (2 x)
  then show ?case by simp
next
  case (3 x y)
  then have "(x mod 4 * 16 + y div 16) div 16 = x mod 4" "(x mod 4 * 16 + y div 16) mod 16 = y div 16"
    by (auto simp: less_mult_imp_div_less)
  then show ?case by simp
next
  case (4 x y z r)
  then have "(x mod 4 * 16 + y div 16) div 16 = x mod 4" "(x mod 4 * 16 + y div 16) mod 16 = y div 16"
    "(y mod 16 * 4 + z div 64) div 4 = y mod 16" "(y mod 16 * 4 + z div 64) mod 4 = z div 64"
    by (auto simp: less_mult_imp_div_less)
  then show ?case using 4 by simp
qed simp

lemma b64_roundtrip: "b64decode (b64encode raw) = Some raw"
proof -
  have "list_all (\<lambda>x. x < 256) (map ord raw)" by (simp add: list_all_iff)
  then show ?thesis using b64quanta_groups [of "map ord raw"] b64digits_map [OF b64groups_small]
    by (simp add: b64decode_def b64encode_def comp_def)
qed

text \<open>A client that encodes a SETTINGS payload is understood, whatever the settings.\<close>

lemma settings_payload_accepted: "validHTTP2SettingsPayload (b64encode raw) \<longleftrightarrow> length raw mod 6 = 0"
  by (simp add: validHTTP2SettingsPayload_def b64_roundtrip)

section \<open>The request carried over\<close>

lemma tokenChar_lower:
  assumes "tokenChar ch"
  shows "ord ch < 0x80" and "0x20 < ord (lower ch) \<and> ord (lower ch) < 0x7f \<and> \<not> isUpperA (lower ch) \<and> lower ch \<noteq> CHR '':''"
proof -
  have o: "ord ch \<in> {97..122} \<union> {65..90} \<union> {48..57} \<union> {33, 35, 36, 37, 38, 39, 42, 43, 45, 46, 94, 95, 96, 124, 126}"
    using assms by (auto simp: tokenChar_def)
  then show "ord ch < 0x80" by auto
  have l: "ord (lower ch) = (if 65 \<le> ord ch \<and> ord ch \<le> 90 then ord ch + 32 else ord ch)" by (auto simp: ord_lower isUpperA_def)
  have "ord (lower ch) \<noteq> 58" using o by (auto simp: l)
  then have "lower ch \<noteq> CHR '':''" by auto
  then show "0x20 < ord (lower ch) \<and> ord (lower ch) < 0x7f \<and> \<not> isUpperA (lower ch) \<and> lower ch \<noteq> CHR '':''"
    using o by (auto simp: l isUpperA_def)
qed

lemma lowered_name:
  assumes "validFieldName name"
  shows "ToLower uni name = map lower name" and "name \<noteq> []" and "wf_name (map lower name)" and "hd (map lower name) \<noteq> CHR '':''"
proof -
  have n: "name \<noteq> []" "list_all tokenChar name" using assms by (auto simp: validFieldName_def split: if_splits)
  then show "name \<noteq> []" by simp
  have c: "ch \<in> set name \<Longrightarrow> tokenChar ch" for ch using n(2) by (auto simp: list_all_iff)
  then show "ToLower uni name = map lower name" using tokenChar_lower(1) by (auto simp: ToLower_def list_all_iff)
  have "CHR '':'' \<notin> lower ` set name" using c tokenChar_lower(2) by (metis imageE)
  then have "CHR '':'' \<notin> set (tl (map lower name))" by (cases name) auto
  then show "wf_name (map lower name)" using n(1) c tokenChar_lower(2) by (simp add: wf_name_def)
  show "hd (map lower name) \<noteq> CHR '':''" using n(1) c tokenChar_lower(2) [of "hd name"] by (simp add: hd_map)
qed

definition carriedFields :: "(bytes \<Rightarrow> bytes) \<Rightarrow> http1Request \<Rightarrow> HeaderField list" where
  "carriedFields uni req = drop 4 (upgradeRequestFields uni req)"

lemma upgradeRequestFields_split:
  "upgradeRequestFields uni req = [h1field '':method'' (h1_Method req), h1field '':scheme'' ''http'', h1field '':authority'' (h1_Host req),
      h1field '':path'' (h1_RequestURI req)] @ carriedFields uni req"
  by (simp add: carriedFields_def upgradeRequestFields_def)

lemma carried_clean:
  assumes "\<forall>(name, values) \<in> set (h1_Header req). validFieldName name" and "f \<in> set (carriedFields uni req)"
  shows "isRegular f \<and> \<not> hasProhibitedFieldName (Name f) \<and> \<not> isConnectionSpecificName (Name f)"
proof -
  obtain name vs where nv: "(name, vs) \<in> set (h1_Header req)" "ToLower uni name \<notin> set connectionSpecificFields"
    "Name f = ToLower uni name" using assms(2)
    by (auto simp: carriedFields_def upgradeRequestFields_def Let_def h1field_def split: if_splits)
  have v: "validFieldName name" using assms(1) nv(1) by auto
  note L = lowered_name [OF v]
  have "isRegular f" using L nv(3) by (simp add: isRegular_def)
  moreover have "\<not> hasProhibitedFieldName (Name f)" using L nv(3) by (simp add: hasProhibitedFieldName_iff)
  moreover have "\<not> isConnectionSpecificName (Name f)"
    using nv(2,3) by (auto simp: isConnectionSpecificName_iff connection_specific_def connectionSpecificFields_def)
  ultimately show ?thesis by simp
qed

lemma upgrade_allowed:
  assumes "handleHTTP1Upgrade uni r = Inr fs"
  obtains req v raw where "r = Some req" and "fs = upgradeRequestFields uni req" and "\<forall>(name, values) \<in> set (h1_Header req). validFieldName name"
    and "h1_Host req \<noteq> []" and "hasUpgradeToken (hdrValues (h1_Header req) ''Upgrade'')"
    and "hdrValues (h1_Header req) ''HTTP2-Settings'' = [v]" and "b64decode v = Some raw" and "length raw mod 6 = 0"
    and "h1_ContentLength req = 0" and "h1_TransferEncoding req = []"
proof -
  obtain req where req: "r = Some req" using assms by (cases r) (auto simp: handleHTTP1Upgrade_def)
  let ?vs = "hdrValues (h1_Header req) ''HTTP2-Settings''"
  have g: "\<not> list_ex (\<lambda>(name, values). \<not> validFieldName name) (h1_Header req)" "h1_Host req \<noteq> []"
    "hasUpgradeToken (hdrValues (h1_Header req) ''Upgrade'')" "length ?vs = 1" "validHTTP2SettingsPayload (?vs ! 0)"
    "h1_ContentLength req = 0" "h1_TransferEncoding req = []" "fs = upgradeRequestFields uni req"
    using assms by (auto simp: handleHTTP1Upgrade_def req Let_def split: if_splits)
  obtain v where v: "?vs = [v]" using g(4) by (cases ?vs) auto
  obtain raw where raw: "b64decode v = Some raw" "length raw mod 6 = 0"
    using g(5) v by (auto simp: validHTTP2SettingsPayload_def split: option.splits)
  show ?thesis by (rule that [OF req g(8) _ g(2,3) v raw g(6,7)]) (use g(1) in \<open>auto simp: list_ex_iff\<close>)
qed


definition sampleUpgrade :: http1Request where
  "sampleUpgrade = \<lparr>h1_Method = ''GET'', h1_RequestURI = ''/'', h1_ProtoMajor = 1, h1_ProtoMinor = 1, h1_Host = ''h'',
     h1_Header = [(''Upgrade'', [''h2c'']), (''Http2-Settings'', [''AAMAAABk'']), (''Te'', [''gzip''])],
     h1_ContentLength = 0, h1_TransferEncoding = []\<rparr>"

lemma sampleUpgrade_allowed: "handleHTTP1Upgrade id (Some sampleUpgrade) = Inr (upgradeRequestFields id sampleUpgrade)"
  by code_simp

lemma sampleUpgrade_served:
  "detectAndServe id (\<lambda>_. Some (sampleUpgrade, ''PRI'')) ''GET / HTTP/1.1..'' =
     ServeH2 switchingText (Some \<lparr>upHeaders = upgradeRequestFields id sampleUpgrade\<rparr>) ''PRI''"
  by (simp add: detectAndServe_def maxProbeHeadBytes_def h2cPreface_def sampleUpgrade_allowed)


text \<open>
  A \<open>te\<close> field is not among the fields left out, so a request can reach the application over an
  upgrade that would be refused in a HEADERS frame.
\<close>

lemma upgrade_carries_te:
  "\<exists>f \<in> set (upgradeRequestFields id sampleUpgrade). Prohibited (Name f) (bval (Value f)) False"
  by code_simp

section \<open>The bound of the probe\<close>

text \<open>
  \<open>probeLimitReader.Read\<close> for a buffer of \<open>n\<close> octets over a reader \<open>r\<close>, which returns its new state,
  the octets read and an error if any.
\<close>

record probeLimit =
  pl_remaining :: int
  pl_released :: bool

datatype 'e probeErr = ProbeHeadTooLarge | ReaderErr 'e

definition probeRead ::
  "('r \<Rightarrow> nat \<Rightarrow> 'r \<times> bytes \<times> 'e option) \<Rightarrow> nat \<Rightarrow> 'r \<times> probeLimit \<Rightarrow> ('r \<times> probeLimit) \<times> bytes \<times> 'e probeErr option" where
  "probeRead r n = (\<lambda>(src, l).
     if pl_released l then (let (src, p, e) = r src n in ((src, l), p, map_option ReaderErr e))
     else if pl_remaining l \<le> 0 then ((src, l), [], Some ProbeHeadTooLarge)
     else let n = (if int n > pl_remaining l then nat (pl_remaining l) else n);
              (src, p, e) = r src n
          in ((src, l\<lparr>pl_remaining := pl_remaining l - int (length p)\<rparr>), p, map_option ReaderErr e))"

fun probeReads ::
  "('r \<Rightarrow> nat \<Rightarrow> 'r \<times> bytes \<times> 'e option) \<Rightarrow> nat list \<Rightarrow> 'r \<times> probeLimit \<Rightarrow> ('r \<times> probeLimit) \<times> bytes" where
  "probeReads r [] st = (st, [])"
| "probeReads r (n # ns) st =
     (let (st, p, e) = probeRead r n st; (st, q) = probeReads r ns st in (st, p @ q))"

text \<open>Until it is released, the probe takes no more octets from the connection than its bound, however they are read.\<close>

lemma probe_bounded:
  assumes "\<And>src n. length (fst (snd (r src n))) \<le> n" and "0 \<le> pl_remaining l" and "\<not> pl_released l"
  shows "int (length (snd (probeReads r ns (src, l)))) \<le> pl_remaining l"
  using assms(2,3)
proof (induction ns arbitrary: src l)
  case (Cons n ns)
  obtain src' l' p e where p: "probeRead r n (src, l) = ((src', l'), p, e)" by (metis surj_pair)
  have "int (length p) \<le> pl_remaining l \<and> pl_remaining l' = pl_remaining l - int (length p) \<and> \<not> pl_released l'"
    using p Cons.prems assms(1) [of src n] assms(1) [of src "nat (pl_remaining l)"]
    by (auto simp: probeRead_def Let_def split: if_splits prod.splits)
  then show ?case using Cons.IH [of l' src'] by (simp add: p case_prod_beta Let_def)
qed simp

text \<open>\<open>serveConnReader\<close>: \<open>serveConn\<close> with the upgraded request among the connection's options.\<close>

definition serveConnReader ::
  "codec \<Rightarrow> Server \<Rightarrow> UpgradedRequest option \<Rightarrow> (bytes \<times> int) option \<Rightarrow> bytes \<Rightarrow> inFrame list \<Rightarrow> served'" where
  "serveConnReader c s upgraded nc preface frs =
     serveConn c (s\<lparr>srv_opts := (srv_opts s)\<lparr>op_ConnOpts := (op_ConnOpts (srv_opts s))\<lparr>optUpgradedRequest := upgraded\<rparr>\<rparr>\<rparr>) nc preface frs"

end
