(* ===== verification/Http3.thy ===== *)
theory Http3
  imports GoLib
begin

text \<open>
  The request path of the HTTP/3 server (http3server/server.go): buffering a request stream, the
  frames of a request, its field section, the request built from it, the buffered response and the
  verdict a request stream ends with.

  The QUIC transport and the HTTP/3 and QPACK codecs belong to another module and are parameters:
  the frame reader is a record of its operations on a state of its own, the other codec functions
  are a record of functions, and what a stream delivers is a sequence of observations. url.ParseRequestURI
  is a parameter as well. The texts of errors are left out.
\<close>

section \<open>Parameters\<close>

datatype frameRes = FrameNeedMore | FrameFailed | FrameOk "64 word" bytes

text \<open>The operations of http3.FrameReader the server uses.\<close>

record 'f frameLib =
  fl_new :: 'f
  fl_setMax :: "64 word \<Rightarrow> 'f \<Rightarrow> 'f"
  fl_feed :: "bytes \<Rightarrow> 'f \<Rightarrow> 'f"
  fl_read :: "'f \<Rightarrow> 'f \<times> frameRes"
  fl_buffered :: "'f \<Rightarrow> nat"

text \<open>
  Decoding a field section hands out fields one by one and may then fail (the flag). A frame header
  parses to a type. Requests refer to URLs of type \<open>'u\<close>.
\<close>

record 'u h3Lib =
  hl_DecodeFieldSection :: "bytes \<Rightarrow> (bytes \<times> bytes) list \<times> bool"
  hl_EncodeFieldSection :: "HeaderField list \<Rightarrow> bytes"
  hl_AppendHeaders :: "bytes \<Rightarrow> bytes \<Rightarrow> bytes"
  hl_AppendData :: "bytes \<Rightarrow> bytes \<Rightarrow> bytes"
  hl_ParseFrameHeader :: "bytes \<Rightarrow> (64 word) option"
  hl_ParseRequestURI :: "bytes \<Rightarrow> 'u option"

text \<open>The frame types of RFC 9114 section 11.2.1 and the error codes of section 8.1.\<close>

definition FrameData :: "64 word" where "FrameData = 0x00"
definition FrameHeaders :: "64 word" where "FrameHeaders = 0x01"
definition FrameCancelPush :: "64 word" where "FrameCancelPush = 0x03"
definition FrameSettings :: "64 word" where "FrameSettings = 0x04"
definition FramePushPromise :: "64 word" where "FramePushPromise = 0x05"
definition FrameGoaway :: "64 word" where "FrameGoaway = 0x07"
definition FrameMaxPushID :: "64 word" where "FrameMaxPushID = 0x0d"

lemmas frameTypes = FrameData_def FrameHeaders_def FrameCancelPush_def FrameSettings_def FramePushPromise_def
  FrameGoaway_def FrameMaxPushID_def

definition H3NoError :: "64 word" where "H3NoError = 0x0100"
definition H3InternalError :: "64 word" where "H3InternalError = 0x0102"
definition H3FrameUnexpected :: "64 word" where "H3FrameUnexpected = 0x0105"
definition H3FrameError :: "64 word" where "H3FrameError = 0x0106"
definition H3RequestRejected :: "64 word" where "H3RequestRejected = 0x010b"
definition h3RequestIncomplete :: "64 word" where "h3RequestIncomplete = 0x010d"
definition H3MessageError :: "64 word" where "H3MessageError = 0x010e"

definition maxRequestBytes :: "64 word" where "maxRequestBytes = 2 ^ 20"
definition maxFieldSection :: "64 word" where "maxFieldSection = 2 ^ 16"
definition h3FieldLineOverhead :: nat where "h3FieldLineOverhead = 32"

section \<open>Buffering a request\<close>

record connFrameError =
  cfe_typ :: "64 word"
  cfe_code :: "64 word"
  cfe_typUnknown :: bool

datatype h3err =
    ErrRequestTooLarge | ErrRequestFieldsTooLarge | ErrRequestIncomplete | ErrRequestAbandoned
  | ErrConnFrame connFrameError | ErrH3Message | ErrCodec

text \<open>
  One round of the loop sees whether the stream has finished or was reset, what it delivers, and,
  if it waits, whether the wait fails. A stream with nothing more to tell keeps the goroutine waiting.
\<close>

record streamObs =
  so_finished :: bool
  so_reset :: bool
  so_recv :: bytes
  so_waitErr :: bool

fun readRequestStream :: "bytes \<Rightarrow> streamObs list \<Rightarrow> (h3err + bytes) option" where
  "readRequestStream buf [] = None"
| "readRequestStream buf (o1 # os) =
     (let buf = buf @ so_recv o1 in
      if so_reset o1 then Some (Inl ErrRequestIncomplete)
      else if length buf > unat maxRequestBytes then Some (Inl ErrRequestTooLarge)
      else if so_finished o1 then Some (Inr buf)
      else if so_waitErr o1 then Some (Inl ErrRequestAbandoned)
      else readRequestStream buf os)"

section \<open>Decoding a request\<close>

definition truncatedFrame :: "'u h3Lib \<Rightarrow> bytes \<Rightarrow> connFrameError" where
  "truncatedFrame hl rest =
     (let e = \<lparr>cfe_typ = 0, cfe_code = H3FrameError, cfe_typUnknown = False\<rparr> in
      case hl_ParseFrameHeader hl rest of
        None \<Rightarrow> e\<lparr>cfe_typUnknown := True\<rparr>
      | Some typ \<Rightarrow> e\<lparr>cfe_typ := typ\<rparr>)"

text \<open>A copy made by append to a nil slice: nothing appended leaves nil.\<close>

definition copied :: "bytes \<Rightarrow> bytes option" where
  "copied b = (if b = [] then None else Some b)"

fun fields_loop :: "nat \<Rightarrow> (bytes \<times> bytes) list \<Rightarrow> HeaderField list \<Rightarrow> h3err + HeaderField list" where
  "fields_loop sz [] fds = Inr fds"
| "fields_loop sz ((name, value) # nvs) fds =
     (let sz = sz + length name + length value + h3FieldLineOverhead in
      if sz > unat maxFieldSection then Inl ErrRequestFieldsTooLarge
      else fields_loop sz nvs (fds @ [\<lparr>Name = name, Value = copied value, Indexing = 0\<rparr>]))"

definition decodeFields :: "'u h3Lib \<Rightarrow> bytes \<Rightarrow> h3err + HeaderField list" where
  "decodeFields hl section' =
     (let (nvs, failed) = hl_DecodeFieldSection hl section' in
      case fields_loop 0 nvs [] of
        Inl e \<Rightarrow> Inl e
      | Inr fds \<Rightarrow> if failed then Inl ErrCodec else Inr fds)"

text \<open>strconv.ParseUint for base 10.\<close>

definition ParseUint :: "nat \<Rightarrow> bytes \<Rightarrow> nat option" where
  "ParseUint bits s = (if s \<noteq> [] \<and> list_all isDigit s \<and> decimal s < 2 ^ bits then Some (decimal s) else None)"

definition checkContentLength :: "Header \<Rightarrow> nat \<Rightarrow> h3err option" where
  "checkContentLength header received =
     (let vs = (case map_of header ''Content-Length'' of None \<Rightarrow> [] | Some vs \<Rightarrow> vs) in
      if length vs = 0 then None
      else if list_ex (\<lambda>v. v \<noteq> vs ! 0) (drop 1 vs) then Some ErrH3Message
      else if vs ! 0 = [] then Some ErrH3Message
      else if list_ex (\<lambda>c. \<not> isDigit c) (vs ! 0) then Some ErrH3Message
      else case ParseUint 63 (vs ! 0) of
             None \<Rightarrow> Some ErrH3Message
           | Some declared \<Rightarrow> if declared \<noteq> received then Some ErrH3Message else None)"

record 'u h3Request =
  h3_Method :: bytes
  h3_URL :: 'u
  h3_URLHost :: "bytes option"
  h3_URLScheme :: bytes
  h3_Header :: Header
  h3_Body :: bytes
  h3_ContentLength :: int
  h3_Host :: bytes
  h3_RequestURI :: bytes

record h3Parts =
  hp_method :: bytes
  hp_scheme :: bytes
  hp_path :: bytes
  hp_authority :: bytes
  hp_header :: Header

fun parts_loop :: "HeaderField list \<Rightarrow> h3Parts \<Rightarrow> h3Parts option" where
  "parts_loop [] p = Some p"
| "parts_loop (f # fs) p =
     (if Name f = '':method'' then parts_loop fs (p\<lparr>hp_method := bval (Value f)\<rparr>)
      else if Name f = '':scheme'' then parts_loop fs (p\<lparr>hp_scheme := bval (Value f)\<rparr>)
      else if Name f = '':path'' then parts_loop fs (p\<lparr>hp_path := bval (Value f)\<rparr>)
      else if Name f = '':authority'' then parts_loop fs (p\<lparr>hp_authority := bval (Value f)\<rparr>)
      else if length (Name f) > 0 \<and> Name f ! 0 = CHR '':'' then None
      else parts_loop fs (p\<lparr>hp_header := hdrAdd (Name f) (bval (Value f)) (hp_header p)\<rparr>))"

definition h3buildRequest :: "'u h3Lib \<Rightarrow> HeaderField list \<Rightarrow> bytes \<Rightarrow> h3err + 'u h3Request" where
  "h3buildRequest hl fds body =
     (if list_ex (\<lambda>f. Prohibited (Name f) (bval (Value f)) False) fds then Inl ErrH3Message
      else if \<not> ValidRequestPseudoHeaders fds then Inl ErrH3Message
      else (case parts_loop fds \<lparr>hp_method = [], hp_scheme = [], hp_path = [], hp_authority = [], hp_header = []\<rparr> of
        None \<Rightarrow> Inl ErrH3Message
      | Some p \<Rightarrow>
          if hp_method p = [] \<or> hp_scheme p = [] \<or> hp_path p = [] then Inl ErrH3Message
          else (case checkContentLength (hp_header p) (length body) of
            Some e \<Rightarrow> Inl e
          | None \<Rightarrow>
              (case hl_ParseRequestURI hl (hp_path p) of
                 None \<Rightarrow> Inl ErrH3Message
               | Some u \<Rightarrow>
                   Inr \<lparr>h3_Method = hp_method p, h3_URL = u,
                        h3_URLHost = (if hp_authority p \<noteq> [] then Some (hp_authority p) else None),
                        h3_URLScheme = hp_scheme p, h3_Header = hp_header p, h3_Body = body,
                        h3_ContentLength = int (length body), h3_Host = hp_authority p, h3_RequestURI = hp_path p\<rparr>))))"

record decoded =
  d_fields :: "HeaderField list"
  d_body :: bytes
  d_seen :: bool
  d_trailers :: bool

text \<open>The frame types refused on a request stream.\<close>

definition notOnRequest :: "64 word \<Rightarrow> bool" where
  "notOnRequest typ \<longleftrightarrow> typ \<in> {FrameSettings, FrameCancelPush, FrameMaxPushID, FramePushPromise, 0x02, 0x06, 0x08, 0x09}"

text \<open>What one frame does to the request decoded so far.\<close>

definition requestFrame :: "'u h3Lib \<Rightarrow> 64 word \<Rightarrow> bytes \<Rightarrow> decoded \<Rightarrow> h3err + decoded" where
  "requestFrame hl typ payload d =
     (if typ = FrameHeaders then
        if d_trailers d then Inl (ErrConnFrame \<lparr>cfe_typ = typ, cfe_code = H3FrameUnexpected, cfe_typUnknown = False\<rparr>)
        else if d_seen d then Inr (d\<lparr>d_trailers := True\<rparr>)
        else (case decodeFields hl payload of
                Inl e \<Rightarrow> Inl e
              | Inr fds \<Rightarrow> Inr (d\<lparr>d_seen := True, d_fields := fds\<rparr>))
      else if typ = FrameData then
        if \<not> d_seen d \<or> d_trailers d
        then Inl (ErrConnFrame \<lparr>cfe_typ = typ, cfe_code = H3FrameUnexpected, cfe_typUnknown = False\<rparr>)
        else Inr (d\<lparr>d_body := d_body d @ payload\<rparr>)
      else if notOnRequest typ
      then Inl (ErrConnFrame \<lparr>cfe_typ = typ, cfe_code = H3FrameUnexpected, cfe_typUnknown = False\<rparr>)
      else Inr d)"

partial_function (option) decode_loop ::
  "'f frameLib \<Rightarrow> 'u h3Lib \<Rightarrow> bytes \<Rightarrow> 'f \<Rightarrow> decoded \<Rightarrow> (h3err + decoded) option" where
  "decode_loop fl hl stream fr d =
     (case fl_read fl fr of
        (fr, FrameNeedMore) \<Rightarrow>
          if d_seen d \<and> fl_buffered fl fr > 0
          then Some (Inl (ErrConnFrame (truncatedFrame hl (drop (length stream - fl_buffered fl fr) stream))))
          else Some (Inr d)
      | (fr, FrameFailed) \<Rightarrow> Some (Inl ErrCodec)
      | (fr, FrameOk typ payload) \<Rightarrow>
          (case requestFrame hl typ payload d of
             Inl e \<Rightarrow> Some (Inl e)
           | Inr d \<Rightarrow> decode_loop fl hl stream fr d))"

definition decodeRequest :: "'f frameLib \<Rightarrow> 'u h3Lib \<Rightarrow> bytes \<Rightarrow> (h3err + 'u h3Request) option" where
  "decodeRequest fl hl stream =
     (let fr = fl_feed fl stream (fl_setMax fl maxRequestBytes (fl_new fl)) in
      case decode_loop fl hl stream fr \<lparr>d_fields = [], d_body = [], d_seen = False, d_trailers = False\<rparr> of
        None \<Rightarrow> None
      | Some (Inl e) \<Rightarrow> Some (Inl e)
      | Some (Inr d) \<Rightarrow>
          if \<not> d_seen d then Some (Inl ErrRequestIncomplete)
          else Some (h3buildRequest hl (d_fields d) (d_body d)))"

section \<open>The response\<close>

record h3Writer =
  h3w_header :: Header
  h3w_status :: int
  h3w_body :: bytes
  h3w_wroteHeader :: bool

definition h3newWriter :: "int \<Rightarrow> h3Writer" where
  "h3newWriter status = \<lparr>h3w_header = [], h3w_status = status, h3w_body = [], h3w_wroteHeader = False\<rparr>"

definition h3WriteHeader :: "int \<Rightarrow> h3Writer \<Rightarrow> h3Writer" where
  "h3WriteHeader status w =
     (if h3w_wroteHeader w then w
      else if InterimStatus status then w
      else w\<lparr>h3w_wroteHeader := True, h3w_status := status\<rparr>)"

definition h3Write :: "bytes \<Rightarrow> h3Writer \<Rightarrow> h3Writer" where
  "h3Write p w =
     (let w = (if \<not> h3w_wroteHeader w then h3WriteHeader 200 w else w) in w\<lparr>h3w_body := h3w_body w @ p\<rparr>)"

definition lowerASCII :: "bytes \<Rightarrow> bytes" where
  "lowerASCII s = map (\<lambda>c. if 0x41 \<le> ord c \<and> ord c \<le> 0x5a then byte (ord c + (0x61 - 0x41)) else c) s"

definition responseFields :: "h3Writer \<Rightarrow> HeaderField list" where
  "responseFields rw =
     \<lparr>Name = '':status'', Value = Some (FormatInt (h3w_status rw)), Indexing = 0\<rparr>
     # concat (map (\<lambda>(name, vs).
         let low = lowerASCII name in
         if ProhibitedInResponse low then [] else map (\<lambda>v. \<lparr>Name = low, Value = Some v, Indexing = 0\<rparr>) vs) (h3w_header rw))"

definition sectionSize :: "HeaderField list \<Rightarrow> nat" where
  "sectionSize fds = sum_list (map (\<lambda>f. length (Name f) + length (bval (Value f)) + h3FieldLineOverhead) fds)"

text \<open>\<open>None\<close> is http3.ErrFieldSectionTooLarge.\<close>

definition encodeResponse :: "'u h3Lib \<Rightarrow> h3Writer \<Rightarrow> 64 word \<Rightarrow> bytes option" where
  "encodeResponse hl rw fieldSectionLimit =
     (let fds = responseFields rw in
      if sectionSize fds > unat fieldSectionLimit then None
      else let out = hl_AppendHeaders hl [] (hl_EncodeFieldSection hl fds) in
           Some (if length (h3w_body rw) > 0 then hl_AppendData hl out (h3w_body rw) else out))"

section \<open>The verdict on a request stream\<close>

text \<open>What is done to the stream and its connection, in order. \<open>sendErr\<close> says whether a send fails.\<close>

datatype h3act = StopSending "64 word" | SendFin bytes | ResetStream "64 word" | CloseConn "64 word"

definition requestAbortCode :: "h3err \<Rightarrow> 64 word" where
  "requestAbortCode e =
     (if e = ErrRequestIncomplete then h3RequestIncomplete
      else if e = ErrRequestAbandoned then H3RequestRejected
      else H3MessageError)"

definition refuseWith :: "'u h3Lib \<Rightarrow> 64 word \<Rightarrow> bool \<Rightarrow> int \<Rightarrow> bytes \<Rightarrow> h3act list" where
  "refuseWith hl limit sendErr status body =
     (let rw = h3newWriter status;
          rw = rw\<lparr>h3w_header := hdrSet ''Content-Type'' ''text/plain; charset=utf-8'' (h3w_header rw)\<rparr>;
          rw = rw\<lparr>h3w_header := hdrSet ''Content-Length'' (FormatNat (length body)) (h3w_header rw)\<rparr>;
          rw = rw\<lparr>h3w_body := h3w_body rw @ body\<rparr>
      in case encodeResponse hl rw limit of
           None \<Rightarrow> [StopSending H3NoError, ResetStream H3RequestRejected]
         | Some resp \<Rightarrow>
             [StopSending H3NoError, SendFin resp] @ (if sendErr then [ResetStream H3RequestRejected] else []))"

definition oversizeBody :: bytes where
  "oversizeBody = ''request body exceeds the server'' @ [CHR 0x27] @ ''s limit'' @ [CHR 0x0A]"
definition oversizeFieldsBody :: bytes where
  "oversizeFieldsBody = ''request header fields exceed the server'' @ [CHR 0x27] @ ''s limit'' @ [CHR 0x0A]"

definition refuseOversizeRequest :: "'u h3Lib \<Rightarrow> 64 word \<Rightarrow> bool \<Rightarrow> h3act list" where
  "refuseOversizeRequest hl limit sendErr = refuseWith hl limit sendErr 413 oversizeBody"
definition refuseOversizeFields :: "'u h3Lib \<Rightarrow> 64 word \<Rightarrow> bool \<Rightarrow> h3act list" where
  "refuseOversizeFields hl limit sendErr = refuseWith hl limit sendErr 431 oversizeFieldsBody"

text \<open>A handler is what it calls on the response writer for a request, in order.\<close>

datatype h3call = H3WriteHeader int | H3Write bytes | H3HeaderSet bytes bytes | H3HeaderAdd bytes bytes | H3HeaderDel bytes

fun h3doCall :: "h3call \<Rightarrow> h3Writer \<Rightarrow> h3Writer" where
  "h3doCall (H3WriteHeader status) w = h3WriteHeader status w"
| "h3doCall (H3Write p) w = h3Write p w"
| "h3doCall (H3HeaderSet k v) w = w\<lparr>h3w_header := hdrSet k v (h3w_header w)\<rparr>"
| "h3doCall (H3HeaderAdd k v) w = w\<lparr>h3w_header := hdrAdd k v (h3w_header w)\<rparr>"
| "h3doCall (H3HeaderDel k) w = w\<lparr>h3w_header := hdrDel k (h3w_header w)\<rparr>"

text \<open>
  \<open>serveRequest\<close>: the actions, and the request given to the handler if it was run. The limit is that of
  the peer when the response is encoded. \<open>None\<close>: the request never ends.
\<close>

definition serveRequest ::
  "'f frameLib \<Rightarrow> 'u h3Lib \<Rightarrow> ('u h3Request \<Rightarrow> h3call list) \<Rightarrow> 64 word \<Rightarrow> bool \<Rightarrow> streamObs list
     \<Rightarrow> (h3act list \<times> 'u h3Request option) option" where
  "serveRequest fl hl handler limit sendErr obs =
     (case readRequestStream [] obs of
        None \<Rightarrow> None
      | Some (Inl e) \<Rightarrow>
          Some (if e = ErrRequestTooLarge then refuseOversizeRequest hl limit sendErr else [ResetStream (requestAbortCode e)], None)
      | Some (Inr body) \<Rightarrow>
          (case decodeRequest fl hl body of
             None \<Rightarrow> None
           | Some (Inl e) \<Rightarrow>
               Some (if e = ErrRequestFieldsTooLarge then refuseOversizeFields hl limit sendErr
                     else (case e of ErrConnFrame cfe \<Rightarrow> [CloseConn (cfe_code cfe)] | _ \<Rightarrow> [ResetStream (requestAbortCode e)]), None)
           | Some (Inr req) \<Rightarrow>
               (let rw = fold h3doCall (handler req) (h3newWriter 200) in
                case encodeResponse hl rw limit of
                  None \<Rightarrow> Some ([ResetStream H3InternalError], Some req)
                | Some resp \<Rightarrow> Some ([SendFin resp], Some req))))"

section \<open>Frames\<close>

text \<open>
  What the frame reader promises: it holds the octets fed and not yet read (\<open>buf\<close>), a bound
  (\<open>lim\<close>), and reads what \<open>parse\<close> finds at the front of them, which takes at least one octet for a frame and
  none otherwise.
\<close>

definition frameReader ::
  "'f frameLib \<Rightarrow> ('f \<Rightarrow> bytes) \<Rightarrow> ('f \<Rightarrow> 64 word) \<Rightarrow> (64 word \<Rightarrow> bytes \<Rightarrow> frameRes \<times> nat) \<Rightarrow> bool" where
  "frameReader fl buf lim' parse \<longleftrightarrow>
     buf (fl_new fl) = []
     \<and> (\<forall>m f. buf (fl_setMax fl m f) = buf f \<and> lim' (fl_setMax fl m f) = m)
     \<and> (\<forall>b f. buf (fl_feed fl b f) = buf f @ b \<and> lim' (fl_feed fl b f) = lim' f)
     \<and> (\<forall>f. fl_buffered fl f = length (buf f))
     \<and> (\<forall>f. snd (fl_read fl f) = fst (parse (lim' f) (buf f)) \<and> lim' (fst (fl_read fl f)) = lim' f
            \<and> buf (fst (fl_read fl f)) = drop (snd (parse (lim' f) (buf f))) (buf f))
     \<and> (\<forall>m b. if (\<exists>t p. fst (parse m b) = FrameOk t p) then 0 < snd (parse m b) \<and> snd (parse m b) \<le> length b
              else snd (parse m b) = 0)
     \<and> (\<forall>m. fst (parse m []) = FrameNeedMore)"

text \<open>The frames at the front of a buffer and what is left behind them.\<close>

inductive splits :: "(bytes \<Rightarrow> frameRes \<times> nat) \<Rightarrow> bytes \<Rightarrow> (64 word \<times> bytes) list \<Rightarrow> bytes \<Rightarrow> bool" for parse where
  splits_Nil: "splits parse b [] b"
| splits_Cons: "parse b = (FrameOk t p, n) \<Longrightarrow> splits parse (drop n b) fs rest \<Longrightarrow> splits parse b ((t, p) # fs) rest"

inductive_cases splits_NilE: "splits parse b [] rest"
inductive_cases splits_ConsE: "splits parse b (f # fs) rest"

text \<open>The effect of a sequence of frames.\<close>

fun runFrames :: "'u h3Lib \<Rightarrow> (64 word \<times> bytes) list \<Rightarrow> decoded \<Rightarrow> h3err + decoded" where
  "runFrames hl [] d = Inr d"
| "runFrames hl ((t, p) # fs) d = (case requestFrame hl t p d of Inl e \<Rightarrow> Inl e | Inr d \<Rightarrow> runFrames hl fs d)"

text \<open>
  The loop returns, and what it returns is decided by the frames read, the octets left behind them and
  what the reader makes of those.
\<close>

definition frameVerdict ::
  "'u h3Lib \<Rightarrow> bytes \<Rightarrow> (64 word \<times> bytes) list \<Rightarrow> bytes \<Rightarrow> frameRes \<Rightarrow> decoded \<Rightarrow> h3err + decoded" where
  "frameVerdict hl stream fs rest res d =
     (case runFrames hl fs d of
        Inl e \<Rightarrow> Inl e
      | Inr d' \<Rightarrow>
          if res = FrameFailed then Inl ErrCodec
          else if d_seen d' \<and> rest \<noteq> []
               then Inl (ErrConnFrame (truncatedFrame hl (drop (length stream - length rest) stream)))
               else Inr d')"

lemma frameVerdict_Cons:
  "requestFrame hl t p d = Inr d1 \<Longrightarrow> frameVerdict hl stream ((t, p) # fs) rest res d = frameVerdict hl stream fs rest res d1"
  by (simp add: frameVerdict_def)

lemma frameReader_read:
  "frameReader fl buf lim' parse \<Longrightarrow>
     snd (fl_read fl f) = fst (parse (lim' f) (buf f)) \<and> lim' (fst (fl_read fl f)) = lim' f
     \<and> buf (fst (fl_read fl f)) = drop (snd (parse (lim' f) (buf f))) (buf f)"
  unfolding frameReader_def by blast

lemma frameReader_took:
  "frameReader fl buf lim' parse \<Longrightarrow>
     if (\<exists>t p. fst (parse m b) = FrameOk t p) then 0 < snd (parse m b) \<and> snd (parse m b) \<le> length b
     else snd (parse m b) = 0"
  unfolding frameReader_def by blast

lemma decode_loop_returns:
  assumes laws: "frameReader fl buf lim' parse"
  shows "\<exists>fs rest. splits (parse (lim' fr)) (buf fr) fs rest
    \<and> decode_loop fl hl stream fr d = Some (frameVerdict hl stream fs rest (fst (parse (lim' fr) rest)) d)
    \<and> ((\<exists>e. runFrames hl fs d = Inl e) \<or> (\<forall>t p. fst (parse (lim' fr) rest) \<noteq> FrameOk t p))"
proof (induction "length (buf fr)" arbitrary: fr d rule: less_induct)
  case less
  obtain fr' res where r: "fl_read fl fr = (fr', res)" by fastforce
  obtain res' n where n': "parse (lim' fr) (buf fr) = (res', n)" by fastforce
  have "res = res' \<and> lim' fr' = lim' fr \<and> buf fr' = drop n (buf fr)"
    using frameReader_read [OF laws, of fr] by (simp add: r n')
  then have n: "parse (lim' fr) (buf fr) = (res, n)" and b: "buf fr' = drop n (buf fr)" "lim' fr' = lim' fr" using n' by auto
  have len: "fl_buffered fl fr' = length (buf fr')" using laws by (simp add: frameReader_def)
  have size_n: "if (\<exists>t p. res = FrameOk t p) then 0 < n \<and> n \<le> length (buf fr) else n = 0"
    using frameReader_took [OF laws, of "lim' fr" "buf fr"] unfolding n fst_conv snd_conv .
  show ?case
  proof (cases res)
    case (FrameOk t p)
    show ?thesis
    proof (cases "requestFrame hl t p d")
      case (Inl e)
      have "splits (parse (lim' fr)) (buf fr) [(t, p)] (buf fr')"
        by (rule splits_Cons [of _ _ _ _ n]) (simp_all add: n FrameOk b(1) splits_Nil)
      moreover have "decode_loop fl hl stream fr d = Some (Inl e)" using r FrameOk Inl by (simp add: decode_loop.simps [of fl hl stream fr d])
      moreover have "runFrames hl [(t, p)] d = Inl e" using Inl by simp
      ultimately show ?thesis
        by (intro exI [of _ "[(t, p)]"], intro exI [of _ "buf fr'"]) (simp add: frameVerdict_def)
    next
      case (Inr d1)
      have "length (buf fr') < length (buf fr)" using size_n FrameOk b(1) by auto
      from less.hyps [OF this, of d1] obtain fs rest where IH: "splits (parse (lim' fr)) (buf fr') fs rest"
        "decode_loop fl hl stream fr' d1 = Some (frameVerdict hl stream fs rest (fst (parse (lim' fr) rest)) d1)"
        "(\<exists>e. runFrames hl fs d1 = Inl e) \<or> (\<forall>t p. fst (parse (lim' fr) rest) \<noteq> FrameOk t p)"
        unfolding b(2) by blast
      have "splits (parse (lim' fr)) (buf fr) ((t, p) # fs) rest"
        by (rule splits_Cons [of _ _ _ _ n]) (simp_all add: n FrameOk b(1) [symmetric] IH(1))
      moreover have "decode_loop fl hl stream fr d = decode_loop fl hl stream fr' d1"
        using r FrameOk Inr by (simp add: decode_loop.simps [of fl hl stream fr d])
      moreover have "runFrames hl ((t, p) # fs) d = runFrames hl fs d1" using Inr by simp
      ultimately show ?thesis using IH(2,3) unfolding frameVerdict_Cons [OF Inr, symmetric] by metis
    qed
  next
    case FrameNeedMore
    then have "buf fr' = buf fr" using size_n b(1) by simp
    then have "decode_loop fl hl stream fr d = Some (frameVerdict hl stream [] (buf fr) res d)"
      using FrameNeedMore r len by (simp add: decode_loop.simps [of fl hl stream fr d] frameVerdict_def)
    moreover have "fst (parse (lim' fr) (buf fr)) = res" "\<forall>t p. res \<noteq> FrameOk t p" using n FrameNeedMore by auto
    ultimately show ?thesis using splits_Nil [of "parse (lim' fr)" "buf fr"] by blast
  next
    case FrameFailed
    then have "decode_loop fl hl stream fr d = Some (frameVerdict hl stream [] (buf fr) res d)"
      using r by (simp add: decode_loop.simps [of fl hl stream fr d] frameVerdict_def)
    moreover have "fst (parse (lim' fr) (buf fr)) = res" "\<forall>t p. res \<noteq> FrameOk t p" using n FrameFailed by auto
    ultimately show ?thesis using splits_Nil [of "parse (lim' fr)" "buf fr"] by blast
  qed
qed

section \<open>Which requests are accepted\<close>

definition ignored :: "64 word \<times> bytes \<Rightarrow> bool" where
  "ignored = (\<lambda>(t, p). t \<noteq> FrameHeaders \<and> t \<noteq> FrameData \<and> \<not> notOnRequest t)"

definition isContent :: "64 word \<times> bytes \<Rightarrow> bool" where
  "isContent = (\<lambda>(t, p). t = FrameData)"

definition content :: "(64 word \<times> bytes) list \<Rightarrow> bytes" where
  "content fs = concat (map snd (filter isContent fs))"

text \<open>
  RFC 9114 section 4.1: one HEADERS frame, the content as DATA frames and possibly one trailing
  HEADERS frame; frames of unknown types anywhere.
\<close>

definition messageShape :: "(64 word \<times> bytes) list \<Rightarrow> bytes \<Rightarrow> bytes \<Rightarrow> bool" where
  "messageShape fs sec body \<longleftrightarrow> (\<exists>us ms ts. fs = us @ (FrameHeaders, sec) # ms @ ts \<and> list_all ignored us
     \<and> list_all (\<lambda>f. ignored f \<or> isContent f) ms \<and> body = content ms
     \<and> (ts = [] \<or> fst (hd ts) = FrameHeaders \<and> list_all ignored (tl ts)))"

lemma frame_kinds: "FrameHeaders \<noteq> FrameData" "FrameData \<noteq> FrameHeaders" "\<not> notOnRequest FrameHeaders" "\<not> notOnRequest FrameData"
  by (simp_all add: frameTypes notOnRequest_def)

lemma runFrames_append:
  "runFrames hl (fs @ gs) d = (case runFrames hl fs d of Inl e \<Rightarrow> Inl e | Inr d \<Rightarrow> runFrames hl gs d)"
  by (induction hl fs d rule: runFrames.induct) (auto split: sum.splits)

lemma run_ignored: "list_all ignored fs \<Longrightarrow> runFrames hl fs d = Inr d"
  by (induction fs) (auto simp: ignored_def requestFrame_def)

lemma run_trailers:
  assumes "d_trailers d"
  shows "runFrames hl fs d = Inr d' \<longleftrightarrow> list_all ignored fs \<and> d' = d"
proof (induction fs)
  case (Cons f fs)
  obtain t p where f: "f = (t, p)" by fastforce
  show ?case
  proof (cases "ignored f")
    case True
    then have "requestFrame hl t p d = Inr d" by (simp add: f ignored_def requestFrame_def)
    then show ?thesis using Cons.IH True by (simp add: f)
  next
    case False
    then have "t = FrameHeaders \<or> t = FrameData \<or> notOnRequest t" by (auto simp: f ignored_def)
    then have "requestFrame hl t p d = Inl (ErrConnFrame \<lparr>cfe_typ = t, cfe_code = H3FrameUnexpected, cfe_typUnknown = False\<rparr>)"
      using assms by (auto simp: requestFrame_def)
    then show ?thesis using False by (simp add: f)
  qed
qed auto

lemma run_content:
  "d_seen d \<Longrightarrow> list_all (\<lambda>f. ignored f \<or> isContent f) ms \<Longrightarrow> \<not> d_trailers d
     \<Longrightarrow> runFrames hl ms d = Inr (d\<lparr>d_body := d_body d @ content ms\<rparr>)"
proof (induction ms arbitrary: d)
  case (Cons f ms)
  obtain t p where f: "f = (t, p)" by fastforce
  show ?case
  proof (cases "isContent f")
    case True
    then have "runFrames hl (f # ms) d = runFrames hl ms (d\<lparr>d_body := d_body d @ p\<rparr>)"
      using Cons.prems by (simp add: f isContent_def requestFrame_def frame_kinds)
    also have "\<dots> = Inr (d\<lparr>d_body := (d_body d @ p) @ content ms\<rparr>)"
      using Cons.IH [of "d\<lparr>d_body := d_body d @ p\<rparr>"] Cons.prems by simp
    finally show ?thesis using True f by (simp add: content_def)
  next
    case False
    then have "ignored f" using Cons.prems by simp
    then have "runFrames hl (f # ms) d = runFrames hl ms d" by (simp add: f ignored_def requestFrame_def)
    then show ?thesis using Cons.IH [of d] Cons.prems False by (simp add: content_def)
  qed
qed (simp add: content_def)

lemma run_after_headers:
  "d_seen d \<Longrightarrow> \<not> d_trailers d \<Longrightarrow> runFrames hl fs d = Inr d' \<Longrightarrow>
     \<exists>ms ts. fs = ms @ ts \<and> list_all (\<lambda>f. ignored f \<or> isContent f) ms \<and> d_body d' = d_body d @ content ms
       \<and> d_fields d' = d_fields d \<and> (ts = [] \<or> fst (hd ts) = FrameHeaders \<and> list_all ignored (tl ts))"
proof (induction fs arbitrary: d)
  case Nil
  then show ?case by (intro exI [of _ "[]"]) (simp add: content_def)
next
  case (Cons f fs)
  obtain t p where f: "f = (t, p)" by fastforce
  consider "t = FrameHeaders" | "t = FrameData" | "ignored f"
    using Cons.prems by (fastforce simp: f requestFrame_def ignored_def split: if_splits)
  then show ?case
  proof cases
    case 1
    then have "runFrames hl fs (d\<lparr>d_trailers := True\<rparr>) = Inr d'" using Cons.prems by (simp add: f requestFrame_def)
    then have "list_all ignored fs \<and> d' = d\<lparr>d_trailers := True\<rparr>" by (simp add: run_trailers)
    then show ?thesis using 1 f by (intro exI [of _ "[]"] exI [of _ "f # fs"]) (simp add: content_def)
  next
    case 2
    then have "runFrames hl fs (d\<lparr>d_body := d_body d @ p\<rparr>) = Inr d'" using Cons.prems by (simp add: f requestFrame_def frame_kinds)
    from Cons.IH [OF _ _ this] Cons.prems obtain ms ts where "fs = ms @ ts" "list_all (\<lambda>f. ignored f \<or> isContent f) ms"
      "d_body d' = (d_body d @ p) @ content ms" "d_fields d' = d_fields d" "ts = [] \<or> fst (hd ts) = FrameHeaders \<and> list_all ignored (tl ts)" by auto
    then show ?thesis using 2 f by (intro exI [of _ "f # ms"] exI [of _ ts]) (simp add: content_def isContent_def)
  next
    case 3
    then have "runFrames hl fs d = Inr d'" using Cons.prems by (simp add: f requestFrame_def ignored_def)
    from Cons.IH [OF _ _ this] Cons.prems obtain ms ts where "fs = ms @ ts" "list_all (\<lambda>f. ignored f \<or> isContent f) ms"
      "d_body d' = d_body d @ content ms" "d_fields d' = d_fields d" "ts = [] \<or> fst (hd ts) = FrameHeaders \<and> list_all ignored (tl ts)" by auto
    then show ?thesis using 3 f by (intro exI [of _ "f # ms"] exI [of _ ts]) (simp add: content_def isContent_def ignored_def)
  qed
qed

definition noRequest :: decoded where
  "noRequest = \<lparr>d_fields = [], d_body = [], d_seen = False, d_trailers = False\<rparr>"

lemma run_to_headers:
  "\<not> d_seen d \<Longrightarrow> \<not> d_trailers d \<Longrightarrow> runFrames hl fs d = Inr d' \<Longrightarrow> d_seen d' \<Longrightarrow>
     \<exists>us sec rest fds. fs = us @ (FrameHeaders, sec) # rest \<and> list_all ignored us \<and> decodeFields hl sec = Inr fds
       \<and> runFrames hl rest (d\<lparr>d_seen := True, d_fields := fds\<rparr>) = Inr d'"
proof (induction fs)
  case (Cons f fs)
  obtain t p where f: "f = (t, p)" by fastforce
  show ?case
  proof (cases "t = FrameHeaders")
    case True
    then obtain fds where "decodeFields hl p = Inr fds" "runFrames hl fs (d\<lparr>d_seen := True, d_fields := fds\<rparr>) = Inr d'"
      using Cons.prems by (auto simp: f requestFrame_def split: sum.splits)
    then show ?thesis using True f by (intro exI [of _ "[]"] exI [of _ p] exI [of _ fs] exI [of _ fds]) simp
  next
    case False
    then have i: "ignored f" "runFrames hl fs d = Inr d'"
      using Cons.prems by (auto simp: f requestFrame_def ignored_def split: if_splits)
    from Cons.IH [OF Cons.prems(1,2) i(2) Cons.prems(4)] obtain us sec rest fds where
      "fs = us @ (FrameHeaders, sec) # rest" "list_all ignored us" "decodeFields hl sec = Inr fds"
      "runFrames hl rest (d\<lparr>d_seen := True, d_fields := fds\<rparr>) = Inr d'" by blast
    then show ?thesis using i(1) by (intro exI [of _ "f # us"] exI [of _ sec] exI [of _ rest] exI [of _ fds]) simp
  qed
qed simp

lemma splits_prefix:
  assumes "splits parse b fs rest" and "splits parse b gs rest'" and stop: "\<forall>t p. fst (parse rest') \<noteq> FrameOk t p"
  shows "\<exists>hs. gs = fs @ hs \<and> splits parse rest hs rest'"
  using assms(1,2)
proof (induction fs arbitrary: b gs)
  case Nil
  then show ?case by (auto elim: splits_NilE)
next
  case (Cons f fs)
  from Cons.prems(1) obtain t p n where f: "f = (t, p)" "parse b = (FrameOk t p, n)" "splits parse (drop n b) fs rest"
    by (auto elim: splits_ConsE)
  show ?case
  proof (cases gs)
    case Nil
    then have "b = rest'" using Cons.prems(2) by (auto elim: splits_NilE)
    then show ?thesis using stop f(2) by simp
  next
    case (Cons g gs')
    then have "g = f" "splits parse (drop n b) gs' rest'" using \<open>splits parse b gs rest'\<close> f(1,2) by (auto elim: splits_ConsE)
    then show ?thesis using Cons.IH [OF f(3), of gs'] Cons by auto
  qed
qed

text \<open>A sequence of frames is accepted exactly if it has the shape of a message.\<close>

lemma message_accepted:
  assumes "runFrames hl fs noRequest = Inr d" and "d_seen d"
  obtains sec body fds where "messageShape fs sec body" and "decodeFields hl sec = Inr fds" and "d_fields d = fds" and "d_body d = body"
proof -
  from run_to_headers [OF _ _ assms] obtain us sec rest fds where h: "fs = us @ (FrameHeaders, sec) # rest" "list_all ignored us"
    "decodeFields hl sec = Inr fds" "runFrames hl rest (noRequest\<lparr>d_seen := True, d_fields := fds\<rparr>) = Inr d"
    by (auto simp: noRequest_def)
  from run_after_headers [OF _ _ h(4)] obtain ms ts where "rest = ms @ ts" "list_all (\<lambda>f. ignored f \<or> isContent f) ms"
    "d_body d = content ms" "d_fields d = fds" "ts = [] \<or> fst (hd ts) = FrameHeaders \<and> list_all ignored (tl ts)"
    by (auto simp: noRequest_def)
  with h have "messageShape fs sec (content ms)" unfolding messageShape_def by blast
  from that [OF this h(3)] \<open>d_body d = content ms\<close> \<open>d_fields d = fds\<close> show thesis by blast
qed

lemma message_runs:
  assumes "messageShape fs sec body" and "decodeFields hl sec = Inr fds"
  shows "\<exists>d. runFrames hl fs noRequest = Inr d \<and> d_seen d \<and> d_fields d = fds \<and> d_body d = body"
proof -
  from assms(1) obtain us ms ts where m: "fs = us @ (FrameHeaders, sec) # ms @ ts" "list_all ignored us"
    "list_all (\<lambda>f. ignored f \<or> isContent f) ms" "body = content ms" "ts = [] \<or> fst (hd ts) = FrameHeaders \<and> list_all ignored (tl ts)"
    unfolding messageShape_def by blast
  define d where "d = noRequest\<lparr>d_seen := True, d_fields := fds, d_body := body\<rparr>"
  have "runFrames hl ((FrameHeaders, sec) # ms @ ts) noRequest
      = runFrames hl (ms @ ts) (noRequest\<lparr>d_seen := True, d_fields := fds\<rparr>)"
    using assms(2) by (simp add: requestFrame_def noRequest_def)
  also have "\<dots> = runFrames hl ts d"
    using run_content [of "noRequest\<lparr>d_seen := True, d_fields := fds\<rparr>" ms hl] m(3,4)
    by (simp add: runFrames_append noRequest_def d_def)
  finally have "runFrames hl fs noRequest = runFrames hl ts d" using m(1,2) by (simp add: runFrames_append run_ignored)
  moreover have "\<exists>d'. runFrames hl ts d = Inr d' \<and> d_seen d' \<and> d_fields d' = fds \<and> d_body d' = body"
  proof (cases ts)
    case Nil
    then show ?thesis by (simp add: d_def)
  next
    case (Cons f fs')
    then obtain p where "f = (FrameHeaders, p)" "list_all ignored fs'" using m(5) by (cases f) auto
    moreover have "requestFrame hl FrameHeaders p d = Inr (d\<lparr>d_trailers := True\<rparr>)"
      by (simp add: requestFrame_def d_def noRequest_def)
    ultimately show ?thesis using run_ignored [of fs' hl "d\<lparr>d_trailers := True\<rparr>"] Cons by (simp add: d_def)
  qed
  ultimately show ?thesis by simp
qed

lemma decodeRequest_verdict:
  assumes "frameReader fl buf lim' parse"
  obtains fs rest where "splits (parse maxRequestBytes) stream fs rest"
    and "decodeRequest fl hl stream = Some (case frameVerdict hl stream fs rest (fst (parse maxRequestBytes rest)) noRequest of
           Inl e \<Rightarrow> Inl e
         | Inr d \<Rightarrow> if d_seen d then h3buildRequest hl (d_fields d) (d_body d) else Inl ErrRequestIncomplete)"
    and "(\<exists>e. runFrames hl fs noRequest = Inl e) \<or> (\<forall>t p. fst (parse maxRequestBytes rest) \<noteq> FrameOk t p)"
proof -
  define fr where "fr = fl_feed fl stream (fl_setMax fl maxRequestBytes (fl_new fl))"
  have fr: "buf fr = stream" "lim' fr = maxRequestBytes" using assms by (simp_all add: fr_def frameReader_def)
  from decode_loop_returns [OF assms, of fr hl stream noRequest] obtain fs rest where
    "splits (parse maxRequestBytes) stream fs rest"
    "decode_loop fl hl stream fr noRequest = Some (frameVerdict hl stream fs rest (fst (parse maxRequestBytes rest)) noRequest)"
    "(\<exists>e. runFrames hl fs noRequest = Inl e) \<or> (\<forall>t p. fst (parse maxRequestBytes rest) \<noteq> FrameOk t p)"
    unfolding fr by blast
  then show thesis using that by (simp add: decodeRequest_def fr_def noRequest_def split: sum.splits)
qed

lemma decodeRequest_accepts:
  assumes laws: "frameReader fl buf lim' parse"
  shows "decodeRequest fl hl stream = Some (Inr req) \<longleftrightarrow>
    (\<exists>fs sec body fds. splits (parse maxRequestBytes) stream fs [] \<and> messageShape fs sec body
       \<and> decodeFields hl sec = Inr fds \<and> h3buildRequest hl fds body = Inr req)" (is "?L \<longleftrightarrow> ?R")
proof -
  let ?p = "parse maxRequestBytes"
  obtain fs rest where v: "splits ?p stream fs rest"
    "decodeRequest fl hl stream = Some (case frameVerdict hl stream fs rest (fst (?p rest)) noRequest of
       Inl e \<Rightarrow> Inl e
     | Inr d \<Rightarrow> if d_seen d then h3buildRequest hl (d_fields d) (d_body d) else Inl ErrRequestIncomplete)"
    "(\<exists>e. runFrames hl fs noRequest = Inl e) \<or> (\<forall>t p. fst (?p rest) \<noteq> FrameOk t p)"
    using decodeRequest_verdict [OF laws] by blast
  have empty: "fst (?p []) = FrameNeedMore" using laws by (simp add: frameReader_def)
  show ?thesis
  proof
    assume ?L
    then obtain d where d: "frameVerdict hl stream fs rest (fst (?p rest)) noRequest = Inr d" "d_seen d"
      "h3buildRequest hl (d_fields d) (d_body d) = Inr req"
      using v(2) by (auto split: sum.splits if_splits)
    from d(1,2) have r: "runFrames hl fs noRequest = Inr d" "rest = []"
      by (auto simp: frameVerdict_def split: sum.splits if_splits)
    from message_accepted [OF r(1) d(2)] obtain sec body fds where
      "messageShape fs sec body" "decodeFields hl sec = Inr fds" "d_fields d = fds" "d_body d = body" .
    then show ?R using v(1) d(3) r(2) by blast
  next
    assume ?R
    then obtain gs sec body fds where m: "splits ?p stream gs []" "messageShape gs sec body" "decodeFields hl sec = Inr fds"
      "h3buildRequest hl fds body = Inr req" by blast
    obtain d where d: "runFrames hl gs noRequest = Inr d" "d_seen d" "d_fields d = fds" "d_body d = body"
      using message_runs [OF m(2,3)] by blast
    obtain hs where hs: "gs = fs @ hs" "splits ?p rest hs []"
      using splits_prefix [OF v(1) m(1)] empty by auto
    have "\<forall>t p. fst (?p rest) \<noteq> FrameOk t p" using v(3) d(1) hs(1) by (auto simp: runFrames_append)
    then have "hs = []" using hs(2) by (cases hs) (auto elim!: splits_ConsE)
    then have "rest = []" and "fs = gs" using hs by (auto elim: splits_NilE)
    then have "frameVerdict hl stream fs rest (fst (?p rest)) noRequest = Inr d" using d(1) empty by (simp add: frameVerdict_def)
    then show ?L using v(2) d(2-4) m(4) by simp
  qed
qed

lemma sectionSize_snoc:
  "sectionSize (fds @ [\<lparr>Name = n, Value = copied v, Indexing = 0\<rparr>]) = sectionSize fds + length n + length v + h3FieldLineOverhead"
  by (simp add: sectionSize_def copied_def bval_def)

lemma fields_loop_size:
  "fields_loop (sectionSize fds) nvs fds = Inr fds' \<Longrightarrow> sectionSize fds \<le> unat maxFieldSection \<Longrightarrow> sectionSize fds' \<le> unat maxFieldSection"
proof (induction nvs arbitrary: fds)
  case (Cons nv nvs)
  obtain n v where nv: "nv = (n, v)" by fastforce
  let ?fds = "fds @ [\<lparr>Name = n, Value = copied v, Indexing = 0\<rparr>]"
  have "sectionSize ?fds \<le> unat maxFieldSection" "fields_loop (sectionSize ?fds) nvs ?fds = Inr fds'"
    using Cons.prems(1) by (auto simp: nv Let_def sectionSize_snoc split: if_splits)
  then show ?case using Cons.IH by blast
qed simp

lemma decodeFields_size: "decodeFields hl sec = Inr fds \<Longrightarrow> sectionSize fds \<le> unat maxFieldSection"
  using fields_loop_size [of "[]" "fst (hl_DecodeFieldSection hl sec)" fds]
  by (auto simp: decodeFields_def sectionSize_def case_prod_beta split: sum.splits if_splits)

lemma checkContentLength_None:
  assumes "checkContentLength header n = None" and "v \<in> set (hdrValues header ''Content-Length'')"
  shows "list_all isDigit v \<and> v \<noteq> [] \<and> decimal v = n"
proof -
  have key: "CanonicalKey ''Content-Length'' = ''Content-Length''" by code_simp
  define vs where "vs = (case map_of header ''Content-Length'' of None \<Rightarrow> [] | Some vs \<Rightarrow> vs)"
  have "v \<in> set vs" using assms(2) by (simp add: hdrValues_def key vs_def)
  then obtain x ws where vs: "vs = x # ws" by (cases vs) auto
  note c = assms(1) [unfolded checkContentLength_def Let_def vs_def [symmetric]]
  have "\<forall>w \<in> set ws. w = x" using c by (auto simp: vs list_ex_iff split: if_splits)
  then have "v = x" using \<open>v \<in> set vs\<close> by (auto simp: vs)
  moreover have "ParseUint 63 x = Some n" using c by (simp add: vs split: if_splits option.splits)
  ultimately show ?thesis by (simp add: ParseUint_def split: if_splits)
qed

lemma h3buildRequest_ok:
  assumes "h3buildRequest hl fds body = Inr req"
  shows "(\<forall>f \<in> set fds. \<not> Prohibited (Name f) (bval (Value f)) False) \<and> ValidRequestPseudoHeaders fds
    \<and> h3_Body req = body \<and> h3_Method req \<noteq> [] \<and> h3_URLScheme req \<noteq> [] \<and> hl_ParseRequestURI hl (h3_RequestURI req) = Some (h3_URL req)
    \<and> checkContentLength (h3_Header req) (length body) = None"
  using assms by (auto simp: h3buildRequest_def list_ex_iff split: if_splits option.splits)

text \<open>
  C27. Exactly the messages of RFC 9114 section 4.1 become HTTP/3 requests. Decoding a request stream
  always returns. It yields a request just if the whole stream consists of frames in the order of a
  message (one header section, content, at most one trailer section, unknown frames anywhere), its
  field section decodes within the advertised size and the request can be built from it. Such a
  request has only permitted fields and valid pseudo-headers, and every Content-Length it carries
  is the length of the content, which is that of the DATA frames in order.
\<close>

theorem h3_requests_accepted_exactly:
  assumes "frameReader fl buf lim' parse"
  shows "(\<exists>r. decodeRequest fl hl stream = Some r)
    \<and> (decodeRequest fl hl stream = Some (Inr req) \<longleftrightarrow>
         (\<exists>fs sec body fds. splits (parse maxRequestBytes) stream fs [] \<and> messageShape fs sec body
            \<and> decodeFields hl sec = Inr fds \<and> h3buildRequest hl fds body = Inr req))
    \<and> (\<forall>sec fds body. decodeFields hl sec = Inr fds \<and> h3buildRequest hl fds body = Inr req \<longrightarrow>
         sectionSize fds \<le> unat maxFieldSection
         \<and> (\<forall>f \<in> set fds. \<not> Prohibited (Name f) (bval (Value f)) False) \<and> ValidRequestPseudoHeaders fds
         \<and> h3_Body req = body
         \<and> (\<forall>v \<in> set (hdrValues (h3_Header req) ''Content-Length''). list_all isDigit v \<and> v \<noteq> [] \<and> decimal v = length body))"
proof (intro conjI allI impI)
  show "\<exists>r. decodeRequest fl hl stream = Some r" using decodeRequest_verdict [OF assms] by blast
  show "decodeRequest fl hl stream = Some (Inr req) \<longleftrightarrow>
         (\<exists>fs sec body fds. splits (parse maxRequestBytes) stream fs [] \<and> messageShape fs sec body
            \<and> decodeFields hl sec = Inr fds \<and> h3buildRequest hl fds body = Inr req)" by (rule decodeRequest_accepts [OF assms])
  fix sec fds body assume a: "decodeFields hl sec = Inr fds \<and> h3buildRequest hl fds body = Inr req"
  show "sectionSize fds \<le> unat maxFieldSection" using a decodeFields_size by blast
  note ok = h3buildRequest_ok [OF conjunct2 [OF a]]
  then show "\<forall>f \<in> set fds. \<not> Prohibited (Name f) (bval (Value f)) False" and "ValidRequestPseudoHeaders fds" and "h3_Body req = body"
    by blast+
  show "\<forall>v \<in> set (hdrValues (h3_Header req) ''Content-Length''). list_all isDigit v \<and> v \<noteq> [] \<and> decimal v = length body"
    using checkContentLength_None ok by blast
qed

text \<open>A reader of frames whose type and length take one octet each.\<close>

fun shortFrame :: "64 word \<Rightarrow> bytes \<Rightarrow> frameRes \<times> nat" where
  "shortFrame m (t # l # p) =
     (if 64 \<le> ord t \<or> 64 \<le> ord l \<or> of_nat (ord l) > m then (FrameFailed, 0)
      else if length p < ord l then (FrameNeedMore, 0)
      else (FrameOk (of_nat (ord t)) (take (ord l) p), ord l + 2))"
| "shortFrame m b = (FrameNeedMore, 0)"

definition shortReader :: "(64 word \<times> bytes) frameLib" where
  "shortReader =
     \<lparr>fl_new = (0, []), fl_setMax = (\<lambda>m (_, b). (m, b)), fl_feed = (\<lambda>x (m, b). (m, b @ x)),
      fl_read = (\<lambda>(m, b). ((m, drop (snd (shortFrame m b)) b), fst (shortFrame m b))),
      fl_buffered = (\<lambda>(m, b). length b)\<rparr>"

lemma shortFrame_took:
  "if (\<exists>t p. fst (shortFrame m b) = FrameOk t p) then 0 < snd (shortFrame m b) \<and> snd (shortFrame m b) \<le> length b
   else snd (shortFrame m b) = 0"
  by (cases "(m, b)" rule: shortFrame.cases) auto

lemma shortReader_laws: "frameReader shortReader snd fst shortFrame"
  unfolding frameReader_def using shortFrame_took by (auto simp: shortReader_def split: prod.splits)

text \<open>A codec that knows one field section.\<close>

definition sampleLib :: "bytes h3Lib" where
  "sampleLib =
     \<lparr>hl_DecodeFieldSection = (\<lambda>sec. ([('':method'', ''PUT''), ('':scheme'', ''https''), ('':path'', ''/''), (''content-length'', ''2'')], sec \<noteq> ''s'')),
      hl_EncodeFieldSection = (\<lambda>fds. ''e''), hl_AppendHeaders = (@), hl_AppendData = (@), hl_ParseFrameHeader = (\<lambda>b. None),
      hl_ParseRequestURI = Some\<rparr>"

definition h3SampleFields :: "HeaderField list" where
  "h3SampleFields = map (\<lambda>(n, v). \<lparr>Name = n, Value = Some v, Indexing = 0\<rparr>)
     [('':method'', ''PUT''), ('':scheme'', ''https''), ('':path'', ''/''), (''content-length'', ''2'')]"

definition sampleH3 :: "bytes h3Request" where
  "sampleH3 = \<lparr>h3_Method = ''PUT'', h3_URL = ''/'', h3_URLHost = None, h3_URLScheme = ''https'', h3_Header = [(''Content-Length'', [''2''])],
     h3_Body = ''ab'', h3_ContentLength = 2, h3_Host = [], h3_RequestURI = ''/''\<rparr>"

definition sampleStream :: bytes where
  "sampleStream = [CHR 0x01, CHR 0x01, CHR ''s'', CHR 0x00, CHR 0x01, CHR ''a'', CHR 0x21, CHR 0x00, CHR 0x00, CHR 0x01, CHR ''b'']"

lemma sample_fields: "decodeFields sampleLib ''s'' = Inr h3SampleFields"
  by (simp add: decodeFields_def sampleLib_def h3SampleFields_def maxFieldSection_def h3FieldLineOverhead_def copied_def)

lemma sample_parts:
  "\<not> list_ex (\<lambda>f. Prohibited (Name f) (bval (Value f)) False) h3SampleFields" "ValidRequestPseudoHeaders h3SampleFields"
  "parts_loop h3SampleFields \<lparr>hp_method = [], hp_scheme = [], hp_path = [], hp_authority = [], hp_header = []\<rparr> =
     Some \<lparr>hp_method = ''PUT'', hp_scheme = ''https'', hp_path = ''/'', hp_authority = [], hp_header = [(''Content-Length'', [''2''])]\<rparr>"
  by code_simp+

lemma sample_length: "checkContentLength [(''Content-Length'', [''2''])] 2 = None"
  by (simp add: checkContentLength_def ParseUint_def isDigit_def decimal_def)

lemma sample_built: "h3buildRequest sampleLib h3SampleFields ''ab'' = Inr sampleH3"
  using sample_parts sample_length by (simp add: h3buildRequest_def sampleLib_def sampleH3_def numeral_2_eq_2)

definition sampleFrames :: "(64 word \<times> bytes) list" where
  "sampleFrames = [(FrameHeaders, ''s''), (FrameData, ''a''), (0x21, []), (FrameData, ''b'')]"

lemma sample_splits: "splits (shortFrame maxRequestBytes) sampleStream sampleFrames []"
  unfolding sampleFrames_def sampleStream_def
  by (rule splits_Cons, simp add: maxRequestBytes_def frameTypes)+ (simp add: splits_Nil)

lemma sample_shape: "messageShape sampleFrames ''s'' ''ab''"
  unfolding messageShape_def sampleFrames_def
  by (rule exI [of _ "[]"], rule exI [of _ "[(FrameData, ''a''), (0x21, []), (FrameData, ''b'')]"], rule exI [of _ "[]"])
     (simp add: content_def isContent_def ignored_def notOnRequest_def frameTypes)

theorem h3_requests_accepted_exactly_witness:
  "decodeRequest shortReader sampleLib sampleStream = Some (Inr sampleH3) \<and> sectionSize h3SampleFields \<le> unat maxFieldSection"
  using h3_requests_accepted_exactly [OF shortReader_laws, of sampleLib sampleStream sampleH3]
    sample_fields sample_built sample_splits sample_shape by blast

section \<open>How a request stream ends\<close>

text \<open>
  Once the client has ended or reset the stream, or waiting fails, serving the request returns. It
  ends the stream in exactly one way: a complete response, a reset, or the end of the connection.
\<close>

lemma readRequestStream_returns:
  "\<exists>o1 \<in> set obs. so_finished o1 \<or> so_reset o1 \<or> so_waitErr o1 \<Longrightarrow> \<exists>r. readRequestStream buf obs = Some r"
  by (induction obs arbitrary: buf) (auto simp: Let_def)

lemma serveRequest_returns:
  assumes "frameReader fl bf lim' parse" and "\<exists>o1 \<in> set obs. so_finished o1 \<or> so_reset o1 \<or> so_waitErr o1"
  shows "\<exists>acts r. serveRequest fl hl handler limit sendErr obs = Some (acts, r)"
proof -
  obtain x where x: "readRequestStream [] obs = Some x" using readRequestStream_returns [OF assms(2)] by blast
  have "\<exists>y. decodeRequest fl hl stream = Some y" for stream using decodeRequest_verdict [OF assms(1)] by blast
  then obtain y where "\<And>stream. decodeRequest fl hl stream = Some (y stream)" by metis
  then show ?thesis using x by (auto simp: serveRequest_def Let_def split: sum.splits option.splits)
qed

definition endsStream :: "h3act list \<Rightarrow> bool" where
  "endsStream acts \<longleftrightarrow> (\<exists>stop fin. acts = stop @ fin \<and> stop \<in> {[], [StopSending H3NoError]}
     \<and> ((\<exists>resp. fin = [SendFin resp]) \<or> (\<exists>code. fin = [ResetStream code]) \<or> (\<exists>code. fin = [CloseConn code])))"

lemma endsStream_refusal:
  "endsStream [StopSending H3NoError, SendFin resp]" "endsStream [StopSending H3NoError, ResetStream code]"
  unfolding endsStream_def
  by (rule exI [of _ "[StopSending H3NoError]"], rule exI [of _ "[SendFin resp]"], simp,
      rule exI [of _ "[StopSending H3NoError]"], rule exI [of _ "[ResetStream code]"], simp)

lemma refuseWith_ends: "endsStream (refuseWith hl limit False status body)"
  using endsStream_refusal by (simp add: refuseWith_def Let_def split: option.splits)

lemma serveRequest_ends:
  assumes "serveRequest fl hl handler limit False obs = Some (acts, r)"
  shows "endsStream acts"
proof -
  have one: "endsStream [SendFin resp]" "endsStream [ResetStream code]" "endsStream [CloseConn code]" for resp code
    by (fastforce simp: endsStream_def)+
  show ?thesis using assms one refuseWith_ends
    by (auto simp: serveRequest_def Let_def refuseOversizeRequest_def refuseOversizeFields_def
        split: option.splits sum.splits h3err.splits if_splits)
qed

text \<open>
  The handler runs only for a request that was accepted whole, and what it writes becomes one final
  response: no interim status, no field a response must not carry, and a field section within the limit.
\<close>

lemma h3doCalls_status: "\<not> InterimStatus (h3w_status w) \<Longrightarrow> \<not> InterimStatus (h3w_status (fold h3doCall calls w))"
proof (induction calls arbitrary: w)
  case (Cons call calls)
  have "\<not> InterimStatus 200" by (simp add: InterimStatus_def)
  then have "\<not> InterimStatus (h3w_status (h3doCall call w))"
    using Cons.prems by (cases call) (auto simp: h3WriteHeader_def h3Write_def Let_def)
  then show ?case using Cons.IH by simp
qed simp

lemma handler_runs_on_accepted:
  assumes "serveRequest fl hl handler limit sendErr obs = Some (acts, Some req)"
  shows "\<exists>body rw. readRequestStream [] obs = Some (Inr body) \<and> decodeRequest fl hl body = Some (Inr req)
    \<and> length body \<le> unat maxRequestBytes
    \<and> rw = fold h3doCall (handler req) (h3newWriter 200) \<and> \<not> InterimStatus (h3w_status rw)
    \<and> (acts = [ResetStream H3InternalError] \<and> sectionSize (responseFields rw) > unat limit
       \<or> (\<exists>resp. acts = [SendFin resp] \<and> encodeResponse hl rw limit = Some resp \<and> sectionSize (responseFields rw) \<le> unat limit))"
proof -
  have len: "readRequestStream buf obs = Some (Inr body) \<Longrightarrow> length body \<le> unat maxRequestBytes" for buf body
    by (induction obs arbitrary: buf) (auto simp: Let_def split: if_splits)
  have "\<not> InterimStatus (h3w_status (h3newWriter 200))" by (simp add: h3newWriter_def InterimStatus_def)
  note st = h3doCalls_status [OF this]
  show ?thesis using assms len st
    by (auto simp: serveRequest_def Let_def encodeResponse_def split: option.splits sum.splits if_splits)
qed

lemma responseFields_permitted: "f \<in> set (responseFields rw) \<Longrightarrow> \<not> ProhibitedInResponse (Name f)"
proof -
  have "\<not> ProhibitedInResponse '':status''" by code_simp
  then show "f \<in> set (responseFields rw) \<Longrightarrow> \<not> ProhibitedInResponse (Name f)"
    by (auto simp: responseFields_def Let_def split: if_splits)
qed

end
