(* ===== verification/Http3Control.thy ===== *)
theory Http3Control
  imports Http3
begin

text \<open>
  The unidirectional streams of an HTTP/3 connection (http3server/control.go): identifying them, the
  control stream and its frames, the settings of the peer, the identifiers that must not go
  backwards, and the streams the connection cannot do without; and the parameters the server
  advertises (http3server/server.go).

  The connection object of the transport belongs to another module. One goroutine polls it and calls
  the operations below, so between two polls it is a state: the streams opened, the octets and the end
  of each, what the server asked the peer to stop sending, and the code the connection was closed with.
\<close>

section \<open>Parameters\<close>

datatype settingsErr = SettingsCut | SettingsBad

text \<open>A variable-length integer is read with the number of its octets; \<open>None\<close> is http3.ErrNeedMore.\<close>

record ctlLib =
  cl_ReadStreamType :: "bytes \<Rightarrow> (64 word \<times> nat) option"
  cl_ParseSettings :: "bytes \<Rightarrow> settingsErr + (64 word \<times> 64 word) list"

record h3quic =
  q_newUni :: "nat list"
  q_data :: "nat \<Rightarrow> bytes"
  q_finished :: "nat \<Rightarrow> bool"
  q_stopped :: "(nat \<times> 64 word) list"
  q_closed :: "(64 word) option"

definition quicRecv :: "nat \<Rightarrow> h3quic \<Rightarrow> h3quic \<times> bytes" where
  "quicRecv s q = (q\<lparr>q_data := (q_data q)(s := [])\<rparr>, q_data q s)"

definition StreamTypeControl :: "64 word" where "StreamTypeControl = 0x00"
definition StreamTypePush :: "64 word" where "StreamTypePush = 0x01"
definition StreamTypeQPACKEncoder :: "64 word" where "StreamTypeQPACKEncoder = 0x02"
definition StreamTypeQPACKDecoder :: "64 word" where "StreamTypeQPACKDecoder = 0x03"
definition SettingQPACKMaxTableCapacity :: "64 word" where "SettingQPACKMaxTableCapacity = 0x01"
definition SettingMaxFieldSectionSize :: "64 word" where "SettingMaxFieldSectionSize = 0x06"
definition SettingQPACKBlockedStreams :: "64 word" where "SettingQPACKBlockedStreams = 0x07"

definition H3StreamCreationError :: "64 word" where "H3StreamCreationError = 0x0103"
definition H3ClosedCriticalStream :: "64 word" where "H3ClosedCriticalStream = 0x0104"
definition H3ExcessiveLoad :: "64 word" where "H3ExcessiveLoad = 0x0107"
definition H3IDError :: "64 word" where "H3IDError = 0x0108"
definition H3SettingsErrorCode :: "64 word" where "H3SettingsErrorCode = 0x0109"
definition H3MissingSettings :: "64 word" where "H3MissingSettings = 0x010a"

lemmas h3codes = H3StreamCreationError_def H3ClosedCriticalStream_def H3ExcessiveLoad_def H3IDError_def
  H3SettingsErrorCode_def H3MissingSettings_def H3FrameError_def H3FrameUnexpected_def

section \<open>What the server advertises\<close>

definition maxStreamsBidi :: "64 word" where "maxStreamsBidi = 100"
definition maxStreamsUni :: "64 word" where "maxStreamsUni = 4"
definition h3DefaultIdleTimeout :: int where "h3DefaultIdleTimeout = 120 * 10 ^ 9"

definition idleTimeoutMillis :: "int \<Rightarrow> 64 word" where
  "idleTimeoutMillis timeout =
     (if timeout < 0 then 0
      else let d = (if timeout = 0 then h3DefaultIdleTimeout else timeout);
               ms = d div 10 ^ 6
           in if ms > 0 then word_of_int ms else 1)"

record transportParams =
  tp_MaxStreamsBidi :: "64 word"
  tp_MaxStreamsUni :: "64 word"
  tp_MaxIdleTimeout :: "64 word"

definition transportParamsOf :: "int \<Rightarrow> transportParams" where
  "transportParamsOf timeout =
     \<lparr>tp_MaxStreamsBidi = maxStreamsBidi, tp_MaxStreamsUni = maxStreamsUni, tp_MaxIdleTimeout = idleTimeoutMillis timeout\<rparr>"

definition controlSettings :: "(64 word \<times> 64 word) list" where
  "controlSettings = [(SettingMaxFieldSectionSize, maxFieldSection), (SettingQPACKMaxTableCapacity, 0), (SettingQPACKBlockedStreams, 0)]"

text \<open>A timeout is advertised exactly if one is wanted: a positive duration is never rounded down to none.\<close>

lemma idle_timeout_advertised:
  assumes "timeout < 2 ^ 63"
  shows "idleTimeoutMillis timeout = 0 \<longleftrightarrow> timeout < 0"
proof -
  define d where "d = (if timeout = 0 then h3DefaultIdleTimeout else timeout)"
  have "d div 10 ^ 6 * 10 ^ 6 \<le> d" using le_div_int [of "10 ^ 6" "d div 10 ^ 6" d] by simp
  moreover have "d < 2 ^ 63" using assms by (simp add: d_def h3DefaultIdleTimeout_def)
  ultimately have "d div 10 ^ 6 < 2 ^ 64" by simp
  then have "d div 10 ^ 6 > 0 \<Longrightarrow> (word_of_int (d div 10 ^ 6) :: 64 word) \<noteq> 0"
    by (simp add: word_of_int_eq_0_iff zdvd_not_zless)
  then show ?thesis by (auto simp: idleTimeoutMillis_def Let_def d_def)
qed

section \<open>The state of a connection\<close>

definition maxControlFrameLen :: "64 word" where "maxControlFrameLen = 2 ^ 16"

record 'f h3conn =
  hc_peerMaxFieldSection :: "64 word"
  hc_pendingUni :: "(nat \<times> bytes) list"
  hc_control :: "nat option"
  hc_controlFrames :: 'f
  hc_settingsRead :: bool
  hc_maxPushID :: "64 word"
  hc_goawayID :: "64 word"
  hc_goawaySeen :: bool
  hc_qpackEnc :: "nat option"
  hc_qpackDec :: "nat option"

definition newConnState :: "'f frameLib \<Rightarrow> 'f h3conn" where
  "newConnState fl =
     \<lparr>hc_peerMaxFieldSection = maxFieldSection, hc_pendingUni = [], hc_control = None, hc_controlFrames = fl_new fl,
      hc_settingsRead = False, hc_maxPushID = 0, hc_goawayID = 0, hc_goawaySeen = False, hc_qpackEnc = None, hc_qpackDec = None\<rparr>"

text \<open>\<open>connError\<close>: the first code a connection is closed with stays.\<close>

definition connError :: "64 word \<Rightarrow> h3quic \<Rightarrow> h3quic" where
  "connError code q = q\<lparr>q_closed := (case q_closed q of None \<Rightarrow> Some code | Some c \<Rightarrow> Some c)\<rparr>"

text \<open>The operations return whether the connection is to be served no longer.\<close>

type_synonym 'f h3res = "'f h3conn \<times> h3quic \<times> bool"

section \<open>The frames of the control stream\<close>

definition singleVarintPayload :: "ctlLib \<Rightarrow> bytes \<Rightarrow> (64 word) option" where
  "singleVarintPayload cl payload =
     (case cl_ReadStreamType cl payload of
        None \<Rightarrow> None
      | Some (v, n) \<Rightarrow> if n \<noteq> length payload then None else Some v)"

definition identifierFault :: "ctlLib \<Rightarrow> 64 word \<Rightarrow> bytes \<Rightarrow> 'f h3conn \<Rightarrow> 'f h3conn \<times> 64 word" where
  "identifierFault cl typ payload cs =
     (case singleVarintPayload cl payload of
        None \<Rightarrow> (cs, H3FrameError)
      | Some i \<Rightarrow>
          if typ = FrameCancelPush then (cs, H3IDError)
          else if typ = FrameMaxPushID then
            if i < hc_maxPushID cs then (cs, H3IDError) else (cs\<lparr>hc_maxPushID := i\<rparr>, 0)
          else if typ = FrameGoaway then
            if hc_goawaySeen cs \<and> i > hc_goawayID cs then (cs, H3IDError)
            else (cs\<lparr>hc_goawayID := i, hc_goawaySeen := True\<rparr>, 0)
          else (cs, 0))"

fun applySettings :: "(64 word \<times> 64 word) list \<Rightarrow> 'f h3conn \<Rightarrow> 'f h3conn" where
  "applySettings [] cs = cs"
| "applySettings ((i, v) # ss) cs =
     applySettings ss (if i = SettingMaxFieldSectionSize then cs\<lparr>hc_peerMaxFieldSection := v\<rparr> else cs)"

text \<open>What one frame does: the code the connection is closed with, if any.\<close>

definition notOnControl :: "64 word \<Rightarrow> bool" where
  "notOnControl typ \<longleftrightarrow> typ \<in> {FrameSettings, FrameData, FrameHeaders, FramePushPromise, 0x02, 0x06, 0x08, 0x09}"

definition controlFrame :: "ctlLib \<Rightarrow> 64 word \<Rightarrow> bytes \<Rightarrow> 'f h3conn \<Rightarrow> 'f h3conn \<times> (64 word) option" where
  "controlFrame cl typ payload cs =
     (if \<not> hc_settingsRead cs then
        if typ \<noteq> FrameSettings then (cs, Some H3MissingSettings)
        else (case cl_ParseSettings cl payload of
                Inl SettingsCut \<Rightarrow> (cs, Some H3FrameError)
              | Inl SettingsBad \<Rightarrow> (cs, Some H3SettingsErrorCode)
              | Inr ss \<Rightarrow> ((applySettings ss cs)\<lparr>hc_settingsRead := True\<rparr>, None))
      else if notOnControl typ then (cs, Some H3FrameUnexpected)
      else if typ = FrameCancelPush \<or> typ = FrameMaxPushID \<or> typ = FrameGoaway then
        (let (cs, code) = identifierFault cl typ payload cs in (cs, if code \<noteq> 0 then Some code else None))
      else (cs, None))"

partial_function (option) control_loop :: "'f frameLib \<Rightarrow> ctlLib \<Rightarrow> 'f h3conn \<Rightarrow> h3quic \<Rightarrow> 'f h3res option" where
  "control_loop fl cl cs q =
     (case fl_read fl (hc_controlFrames cs) of
        (f, FrameNeedMore) \<Rightarrow> Some (cs\<lparr>hc_controlFrames := f\<rparr>, q, False)
      | (f, FrameFailed) \<Rightarrow> Some (cs\<lparr>hc_controlFrames := f\<rparr>, connError H3ExcessiveLoad q, True)
      | (f, FrameOk typ payload) \<Rightarrow>
          (case controlFrame cl typ payload (cs\<lparr>hc_controlFrames := f\<rparr>) of
             (cs, Some code) \<Rightarrow> Some (cs, connError code q, True)
           | (cs, None) \<Rightarrow> control_loop fl cl cs q))"

definition readControl :: "'f frameLib \<Rightarrow> ctlLib \<Rightarrow> 'f h3conn \<Rightarrow> h3quic \<Rightarrow> 'f h3res option" where
  "readControl fl cl cs q =
     (case hc_control cs of
        None \<Rightarrow> Some (cs, q, False)
      | Some s \<Rightarrow>
          (let (q, data) = quicRecv s q;
               cs = (if length data > 0 then cs\<lparr>hc_controlFrames := fl_feed fl data (hc_controlFrames cs)\<rparr> else cs)
           in control_loop fl cl cs q))"

section \<open>Unidirectional streams\<close>

definition routeUni :: "'f frameLib \<Rightarrow> 64 word \<Rightarrow> nat \<Rightarrow> bytes \<Rightarrow> 'f h3conn \<Rightarrow> h3quic \<Rightarrow> 'f h3res" where
  "routeUni fl typ s rest cs q =
     (if typ = StreamTypeControl then
        if hc_control cs \<noteq> None then (cs, connError H3StreamCreationError q, True)
        else (cs\<lparr>hc_control := Some s,
                 hc_controlFrames := fl_feed fl rest (fl_setMax fl maxControlFrameLen (hc_controlFrames cs))\<rparr>, q, False)
      else if typ = StreamTypeQPACKEncoder then
        if hc_qpackEnc cs \<noteq> None then (cs, connError H3StreamCreationError q, True) else (cs\<lparr>hc_qpackEnc := Some s\<rparr>, q, False)
      else if typ = StreamTypeQPACKDecoder then
        if hc_qpackDec cs \<noteq> None then (cs, connError H3StreamCreationError q, True) else (cs\<lparr>hc_qpackDec := Some s\<rparr>, q, False)
      else if typ = StreamTypePush then (cs, connError H3StreamCreationError q, True)
      else (cs, q\<lparr>q_stopped := q_stopped q @ [(s, H3StreamCreationError)]\<rparr>, False))"

text \<open>The loop over the pending streams; \<open>kept\<close> are those whose type has not arrived.\<close>

fun pending_loop ::
  "'f frameLib \<Rightarrow> ctlLib \<Rightarrow> (nat \<times> bytes) list \<Rightarrow> (nat \<times> bytes) list \<Rightarrow> 'f h3conn \<Rightarrow> h3quic \<Rightarrow> 'f h3res" where
  "pending_loop fl cl [] kept cs q = (cs\<lparr>hc_pendingUni := kept\<rparr>, q, False)"
| "pending_loop fl cl ((s, b) # us) kept cs q =
     (let (q, data) = quicRecv s q; b = b @ data in
      case cl_ReadStreamType cl b of
        None \<Rightarrow> pending_loop fl cl us (kept @ [(s, b)]) cs q
      | Some (typ, n) \<Rightarrow>
          (case routeUni fl typ s (drop n b) cs q of
             (cs, q, True) \<Rightarrow> (cs\<lparr>hc_pendingUni := kept\<rparr>, q, True)
           | (cs, q, False) \<Rightarrow> pending_loop fl cl us kept cs q))"

definition drainQPACK :: "'f h3conn \<Rightarrow> h3quic \<Rightarrow> h3quic" where
  "drainQPACK cs q =
     (let q = (case hc_qpackEnc cs of None \<Rightarrow> q | Some s \<Rightarrow> fst (quicRecv s q))
      in (case hc_qpackDec cs of None \<Rightarrow> q | Some s \<Rightarrow> fst (quicRecv s q)))"

definition checkCriticalStreams :: "'f h3conn \<Rightarrow> h3quic \<Rightarrow> h3quic \<times> bool" where
  "checkCriticalStreams cs q =
     (if list_ex (\<lambda>so. case so of None \<Rightarrow> False | Some s \<Rightarrow> q_finished q s) [hc_control cs, hc_qpackEnc cs, hc_qpackDec cs]
      then (connError H3ClosedCriticalStream q, True) else (q, False))"

definition serviceUni :: "'f frameLib \<Rightarrow> ctlLib \<Rightarrow> 'f h3conn \<Rightarrow> h3quic \<Rightarrow> 'f h3res option" where
  "serviceUni fl cl cs q =
     (let pend = hc_pendingUni cs @ map (\<lambda>s. (s, [])) (q_newUni q);
          q = q\<lparr>q_newUni := []\<rparr>
      in case pending_loop fl cl pend [] cs q of
           (cs, q, True) \<Rightarrow> Some (cs, q, True)
         | (cs, q, False) \<Rightarrow>
             (case readControl fl cl cs (drainQPACK cs q) of
                None \<Rightarrow> None
              | Some (cs, q, True) \<Rightarrow> Some (cs, q, True)
              | Some (cs, q, False) \<Rightarrow> Some (cs, checkCriticalStreams cs q)))"

section \<open>Reading the control stream\<close>

text \<open>The effect of a sequence of frames, up to the first that closes the connection.\<close>

fun runControl :: "ctlLib \<Rightarrow> (64 word \<times> bytes) list \<Rightarrow> 'f h3conn \<Rightarrow> 'f h3conn \<times> (64 word) option" where
  "runControl cl [] cs = (cs, None)"
| "runControl cl ((t, p) # fs) cs =
     (case controlFrame cl t p cs of (cs, Some code) \<Rightarrow> (cs, Some code) | (cs, None) \<Rightarrow> runControl cl fs cs)"

lemma runControl_append:
  "runControl cl (fs @ gs) cs = (case runControl cl fs cs of (cs, Some code) \<Rightarrow> (cs, Some code) | (cs, None) \<Rightarrow> runControl cl gs cs)"
  by (induction cl fs cs rule: runControl.induct) (auto split: prod.splits option.splits)

text \<open>The frames do not depend on the reader, nor touch it or the stream.\<close>

lemma applySettings_frames: "applySettings ss (cs\<lparr>hc_controlFrames := f\<rparr>) = (applySettings ss cs)\<lparr>hc_controlFrames := f\<rparr>"
proof (induction ss arbitrary: cs)
  case (Cons iv ss)
  obtain i v where "iv = (i, v)" by fastforce
  moreover have comm: "cs\<lparr>hc_peerMaxFieldSection := v, hc_controlFrames := f\<rparr> = cs\<lparr>hc_controlFrames := f, hc_peerMaxFieldSection := v\<rparr>" by simp
  ultimately show ?case using Cons.IH [of "cs\<lparr>hc_peerMaxFieldSection := v\<rparr>", unfolded comm] Cons.IH [of cs] by simp
qed simp

lemma controlFrame_frames:
  "controlFrame cl t p (cs\<lparr>hc_controlFrames := f\<rparr>) = map_prod (hc_controlFrames_update (\<lambda>_. f)) id (controlFrame cl t p cs)"
  by (simp add: controlFrame_def identifierFault_def applySettings_frames split: sum.splits settingsErr.splits option.splits)

lemma runControl_frames:
  "runControl cl fs (cs\<lparr>hc_controlFrames := f\<rparr>) = map_prod (hc_controlFrames_update (\<lambda>_. f)) id (runControl cl fs cs)"
proof (induction fs arbitrary: cs)
  case (Cons tp fs)
  obtain t p where "tp = (t, p)" by fastforce
  moreover obtain cs' r where "controlFrame cl t p cs = (cs', r)" by fastforce
  ultimately show ?case using Cons.IH [of cs'] by (simp add: controlFrame_frames split: option.splits)
qed simp

text \<open>The result of the loop, from the frames read and what the reader makes of the rest.\<close>

definition controlVerdict :: "ctlLib \<Rightarrow> (64 word \<times> bytes) list \<Rightarrow> frameRes \<Rightarrow> 'f h3conn \<Rightarrow> 'f h3conn \<times> (64 word) option" where
  "controlVerdict cl fs res cs =
     (case runControl cl fs cs of
        (cs, Some code) \<Rightarrow> (cs, Some code)
      | (cs, None) \<Rightarrow> (cs, if res = FrameFailed then Some H3ExcessiveLoad else None))"

definition controlResult :: "'f \<Rightarrow> h3quic \<Rightarrow> 'f h3conn \<times> (64 word) option \<Rightarrow> 'f h3res" where
  "controlResult f q = (\<lambda>(cs, r). (cs\<lparr>hc_controlFrames := f\<rparr>, case r of None \<Rightarrow> (q, False) | Some code \<Rightarrow> (connError code q, True)))"

lemma control_loop_returns:
  assumes laws: "frameReader fl buf lim' parse"
  shows "\<exists>fs rest f. splits (parse (lim' (hc_controlFrames cs))) (buf (hc_controlFrames cs)) fs rest
    \<and> buf f = rest \<and> lim' f = lim' (hc_controlFrames cs)
    \<and> control_loop fl cl cs q = Some (controlResult f q (controlVerdict cl fs (fst (parse (lim' (hc_controlFrames cs)) rest)) cs))
    \<and> ((\<exists>cs' code. runControl cl fs cs = (cs', Some code)) \<or> (\<forall>t p. fst (parse (lim' (hc_controlFrames cs)) rest) \<noteq> FrameOk t p))"
proof (induction "length (buf (hc_controlFrames cs))" arbitrary: cs rule: less_induct)
  case less
  define fr where "fr = hc_controlFrames cs"
  define P where "P = parse (lim' fr)"
  obtain fr' res where r: "fl_read fl fr = (fr', res)" by fastforce
  obtain res' n where n': "P (buf fr) = (res', n)" by fastforce
  have "res = res' \<and> lim' fr' = lim' fr \<and> buf fr' = drop n (buf fr)"
    using frameReader_read [OF laws, of fr] n' by (simp add: r P_def)
  then have n: "P (buf fr) = (res, n)" and b: "buf fr' = drop n (buf fr)" "lim' fr' = lim' fr" using n' by auto
  have size_n: "if (\<exists>t p. res = FrameOk t p) then 0 < n \<and> n \<le> length (buf fr) else n = 0"
    using frameReader_took [OF laws, of "lim' fr" "buf fr"] unfolding n [unfolded P_def] fst_conv snd_conv .
  have loop: "control_loop fl cl cs q = (case (fr', res) of
        (f, FrameNeedMore) \<Rightarrow> Some (cs\<lparr>hc_controlFrames := f\<rparr>, q, False)
      | (f, FrameFailed) \<Rightarrow> Some (cs\<lparr>hc_controlFrames := f\<rparr>, connError H3ExcessiveLoad q, True)
      | (f, FrameOk typ payload) \<Rightarrow>
          (case controlFrame cl typ payload (cs\<lparr>hc_controlFrames := f\<rparr>) of
             (cs, Some code) \<Rightarrow> Some (cs, connError code q, True)
           | (cs, None) \<Rightarrow> control_loop fl cl cs q))"
    by (subst control_loop.simps) (simp add: r fr_def [symmetric])
  have "\<exists>fs rest f. splits P (buf fr) fs rest \<and> buf f = rest \<and> lim' f = lim' fr
    \<and> control_loop fl cl cs q = Some (controlResult f q (controlVerdict cl fs (fst (P rest)) cs))
    \<and> ((\<exists>cs' code. runControl cl fs cs = (cs', Some code)) \<or> (\<forall>t p. fst (P rest) \<noteq> FrameOk t p))"
  proof (cases res)
    case (FrameOk t p)
    obtain cs1 o1 where c: "controlFrame cl t p cs = (cs1, o1)" by fastforce
    have one: "splits P (buf fr) ((t, p) # fs) rest" if "splits P (buf fr') fs rest" for fs rest
      by (rule splits_Cons [of _ _ _ _ n]) (simp_all add: n FrameOk b(1) [symmetric] that)
    show ?thesis
    proof (cases o1)
      case (Some code)
      have "runControl cl [(t, p)] cs = (cs1, Some code)" by (simp add: c Some)
      moreover from this have "control_loop fl cl cs q = Some (controlResult fr' q (controlVerdict cl [(t, p)] (fst (P (buf fr'))) cs))"
        using loop by (simp add: FrameOk controlFrame_frames c Some controlResult_def controlVerdict_def)
      ultimately show ?thesis using one [OF splits_Nil] b(2) by blast
    next
      case None
      let ?cs = "cs1\<lparr>hc_controlFrames := fr'\<rparr>"
      have "length (buf (hc_controlFrames ?cs)) < length (buf (hc_controlFrames cs))"
        using size_n FrameOk b(1) by (auto simp: fr_def)
      from less.hyps [OF this] obtain fs rest f where IH: "splits P (buf fr') fs rest" "buf f = rest" "lim' f = lim' fr"
        "control_loop fl cl ?cs q = Some (controlResult f q (controlVerdict cl fs (fst (P rest)) ?cs))"
        "(\<exists>cs' code. runControl cl fs ?cs = (cs', Some code)) \<or> (\<forall>t p. fst (P rest) \<noteq> FrameOk t p)"
        by (auto simp: P_def b(2))
      have run: "runControl cl ((t, p) # fs) cs = runControl cl fs cs1" by (simp add: c None)
      obtain cs2 o2 where o2: "runControl cl fs cs1 = (cs2, o2)" by fastforce
      have "controlResult f q (controlVerdict cl fs (fst (P rest)) ?cs) = controlResult f q (controlVerdict cl ((t, p) # fs) (fst (P rest)) cs)"
        unfolding controlVerdict_def run runControl_frames o2 by (cases o2) (simp_all add: controlResult_def)
      moreover have "control_loop fl cl cs q = control_loop fl cl ?cs q" using loop by (simp add: FrameOk controlFrame_frames c None)
      moreover have "(\<exists>cs' code. runControl cl ((t, p) # fs) cs = (cs', Some code)) \<or> (\<forall>t p. fst (P rest) \<noteq> FrameOk t p)"
        using IH(5) unfolding run runControl_frames by (auto simp: map_prod_def split: prod.splits)
      ultimately show ?thesis using one [OF IH(1)] IH(2-4) by metis
    qed
  next
    case FrameNeedMore
    then have "buf fr' = buf fr" using size_n b(1) by simp
    moreover have "control_loop fl cl cs q = Some (controlResult fr' q (controlVerdict cl [] (fst (P (buf fr))) cs))"
      using loop n by (simp add: FrameNeedMore controlResult_def controlVerdict_def)
    moreover have "\<forall>t p. fst (P (buf fr)) \<noteq> FrameOk t p" using n FrameNeedMore by simp
    ultimately show ?thesis using splits_Nil [of P "buf fr"] b(2) by blast
  next
    case FrameFailed
    then have "buf fr' = buf fr" using size_n b(1) by simp
    moreover have "control_loop fl cl cs q = Some (controlResult fr' q (controlVerdict cl [] (fst (P (buf fr))) cs))"
      using loop n by (simp add: FrameFailed controlResult_def controlVerdict_def)
    moreover have "\<forall>t p. fst (P (buf fr)) \<noteq> FrameOk t p" using n FrameFailed by simp
    ultimately show ?thesis using splits_Nil [of P "buf fr"] b(2) by blast
  qed
  then show ?case by (simp add: fr_def P_def)
qed

text \<open>
  Octets that arrive later do not change a frame that is complete, or one that was refused.
\<close>

definition stableFrames :: "(bytes \<Rightarrow> frameRes \<times> nat) \<Rightarrow> bool" where
  "stableFrames parse \<longleftrightarrow> (\<forall>b d. fst (parse b) \<noteq> FrameNeedMore \<longrightarrow> parse (b @ d) = parse b)"

lemma splits_more:
  assumes "splits parse b fs rest" and st: "stableFrames parse" and took: "\<And>b t p n. parse b = (FrameOk t p, n) \<Longrightarrow> n \<le> length b"
  shows "splits parse (b @ d) fs (rest @ d)"
  using assms(1)
proof (induction rule: splits.induct)
  case (splits_Cons b t p n fs rest)
  have p: "parse (b @ d) = (FrameOk t p, n)" using st splits_Cons.hyps(1) by (simp add: stableFrames_def)
  have "drop n (b @ d) = drop n b @ d" using took [OF splits_Cons.hyps(1)] by simp
  then show ?case using splits_Cons.IH splits.splits_Cons [of parse "b @ d" t p n fs "rest @ d"] p by metis
qed (rule splits_Nil)

lemma splits_append: "splits parse b fs rest \<Longrightarrow> splits parse rest gs rest' \<Longrightarrow> splits parse b (fs @ gs) rest'"
  by (induction rule: splits.induct) (auto intro: splits_Cons)

text \<open>The control stream read as its octets arrive in chunks, one chunk a pass.\<close>

fun readControls :: "'f frameLib \<Rightarrow> ctlLib \<Rightarrow> bytes list \<Rightarrow> 'f h3conn \<Rightarrow> h3quic \<Rightarrow> 'f h3res option" where
  "readControls fl cl [] cs q = Some (cs, q, False)"
| "readControls fl cl (b # bs) cs q =
     (case readControl fl cl cs (q\<lparr>q_data := (q_data q)(the (hc_control cs) := b)\<rparr>) of
        None \<Rightarrow> None
      | Some (cs, q, True) \<Rightarrow> Some (cs, q, True)
      | Some (cs, q, False) \<Rightarrow> readControls fl cl bs cs q)"

lemma controlFrame_control: "hc_control (fst (controlFrame cl t p cs)) = hc_control cs"
proof -
  have "hc_control (applySettings ss cs) = hc_control cs" for ss by (induction ss arbitrary: cs) auto
  then show ?thesis by (simp add: controlFrame_def identifierFault_def split: sum.splits settingsErr.splits option.splits)
qed

lemma runControl_control: "hc_control (fst (runControl cl fs cs)) = hc_control cs"
proof (induction fs arbitrary: cs)
  case (Cons tp fs)
  obtain t p cs' r where "tp = (t, p)" "controlFrame cl t p cs = (cs', r)" by fastforce
  then show ?case using Cons.IH [of cs'] controlFrame_control [of cl t p cs] by (cases r) auto
qed simp

lemma controlVerdict_frames:
  "controlVerdict cl fs res (cs\<lparr>hc_controlFrames := f\<rparr>) = map_prod (hc_controlFrames_update (\<lambda>_. f)) id (controlVerdict cl fs res cs)"
proof -
  obtain cs' r where "runControl cl fs cs = (cs', r)" by fastforce
  then show ?thesis by (cases r) (simp_all add: controlVerdict_def runControl_frames)
qed

lemma controlVerdict_append:
  "runControl cl fs cs = (cs', None) \<Longrightarrow> controlVerdict cl (fs @ gs) res cs = controlVerdict cl gs res cs'"
  by (simp add: controlVerdict_def runControl_append)

lemma controlVerdict_None: "controlVerdict cl fs res cs = (cs', None) \<longleftrightarrow> runControl cl fs cs = (cs', None) \<and> res \<noteq> FrameFailed"
  by (auto simp: controlVerdict_def split: prod.splits option.splits)

lemma controlVerdict_control: "hc_control (fst (controlVerdict cl fs res cs)) = hc_control cs"
  using runControl_control [of cl fs cs] by (auto simp: controlVerdict_def split: prod.splits option.splits)

lemma readControl_verdict:
  assumes laws: "frameReader fl buf lim' parse" and s: "hc_control cs = Some s"
    and "lim' (hc_controlFrames cs) = m" and "buf (hc_controlFrames cs) = b"
  shows "\<exists>fs rest f. splits (parse m) (b @ q_data q s) fs rest \<and> buf f = rest \<and> lim' f = m
    \<and> readControl fl cl cs q = Some (controlResult f (fst (quicRecv s q)) (controlVerdict cl fs (fst (parse m rest)) cs))
    \<and> ((\<exists>cs' code. runControl cl fs cs = (cs', Some code)) \<or> (\<forall>t p. fst (parse m rest) \<noteq> FrameOk t p))"
proof -
  define q' where "q' = fst (quicRecv s q)"
  define g where "g = (if length (q_data q s) > 0 then fl_feed fl (q_data q s) (hc_controlFrames cs) else hc_controlFrames cs)"
  let ?cs = "cs\<lparr>hc_controlFrames := g\<rparr>"
  have g: "lim' g = m" "buf g = b @ q_data q s" using laws assms(3,4) by (auto simp: g_def frameReader_def)
  have "readControl fl cl cs q = control_loop fl cl ?cs q'"
    using s by (simp add: readControl_def quicRecv_def q'_def g_def)
  moreover from control_loop_returns [OF laws, of ?cs cl q'] obtain fs rest f where
    "splits (parse m) (b @ q_data q s) fs rest" "buf f = rest" "lim' f = m"
    "control_loop fl cl ?cs q' = Some (controlResult f q' (controlVerdict cl fs (fst (parse m rest)) ?cs))"
    "(\<exists>cs' code. runControl cl fs ?cs = (cs', Some code)) \<or> (\<forall>t p. fst (parse m rest) \<noteq> FrameOk t p)"
    by (auto simp: g)
  moreover have "controlResult f q' (controlVerdict cl fs res ?cs) = controlResult f q' (controlVerdict cl fs res cs)" for fs res f
    by (simp add: controlVerdict_frames controlResult_def split: prod.splits)
  moreover have "runControl cl fs ?cs = (cs', Some code) \<Longrightarrow> \<exists>cs'. runControl cl fs cs = (cs', Some code)" for fs cs' code
    by (auto simp: runControl_frames map_prod_def split: prod.splits)
  ultimately show ?thesis unfolding q'_def by metis
qed

text \<open>How the octets are cut into chunks makes no difference.\<close>

lemma readControls_verdict:
  assumes laws: "frameReader fl buf lim' parse" and st: "stableFrames (parse m)"
  shows "hc_control cs = Some s \<Longrightarrow> lim' (hc_controlFrames cs) = m \<Longrightarrow> buf (hc_controlFrames cs) = b \<Longrightarrow>
    bs \<noteq> [] \<or> fst (parse m b) = FrameNeedMore \<Longrightarrow>
    \<exists>fs rest cs' r f q'. splits (parse m) (b @ concat bs) fs rest \<and> controlVerdict cl fs (fst (parse m rest)) cs = (cs', r)
      \<and> readControls fl cl bs cs q = Some (cs'\<lparr>hc_controlFrames := f\<rparr>, q', r \<noteq> None)
      \<and> q_closed q' = (case r of None \<Rightarrow> q_closed q | Some code \<Rightarrow> q_closed (connError code q))
      \<and> (r = None \<longrightarrow> fst (parse m rest) = FrameNeedMore)"
proof (induction bs arbitrary: cs b q)
  case Nil
  then have "controlVerdict cl [] (fst (parse m b)) cs = (cs, None)" by (simp add: controlVerdict_def)
  moreover have "readControls fl cl [] cs q = Some (cs\<lparr>hc_controlFrames := hc_controlFrames cs\<rparr>, q, None \<noteq> None)" by simp
  ultimately show ?case using splits_Nil [of "parse m" b] Nil(4)
    by (intro exI [where x = "[] :: (64 word \<times> bytes) list"] exI [of _ b] exI [of _ cs] exI [of _ None] exI [of _ "hc_controlFrames cs"] exI [of _ q]) simp
next
  case (Cons x bs)
  have took: "n \<le> length b" if "parse m b = (FrameOk t p, n)" for b t p n
    using frameReader_took [OF laws, of m b] by (auto simp: that)
  define q1 where "q1 = q\<lparr>q_data := (q_data q)(s := x)\<rparr>"
  define q2 where "q2 = fst (quicRecv s q1)"
  have q2: "q_closed q2 = q_closed q" "q_data q1 s = x" by (simp_all add: q2_def q1_def quicRecv_def)
  from readControl_verdict [OF laws Cons.prems(1-3), of q1 cl] obtain fs rest f where R:
    "splits (parse m) (b @ x) fs rest" "buf f = rest" "lim' f = m"
    "readControl fl cl cs q1 = Some (controlResult f q2 (controlVerdict cl fs (fst (parse m rest)) cs))"
    "(\<exists>cs' code. runControl cl fs cs = (cs', Some code)) \<or> (\<forall>t p. fst (parse m rest) \<noteq> FrameOk t p)"
    unfolding q2(2) q2_def by blast
  obtain cs1 r where v: "controlVerdict cl fs (fst (parse m rest)) cs = (cs1, r)" by fastforce
  let ?d = "concat bs"
  have more: "splits (parse m) (b @ concat (x # bs)) fs (rest @ ?d)" using splits_more [OF R(1) st took] by simp
  show ?case
  proof (cases r)
    case (Some code)
    have "controlVerdict cl fs (fst (parse m (rest @ ?d))) cs = (cs1, Some code)"
    proof (cases "fst (parse m rest) = FrameFailed")
      case True
      then show ?thesis using v Some st by (simp add: stableFrames_def)
    next
      case False
      then show ?thesis using v Some by (auto simp: controlVerdict_def split: prod.splits option.splits)
    qed
    moreover have "readControls fl cl (x # bs) cs q = Some (cs1\<lparr>hc_controlFrames := f\<rparr>, connError code q2, Some code \<noteq> None)"
      using R(4) Cons.prems(1) by (simp add: q1_def v Some controlResult_def)
    moreover have "q_closed (connError code q2) = q_closed (connError code q)" using q2(1) by (simp add: connError_def)
    ultimately show ?thesis using more
      by (intro exI [of _ fs] exI [of _ "rest @ ?d"] exI [of _ cs1] exI [of _ "Some code"] exI [of _ f] exI [of _ "connError code q2"]) simp
  next
    case None
    then have run: "runControl cl fs cs = (cs1, None)" and "fst (parse m rest) \<noteq> FrameFailed" using v by (simp_all add: controlVerdict_None)
    then have need: "fst (parse m rest) = FrameNeedMore" using R(5) by (cases "fst (parse m rest)") auto
    let ?cs = "cs1\<lparr>hc_controlFrames := f\<rparr>"
    have step: "readControls fl cl (x # bs) cs q = readControls fl cl bs ?cs q2"
      using R(4) Cons.prems(1) by (simp add: q1_def v None controlResult_def)
    have "hc_control ?cs = Some s" using runControl_control [of cl fs cs] run Cons.prems(1) by simp
    from Cons.IH [OF this, of rest q2] R(2,3) need obtain gs rest' cs' r' f' q' where I:
      "splits (parse m) (rest @ ?d) gs rest'" "controlVerdict cl gs (fst (parse m rest')) ?cs = (cs', r')"
      "readControls fl cl bs ?cs q2 = Some (cs'\<lparr>hc_controlFrames := f'\<rparr>, q', r' \<noteq> None)"
      "q_closed q' = (case r' of None \<Rightarrow> q_closed q2 | Some code \<Rightarrow> q_closed (connError code q2))"
      "r' = None \<longrightarrow> fst (parse m rest') = FrameNeedMore"
      by auto
    obtain cs2 where v2: "controlVerdict cl gs (fst (parse m rest')) cs1 = (cs2, r')" "cs' = cs2\<lparr>hc_controlFrames := f\<rparr>"
      using I(2) by (auto simp: controlVerdict_frames map_prod_def split: prod.splits)
    have "controlVerdict cl (fs @ gs) (fst (parse m rest')) cs = (cs2, r')" using controlVerdict_append [OF run] v2(1) by simp
    moreover have "splits (parse m) (b @ concat (x # bs)) (fs @ gs) rest'" using splits_append [OF more I(1)] .
    moreover have "q_closed q' = (case r' of None \<Rightarrow> q_closed q | Some code \<Rightarrow> q_closed (connError code q))"
      using I(4) q2(1) by (simp add: connError_def split: option.splits)
    moreover have "readControls fl cl (x # bs) cs q = Some (cs2\<lparr>hc_controlFrames := f'\<rparr>, q', r' \<noteq> None)" using step I(3) v2(2) by simp
    ultimately show ?thesis using I(5) by blast
  qed
qed

section \<open>The rules of the control stream\<close>

text \<open>
  RFC 9114 sections 5.2, 6.2.1 and 7.2: the frames a client may send on its control stream. SETTINGS comes
  first and once; the identifiers of MAX\_PUSH\_ID never decrease, those of GOAWAY never increase.
\<close>

definition frameIds :: "ctlLib \<Rightarrow> 64 word \<Rightarrow> (64 word \<times> bytes) list \<Rightarrow> (64 word) list" where
  "frameIds cl typ fs = map (\<lambda>(t, p). the (singleVarintPayload cl p)) (filter (\<lambda>(t, p). t = typ) fs)"

definition permitted :: "ctlLib \<Rightarrow> 64 word \<times> bytes \<Rightarrow> bool" where
  "permitted cl = (\<lambda>(t, p). \<not> notOnControl t \<and> t \<noteq> FrameCancelPush
     \<and> (t = FrameMaxPushID \<or> t = FrameGoaway \<longrightarrow> singleVarintPayload cl p \<noteq> None))"

definition controlOk :: "ctlLib \<Rightarrow> (64 word \<times> bytes) list \<Rightarrow> bool" where
  "controlOk cl fs \<longleftrightarrow>
     (case fs of
        [] \<Rightarrow> True
      | (t, p) # gs \<Rightarrow> t = FrameSettings \<and> (\<exists>ss. cl_ParseSettings cl p = Inr ss) \<and> list_all (permitted cl) gs
          \<and> sorted (frameIds cl FrameMaxPushID gs) \<and> sorted_wrt (\<ge>) (frameIds cl FrameGoaway gs))"

text \<open>The identifiers received before, as far as the state remembers them.\<close>

definition goawayBefore :: "'f h3conn \<Rightarrow> (64 word) list" where
  "goawayBefore cs = (if hc_goawaySeen cs then [hc_goawayID cs] else [])"

lemma control_kinds:
  "FrameMaxPushID \<noteq> FrameGoaway" "FrameGoaway \<noteq> FrameMaxPushID" "FrameMaxPushID \<noteq> FrameCancelPush" "FrameGoaway \<noteq> FrameCancelPush"
  "\<not> notOnControl FrameMaxPushID" "\<not> notOnControl FrameGoaway" "\<not> notOnControl FrameCancelPush" "notOnControl FrameSettings"
  by (simp_all add: frameTypes notOnControl_def)

lemma controlFrame_steps:
  assumes "hc_settingsRead cs"
  shows "controlFrame cl t p cs = (cs', None) \<longleftrightarrow> permitted cl (t, p)
    \<and> (if t = FrameMaxPushID then hc_maxPushID cs \<le> the (singleVarintPayload cl p) \<and> cs' = cs\<lparr>hc_maxPushID := the (singleVarintPayload cl p)\<rparr>
       else if t = FrameGoaway then (\<forall>i \<in> set (goawayBefore cs). the (singleVarintPayload cl p) \<le> i)
         \<and> cs' = cs\<lparr>hc_goawayID := the (singleVarintPayload cl p), hc_goawaySeen := True\<rparr>
       else cs' = cs)"
proof -
  consider "t = FrameMaxPushID" | "t = FrameGoaway" | "t = FrameCancelPush" | "t \<noteq> FrameMaxPushID" "t \<noteq> FrameGoaway" "t \<noteq> FrameCancelPush"
    by blast
  then show ?thesis
    using assms
    by cases (auto simp: controlFrame_def identifierFault_def permitted_def control_kinds goawayBefore_def h3codes split: option.splits if_splits)
qed

lemma runControl_steps:
  "hc_settingsRead cs \<Longrightarrow>
     (\<exists>cs'. runControl cl fs cs = (cs', None)) \<longleftrightarrow> list_all (permitted cl) fs
       \<and> sorted (hc_maxPushID cs # frameIds cl FrameMaxPushID fs) \<and> sorted_wrt (\<ge>) (goawayBefore cs @ frameIds cl FrameGoaway fs)"
proof (induction fs arbitrary: cs)
  case Nil
  then show ?case by (simp add: frameIds_def goawayBefore_def)
next
  case (Cons f fs)
  obtain t p where f: "f = (t, p)" by fastforce
  let ?i = "the (singleVarintPayload cl p)"
  have skip: "(\<exists>cs'. runControl cl (f # fs) cs = (cs', None)) \<longleftrightarrow>
      (\<exists>cs1. controlFrame cl t p cs = (cs1, None) \<and> (\<exists>cs'. runControl cl fs cs1 = (cs', None)))"
    by (auto simp: f split: prod.splits option.splits)
  consider "t = FrameMaxPushID" | "t = FrameGoaway" | "t \<noteq> FrameMaxPushID" "t \<noteq> FrameGoaway" by blast
  then show ?case
  proof cases
    case 1
    then show ?thesis unfolding skip controlFrame_steps [OF Cons.prems]
      using Cons.IH [of "cs\<lparr>hc_maxPushID := ?i\<rparr>"] Cons.prems
      by (auto simp: f frameIds_def control_kinds goawayBefore_def) (meson order_trans)+
  next
    case 2
    then show ?thesis unfolding skip controlFrame_steps [OF Cons.prems]
      using Cons.IH [of "cs\<lparr>hc_goawayID := ?i, hc_goawaySeen := True\<rparr>"] Cons.prems
      by (auto simp: f frameIds_def control_kinds goawayBefore_def) (meson order_trans)+
  next
    case 3
    then show ?thesis unfolding skip controlFrame_steps [OF Cons.prems]
      using Cons.IH [of cs] Cons.prems by (auto simp: f frameIds_def)
  qed
qed

lemma runControl_state:
  "hc_settingsRead cs \<Longrightarrow> runControl cl fs cs = (cs', None) \<Longrightarrow>
     hc_settingsRead cs' \<and> hc_peerMaxFieldSection cs' = hc_peerMaxFieldSection cs
     \<and> hc_maxPushID cs' = last (hc_maxPushID cs # frameIds cl FrameMaxPushID fs)
     \<and> goawayBefore cs' = (if frameIds cl FrameGoaway fs = [] then goawayBefore cs else [last (frameIds cl FrameGoaway fs)])"
proof (induction fs arbitrary: cs)
  case Nil
  then show ?case by (simp add: frameIds_def)
next
  case (Cons f fs)
  obtain t p where f: "f = (t, p)" by fastforce
  obtain cs1 where c: "controlFrame cl t p cs = (cs1, None)" "runControl cl fs cs1 = (cs', None)"
    using Cons.prems(2) by (auto simp: f split: prod.splits option.splits)
  note step = c(1) [unfolded controlFrame_steps [OF Cons.prems(1)]]
  then have "hc_settingsRead cs1" using Cons.prems(1) by (auto split: if_splits)
  note IH = Cons.IH [OF this c(2)]
  consider "t = FrameMaxPushID" | "t = FrameGoaway" | "t \<noteq> FrameMaxPushID" "t \<noteq> FrameGoaway" by blast
  then show ?case
  proof cases
    case 1
    then show ?thesis using IH step by (simp add: f frameIds_def control_kinds goawayBefore_def)
  next
    case 2
    then show ?thesis using IH step by (simp add: f frameIds_def control_kinds goawayBefore_def)
  next
    case 3
    then show ?thesis using IH step by (simp add: f frameIds_def)
  qed
qed

lemma applySettings_limit:
  "hc_peerMaxFieldSection (applySettings ss cs) =
     (case map_of (rev ss) SettingMaxFieldSectionSize of None \<Rightarrow> hc_peerMaxFieldSection cs | Some v \<Rightarrow> v)"
  by (induction ss cs rule: applySettings.induct) (auto simp: map_add_def split: option.splits)

lemma applySettings_rest [simp]:
  "hc_settingsRead (applySettings ss cs) = hc_settingsRead cs" "hc_maxPushID (applySettings ss cs) = hc_maxPushID cs"
  "hc_goawaySeen (applySettings ss cs) = hc_goawaySeen cs" "hc_goawayID (applySettings ss cs) = hc_goawayID cs"
  by (induction ss cs rule: applySettings.induct) auto

text \<open>What the state records of the frames received: the settings, and the last identifier of each kind.\<close>

definition controlSummary :: "ctlLib \<Rightarrow> (64 word \<times> bytes) list \<Rightarrow> 'f h3conn \<Rightarrow> bool" where
  "controlSummary cl fs cs \<longleftrightarrow>
     (case fs of
        [] \<Rightarrow> \<not> hc_settingsRead cs \<and> hc_peerMaxFieldSection cs = maxFieldSection
      | (t, p) # gs \<Rightarrow> hc_settingsRead cs
          \<and> (\<exists>ss. cl_ParseSettings cl p = Inr ss
               \<and> hc_peerMaxFieldSection cs = (case map_of (rev ss) SettingMaxFieldSectionSize of None \<Rightarrow> maxFieldSection | Some v \<Rightarrow> v))
          \<and> hc_maxPushID cs = last (0 # frameIds cl FrameMaxPushID gs)
          \<and> goawayBefore cs = (if frameIds cl FrameGoaway gs = [] then [] else [last (frameIds cl FrameGoaway gs)]))"

lemma runControl_fresh:
  assumes "\<not> hc_settingsRead cs" and "hc_peerMaxFieldSection cs = maxFieldSection" and "hc_maxPushID cs = 0" and "\<not> hc_goawaySeen cs"
  shows "(\<exists>cs'. runControl cl fs cs = (cs', None)) \<longleftrightarrow> controlOk cl fs"
    and "runControl cl fs cs = (cs', None) \<Longrightarrow> controlSummary cl fs cs'"
proof -
  show "(\<exists>cs'. runControl cl fs cs = (cs', None)) \<longleftrightarrow> controlOk cl fs"
  proof (cases fs)
    case (Cons f gs)
    obtain t p where f: "f = (t, p)" by fastforce
    have "(\<exists>cs'. runControl cl fs cs = (cs', None)) \<longleftrightarrow> t = FrameSettings \<and>
       (\<exists>ss. cl_ParseSettings cl p = Inr ss \<and> (\<exists>cs'. runControl cl gs ((applySettings ss cs)\<lparr>hc_settingsRead := True\<rparr>) = (cs', None)))"
      using assms(1) by (auto simp: Cons f controlFrame_def split: sum.splits settingsErr.splits)
    also have "\<dots> \<longleftrightarrow> controlOk cl fs"
      using assms(3,4) by (auto simp: runControl_steps controlOk_def Cons f goawayBefore_def)
    finally show ?thesis .
  qed (simp add: controlOk_def)
  assume r: "runControl cl fs cs = (cs', None)"
  show "controlSummary cl fs cs'"
  proof (cases fs)
    case Nil
    then show ?thesis using r assms(1,2) by (simp add: controlSummary_def)
  next
    case (Cons f gs)
    obtain t p where f: "f = (t, p)" by fastforce
    obtain ss where ss: "cl_ParseSettings cl p = Inr ss" "runControl cl gs ((applySettings ss cs)\<lparr>hc_settingsRead := True\<rparr>) = (cs', None)"
      using r assms(1) by (auto simp: Cons f controlFrame_def split: sum.splits settingsErr.splits if_splits)
    show ?thesis using runControl_state [OF _ ss(2)] ss(1) assms(2-4)
      by (simp add: controlSummary_def Cons f applySettings_limit goawayBefore_def cong: option.case_cong)
  qed
qed

text \<open>
  C28. The control stream of an HTTP/3 client is held to the rules of RFC 9114 however its octets
  arrive. Once the stream is identified, reading it always returns; the connection stays open
  exactly as long as the frames received are SETTINGS first and only once, then only permitted ones,
  with MAX\_PUSH\_ID identifiers that never decrease and GOAWAY identifiers that never increase; the
  state then records the settings and the last identifiers; and a connection is closed with a code
  exactly when serving it stops. How the octets were cut into reads makes no difference.
\<close>

theorem control_stream_rules:
  assumes "frameReader fl buf lim' parse" and "stableFrames (parse maxControlFrameLen)" and "bs \<noteq> []" and "q_closed q = None"
  shows "\<exists>cs q' e. readControls fl cl bs (fst (routeUni fl StreamTypeControl s pre (newConnState fl) q)) q = Some (cs, q', e)
    \<and> (e \<longleftrightarrow> q_closed q' \<noteq> None)
    \<and> (\<not> e \<longleftrightarrow> (\<exists>fs rest. splits (parse maxControlFrameLen) (pre @ concat bs) fs rest \<and> fst (parse maxControlFrameLen rest) = FrameNeedMore
         \<and> controlOk cl fs))
    \<and> (\<forall>fs rest. splits (parse maxControlFrameLen) (pre @ concat bs) fs rest \<and> fst (parse maxControlFrameLen rest) = FrameNeedMore
         \<and> controlOk cl fs \<longrightarrow> controlSummary cl fs cs)"
proof -
  let ?P = "parse maxControlFrameLen"
  define cs0 where "cs0 = fst (routeUni fl StreamTypeControl s pre (newConnState fl) q)"
  have cs0: "hc_control cs0 = Some s" "lim' (hc_controlFrames cs0) = maxControlFrameLen" "buf (hc_controlFrames cs0) = pre"
    "\<not> hc_settingsRead cs0" "hc_peerMaxFieldSection cs0 = maxFieldSection" "hc_maxPushID cs0 = 0" "\<not> hc_goawaySeen cs0"
    using assms(1) by (simp_all add: cs0_def routeUni_def newConnState_def frameReader_def)
  note fresh = runControl_fresh [OF cs0(4-7)]
  obtain fs rest cs' r f q' where v: "splits ?P (pre @ concat bs) fs rest" "controlVerdict cl fs (fst (?P rest)) cs0 = (cs', r)"
    "readControls fl cl bs cs0 q = Some (cs'\<lparr>hc_controlFrames := f\<rparr>, q', r \<noteq> None)"
    "q_closed q' = (case r of None \<Rightarrow> q_closed q | Some code \<Rightarrow> q_closed (connError code q))"
    "r = None \<longrightarrow> fst (?P rest) = FrameNeedMore"
    using readControls_verdict [OF assms(1,2) cs0(1-3)] assms(3) by blast
  have frames: "controlSummary cl fs (cs\<lparr>hc_controlFrames := g\<rparr>) \<longleftrightarrow> controlSummary cl fs cs" for fs g and cs :: "'a h3conn"
    by (simp add: controlSummary_def goawayBefore_def split: list.splits prod.splits)
  have found: "r = None \<and> gs = fs"
    if g: "splits ?P (pre @ concat bs) gs rest'" "fst (?P rest') = FrameNeedMore" "controlOk cl gs" for gs rest'
  proof -
    obtain hs where hs: "gs = fs @ hs" "splits ?P rest hs rest'" using splits_prefix [OF v(1) g(1)] g(2) by auto
    obtain cs2 where run: "runControl cl fs cs0 = (cs2, None)"
      using fresh(1) [of cl gs] g(3) by (auto simp: hs(1) runControl_append split: prod.splits option.splits)
    have "fst (?P rest) \<noteq> FrameFailed"
    proof
      assume ff: "fst (?P rest) = FrameFailed"
      then have "hs = []" using hs(2) by (cases hs) (auto elim: splits_ConsE)
      then show False using hs(2) g(2) ff by (auto elim: splits_NilE)
    qed
    then have "r = None" using v(2) run by (simp add: controlVerdict_def)
    moreover from this have "hs = []" using v(5) hs(2) by (cases hs) (auto elim: splits_ConsE)
    ultimately show ?thesis using hs(1) by simp
  qed
  have ok: "controlOk cl fs \<and> controlSummary cl fs (cs'\<lparr>hc_controlFrames := f\<rparr>)" if "r = None"
  proof -
    have "runControl cl fs cs0 = (cs', None)" using v(2) that by (simp add: controlVerdict_None)
    then show ?thesis using fresh frames by blast
  qed
  have "r = None \<longleftrightarrow> (\<exists>fs rest. splits ?P (pre @ concat bs) fs rest \<and> fst (?P rest) = FrameNeedMore \<and> controlOk cl fs)"
    using ok found v(1,5) by blast
  moreover have "\<forall>fs rest. splits ?P (pre @ concat bs) fs rest \<and> fst (?P rest) = FrameNeedMore \<and> controlOk cl fs
      \<longrightarrow> controlSummary cl fs (cs'\<lparr>hc_controlFrames := f\<rparr>)" using ok found by blast
  moreover have "r \<noteq> None \<longleftrightarrow> q_closed q' \<noteq> None" using v(4) assms(4) by (auto simp: connError_def split: option.splits)
  ultimately show ?thesis using v(3) unfolding cs0_def [symmetric] by blast
qed

text \<open>A codec for integers of one octet and settings of one entry.\<close>

definition sampleCtl :: ctlLib where
  "sampleCtl =
     \<lparr>cl_ReadStreamType = (\<lambda>b. case b of [] \<Rightarrow> None | x # _ \<Rightarrow> if ord x < 64 then Some (of_nat (ord x), 1) else None),
      cl_ParseSettings = (\<lambda>p. case p of [] \<Rightarrow> Inr [] | [i, v] \<Rightarrow> Inr [(of_nat (ord i), of_nat (ord v))] | _ \<Rightarrow> Inl SettingsCut)\<rparr>"

definition sampleQuic :: h3quic where
  "sampleQuic = \<lparr>q_newUni = [], q_data = (\<lambda>_. []), q_finished = (\<lambda>_. False), q_stopped = [], q_closed = None\<rparr>"

lemma shortFrame_stable: "stableFrames (shortFrame m)"
  unfolding stableFrames_def
proof (intro allI impI)
  fix b d assume "fst (shortFrame m b) \<noteq> FrameNeedMore"
  then show "shortFrame m (b @ d) = shortFrame m b"
    by (cases "(m, b)" rule: shortFrame.cases) (auto split: if_splits)
qed

definition sampleControl :: "(64 word \<times> bytes) list" where
  "sampleControl = [(FrameSettings, [CHR 0x06, CHR 0x09]), (FrameMaxPushID, [CHR 0x05]), (0x21, [])]"

lemma sampleControl_splits:
  "splits (shortFrame maxControlFrameLen) ([CHR 0x04] @ concat [[CHR 0x02, CHR 0x06], [CHR 0x09, CHR 0x0d, CHR 0x01, CHR 0x05, CHR 0x21], [CHR 0x00]])
     sampleControl []"
  unfolding sampleControl_def append.simps concat.simps
  by (rule splits_Cons, simp add: maxControlFrameLen_def frameTypes)+ (simp add: splits_Nil)

lemma sampleControl_ok: "controlOk sampleCtl sampleControl"
  by (simp add: controlOk_def sampleControl_def sampleCtl_def permitted_def notOnControl_def frameIds_def singleVarintPayload_def frameTypes)

theorem control_stream_rules_witness:
  "\<exists>cs q'. readControls shortReader sampleCtl [[CHR 0x02, CHR 0x06], [CHR 0x09, CHR 0x0d, CHR 0x01, CHR 0x05, CHR 0x21], [CHR 0x00]]
     (fst (routeUni shortReader StreamTypeControl 2 [CHR 0x04] (newConnState shortReader) sampleQuic)) sampleQuic = Some (cs, q', False)
     \<and> q_closed q' = None \<and> hc_peerMaxFieldSection cs = 9 \<and> hc_maxPushID cs = 5"
proof -
  define bs where "bs = [[CHR 0x02, CHR 0x06], [CHR 0x09, CHR 0x0d, CHR 0x01, CHR 0x05, CHR 0x21], [CHR 0x00]]"
  have "bs \<noteq> []" and "q_closed sampleQuic = None" by (simp_all add: bs_def sampleQuic_def)
  note rules = control_stream_rules [OF shortReader_laws shortFrame_stable this, of sampleCtl 2 "[CHR 0x04]"]
  have "fst (shortFrame maxControlFrameLen []) = FrameNeedMore" by simp
  note sample = sampleControl_splits [folded bs_def] this sampleControl_ok
  obtain cs q' e where e: "readControls shortReader sampleCtl bs
      (fst (routeUni shortReader StreamTypeControl 2 [CHR 0x04] (newConnState shortReader) sampleQuic)) sampleQuic = Some (cs, q', e)"
    "e \<longleftrightarrow> q_closed q' \<noteq> None" "\<not> e" "controlSummary sampleCtl sampleControl cs" using rules sample by blast
  then have r: "readControls shortReader sampleCtl bs
      (fst (routeUni shortReader StreamTypeControl 2 [CHR 0x04] (newConnState shortReader) sampleQuic)) sampleQuic = Some (cs, q', False)"
    "q_closed q' = None" "controlSummary sampleCtl sampleControl cs" by auto
  have "hc_peerMaxFieldSection cs = 9 \<and> hc_maxPushID cs = 5"
    using r(3) by (simp add: controlSummary_def sampleControl_def sampleCtl_def frameIds_def singleVarintPayload_def frameTypes SettingMaxFieldSectionSize_def)
  then show ?thesis using r(1,2) unfolding bs_def by blast
qed

section \<open>A pass over the streams\<close>

lemma connError_closed [simp]: "q_closed (connError code q) \<noteq> None" "\<exists>x. q_closed (connError code q) = Some x"
  by (simp_all add: connError_def split: option.splits)

lemma quicRecv_closed [simp]: "q_closed (fst (quicRecv s q)) = q_closed q"
  by (simp add: quicRecv_def)

lemma routeUni_closed:
  "routeUni fl typ s rest cs q = (cs', q', e) \<Longrightarrow> q_closed q = None \<Longrightarrow> e \<longleftrightarrow> q_closed q' \<noteq> None"
  by (auto simp: routeUni_def split: if_splits)

lemma pending_loop_closed:
  "pending_loop fl cl us kept cs q = (cs', q', e) \<Longrightarrow> q_closed q = None \<Longrightarrow> e \<longleftrightarrow> q_closed q' \<noteq> None"
proof (induction us arbitrary: kept cs q)
  case (Cons u us)
  obtain s b where u: "u = (s, b)" by fastforce
  obtain q1 data where q1: "quicRecv s q = (q1, data)" by fastforce
  then have c: "q_closed q1 = None" using Cons.prems(2) quicRecv_closed [of s q] by simp
  show ?case
  proof (cases "cl_ReadStreamType cl (b @ data)")
    case None
    then show ?thesis using Cons.IH [OF _ c] Cons.prems(1) by (simp add: u q1)
  next
    case (Some tn)
    obtain ty n cs2 q2 e2 where r: "tn = (ty, n)" "routeUni fl ty s (drop n (b @ data)) cs q1 = (cs2, q2, e2)" by (metis prod_cases3 surj_pair)
    note closed = routeUni_closed [OF r(2) c]
    show ?thesis
    proof (cases e2)
      case True
      then show ?thesis using Cons.prems(1) closed by (auto simp: u q1 Some r simp del: drop_append)
    next
      case False
      then show ?thesis using Cons.prems(1) closed Cons.IH [of kept cs2 q2] by (simp add: u q1 Some r del: drop_append)
    qed
  qed
qed auto

lemma readControl_closed:
  assumes "frameReader fl buf lim' parse" and "q_closed q = None"
  shows "\<exists>cs' q' e. readControl fl cl cs q = Some (cs', q', e) \<and> (e \<longleftrightarrow> q_closed q' \<noteq> None)"
proof (cases "hc_control cs")
  case None
  then show ?thesis using assms(2) by (simp add: readControl_def)
next
  case (Some s)
  from readControl_verdict [OF assms(1) Some refl refl, of q cl] obtain f x where
    "readControl fl cl cs q = Some (controlResult f (fst (quicRecv s q)) x)" by blast
  then show ?thesis using assms(2) by (cases x) (auto simp: controlResult_def split: option.splits)
qed

text \<open>
  A pass always returns. It closes the connection exactly when serving is to stop, and while it goes on
  none of the streams the connection cannot do without has ended.
\<close>

lemma serviceUni_closed:
  assumes laws: "frameReader fl buf lim' parse" and q: "q_closed q = None"
  shows "\<exists>cs' q' e. serviceUni fl cl cs q = Some (cs', q', e) \<and> (e \<longleftrightarrow> q_closed q' \<noteq> None)
    \<and> (\<not> e \<longrightarrow> (\<forall>s. hc_control cs' = Some s \<or> hc_qpackEnc cs' = Some s \<or> hc_qpackDec cs' = Some s \<longrightarrow> \<not> q_finished q' s))"
proof -
  obtain cs1 q1 e1 where p: "pending_loop fl cl (hc_pendingUni cs @ map (\<lambda>s. (s, [])) (q_newUni q)) [] cs (q\<lparr>q_newUni := []\<rparr>) = (cs1, q1, e1)"
    by (metis prod_cases3)
  have e1: "e1 \<longleftrightarrow> q_closed q1 \<noteq> None" using pending_loop_closed [OF p] q by simp
  show ?thesis
  proof (cases e1)
    case True
    then show ?thesis using e1 by (auto simp: serviceUni_def p)
  next
    case False
    then have "q_closed (drainQPACK cs1 q1) = None" using e1 by (simp add: drainQPACK_def Let_def split: option.splits)
    from readControl_closed [OF laws this] obtain cs2 q2 e2 where r: "readControl fl cl cs1 (drainQPACK cs1 q1) = Some (cs2, q2, e2)"
      "e2 \<longleftrightarrow> q_closed q2 \<noteq> None" by blast
    show ?thesis
    proof (cases e2)
      case True
      then show ?thesis using r False by (auto simp: serviceUni_def p)
    next
      case e2: False
      then have "serviceUni fl cl cs q = Some (cs2, checkCriticalStreams cs2 q2)" using r False by (simp add: serviceUni_def p)
      then show ?thesis using r(2) e2 by (auto simp: checkCriticalStreams_def split: option.splits)
    qed
  qed
qed

end
