(* ===== verification/Spec2Isabelle.thy ===== *)
theory Spec2Isabelle
  imports ConnDecode ServeStream GrpcService Health RateLimit H2c Http3Control
begin

text \<open>
  Verification of the poseidon HTTP server: an HTTP/2 server with its connection layer, the server
  and handler layer above it, a gRPC layer, middleware, and an HTTP/3 server beside it.

  \<^bold>\<open>The program and how its parts interact.\<close> Package conn speaks HTTP/2 on one connection: a reader
  goroutine takes frames from the codec and runs the frame handler; the application accepts
  streams, receives their events and sends on them from goroutines of its own; a table holds the
  live streams, a list the writers waiting for send credit. Package server accepts connections,
  turns streams into requests, runs the handler and finishes the response; it also detects
  cleartext upgrades. Package grpcserver is a handler. Package middleware wraps handlers. Package
  http3server maps QUIC streams onto the same kind of handler. The field rules of
  internal/httpfields are shared by both protocols.

  \<^bold>\<open>Conventions.\<close> A struct is a record, an enumeration a datatype, \<open>uint32\<close> and \<open>uint64\<close> values with
  wrap-around are words, \<open>int32\<close> and \<open>int64\<close> are integers with every narrowing written out, \<open>float64\<close> is a
  rational with the rounding of binary64 written out. Octets are characters; a slice that may be nil
  is an option. Pointers are references into an explicit store where aliasing matters. Errors are
  values; a panic is a value of its own. Go maps are association lists, so that the order of a range
  is the order of the list. The frame and HPACK codec of HTTP/2, the QUIC transport and the codecs of
  HTTP/3, and library parsers such as http.ReadRequest, net.ParseIP or url.ParseRequestURI are
  parameters; what is assumed of them is a named hypothesis of the lemmas that need it.

  \<^bold>\<open>Concurrency.\<close> The sections the code runs under one lock, or does with one atomic instruction, are
  single steps. Theory ConnAtomic is the step relation of all such sections of a connection;
  ConnReach shows that whole methods, the handshake and the reader loop are sequences of them, so that
  what ConnSafety proves by rule induction holds in every interleaving. A goroutine that waits is
  given a schedule of what the others do at each of its waits (theory Writers). Theories ServerLife,
  Health and RateLimit order the lock sections of their components in the same way.

  \<^bold>\<open>Loops.\<close> Recursion is structural or has a termination proof. Loops whose end depends on pointers or on
  a codec (the waiter lists, the eviction loop of the limiter, the protobuf scanners, the frame loops
  of HTTP/3) are partial functions with \<open>None\<close> for not returning. That they return is proved, but for
  one protobuf scanner, which need not (\<open>health_check_never_returns\<close>). No fuel is used in the model: the depth
  \<open>maxUnwrapDepth\<close> is the code's own, and the count of reads in ServeStream (\<open>readAll\<close>) is a number of calls
  a reader makes, one more than the body has octets being enough. The compare-and-swap loop of a stream's state takes the
  interference as a list and ends within six rounds, because the state word only ever gains bits.

  \<^bold>\<open>Theories.\<close>

  \<^item> Prelude: integers, association lists, the rule collections. GoLib: the standard library on text
    and header maps. Float64: binary64 rounding and its error bounds.
  \<^item> HttpFields (internal/httpfields): which fields and pseudo-headers are refused, with a
    characterisation of each predicate by the rules of RFC 9113.
  \<^item> StreamState (conn/stream\_state.go): the packed state word and its transition; exactly one
    transition sees the edge to reset, and the loop around it ends.
  \<^item> StreamTable (conn/stream\_table.go): identifiers and live streams. The locale \<open>stream_registry\<close> is
    its contract, interpreted on the table; counters are exact and identifiers are not reused.
  \<^item> FcWaiters (conn/fc\_waiters.go): the intrusive waiter lists at pointer level refine plain lists
    (locale \<open>parking_lot\<close>), and no wakeup is lost.
  \<^item> PeerSettings: merging, validating, advertising and applying SETTINGS.
  \<^item> ConnTypes, ConnState, ConnOps, ConnHandler, ConnLoop (conn/errors.go, server\_stream.go,
    server\_conn.go, server\_ops.go, push.go, server\_handler.go, server\_upgrade.go): the connection and
    each of its methods. ConnFrame: what each operation leaves alone. FieldSections: the path of a
    field section.
  \<^item> ConnRun (with locale \<open>conn_invariant\<close>), ConnAtomic, ConnReach, ConnSafety, ConnDecode: runs and
    interleavings; nothing of a stream follows its reset, encoder and decoder stay in step with the
    wire, windows never wrap, received sections are well-formed, nothing panics, GOAWAY identifiers
    never increase, a split field block is treated as the whole one.
  \<^item> Writers: blocked writers and readers; a parked write completes and the end of the reader ends
    every wait.
  \<^item> Requests, ResponseWriter, ServeStream (server/handler.go, responsewriter.go, push.go, date.go,
    stream\_body.go, server.go): requests, the writer and the shape of what it sends (locale
    \<open>stream_writer\<close>), the two body modes and their agreement, and the end of a served stream.
  \<^item> ServerLife (server/server.go): Serve, the accept loop, Close and Shutdown. H2c (server/h2c.go):
    the probe and the upgrade.
  \<^item> GrpcFraming, ProtoWire, GrpcService, Health (package grpcserver): framing, percent-encoding,
    statuses, protobuf fields, routing and the four kinds of methods against an abstract call,
    reflection, health watching.
  \<^item> RealIP, TokenBucket, RateLimit (package middleware): the client address, the rate a bucket
    admits, and the bounded first-in first-out set of buckets.
  \<^item> Http3, Http3Control (package http3server): the request path and the unidirectional streams.

  \<^bold>\<open>Behaviour worth knowing.\<close> Several lemmas record where the code departs from its comments or from
  what it means to do: \<open>health_check_never_returns\<close> and \<open>health_check_panics\<close> (ProtoWire),
  \<open>truncated_payload_is_eof\<close> and \<open>message_edge_space_prohibited\<close> (GrpcFraming), \<open>second_forwarded_field_ignored\<close>
  (RealIP), \<open>empty_read_reports_end\<close> and \<open>closed_body_still_read\<close> (ServeStream), \<open>newest_status_lost\<close>
  (Health), \<open>extension_numbers_never_asked\<close> (GrpcService), \<open>handler_status_duplicated\<close> (ResponseWriter),
  \<open>te_long_s_accepted\<close> (HttpFields), \<open>idle_ttl_below_refill\<close> (RateLimit), \<open>late_connection_left_open\<close>
  (ServerLife), \<open>upgrade_carries_te\<close> (H2c).

  \<^bold>\<open>Not modelled.\<close> Sockets, TLS configuration, deadlines of the transport and logging are input and
  output. Of the middleware, compression, request identifiers, security and CORS fields, structured
  logs, tracing and metrics wrap the response writer or count; they decide nothing about the
  protocol, and compression itself is a library. The readiness endpoint, the composition of
  middleware and the profiling routes are single calls. The command, the examples and the load
  generator parse flags, start servers and print. The poll and accept loops of an HTTP/3 connection
  belong to the transport, which also keeps its idle timer. Rates of the limiter that are infinite
  or not a number, and the cancellation of a gRPC method by its deadline, are left out.
\<close>

end
